(* ===== verification/Prelude.thy ===== *)
theory Prelude
  imports Main "HOL-Library.Word" "HOL-Library.AList"
begin

unbundle bit_operations_syntax

text \<open>
  Shared vocabulary of the development: the machine integers and byte strings of the Go
  sources, Go errors as values, the big-endian codecs of \<^verbatim>\<open>encoding/binary\<close>, Go's \<^verbatim>\<open>copy\<close>
  into a slice, the counting loops over \<^verbatim>\<open>uint64\<close> variables, and the generic lemmas about
  them that the component theories use.
\<close>

named_theorems codec \<open>round trips and lengths of the byte codecs\<close>
named_theorems sector_simps \<open>reading 512-byte sectors out of byte strings\<close>

section \<open>Machine types and errors\<close>

type_synonym u8 = "8 word"
type_synonym u16 = "16 word"
type_synonym u32 = "32 word"
type_synonym u64 = "64 word"
type_synonym bytes = "u8 list"

text \<open>
  A Go \<^verbatim>\<open>error\<close> value. The sentinel errors of \<^verbatim>\<open>internal/backend/backend.go\<close> are constructors;
  \<open>Errorf\<close> is a \<^verbatim>\<open>fmt.Errorf\<close> with no wrapped error (the arguments interpolated in the message
  are dropped) and \<open>Wrap\<close> is a \<^verbatim>\<open>fmt.Errorf\<close> with \<^verbatim>\<open>%w\<close>, which keeps the wrapped error.
\<close>

datatype go_error =
    ErrOutOfOrder
  | ErrTooManyOpenZones
  | ErrZoneFull
  | ErrZoneOffline
  | ErrZoneReadOnly
  | ErrInvalidLBA
  | ErrAlignmentError
  | Errorf string
  | Wrap string go_error

type_synonym 'a result = "go_error + 'a"

text \<open>\<^verbatim>\<open>errors.Is\<close>: follow the chain of wrapped errors.\<close>

fun errors_Is :: "go_error \<Rightarrow> go_error \<Rightarrow> bool" where
  "errors_Is (Wrap m e) t \<longleftrightarrow> Wrap m e = t \<or> errors_Is e t"
| "errors_Is e t \<longleftrightarrow> e = t"

section \<open>Big-endian codecs (encoding/binary)\<close>

text \<open>
  \<open>be_put n w\<close> are the \<open>n\<close> bytes of \<open>w\<close>, most significant first, as
  \<^verbatim>\<open>binary.BigEndian.PutUint16/32/64\<close> store them; \<open>be_get\<close> reads them back.
\<close>

definition be_put :: "nat \<Rightarrow> 'a::len word \<Rightarrow> bytes" where
  "be_put n w = map (\<lambda>i. ucast (drop_bit (8 * (n - 1 - i)) w)) [0..<n]"

definition be_get :: "bytes \<Rightarrow> 'a::len word" where
  "be_get bs = foldl (\<lambda>acc b. push_bit 8 acc OR ucast b) 0 bs"

abbreviation put_u16 :: "u16 \<Rightarrow> bytes" where "put_u16 \<equiv> be_put 2"
abbreviation put_u32 :: "u32 \<Rightarrow> bytes" where "put_u32 \<equiv> be_put 4"
abbreviation put_u64 :: "u64 \<Rightarrow> bytes" where "put_u64 \<equiv> be_put 8"
abbreviation get_u16 :: "bytes \<Rightarrow> u16" where "get_u16 \<equiv> be_get"
abbreviation get_u32 :: "bytes \<Rightarrow> u32" where "get_u32 \<equiv> be_get"
abbreviation get_u64 :: "bytes \<Rightarrow> u64" where "get_u64 \<equiv> be_get"

text \<open>The Go slice expression \<^verbatim>\<open>b[i:j]\<close> on a byte string long enough for it.\<close>

definition bslice :: "nat \<Rightarrow> nat \<Rightarrow> 'a list \<Rightarrow> 'a list" where
  "bslice i j b = take (j - i) (drop i b)"

text \<open>Go's \<^verbatim>\<open>copy(dst[off:], src)\<close> for \<open>off \<le> length dst\<close>: as much of \<open>src\<close> as fits.\<close>

definition blit :: "nat \<Rightarrow> 'a list \<Rightarrow> 'a list \<Rightarrow> 'a list" where
  "blit off src dst =
     take off dst @ take (length dst - off) src @ drop (off + length src) dst"

text \<open>Go strings are byte strings: \<^verbatim>\<open>[]byte(s)\<close> and \<^verbatim>\<open>string(b)\<close>.\<close>

definition str_bytes :: "string \<Rightarrow> bytes" where
  "str_bytes s = map (\<lambda>c. of_nat (of_char c)) s"

definition bytes_str :: "bytes \<Rightarrow> string" where
  "bytes_str b = map (\<lambda>w. char_of (unat w)) b"

section \<open>Sectors\<close>

abbreviation sectorSize :: nat where "sectorSize \<equiv> 512"

text \<open>The \<open>k\<close>-th 512-byte sector of a byte string, and the list of \<open>n\<close> sectors from \<open>k\<close> on.\<close>

definition sector :: "nat \<Rightarrow> bytes \<Rightarrow> bytes" where
  "sector k bs = take sectorSize (drop (sectorSize * k) bs)"

definition zeros :: "nat \<Rightarrow> bytes" where
  "zeros n = replicate n 0"

section \<open>Counting loops\<close>

text \<open>
  The values of \<^verbatim>\<open>v\<close> in \<^verbatim>\<open>for v := a; v <= b; v++\<close> over a \<^verbatim>\<open>uint64\<close> variable. The lemma
  \<open>word_upto_unfold\<close> below is the loop's own unfolding; it needs \<open>b\<close> below the largest
  word, since \<^verbatim>\<open>v <= b\<close> can never fail otherwise and the Go loop does not end.
\<close>

definition word_upto :: "u64 \<Rightarrow> u64 \<Rightarrow> u64 list" where
  "word_upto a b = map of_nat [unat a ..< Suc (unat b)]"

section \<open>Lemmas on the codecs\<close>

lemma length_be_put [simp]: "length (be_put n w) = n"
  by (simp add: be_put_def)

lemma nth_be_put: "i < n \<Longrightarrow> be_put n w ! i = ucast (drop_bit (8 * (n - 1 - i)) w)"
  by (simp add: be_put_def)

lemma be_get_snoc: "be_get (bs @ [b]) = push_bit 8 (be_get bs) OR ucast b"
  by (simp add: be_get_def)

lemma be_get_Nil [simp]: "be_get [] = 0"
  by (simp add: be_get_def)

lemma bit_be_get:
  "bit (be_get bs :: 'a::len word) i \<longleftrightarrow>
     i < LENGTH('a) \<and> i < 8 * length bs \<and> bit (bs ! (length bs - 1 - i div 8)) (i mod 8)"
proof (induction bs arbitrary: i rule: rev_induct)
  case Nil
  then show ?case by simp
next
  case (snoc b bs)
  show ?case
  proof (cases "i < 8")
    case True
    then show ?thesis
      by (auto simp: be_get_snoc bit_simps nth_append)
  next
    case False
    then obtain k where k: "i = 8 + k"
      using le_Suc_ex not_less by blast
    have idx: "length bs - 1 - k div 8 < length bs \<and> Suc (length bs) - 1 - i div 8 = length bs - 1 - k div 8"
      if "k < 8 * length bs"
      using that k by auto
    have "bit b i = False" using False
      by (metis bit_imp_le_length len_num0 len_num1 len_bit0 linorder_not_less mult_numeral_1 numeral_Bit0_eq_double numeral_One)
    then show ?thesis
      using snoc.IH [of k] idx k
      by (auto simp: be_get_snoc bit_simps nth_append)
  qed
qed

lemma be_get_put [codec, simp]:
  assumes "LENGTH('a::len) = 8 * n"
  shows "be_get (be_put n (w :: 'a word)) = w"
proof (rule bit_word_eqI)
  fix i assume i: "i < LENGTH('a)"
  then have "i div 8 < n" using assms by auto
  moreover have "8 * (i div 8) + i mod 8 = i" by simp
  ultimately show "bit (be_get (be_put n w) :: 'a word) i = bit w i"
    using i assms by (simp add: bit_be_get nth_be_put bit_simps)
qed

lemma be_put_get [codec, simp]:
  assumes "length bs = n" and "LENGTH('a::len) = 8 * n"
  shows "be_put n (be_get bs :: 'a word) = bs"
proof (rule nth_equalityI)
  show "length (be_put n (be_get bs :: 'a word)) = length bs" using assms by simp
next
  fix i assume "i < length (be_put n (be_get bs :: 'a word))"
  then have i: "i < n" by simp
  have "bit (be_put n (be_get bs :: 'a word) ! i) k = bit (bs ! i) k" if k: "k < 8" for k
  proof -
    let ?m = "8 * (n - 1 - i) + k"
    have "?m div 8 = n - 1 - i" and "?m mod 8 = k" using k by auto
    moreover have "n - 1 - (n - 1 - i) = i" using i by simp
    moreover have "?m < 8 * n" using i k by auto
    ultimately show ?thesis
      using i k assms by (simp add: nth_be_put bit_simps bit_be_get)
  qed
  then show "be_put n (be_get bs :: 'a word) ! i = bs ! i"
    by (intro bit_word_eqI) simp
qed

lemma be_get_inject:
  assumes "LENGTH('a::len) = 8 * length bs" and "length cs = length bs"
  shows "(be_get bs :: 'a word) = be_get cs \<longleftrightarrow> bs = cs"
  by (metis assms be_put_get)

lemma of_nat_unat_u8_mod [simp]: "of_nat (unat w mod 256) = (w :: u8)"
  using unsigned_less [of w, where ?'a = nat] by simp

lemma of_char_byte [simp]: "char_of (unat (of_nat (of_char c) :: u8)) = c"
  by (simp add: unat_of_nat take_bit_nat_eq_self)

lemma bytes_str_bytes [codec, simp]: "bytes_str (str_bytes s) = s"
  by (induction s) (auto simp: bytes_str_def str_bytes_def)

lemma str_bytes_str [codec, simp]: "str_bytes (bytes_str b) = b"
  by (induction b) (auto simp: bytes_str_def str_bytes_def)

lemma length_str_bytes [simp]: "length (str_bytes s) = length s"
  by (simp add: str_bytes_def)

section \<open>Lemmas on slices, blits and sectors\<close>

lemma length_bslice [simp]: "length (bslice i j b) = min (j - i) (length b - i)"
  by (simp add: bslice_def)

lemma length_blit [simp]: "off \<le> length dst \<Longrightarrow> length (blit off src dst) = length dst"
  by (simp add: blit_def)

lemma length_zeros [simp]: "length (zeros n) = n"
  by (simp add: zeros_def)

lemma blit_fits:
  "off + length src \<le> length dst \<Longrightarrow>
     blit off src dst = take off dst @ src @ drop (off + length src) dst"
  by (simp add: blit_def)

lemma bslice_blit_hit [sector_simps]:
  assumes "off + length src \<le> length dst"
  shows "bslice off (off + length src) (blit off src dst) = src"
  using assms by (simp add: blit_fits bslice_def)

lemma sector_blit:
  assumes len: "length src = sectorSize * n" and fits: "sectorSize * (k + n) \<le> length dst"
  shows "sector j (blit (sectorSize * k) src dst) =
           (if k \<le> j \<and> j < k + n then sector (j - k) src else sector j dst)"
proof -
  have eq: "blit (sectorSize * k) src dst =
      take (sectorSize * k) dst @ src @ drop (sectorSize * (k + n)) dst"
    using assms by (simp add: blit_fits algebra_simps)
  consider "j < k" | "k \<le> j" "j < k + n" | "k + n \<le> j" by linarith
  then show ?thesis
  proof cases
    case 1
    then have "sectorSize * j + sectorSize \<le> sectorSize * k" by auto
    then show ?thesis
      using 1 assms by (simp add: sector_def eq drop_take min_def) linarith
  next
    case 2
    then obtain m where m: "j = k + m" "m < n" by (metis le_Suc_ex nat_add_left_cancel_less)
    then have "sectorSize * m + sectorSize \<le> sectorSize * n" by auto
    then show ?thesis
      using m assms unfolding sector_def eq by (simp add: distrib_left)
  next
    case 3
    then obtain m where "j = k + n + m" using le_Suc_ex by blast
    then show ?thesis
      using assms unfolding sector_def eq by (simp add: distrib_left ac_simps)
  qed
qed

lemma sector_append [sector_simps]:
  assumes "length xs = sectorSize * n"
  shows "sector j (xs @ ys) = (if j < n then sector j xs else sector (j - n) ys)"
  using assms by (auto simp: sector_def algebra_simps not_less diff_mult_distrib2)

lemma sector_zeros [sector_simps, simp]: "j < n \<Longrightarrow> sector j (zeros (sectorSize * n)) = zeros sectorSize"
  by (simp add: sector_def zeros_def)

lemma length_sector [simp]: "sectorSize * Suc j \<le> length bs \<Longrightarrow> length (sector j bs) = sectorSize"
  by (simp add: sector_def)

text \<open>A byte string made of whole sectors is the concatenation of its sectors.\<close>

lemma concat_sectors:
  "length bs = sectorSize * n \<Longrightarrow> concat (map (\<lambda>k. sector k bs) [0..<n]) = bs"
proof (induction n arbitrary: bs)
  case 0
  then show ?case by simp
next
  case (Suc n)
  let ?hd = "take (sectorSize * n) bs"
  have "concat (map (\<lambda>k. sector k bs) [0..<n]) = concat (map (\<lambda>k. sector k ?hd) [0..<n])"
    using Suc.prems by (intro arg_cong [where f = concat] map_cong) (auto simp: sector_def drop_take)
  also have "\<dots> = ?hd" using Suc.prems by (intro Suc.IH) simp
  finally show ?case using Suc.prems by (simp add: sector_def)
qed

lemma take_drop_sectors:
  assumes "sectorSize * (k + n) \<le> length bs"
  shows "take (sectorSize * n) (drop (sectorSize * k) bs) = concat (map (\<lambda>j. sector j bs) [k..<k + n])"
proof -
  have "concat (map (\<lambda>j. sector j (take (sectorSize * n) (drop (sectorSize * k) bs))) [0..<n]) =
        take (sectorSize * n) (drop (sectorSize * k) bs)"
    using assms by (intro concat_sectors) simp
  moreover have "map (\<lambda>j. sector j (take (sectorSize * n) (drop (sectorSize * k) bs))) [0..<n] =
      map (\<lambda>j. sector j bs) [k..<k + n]"
    by (rule nth_equalityI) (auto simp: sector_def drop_take algebra_simps)
  ultimately show ?thesis by simp
qed

lemma take_blit:
  "off + length src \<le> length dst \<Longrightarrow> take (off + length src) (blit off src dst) = take off dst @ src"
  by (simp add: blit_fits)

lemma div_offset: "(a::nat) mod z + i < z \<Longrightarrow> (a + i) div z = a div z"
  and mod_offset: "(a::nat) mod z + i < z \<Longrightarrow> (a + i) mod z = a mod z + i"
proof -
  assume *: "a mod z + i < z"
  have eq: "z * (a div z) + a mod z = a" by (rule mult_div_mod_eq)
  have suc: "z * Suc (a div z) = z * (a div z) + z" by simp
  show d: "(a + i) div z = a div z"
    by (rule div_nat_eqI) (use eq suc * in linarith)+
  show "(a + i) mod z = a mod z + i"
    using mult_div_mod_eq [of z "a + i"] eq unfolding d by linarith
qed

lemma length_filter_update:
  "i < length xs \<Longrightarrow>
     int (length (filter P (xs[i := y]))) =
       int (length (filter P xs)) - of_bool (P (xs ! i)) + of_bool (P y)"
proof (induction xs arbitrary: i)
  case Nil
  then show ?case by simp
next
  case (Cons x xs)
  then show ?case by (cases i) auto
qed

section \<open>Lemmas on counting loops and word arithmetic\<close>

text \<open>Unsigned addition and multiplication below the wrap-around.\<close>

lemma unat_u64_lt: "unat (a::u64) < 2 ^ 64"
  using unsigned_less [of a] by simp

lemma unat_u64_of_nat: "n < 2 ^ 64 \<Longrightarrow> unat (of_nat n :: u64) = n"
  by (simp add: unat_of_nat)

lemma unat_add_lt: "unat (a::u64) + unat b < 2 ^ 64 \<Longrightarrow> unat (a + b) = unat a + unat b"
  by (simp add: unat_word_ariths)

lemma unat_mult_lt: "unat (a::u64) * unat b < 2 ^ 64 \<Longrightarrow> unat (a * b) = unat a * unat b"
  by (simp add: unat_word_ariths)

lemma unat_sub_le: "b \<le> (a::u64) \<Longrightarrow> unat (a - b) = unat a - unat b"
  by (rule unat_sub)

lemma unat_ucast_u32 [simp]: "unat (ucast (x::u32) :: u64) = unat x"
proof -
  have "unat x < 2 ^ 64" using unsigned_less [of x, where ?'a = nat] by simp
  then show ?thesis by (simp add: unsigned_ucast_eq take_bit_nat_eq_self)
qed

lemma unat_inj: "unat (a :: 'a::len word) = unat b \<longleftrightarrow> a = b"
  by (simp add: word_unat_eq_iff)

lemma u64_eq_of_nat: "unat (x::u64) = n \<Longrightarrow> x = of_nat n"
  by (erule subst) simp

lemma unat_inc: "(a::u64) \<noteq> - 1 \<Longrightarrow> unat (a + 1) = Suc (unat a)"
  by (metis add.commute add.right_inverse add_left_cancel minus_unique unatSuc)

lemma unat_minus_one_word64: "unat (- 1 :: u64) = 2 ^ 64 - 1"
  by (simp add: unsigned_minus_1_eq_mask mask_eq_exp_minus_1)

lemma upt_append: "i \<le> j \<Longrightarrow> j \<le> k \<Longrightarrow> [i..<k] = [i..<j] @ [j..<k]"
  by (metis le_Suc_ex upt_add_eq_append)

lemma word_upto_unfold:
  "b < - 1 \<Longrightarrow> word_upto a b = (if a \<le> b then a # word_upto (a + 1) b else [])"
proof -
  assume b: "b < - 1"
  show ?thesis
  proof (cases "a \<le> b")
    case True
    then have "a \<noteq> - 1" using b by auto
    then have "unat (a + 1) = Suc (unat a)" by (rule unat_inc)
    moreover have "unat a \<le> unat b" using True by (simp add: word_le_nat_alt)
    ultimately show ?thesis using True by (simp add: word_upto_def upt_conv_Cons del: upt_Suc)
  next
    case False
    then have "unat b < unat a" by (simp add: word_le_nat_alt)
    then show ?thesis using False by (simp add: word_upto_def del: upt_Suc)
  qed
qed

lemma set_word_upto: "set (word_upto a b) = {v. a \<le> v \<and> v \<le> b}"
proof -
  have "of_nat ` {unat a ..< Suc (unat b)} = {v. a \<le> v \<and> v \<le> b}" (is "?L = ?R")
  proof
    show "?L \<subseteq> ?R"
    proof
      fix v assume "v \<in> ?L"
      then obtain n where n: "v = of_nat n" "unat a \<le> n" "n \<le> unat b" by auto
      then have "unat v = n" using unat_u64_lt [of b] by (simp add: unat_u64_of_nat)
      then show "v \<in> ?R" using n by (simp add: word_le_nat_alt)
    qed
    show "?R \<subseteq> ?L"
    proof
      fix v assume "v \<in> ?R"
      then have "unat v \<in> {unat a ..< Suc (unat b)}" by (simp add: word_le_nat_alt)
      then have "of_nat (unat v) \<in> ?L" by blast
      then show "v \<in> ?L" by simp
    qed
  qed
  then show ?thesis by (simp add: word_upto_def del: upt_Suc)
qed

lemma distinct_word_upto [simp]: "distinct (word_upto a b)"
proof -
  have "inj_on (of_nat :: nat \<Rightarrow> u64) {unat a ..< Suc (unat b)}"
  proof (rule inj_onI)
    fix x y assume *: "x \<in> {unat a ..< Suc (unat b)}" "y \<in> {unat a ..< Suc (unat b)}"
      and "(of_nat x :: u64) = of_nat y"
    then have "unat (of_nat x :: u64) = unat (of_nat y :: u64)" by simp
    moreover have "x < 2 ^ 64" "y < 2 ^ 64" using * unat_u64_lt [of b] by auto
    ultimately show "x = y" by (simp add: unat_u64_of_nat)
  qed
  then show ?thesis by (simp add: word_upto_def distinct_map del: upt_Suc)
qed

end
