(* ===== verification/Config.thy ===== *)
theory Config
  imports Complex_Main Prelude
begin

text \<open>
  The configuration, \<^verbatim>\<open>internal/config\<close>: its structures, the defaults, the validation and the two
  derived sizes. Reading the file and the YAML decoder are parameters of \<open>Load\<close>. A Go \<^verbatim>\<open>int\<close>
  is an integer and a \<^verbatim>\<open>float64\<close> ratio a rational.
\<close>

record AuthConfig =
  ac_Enabled :: bool
  ac_CHAPUser :: string
  ac_CHAPSecret :: string

record TargetConfig =
  tc_IQN :: string
  tc_Portal :: string
  tc_MaxSessions :: int
  tc_Auth :: AuthConfig

record EmulatorConfig =
  ec_ZoneCount :: int
  ec_ZoneSizeMB :: int
  ec_MaxOpenZones :: int

record DeviceConfig =
  dc_Backend :: string
  dc_Path :: string
  dc_Emulator :: EmulatorConfig

record ZTLConfig =
  zc_SegmentSizeKB :: int
  zc_BufferSizeMB :: int
  zc_BufferFlushAgeSec :: int
  zc_GCTriggerFreeRatio :: rat
  zc_GCEmergencyFreeZones :: int

record JournalConfig =
  jc_Path :: string
  jc_CheckpointIntervalSec :: int
  jc_SyncPeriodMs :: int
  jc_MaxSizeMB :: int

record APIConfig =
  api_Listen :: string

record LogConfig =
  log_Level :: string
  log_Format :: string

record Config =
  cfg_Target :: TargetConfig
  cfg_Device :: DeviceConfig
  cfg_ZTL :: ZTLConfig
  cfg_Journal :: JournalConfig
  cfg_API :: APIConfig
  cfg_Log :: LogConfig

definition DefaultConfig :: Config where
  "DefaultConfig =
     \<lparr>cfg_Target = \<lparr>tc_IQN = ''iqn.2026-02.io.zns:target0'', tc_Portal = ''0.0.0.0:3260'', tc_MaxSessions = 4,
                    tc_Auth = \<lparr>ac_Enabled = False, ac_CHAPUser = '''', ac_CHAPSecret = ''''\<rparr>\<rparr>,
      cfg_Device = \<lparr>dc_Backend = ''emulator'', dc_Path = '''',
                    dc_Emulator = \<lparr>ec_ZoneCount = 64, ec_ZoneSizeMB = 256, ec_MaxOpenZones = 14\<rparr>\<rparr>,
      cfg_ZTL = \<lparr>zc_SegmentSizeKB = 8, zc_BufferSizeMB = 512, zc_BufferFlushAgeSec = 5,
                 zc_GCTriggerFreeRatio = 1 / 5, zc_GCEmergencyFreeZones = 3\<rparr>,
      cfg_Journal = \<lparr>jc_Path = ''/var/lib/zns-iscsi/journal.wal'', jc_CheckpointIntervalSec = 60,
                     jc_SyncPeriodMs = 10, jc_MaxSizeMB = 1024\<rparr>,
      cfg_API = \<lparr>api_Listen = ''0.0.0.0:8080''\<rparr>,
      cfg_Log = \<lparr>log_Level = ''info'', log_Format = ''json''\<rparr>\<rparr>"

definition Validate :: "Config \<Rightarrow> unit result" where
  "Validate c =
     (if tc_IQN (cfg_Target c) = '''' then Inl (Errorf ''target.iqn is required'')
      else if tc_MaxSessions (cfg_Target c) \<le> 0 then Inl (Errorf ''target.max_sessions must be positive'')
      else if dc_Backend (cfg_Device c) \<noteq> ''emulator'' \<and> dc_Backend (cfg_Device c) \<noteq> ''smr''
      then Inl (Errorf ''device.backend must be emulator or smr'')
      else if dc_Backend (cfg_Device c) = ''smr'' \<and> dc_Path (cfg_Device c) = ''''
      then Inl (Errorf ''device.path is required when backend is smr'')
      else if ec_ZoneCount (dc_Emulator (cfg_Device c)) \<le> 0
      then Inl (Errorf ''device.emulator.zone_count must be positive'')
      else if ec_ZoneSizeMB (dc_Emulator (cfg_Device c)) \<le> 0
      then Inl (Errorf ''device.emulator.zone_size_mb must be positive'')
      else if ec_MaxOpenZones (dc_Emulator (cfg_Device c)) \<le> 0
      then Inl (Errorf ''device.emulator.max_open_zones must be positive'')
      else if zc_SegmentSizeKB (cfg_ZTL c) \<le> 0 then Inl (Errorf ''ztl.segment_size_kb must be positive'')
      else if zc_GCTriggerFreeRatio (cfg_ZTL c) \<le> 0 \<or> zc_GCTriggerFreeRatio (cfg_ZTL c) \<ge> 1
      then Inl (Errorf ''ztl.gc_trigger_free_ratio must be between 0 and 1'')
      else if jc_SyncPeriodMs (cfg_Journal c) \<le> 0 then Inl (Errorf ''journal.sync_period_ms must be positive'')
      else Inr ())"

text \<open>\<open>readFile\<close> is \<^verbatim>\<open>os.ReadFile\<close> and \<open>unmarshal\<close> is \<^verbatim>\<open>yaml.Unmarshal\<close> into the defaults.\<close>

definition Load :: "(string \<Rightarrow> bytes result) \<Rightarrow> (bytes \<Rightarrow> Config \<Rightarrow> Config result) \<Rightarrow> string \<Rightarrow> Config result" where
  "Load readFile unmarshal path =
     (case readFile path of
        Inl err \<Rightarrow> Inl (Wrap ''reading config file'' err)
      | Inr data \<Rightarrow>
          (case unmarshal data DefaultConfig of
             Inl err \<Rightarrow> Inl (Wrap ''parsing config file'' err)
           | Inr cfg \<Rightarrow>
               (case Validate cfg of
                  Inl err \<Rightarrow> Inl (Wrap ''invalid config'' err)
                | Inr _ \<Rightarrow> Inr cfg)))"

definition SectorsPerSegment :: "Config \<Rightarrow> u64" where
  "SectorsPerSegment c = of_int (zc_SegmentSizeKB (cfg_ZTL c)) * 1024 div 512"

definition ZoneSizeSectors :: "Config \<Rightarrow> u64" where
  "ZoneSizeSectors c = of_int (ec_ZoneSizeMB (dc_Emulator (cfg_Device c))) * 1024 * 1024 div 512"

section \<open>Lemmas\<close>

lemma Validate_pos:
  assumes "Validate c = Inr ()"
  shows "0 < zc_SegmentSizeKB (cfg_ZTL c)" and "0 < ec_ZoneCount (dc_Emulator (cfg_Device c))"
    and "0 < ec_ZoneSizeMB (dc_Emulator (cfg_Device c))" and "0 < ec_MaxOpenZones (dc_Emulator (cfg_Device c))"
  using assms by (auto simp: Validate_def split: if_splits)

text \<open>
  A segment is \<^verbatim>\<open>2 * SegmentSizeKB\<close> sectors, as long as the size in bytes does not wrap.
\<close>

lemma unat_SectorsPerSegment:
  assumes "0 \<le> zc_SegmentSizeKB (cfg_ZTL c)" and "zc_SegmentSizeKB (cfg_ZTL c) < 2 ^ 54"
  shows "unat (SectorsPerSegment c) = 2 * nat (zc_SegmentSizeKB (cfg_ZTL c))"
proof -
  obtain n where n: "zc_SegmentSizeKB (cfg_ZTL c) = int n" using assms(1) nonneg_int_cases by blast
  have "n < 2 ^ 54" using assms(2) n by simp
  then have "unat (of_nat n * 1024 :: u64) = n * 1024"
    by (subst unat_mult_lt) (simp_all add: unat_u64_of_nat)
  then show ?thesis by (simp add: SectorsPerSegment_def n unat_div_distrib)
qed

section \<open>Properties\<close>

text \<open>
  \<^verbatim>\<open>Load\<close> only returns configurations that pass the validation, the defaults pass it, and for every
  configuration that passes it (with a segment below 16 PiB) the number of sectors per segment is
  positive, so the divisions by it never fault.
\<close>

theorem config_valid:
  assumes "Load readFile unmarshal path = Inr c" and "zc_SegmentSizeKB (cfg_ZTL c) < 2 ^ 54"
  shows "Validate c = Inr () \<and> Validate DefaultConfig = Inr () \<and>
         unat (SectorsPerSegment c) = 2 * nat (zc_SegmentSizeKB (cfg_ZTL c)) \<and> 0 < SectorsPerSegment c"
proof -
  have v: "Validate c = Inr ()" using assms(1) by (auto simp: Load_def split: sum.splits)
  note u = unat_SectorsPerSegment [OF _ assms(2)]
  have "0 < SectorsPerSegment c" using Validate_pos(1) [OF v] u by (simp add: word_less_nat_alt)
  then show ?thesis using v u Validate_pos(1) [OF v] by (simp add: Validate_def DefaultConfig_def)
qed

theorem config_valid_witness:
  "Load (\<lambda>_. Inr []) (\<lambda>_ c. Inr c) ''zns.yaml'' = Inr DefaultConfig \<and> unat (SectorsPerSegment DefaultConfig) = 16"
proof -
  have l: "Load (\<lambda>_. Inr []) (\<lambda>_ c. Inr c) ''zns.yaml'' = Inr DefaultConfig"
    by (simp add: Load_def Validate_def DefaultConfig_def)
  from config_valid [OF l] l show ?thesis by (simp add: DefaultConfig_def)
qed

end
