(* ===== verification/Zbc.thy ===== *)
theory Zbc
  imports Prelude
begin

text \<open>
  The zone vocabulary of \<^verbatim>\<open>pkg/zbc\<close>: zone states, types and conditions with their wire codes and
  names, and the zone descriptor with its derived quantities.
\<close>

section \<open>Zone states (pkg/zbc/types.go)\<close>

datatype zone_state =
    ZoneStateNotWritePointer
  | ZoneStateEmpty
  | ZoneStateImplicitOpen
  | ZoneStateExplicitOpen
  | ZoneStateClosed
  | ZoneStateReadOnly
  | ZoneStateFull
  | ZoneStateOffline

fun zone_state_code :: "zone_state \<Rightarrow> u8" where
  "zone_state_code ZoneStateNotWritePointer = 0x00"
| "zone_state_code ZoneStateEmpty = 0x01"
| "zone_state_code ZoneStateImplicitOpen = 0x02"
| "zone_state_code ZoneStateExplicitOpen = 0x03"
| "zone_state_code ZoneStateClosed = 0x04"
| "zone_state_code ZoneStateReadOnly = 0x0D"
| "zone_state_code ZoneStateFull = 0x0E"
| "zone_state_code ZoneStateOffline = 0x0F"

fun zone_state_String :: "zone_state \<Rightarrow> string" where
  "zone_state_String ZoneStateNotWritePointer = ''NOT_WRITE_POINTER''"
| "zone_state_String ZoneStateEmpty = ''EMPTY''"
| "zone_state_String ZoneStateImplicitOpen = ''IMPLICIT_OPEN''"
| "zone_state_String ZoneStateExplicitOpen = ''EXPLICIT_OPEN''"
| "zone_state_String ZoneStateClosed = ''CLOSED''"
| "zone_state_String ZoneStateReadOnly = ''READ_ONLY''"
| "zone_state_String ZoneStateFull = ''FULL''"
| "zone_state_String ZoneStateOffline = ''OFFLINE''"

section \<open>Zone types and conditions\<close>

text \<open>
  A zone type or a zone condition is whatever nibble the device sent, so both stay bytes;
  only the listed values have a name.
\<close>

definition ZoneTypeConventional :: u8 where "ZoneTypeConventional = 0x01"
definition ZoneTypeSequentialWrite :: u8 where "ZoneTypeSequentialWrite = 0x02"
definition ZoneTypeSeqWritePref :: u8 where "ZoneTypeSeqWritePref = 0x03"

definition zone_type_String :: "u8 \<Rightarrow> string" where
  "zone_type_String t =
     (if t = ZoneTypeConventional then ''CONVENTIONAL''
      else if t = ZoneTypeSequentialWrite then ''SEQUENTIAL_WRITE_REQUIRED''
      else if t = ZoneTypeSeqWritePref then ''SEQUENTIAL_WRITE_PREFERRED''
      else ''UNKNOWN'')"

definition zone_condition_String :: "u8 \<Rightarrow> string" where
  "zone_condition_String c =
     (if c = 0x0 then ''NOT_WRITE_POINTER''
      else if c = 0x1 then ''EMPTY''
      else if c = 0x2 then ''IMPLICIT_OPEN''
      else if c = 0x3 then ''EXPLICIT_OPEN''
      else if c = 0x4 then ''CLOSED''
      else if c = 0xD then ''READ_ONLY''
      else if c = 0xE then ''FULL''
      else if c = 0xF then ''OFFLINE''
      else ''UNKNOWN'')"

section \<open>Zone descriptors\<close>

record ZoneDescriptor =
  zd_ZoneType :: u8
  zd_ZoneState :: zone_state
  zd_ZoneCondition :: u8
  zd_Reset :: bool
  zd_NonSeq :: bool
  zd_ZoneLength :: u64
  zd_ZoneStartLBA :: u64
  zd_WritePointer :: u64

definition IsWritePointerZone :: "ZoneDescriptor \<Rightarrow> bool" where
  "IsWritePointerZone z \<longleftrightarrow> zd_ZoneType z \<noteq> ZoneTypeConventional"

definition UsedCapacitySectors :: "ZoneDescriptor \<Rightarrow> u64" where
  "UsedCapacitySectors z =
     (if zd_ZoneState z = ZoneStateFull then zd_ZoneLength z
      else if zd_WritePointer z \<le> zd_ZoneStartLBA z then 0
      else zd_WritePointer z - zd_ZoneStartLBA z)"

lemma zone_state_code_inject [simp]: "zone_state_code s = zone_state_code t \<longleftrightarrow> s = t"
  by (cases s; cases t) simp_all

text \<open>
  The state's name is the name of the condition with the same code: the two tables of
  \<^verbatim>\<open>types.go\<close> agree.
\<close>

lemma zone_condition_String_state: "zone_condition_String (zone_state_code s) = zone_state_String s"
  by (cases s) (simp_all add: zone_condition_String_def)

lemma UsedCapacitySectors_le:
  assumes "zd_ZoneStartLBA z \<le> zd_ZoneStartLBA z + zd_ZoneLength z"
    and "zd_WritePointer z \<le> zd_ZoneStartLBA z + zd_ZoneLength z"
  shows "UsedCapacitySectors z \<le> zd_ZoneLength z"
  using assms by (auto simp: UsedCapacitySectors_def word_le_nat_alt unat_sub_le not_le word_less_nat_alt
      unat_plus_if' split: if_splits)

end
