(* ===== verification/Backend.thy ===== *)
theory Backend
  imports Zbc
begin

text \<open>
  The interface \<^verbatim>\<open>backend.ZonedDevice\<close>. A Go interface value is a record of functions over the
  state \<open>'d\<close> of its implementation; every method returns its result together with the state
  it leaves, because a Go method that returns an error keeps the changes it made before.
  The locale \<open>zoned_device\<close> states what the zone translation layer relies on, in terms of
  an abstract view of the device: how far each zone is written and what its sectors hold.
\<close>

section \<open>The interface (internal/backend/backend.go)\<close>

record 'd ZonedDevice =
  dev_ReportZones :: "'d \<Rightarrow> u64 \<Rightarrow> int \<Rightarrow> ZoneDescriptor list result \<times> 'd"
  dev_ZoneCount :: "'d \<Rightarrow> int"
  dev_ZoneSize :: "'d \<Rightarrow> u64"
  dev_OpenZone :: "'d \<Rightarrow> u64 \<Rightarrow> unit result \<times> 'd"
  dev_CloseZone :: "'d \<Rightarrow> u64 \<Rightarrow> unit result \<times> 'd"
  dev_FinishZone :: "'d \<Rightarrow> u64 \<Rightarrow> unit result \<times> 'd"
  dev_ResetZone :: "'d \<Rightarrow> u64 \<Rightarrow> unit result \<times> 'd"
  dev_ReadSectors :: "'d \<Rightarrow> u64 \<Rightarrow> u32 \<Rightarrow> bytes result \<times> 'd"
  dev_WriteSectors :: "'d \<Rightarrow> u64 \<Rightarrow> bytes \<Rightarrow> unit result \<times> 'd"
  dev_BlockSize :: "'d \<Rightarrow> u32"
  dev_Capacity :: "'d \<Rightarrow> u64"
  dev_MaxOpenZones :: "'d \<Rightarrow> int"
  dev_Close :: "'d \<Rightarrow> unit result \<times> 'd"

section \<open>The abstract zoned device\<close>

text \<open>
  \<open>v_zones\<close> zones of \<open>v_size\<close> sectors; \<open>v_wp z\<close> sectors of zone \<open>z\<close> are written and
  \<open>v_sector z k\<close> is the content of its \<open>k\<close>-th sector.
\<close>

record dev_view =
  v_zones :: nat
  v_size :: nat
  v_state :: "nat \<Rightarrow> zone_state"
  v_wp :: "nat \<Rightarrow> nat"
  v_sector :: "nat \<Rightarrow> nat \<Rightarrow> bytes"

definition zone_lba :: "dev_view \<Rightarrow> nat \<Rightarrow> nat \<Rightarrow> u64" where
  "zone_lba v z k = of_nat (z * v_size v + k)"

text \<open>Two views with the same geometry, write pointers and contents (states may differ).\<close>

definition same_data :: "dev_view \<Rightarrow> dev_view \<Rightarrow> bool" where
  "same_data v w \<longleftrightarrow> v_zones w = v_zones v \<and> v_size w = v_size v \<and> v_wp w = v_wp v \<and>
     v_sector w = v_sector v"

text \<open>The view after \<open>data\<close> has been written at sector \<open>k\<close> of zone \<open>z\<close>.\<close>

definition written :: "dev_view \<Rightarrow> nat \<Rightarrow> nat \<Rightarrow> bytes \<Rightarrow> dev_view \<Rightarrow> bool" where
  "written v z k data w \<longleftrightarrow> v_zones w = v_zones v \<and> v_size w = v_size v \<and>
     v_wp w = (v_wp v)(z := k + length data div sectorSize) \<and>
     (\<forall>y < v_zones v. \<forall>j < v_size v. v_sector w y j =
        (if y = z \<and> k \<le> j \<and> j < k + length data div sectorSize then sector (j - k) data
         else v_sector v y j))"

text \<open>The view after zone \<open>z\<close> has been reset.\<close>

definition was_reset :: "dev_view \<Rightarrow> nat \<Rightarrow> dev_view \<Rightarrow> bool" where
  "was_reset v z w \<longleftrightarrow> v_zones w = v_zones v \<and> v_size w = v_size v \<and>
     v_wp w = (v_wp v)(z := 0) \<and>
     (\<forall>y < v_zones v. y \<noteq> z \<longrightarrow> v_sector w y = v_sector v y)"

lemma same_data_refl [simp]: "same_data v v"
  by (simp add: same_data_def)

lemma same_data_trans [trans]: "same_data u v \<Longrightarrow> same_data v w \<Longrightarrow> same_data u w"
  by (simp add: same_data_def)

lemma same_data_sym: "same_data v w \<Longrightarrow> same_data w v"
  by (simp add: same_data_def)

locale zoned_device =
  fixes ops :: "'d ZonedDevice"
    and dinv :: "'d \<Rightarrow> bool"
    and view :: "'d \<Rightarrow> dev_view"
  assumes geometry: "dinv d \<Longrightarrow> 0 < v_size (view d) \<and> v_zones (view d) * v_size (view d) < 2 ^ 63 \<and>
            dev_ZoneSize ops d = of_nat (v_size (view d)) \<and>
            dev_Capacity ops d = of_nat (v_zones (view d) * v_size (view d))"
    and wp_le: "dinv d \<Longrightarrow> z < v_zones (view d) \<Longrightarrow> v_wp (view d) z \<le> v_size (view d)"
    and sector_length: "dinv d \<Longrightarrow> z < v_zones (view d) \<Longrightarrow> k < v_size (view d) \<Longrightarrow>
            length (v_sector (view d) z k) = sectorSize"
    and OpenZone_data: "dinv d \<Longrightarrow> dev_OpenZone ops d lba = (r, d') \<Longrightarrow>
            dinv d' \<and> same_data (view d) (view d')"
    and CloseZone_data: "dinv d \<Longrightarrow> dev_CloseZone ops d lba = (r, d') \<Longrightarrow>
            dinv d' \<and> same_data (view d) (view d')"
    and WriteSectors_error: "dinv d \<Longrightarrow> length data < 2 ^ 63 \<Longrightarrow> dev_WriteSectors ops d lba data = (Inl e, d') \<Longrightarrow>
            dinv d' \<and> same_data (view d) (view d')"
    and WriteSectors_ok: "dinv d \<Longrightarrow> z < v_zones (view d) \<Longrightarrow> k < v_size (view d) \<Longrightarrow> data \<noteq> [] \<Longrightarrow>
            length data < 2 ^ 63 \<Longrightarrow>
            dev_WriteSectors ops d (zone_lba (view d) z k) data = (Inr (), d') \<Longrightarrow>
            dinv d' \<and> k = v_wp (view d) z \<and> length data mod sectorSize = 0 \<and>
            k + length data div sectorSize \<le> v_size (view d) \<and> written (view d) z k data (view d')"
    and ReadSectors_written: "dinv d \<Longrightarrow> z < v_zones (view d) \<Longrightarrow> 0 < c \<Longrightarrow> c < 2 ^ 32 \<Longrightarrow>
            k + c \<le> v_wp (view d) z \<Longrightarrow>
            dev_ReadSectors ops d (zone_lba (view d) z k) (of_nat c) =
              (Inr (concat (map (v_sector (view d) z) [k..<k + c])), d)"
    and ResetZone_ok: "dinv d \<Longrightarrow> z < v_zones (view d) \<Longrightarrow>
            dev_ResetZone ops d (zone_lba (view d) z 0) = (Inr (), d') \<Longrightarrow>
            dinv d' \<and> was_reset (view d) z (view d')"
    and ResetZone_error: "dinv d \<Longrightarrow> dev_ResetZone ops d lba = (Inl e, d') \<Longrightarrow>
            dinv d' \<and> same_data (view d) (view d')"
begin

lemma zone_lba_unat:
  assumes "dinv d" and "z < v_zones (view d)" and "k \<le> v_size (view d)"
  shows "unat (zone_lba (view d) z k) = z * v_size (view d) + k"
proof -
  have "z * v_size (view d) + k \<le> z * v_size (view d) + v_size (view d)"
    using assms(3) by simp
  also have "\<dots> = Suc z * v_size (view d)" by simp
  also have "\<dots> \<le> v_zones (view d) * v_size (view d)"
    using assms(2) by (intro mult_le_mono1) simp
  also have "\<dots> < 2 ^ 64" using geometry [OF assms(1)] by auto
  finally show ?thesis unfolding zone_lba_def by (rule unat_u64_of_nat)
qed

end

end
