(* ===== verification/Emulator.thy ===== *)
theory Emulator
  imports Backend Config
begin

text \<open>
  The in-memory zoned block device of \<^verbatim>\<open>internal/backend/emulator/emulator.go\<close>: its state, every
  method of the \<^verbatim>\<open>ZonedDevice\<close> interface, the invariant all of them keep, and the proof that it
  implements the abstract device of \<open>zoned_device\<close>. The mutex makes each method atomic, so
  a method is a function on the state.

  A zone index is the Go expression \<^verbatim>\<open>int(lba / e.zoneSectors)\<close>; with at least two sectors per zone
  the quotient is below \<open>2\<^sup>6\<^sup>3\<close> and the conversion is exact, so it is a natural number here.
\<close>

section \<open>State\<close>

record zoneState =
  zs_state :: zone_state
  zs_writePointer :: u64
  zs_data :: bytes

record Emulator =
  em_zones :: "zoneState list"
  em_zoneCount :: int
  em_zoneSectors :: u64
  em_maxOpenZones :: int
  em_openCount :: int

section \<open>Operations\<close>

definition em_New :: "EmulatorConfig \<Rightarrow> Emulator result" where
  "em_New cfg =
     (if ec_ZoneCount cfg \<le> 0 then Inl (Errorf ''zone_count must be positive'')
      else if ec_ZoneSizeMB cfg \<le> 0 then Inl (Errorf ''zone_size_mb must be positive'')
      else if ec_MaxOpenZones cfg \<le> 0 then Inl (Errorf ''max_open_zones must be positive'')
      else
        let zoneSectors = of_int (ec_ZoneSizeMB cfg) * 1024 * 1024 div 512;
            zones = map (\<lambda>i. \<lparr>zs_state = ZoneStateEmpty,
                              zs_writePointer = of_nat i * zoneSectors,
                              zs_data = zeros (unat zoneSectors * sectorSize)\<rparr>)
                        [0..<nat (ec_ZoneCount cfg)]
        in Inr \<lparr>em_zones = zones, em_zoneCount = ec_ZoneCount cfg, em_zoneSectors = zoneSectors,
                em_maxOpenZones = ec_MaxOpenZones cfg, em_openCount = 0\<rparr>)"

definition em_Capacity :: "Emulator \<Rightarrow> u64" where
  "em_Capacity e = of_int (em_zoneCount e) * em_zoneSectors e"

definition em_zoneIndex :: "Emulator \<Rightarrow> u64 \<Rightarrow> nat result" where
  "em_zoneIndex e lba =
     (let idx = unat (lba div em_zoneSectors e)
      in if int idx \<ge> em_zoneCount e then Inl (Wrap ''lba'' ErrInvalidLBA) else Inr idx)"

definition em_zoneStartLBA :: "Emulator \<Rightarrow> nat \<Rightarrow> u64" where
  "em_zoneStartLBA e idx = of_nat idx * em_zoneSectors e"

definition isOpen :: "zone_state \<Rightarrow> bool" where
  "isOpen s \<longleftrightarrow> s = ZoneStateImplicitOpen \<or> s = ZoneStateExplicitOpen"

definition em_ReportZones :: "Emulator \<Rightarrow> u64 \<Rightarrow> int \<Rightarrow> ZoneDescriptor list result" where
  "em_ReportZones e startLBA count =
     (let startIdx = unat (startLBA div em_zoneSectors e)
      in if int startIdx \<ge> em_zoneCount e then Inl (Wrap ''startLBA'' ErrInvalidLBA)
         else
           let end = (if count > 0 \<and> int startIdx + count < em_zoneCount e
                      then int startIdx + count else em_zoneCount e)
           in Inr (map (\<lambda>i. \<lparr>zd_ZoneType = ZoneTypeSequentialWrite,
                             zd_ZoneState = zs_state (em_zones e ! i),
                             zd_ZoneCondition = 0, zd_Reset = False, zd_NonSeq = False,
                             zd_ZoneLength = em_zoneSectors e,
                             zd_ZoneStartLBA = em_zoneStartLBA e i,
                             zd_WritePointer = zs_writePointer (em_zones e ! i)\<rparr>)
                       [startIdx..<nat end]))"

abbreviation em_set_zone :: "Emulator \<Rightarrow> nat \<Rightarrow> zoneState \<Rightarrow> Emulator" where
  "em_set_zone e idx z \<equiv> e\<lparr>em_zones := (em_zones e)[idx := z]\<rparr>"

definition em_openZoneLocked :: "Emulator \<Rightarrow> nat \<Rightarrow> bool \<Rightarrow> unit result \<times> Emulator" where
  "em_openZoneLocked e idx explicit =
     (let z = em_zones e ! idx in
      case zs_state z of
        ZoneStateExplicitOpen \<Rightarrow> (Inr (), e)
      | ZoneStateImplicitOpen \<Rightarrow>
          (Inr (), if explicit then em_set_zone e idx (z\<lparr>zs_state := ZoneStateExplicitOpen\<rparr>) else e)
      | ZoneStateFull \<Rightarrow> (Inl (Wrap ''zone is full'' ErrZoneFull), e)
      | s \<Rightarrow>
          if s = ZoneStateEmpty \<or> s = ZoneStateClosed then
            if em_openCount e \<ge> em_maxOpenZones e then (Inl (Wrap ''limit'' ErrTooManyOpenZones), e)
            else (Inr (), (em_set_zone e idx
                     (z\<lparr>zs_state := (if explicit then ZoneStateExplicitOpen
                                     else ZoneStateImplicitOpen)\<rparr>))
                     \<lparr>em_openCount := em_openCount e + 1\<rparr>)
          else (Inl (Errorf ''cannot open zone in state''), e))"

definition em_OpenZone :: "Emulator \<Rightarrow> u64 \<Rightarrow> unit result \<times> Emulator" where
  "em_OpenZone e lba =
     (case em_zoneIndex e lba of Inl err \<Rightarrow> (Inl err, e) | Inr idx \<Rightarrow> em_openZoneLocked e idx True)"

definition em_CloseZone :: "Emulator \<Rightarrow> u64 \<Rightarrow> unit result \<times> Emulator" where
  "em_CloseZone e lba =
     (case em_zoneIndex e lba of
        Inl err \<Rightarrow> (Inl err, e)
      | Inr idx \<Rightarrow>
          (let z = em_zones e ! idx in
           if zs_state z = ZoneStateImplicitOpen \<or> zs_state z = ZoneStateExplicitOpen then
             (Inr (), (em_set_zone e idx (z\<lparr>zs_state := ZoneStateClosed\<rparr>))
                        \<lparr>em_openCount := em_openCount e - 1\<rparr>)
           else if zs_state z = ZoneStateClosed \<or> zs_state z = ZoneStateEmpty then (Inr (), e)
           else (Inl (Errorf ''cannot close zone in state''), e)))"

definition em_FinishZone :: "Emulator \<Rightarrow> u64 \<Rightarrow> unit result \<times> Emulator" where
  "em_FinishZone e lba =
     (case em_zoneIndex e lba of
        Inl err \<Rightarrow> (Inl err, e)
      | Inr idx \<Rightarrow>
          (let z = em_zones e ! idx;
               full = z\<lparr>zs_state := ZoneStateFull,
                        zs_writePointer := em_zoneStartLBA e idx + em_zoneSectors e\<rparr> in
           if zs_state z = ZoneStateImplicitOpen \<or> zs_state z = ZoneStateExplicitOpen then
             (Inr (), (em_set_zone e idx full)\<lparr>em_openCount := em_openCount e - 1\<rparr>)
           else if zs_state z = ZoneStateClosed then (Inr (), em_set_zone e idx full)
           else if zs_state z = ZoneStateEmpty then (Inr (), em_set_zone e idx full)
           else if zs_state z = ZoneStateFull then (Inr (), e)
           else (Inl (Errorf ''cannot finish zone in state''), e)))"

definition em_ResetZone :: "Emulator \<Rightarrow> u64 \<Rightarrow> unit result \<times> Emulator" where
  "em_ResetZone e lba =
     (case em_zoneIndex e lba of
        Inl err \<Rightarrow> (Inl err, e)
      | Inr idx \<Rightarrow>
          (let z = em_zones e ! idx;
               wasOpen = isOpen (zs_state z);
               e' = em_set_zone e idx
                      \<lparr>zs_state = ZoneStateEmpty, zs_writePointer = em_zoneStartLBA e idx,
                       zs_data = zeros (length (zs_data z))\<rparr> in
           (Inr (), if wasOpen then e'\<lparr>em_openCount := em_openCount e - 1\<rparr> else e')))"

text \<open>
  The copy loop of \<^verbatim>\<open>ReadSectors\<close>: \<open>remaining\<close> bytes are still to be copied to position \<open>offset\<close>
  of \<open>result\<close>, starting at \<open>currentLBA\<close>. It ends because each round copies at least one byte.
\<close>

function em_read_loop :: "Emulator \<Rightarrow> nat \<Rightarrow> nat \<Rightarrow> u64 \<Rightarrow> bytes \<Rightarrow> bytes" where
  "em_read_loop e remaining offset currentLBA result =
     (if remaining = 0 then result
      else
        let idx = unat (currentLBA div em_zoneSectors e) in
        if int idx \<ge> em_zoneCount e then result
        else
          let z = em_zones e ! idx;
              zoneStart = em_zoneStartLBA e idx;
              offsetInZone = unat (currentLBA - zoneStart) * sectorSize;
              available = length (zs_data z) - offsetInZone in
          if available = 0 then result
          else
            let toCopy = (if remaining > available then available else remaining) in
            em_read_loop e (remaining - toCopy) (offset + toCopy)
              (currentLBA + of_nat (toCopy div sectorSize))
              (blit offset (bslice offsetInZone (offsetInZone + toCopy) (zs_data z)) result))"
  by pat_completeness auto
termination
  by (relation "measure (\<lambda>(e, remaining, offset, currentLBA, result). remaining)") auto

definition em_ReadSectors :: "Emulator \<Rightarrow> u64 \<Rightarrow> u32 \<Rightarrow> bytes result" where
  "em_ReadSectors e lba count =
     (if count = 0 then Inr []
      else
        let readEnd = lba + ucast count in
        if readEnd > em_Capacity e then Inl (Wrap ''lba count capacity'' ErrInvalidLBA)
        else Inr (em_read_loop e (unat count * sectorSize) 0 lba (zeros (unat count * sectorSize))))"

text \<open>
  The second half of \<^verbatim>\<open>WriteSectors\<close>, reached once the zone \<open>idx\<close> is open: bounds check, copy into
  the zone's buffer, new write pointer, transition to FULL at the zone's end.
\<close>

definition em_writeOpened :: "Emulator \<Rightarrow> nat \<Rightarrow> u64 \<Rightarrow> bytes \<Rightarrow> unit result \<times> Emulator" where
  "em_writeOpened e idx lba data =
     (let zoneStart = em_zoneStartLBA e idx;
          zoneEnd = zoneStart + em_zoneSectors e;
          writeEnd = lba + of_nat (length data div sectorSize) in
      if writeEnd > zoneEnd then (Inl (Errorf ''write crosses zone boundary''), e)
      else
        let z = em_zones e ! idx;
            offsetInZone = unat (lba - zoneStart) * sectorSize;
            z' = z\<lparr>zs_data := blit offsetInZone data (zs_data z), zs_writePointer := writeEnd\<rparr> in
        if writeEnd = zoneEnd then
          (Inr (), (em_set_zone e idx (z'\<lparr>zs_state := ZoneStateFull\<rparr>))
                     \<lparr>em_openCount := em_openCount e - 1\<rparr>)
        else (Inr (), em_set_zone e idx z'))"

text \<open>The state check of \<^verbatim>\<open>WriteSectors\<close>, with its implicit open.\<close>

definition em_writeState :: "Emulator \<Rightarrow> nat \<Rightarrow> unit result \<times> Emulator" where
  "em_writeState e idx =
     (case zs_state (em_zones e ! idx) of
               ZoneStateEmpty \<Rightarrow> em_openZoneLocked e idx False
             | ZoneStateClosed \<Rightarrow> em_openZoneLocked e idx False
             | ZoneStateImplicitOpen \<Rightarrow> (Inr (), e)
             | ZoneStateExplicitOpen \<Rightarrow> (Inr (), e)
             | ZoneStateFull \<Rightarrow> (Inl (Wrap ''zone'' ErrZoneFull), e)
             | ZoneStateReadOnly \<Rightarrow> (Inl (Wrap ''zone'' ErrZoneReadOnly), e)
             | ZoneStateOffline \<Rightarrow> (Inl (Wrap ''zone'' ErrZoneOffline), e)
             | ZoneStateNotWritePointer \<Rightarrow> (Inl (Errorf ''zone is in unexpected state''), e))"

definition em_WriteSectors :: "Emulator \<Rightarrow> u64 \<Rightarrow> bytes \<Rightarrow> unit result \<times> Emulator" where
  "em_WriteSectors e lba data =
     (if length data = 0 then (Inr (), e)
      else if length data mod sectorSize \<noteq> 0 then (Inl (Wrap ''data length'' ErrAlignmentError), e)
      else
        case em_zoneIndex e lba of
          Inl err \<Rightarrow> (Inl err, e)
        | Inr idx \<Rightarrow>
            if lba \<noteq> zs_writePointer (em_zones e ! idx) then (Inl (Wrap ''lba writePointer'' ErrOutOfOrder), e)
            else
              case em_writeState e idx of
                (Inl err, e1) \<Rightarrow> (Inl err, e1)
              | (Inr _, e1) \<Rightarrow> em_writeOpened e1 idx lba data)"

definition em_dev :: "Emulator ZonedDevice" where
  "em_dev =
     \<lparr>dev_ReportZones = (\<lambda>e lba n. (em_ReportZones e lba n, e)),
      dev_ZoneCount = em_zoneCount,
      dev_ZoneSize = em_zoneSectors,
      dev_OpenZone = em_OpenZone,
      dev_CloseZone = em_CloseZone,
      dev_FinishZone = em_FinishZone,
      dev_ResetZone = em_ResetZone,
      dev_ReadSectors = (\<lambda>e lba n. (em_ReadSectors e lba n, e)),
      dev_WriteSectors = em_WriteSectors,
      dev_BlockSize = (\<lambda>e. 512),
      dev_Capacity = em_Capacity,
      dev_MaxOpenZones = em_maxOpenZones,
      dev_Close = (\<lambda>e. (Inr (), e))\<rparr>"

declare em_read_loop.simps [simp del]

text \<open>
  One call of a state-changing method. Slices have a length below \<open>2\<^sup>6\<^sup>3\<close>, Go's largest
  \<^verbatim>\<open>int\<close>.
\<close>

inductive em_step :: "Emulator \<Rightarrow> Emulator \<Rightarrow> bool" where
  step_open: "em_OpenZone e lba = (r, e') \<Longrightarrow> em_step e e'"
| step_close: "em_CloseZone e lba = (r, e') \<Longrightarrow> em_step e e'"
| step_finish: "em_FinishZone e lba = (r, e') \<Longrightarrow> em_step e e'"
| step_reset: "em_ResetZone e lba = (r, e') \<Longrightarrow> em_step e e'"
| step_write: "em_WriteSectors e lba data = (r, e') \<Longrightarrow> length data < 2 ^ 63 \<Longrightarrow> em_step e e'"

inductive em_reachable :: "EmulatorConfig \<Rightarrow> Emulator \<Rightarrow> bool" for cfg where
  reach_new: "em_New cfg = Inr e \<Longrightarrow> em_reachable cfg e"
| reach_step: "em_reachable cfg e \<Longrightarrow> em_step e e' \<Longrightarrow> em_reachable cfg e'"

text \<open>
  What one call may do to one zone: reset it, or keep every sector below the write pointer and
  never move the pointer back; the zone's state follows the edges of the zone state machine.
\<close>

definition zone_edge :: "zone_state \<Rightarrow> zone_state \<Rightarrow> bool" where
  "zone_edge s t \<longleftrightarrow> s = t \<or> t = ZoneStateEmpty \<or> s \<noteq> ZoneStateFull \<and> t = ZoneStateFull \<or>
     (s, t) \<in> {(ZoneStateEmpty, ZoneStateImplicitOpen), (ZoneStateEmpty, ZoneStateExplicitOpen),
               (ZoneStateClosed, ZoneStateImplicitOpen), (ZoneStateClosed, ZoneStateExplicitOpen),
               (ZoneStateImplicitOpen, ZoneStateExplicitOpen), (ZoneStateImplicitOpen, ZoneStateClosed),
               (ZoneStateExplicitOpen, ZoneStateClosed)}"

definition zone_step_legal :: "nat \<Rightarrow> nat \<Rightarrow> zoneState \<Rightarrow> zoneState \<Rightarrow> bool" where
  "zone_step_legal zs i z z' \<longleftrightarrow>
     zone_edge (zs_state z) (zs_state z') \<and>
     (zs_state z' = ZoneStateEmpty \<and> unat (zs_writePointer z') = i * zs \<or>
      unat (zs_writePointer z) \<le> unat (zs_writePointer z') \<and>
      (\<forall>k < zs. i * zs + k < unat (zs_writePointer z) \<longrightarrow> sector k (zs_data z') = sector k (zs_data z)))"

inductive_cases em_stepE: "em_step e e'"

section \<open>Invariant\<close>

text \<open>
  A zone of a well-formed device: its buffer has the zone's size, its write pointer stays inside
  the zone, it is FULL exactly when the pointer has reached the end, an EMPTY zone's pointer is
  at the start, and nothing has been written at or after the pointer.
\<close>

definition em_zone_ok :: "nat \<Rightarrow> nat \<Rightarrow> zoneState \<Rightarrow> bool" where
  "em_zone_ok zs i z \<longleftrightarrow>
     length (zs_data z) = sectorSize * zs \<and>
     i * zs \<le> unat (zs_writePointer z) \<and> unat (zs_writePointer z) \<le> i * zs + zs \<and>
     (zs_state z = ZoneStateEmpty \<longrightarrow> unat (zs_writePointer z) = i * zs) \<and>
     (zs_state z = ZoneStateFull \<longleftrightarrow> unat (zs_writePointer z) = i * zs + zs) \<and>
     zs_state z \<in> {ZoneStateEmpty, ZoneStateImplicitOpen, ZoneStateExplicitOpen, ZoneStateClosed,
                    ZoneStateFull} \<and>
     (\<forall>k < zs. unat (zs_writePointer z) \<le> i * zs + k \<longrightarrow> sector k (zs_data z) = zeros sectorSize)"

definition em_inv :: "Emulator \<Rightarrow> bool" where
  "em_inv e \<longleftrightarrow>
     0 < unat (em_zoneSectors e) \<and> em_zoneCount e = int (length (em_zones e)) \<and>
     length (em_zones e) * unat (em_zoneSectors e) < 2 ^ 63 \<and>
     (\<forall>i < length (em_zones e). em_zone_ok (unat (em_zoneSectors e)) i (em_zones e ! i)) \<and>
     em_openCount e = int (length (filter (\<lambda>z. isOpen (zs_state z)) (em_zones e))) \<and>
     em_openCount e \<le> em_maxOpenZones e"

text \<open>The abstract view, and the device's sectors under one linear address.\<close>

definition em_view :: "Emulator \<Rightarrow> dev_view" where
  "em_view e =
     \<lparr>v_zones = length (em_zones e),
      v_size = unat (em_zoneSectors e),
      v_state = (\<lambda>z. zs_state (em_zones e ! z)),
      v_wp = (\<lambda>z. unat (zs_writePointer (em_zones e ! z)) - z * unat (em_zoneSectors e)),
      v_sector = (\<lambda>z k. sector k (zs_data (em_zones e ! z)))\<rparr>"

definition em_sector :: "Emulator \<Rightarrow> nat \<Rightarrow> bytes" where
  "em_sector e a =
     sector (a mod unat (em_zoneSectors e)) (zs_data (em_zones e ! (a div unat (em_zoneSectors e))))"

lemma em_inv_zone:
  "em_inv e \<Longrightarrow> i < length (em_zones e) \<Longrightarrow> em_zone_ok (unat (em_zoneSectors e)) i (em_zones e ! i)"
  by (simp add: em_inv_def)

lemma em_zone_end_lt:
  assumes "em_inv e" and "i < length (em_zones e)"
  shows "i * unat (em_zoneSectors e) + unat (em_zoneSectors e) \<le> length (em_zones e) * unat (em_zoneSectors e)"
    and "i * unat (em_zoneSectors e) + unat (em_zoneSectors e) < 2 ^ 63"
proof -
  have "i * unat (em_zoneSectors e) + unat (em_zoneSectors e) = Suc i * unat (em_zoneSectors e)" by simp
  also have "\<dots> \<le> length (em_zones e) * unat (em_zoneSectors e)" using assms(2) by (intro mult_le_mono1) simp
  finally show *: "i * unat (em_zoneSectors e) + unat (em_zoneSectors e) \<le>
    length (em_zones e) * unat (em_zoneSectors e)" .
  then show "i * unat (em_zoneSectors e) + unat (em_zoneSectors e) < 2 ^ 63"
    using assms(1) by (auto simp: em_inv_def)
qed

lemma em_zones_lt:
  assumes "em_inv e"
  shows "length (em_zones e) < 2 ^ 63"
proof -
  have "length (em_zones e) * 1 \<le> length (em_zones e) * unat (em_zoneSectors e)"
    using assms by (intro mult_le_mono2) (simp add: em_inv_def)
  also have "\<dots> < 2 ^ 63" using assms by (simp add: em_inv_def)
  finally show ?thesis by simp
qed

lemma unat_em_zoneStartLBA:
  assumes "em_inv e" and "i < length (em_zones e)"
  shows "unat (em_zoneStartLBA e i) = i * unat (em_zoneSectors e)"
proof -
  have "unat (of_nat i :: u64) = i"
    using assms em_zones_lt [OF assms(1)] by (intro unat_u64_of_nat) simp
  then show ?thesis
    using em_zone_end_lt [OF assms] unfolding em_zoneStartLBA_def
    by (subst unat_mult_lt) auto
qed

lemma unat_em_zoneEnd:
  assumes "em_inv e" and "i < length (em_zones e)"
  shows "unat (em_zoneStartLBA e i + em_zoneSectors e) =
           i * unat (em_zoneSectors e) + unat (em_zoneSectors e)"
  using em_zone_end_lt [OF assms] unat_em_zoneStartLBA [OF assms]
  by (subst unat_add_lt) auto

lemma unat_em_Capacity:
  assumes "em_inv e"
  shows "unat (em_Capacity e) = length (em_zones e) * unat (em_zoneSectors e)"
proof -
  have "unat (of_nat (length (em_zones e)) :: u64) = length (em_zones e)"
    using em_zones_lt [OF assms] by (intro unat_u64_of_nat) simp
  then show ?thesis
    using assms unfolding em_Capacity_def em_inv_def by (simp add: unat_mult_lt)
qed

lemma em_zoneIndex_eq:
  assumes "em_inv e"
  shows "em_zoneIndex e lba =
           (if unat lba div unat (em_zoneSectors e) < length (em_zones e)
            then Inr (unat lba div unat (em_zoneSectors e)) else Inl (Wrap ''lba'' ErrInvalidLBA))"
  using assms by (auto simp: em_zoneIndex_def em_inv_def unat_div_distrib Let_def)

lemma em_inv_put:
  assumes "em_inv e" and "i < length (em_zones e)" and "em_zone_ok (unat (em_zoneSectors e)) i z"
    and "c = em_openCount e - of_bool (isOpen (zs_state (em_zones e ! i))) + of_bool (isOpen (zs_state z))"
    and "c \<le> em_maxOpenZones e"
  shows "em_inv (e\<lparr>em_zones := (em_zones e)[i := z], em_openCount := c\<rparr>)"
  using assms by (auto simp: em_inv_def nth_list_update length_filter_update)

lemma em_inv_put_same:
  assumes "em_inv e" and "i < length (em_zones e)" and "em_zone_ok (unat (em_zoneSectors e)) i z"
    and "isOpen (zs_state z) \<longleftrightarrow> isOpen (zs_state (em_zones e ! i))"
  shows "em_inv (em_set_zone e i z)"
proof -
  have "em_inv (e\<lparr>em_zones := (em_zones e)[i := z], em_openCount := em_openCount e\<rparr>)"
    using assms by (intro em_inv_put) (auto simp: em_inv_def)
  then show ?thesis by simp
qed

section \<open>Every operation keeps the invariant\<close>

lemma em_inv_open_le: "em_inv e \<Longrightarrow> em_openCount e \<le> em_maxOpenZones e"
  by (simp add: em_inv_def)

lemma em_inv_data_length:
  "em_inv e \<Longrightarrow> i < length (em_zones e) \<Longrightarrow>
     length (zs_data (em_zones e ! i)) = sectorSize * unat (em_zoneSectors e)"
  using em_inv_zone [of e i] by (simp add: em_zone_ok_def)

lemma em_zone_ok_state:
  assumes "em_zone_ok zs i z" and "zs_state z \<noteq> ZoneStateFull"
    and "s \<in> {ZoneStateImplicitOpen, ZoneStateExplicitOpen, ZoneStateClosed}"
  shows "em_zone_ok zs i (z\<lparr>zs_state := s\<rparr>)"
  using assms by (auto simp: em_zone_ok_def)

lemma em_openZoneLocked_inv:
  assumes "em_inv e" and "idx < length (em_zones e)" and "em_openZoneLocked e idx ex = (r, e')"
  shows "em_inv e'"
proof -
  note ok = em_inv_zone [OF assms(1,2)]
  show ?thesis
    using assms(3) ok assms(1,2)
    by (auto simp: em_openZoneLocked_def Let_def isOpen_def split: zone_state.splits if_splits
        intro!: em_inv_put em_inv_put_same em_zone_ok_state)
qed

lemma em_OpenZone_inv: "em_inv e \<Longrightarrow> em_OpenZone e lba = (r, e') \<Longrightarrow> em_inv e'"
  by (auto simp: em_OpenZone_def em_zoneIndex_eq split: if_splits intro: em_openZoneLocked_inv)

lemma em_CloseZone_inv: "em_inv e \<Longrightarrow> em_CloseZone e lba = (r, e') \<Longrightarrow> em_inv e'"
  using em_inv_zone [of e "unat lba div unat (em_zoneSectors e)"] em_inv_open_le [of e]
  by (auto simp: em_CloseZone_def em_zoneIndex_eq Let_def isOpen_def split: if_splits
      intro!: em_inv_put em_zone_ok_state)

lemma em_zone_ok_full:
  assumes "em_inv e" and "i < length (em_zones e)" and "em_zone_ok (unat (em_zoneSectors e)) i z"
  shows "em_zone_ok (unat (em_zoneSectors e)) i
     (z\<lparr>zs_state := ZoneStateFull, zs_writePointer := em_zoneStartLBA e i + em_zoneSectors e\<rparr>)"
  using assms unat_em_zoneEnd [OF assms(1,2)] by (auto simp: em_zone_ok_def)

lemma em_FinishZone_inv: "em_inv e \<Longrightarrow> em_FinishZone e lba = (r, e') \<Longrightarrow> em_inv e'"
  using em_inv_zone [of e "unat lba div unat (em_zoneSectors e)"] em_inv_open_le [of e]
  by (auto simp: em_FinishZone_def em_zoneIndex_eq Let_def isOpen_def split: if_splits
      intro!: em_inv_put em_inv_put_same em_zone_ok_full)

lemma em_zone_ok_reset:
  assumes "em_inv e" and "i < length (em_zones e)" and "n = sectorSize * unat (em_zoneSectors e)"
  shows "em_zone_ok (unat (em_zoneSectors e)) i
     \<lparr>zs_state = ZoneStateEmpty, zs_writePointer = em_zoneStartLBA e i, zs_data = zeros n\<rparr>"
  using assms unat_em_zoneStartLBA [OF assms(1,2)] by (auto simp: em_zone_ok_def em_inv_def)

lemma em_ResetZone_inv: "em_inv e \<Longrightarrow> em_ResetZone e lba = (r, e') \<Longrightarrow> em_inv e'"
  using em_inv_zone [of e "unat lba div unat (em_zoneSectors e)"] em_inv_open_le [of e]
  by (auto simp: em_ResetZone_def em_zoneIndex_eq Let_def isOpen_def em_inv_data_length
      split: if_splits intro!: em_inv_put em_inv_put_same em_zone_ok_reset)

text \<open>
  Opening a zone changes nothing but its state and the counter of open zones.
\<close>

definition em_opened :: "Emulator \<Rightarrow> nat \<Rightarrow> Emulator \<Rightarrow> bool" where
  "em_opened e idx e' \<longleftrightarrow> (\<exists>s c. isOpen s \<and>
     e' = e\<lparr>em_zones := (em_zones e)[idx := (em_zones e ! idx)\<lparr>zs_state := s\<rparr>], em_openCount := c\<rparr>)"

lemma em_opened_refl: "isOpen (zs_state (em_zones e ! idx)) \<Longrightarrow> em_opened e idx e"
  unfolding em_opened_def
  by (rule exI [of _ "zs_state (em_zones e ! idx)"], rule exI [of _ "em_openCount e"]) simp

lemma em_openedI:
  assumes "isOpen s"
  shows "em_opened e idx ((em_set_zone e idx ((em_zones e ! idx)\<lparr>zs_state := s\<rparr>))\<lparr>em_openCount := c\<rparr>)"
    and "em_opened e idx (em_set_zone e idx ((em_zones e ! idx)\<lparr>zs_state := s\<rparr>))"
  unfolding em_opened_def
  subgoal using assms by blast
  subgoal by (rule exI [of _ s], rule exI [of _ "em_openCount e"]) (simp add: assms)
  done

lemma em_openZoneLocked_cases:
  assumes "em_openZoneLocked e idx ex = (r, e')"
  shows "(case r of Inl _ \<Rightarrow> e' = e | Inr _ \<Rightarrow> em_opened e idx e')"
  using assms
  by (auto simp: em_openZoneLocked_def Let_def isOpen_def split: zone_state.splits if_splits
      intro!: em_opened_refl em_openedI)

lemma em_opened_simps:
  assumes "em_opened e idx e'" and "idx < length (em_zones e)"
  shows "length (em_zones e') = length (em_zones e)" and "em_zoneSectors e' = em_zoneSectors e"
    and "isOpen (zs_state (em_zones e' ! idx))"
    and "zs_data (em_zones e' ! i) = zs_data (em_zones e ! i)"
    and "zs_writePointer (em_zones e' ! i) = zs_writePointer (em_zones e ! i)"
  using assms by (auto simp: em_opened_def nth_list_update)

text \<open>The zone after \<open>n\<close> sectors of data have been appended at its write pointer.\<close>

definition em_append :: "zoneState \<Rightarrow> nat \<Rightarrow> bytes \<Rightarrow> zone_state \<Rightarrow> zoneState" where
  "em_append z k data s =
     z\<lparr>zs_data := blit (sectorSize * k) data (zs_data z),
       zs_writePointer := zs_writePointer z + of_nat (length data div sectorSize),
       zs_state := s\<rparr>"

lemma em_append_ok:
  assumes ok: "em_zone_ok zs i z" and op: "isOpen (zs_state z)"
    and k: "unat (zs_writePointer z) = i * zs + k"
    and len: "length data = sectorSize * n" "0 < n" "k + n \<le> zs"
    and wp: "unat (zs_writePointer z + of_nat n) = i * zs + k + n"
    and s: "s = (if k + n = zs then ZoneStateFull else zs_state z)"
  shows "em_zone_ok zs i (em_append z k data s)"
proof -
  have fit: "sectorSize * (k + n) \<le> length (zs_data z)" using ok len by (simp add: em_zone_ok_def)
  have "sector j (blit (sectorSize * k) data (zs_data z)) = zeros sectorSize"
    if "j < zs" "k + n \<le> j" for j
    using that ok k sector_blit [OF len(1) fit, of j] by (auto simp: em_zone_ok_def)
  then show ?thesis
    using assms fit by (auto simp: em_append_def em_zone_ok_def isOpen_def)
qed

text \<open>The addresses of a write at the write pointer, as numbers.\<close>

lemma em_write_range:
  assumes inv: "em_inv e" and idx: "idx < length (em_zones e)" and lba: "lba = zs_writePointer (em_zones e ! idx)" "unat lba = idx * unat (em_zoneSectors e) + k"
    and "n < 2 ^ 62"
  shows "unat (lba + of_nat n) = unat lba + n" and "unat (lba - em_zoneStartLBA e idx) = k"
    and "lba + of_nat n > em_zoneStartLBA e idx + em_zoneSectors e \<longleftrightarrow> unat (em_zoneSectors e) < k + n"
    and "lba + of_nat n = em_zoneStartLBA e idx + em_zoneSectors e \<longleftrightarrow> k + n = unat (em_zoneSectors e)"
proof -
  have "unat (of_nat n :: u64) = n" using assms(5) by (intro unat_u64_of_nat) simp
  moreover have "unat lba \<le> idx * unat (em_zoneSectors e) + unat (em_zoneSectors e)" using em_inv_zone [OF inv idx] lba by (simp add: em_zone_ok_def)
  ultimately show wend: "unat (lba + of_nat n) = unat lba + n" using em_zone_end_lt [OF inv idx] assms(5) by (subst unat_add_lt) auto
  show "unat (lba - em_zoneStartLBA e idx) = k"
    using lba unat_em_zoneStartLBA [OF inv idx] by (subst unat_sub_le) (auto simp: word_le_nat_alt)
  note fin = unat_em_zoneEnd [OF inv idx]
  show "lba + of_nat n > em_zoneStartLBA e idx + em_zoneSectors e \<longleftrightarrow> unat (em_zoneSectors e) < k + n"
    using wend fin lba(2) by (simp add: word_less_nat_alt)
  show "lba + of_nat n = em_zoneStartLBA e idx + em_zoneSectors e \<longleftrightarrow> k + n = unat (em_zoneSectors e)"
    using wend fin lba(2) by (simp add: word_unat_eq_iff)
qed

lemma em_writeOpened_spec:
  assumes inv: "em_inv e" and idx: "idx < length (em_zones e)"
    and op: "isOpen (zs_state (em_zones e ! idx))"
    and lba: "lba = zs_writePointer (em_zones e ! idx)" "unat lba = idx * unat (em_zoneSectors e) + k"
    and len: "length data = sectorSize * n" "data \<noteq> []" "length data < 2 ^ 63"
    and w: "em_writeOpened e idx lba data = (r, e')"
  shows "(case r of
            Inl _ \<Rightarrow> e' = e
          | Inr _ \<Rightarrow> em_inv e' \<and> k + n \<le> unat (em_zoneSectors e) \<and> unat (lba + of_nat n) = unat lba + n \<and>
              (\<exists>s c. e' = e\<lparr>em_zones := (em_zones e)[idx := em_append (em_zones e ! idx) k data s],
                            em_openCount := c\<rparr>))"
proof -
  let ?zs = "unat (em_zoneSectors e)" and ?z = "em_zones e ! idx"
  note ok = em_inv_zone [OF inv idx]
  have n: "length data div sectorSize = n" "0 < n" "n < 2 ^ 62" using len by (auto intro!: Nat.gr0I)
  note rg = em_write_range [OF inv idx lba n(3)]
  show ?thesis
  proof (cases "k + n \<le> ?zs")
    case False
    then show ?thesis using w n rg(3) by (auto simp: em_writeOpened_def Let_def)
  next
    case True
    let ?s = "if k + n = ?zs then ZoneStateFull else zs_state ?z"
    let ?c = "if k + n = ?zs then em_openCount e - 1 else em_openCount e"
    have "\<not> lba + of_nat n > em_zoneStartLBA e idx + em_zoneSectors e" using True rg(3) by simp
    then have r: "r = Inr ()" and
      e': "e' = e\<lparr>em_zones := (em_zones e)[idx := em_append ?z k data ?s], em_openCount := ?c\<rparr>"
      using w rg(2,4) n lba
      by (auto simp: em_writeOpened_def em_append_def Let_def mult.commute split: if_splits)
    have "em_zone_ok ?zs idx (em_append ?z k data ?s)"
      using ok op lba len n True rg(1) by (intro em_append_ok) auto
    then have "em_inv e'" unfolding e'
      using inv idx op em_inv_open_le [OF inv]
      by (intro em_inv_put) (auto simp: isOpen_def em_append_def)
    moreover have "\<exists>s c. e' = e\<lparr>em_zones := (em_zones e)[idx := em_append ?z k data s], em_openCount := c\<rparr>"
      using e' by blast
    ultimately show ?thesis using r True rg(1) by simp
  qed
qed

text \<open>
  The state check of \<^verbatim>\<open>WriteSectors\<close>: it fails without a change, or leaves the zone open with the
  same contents.
\<close>

lemma em_writeState_cases:
  assumes inv: "em_inv e" and idx: "idx < length (em_zones e)"
    and w: "em_writeState e idx = (r, e1)"
  shows "em_inv e1 \<and> (case r of Inl _ \<Rightarrow> e1 = e | Inr _ \<Rightarrow> em_opened e idx e1)"
  using w inv idx em_openZoneLocked_inv [OF inv idx, of False r e1] em_openZoneLocked_cases [of e idx False r e1]
  by (auto simp: em_writeState_def isOpen_def split: zone_state.splits intro!: em_opened_refl)

text \<open>
  A write that returns an error has at most opened the zone; a successful one was at the write
  pointer of its zone, fits in it, and appends the data.
\<close>

text \<open>A write is refused before the state of its zone is looked at, or it is at the write pointer of a zone.\<close>

lemma em_WriteSectors_at:
  assumes inv: "em_inv e" and "data \<noteq> []" and w: "em_WriteSectors e lba data = (r, e')"
  obtains err where "r = Inl err" and "e' = e"
  | idx k n r1 e1 where "idx = unat lba div unat (em_zoneSectors e)" and "idx < length (em_zones e)" and "lba = zs_writePointer (em_zones e ! idx)"
      and "unat lba = idx * unat (em_zoneSectors e) + k" and "length data = sectorSize * n" and "em_writeState e idx = (r1, e1)"
      and "(case r1 of Inl err \<Rightarrow> (Inl err, e1) | Inr _ \<Rightarrow> em_writeOpened e1 idx lba data) = (r, e')"
proof (cases "length data mod sectorSize = 0 \<and> unat lba div unat (em_zoneSectors e) < length (em_zones e) \<and>
    lba = zs_writePointer (em_zones e ! (unat lba div unat (em_zoneSectors e)))")
  case False
  then have "\<exists>err. r = Inl err \<and> e' = e" using w inv assms(2) by (auto simp: em_WriteSectors_def em_zoneIndex_eq split: if_splits)
  then show ?thesis using that(1) by blast
next
  case True
  define idx where "idx = unat lba div unat (em_zoneSectors e)"
  have idx: "idx < length (em_zones e)" and lba: "lba = zs_writePointer (em_zones e ! idx)" using True idx_def by auto
  obtain n where n: "length data = sectorSize * n" using True by blast
  have "idx * unat (em_zoneSectors e) \<le> unat lba" using em_inv_zone [OF inv idx] lba by (simp add: em_zone_ok_def)
  then obtain k where k: "unat lba = idx * unat (em_zoneSectors e) + k" using le_Suc_ex by blast
  obtain r1 e1 where st: "em_writeState e idx = (r1, e1)" by fastforce
  have "em_zoneIndex e lba = Inr idx" using idx inv by (simp add: em_zoneIndex_eq idx_def)
  then have "(case r1 of Inl err \<Rightarrow> (Inl err, e1) | Inr _ \<Rightarrow> em_writeOpened e1 idx lba data) = (r, e')"
    using w assms(2) True st by (simp add: em_WriteSectors_def flip: lba)
  then show ?thesis by (rule that(2) [OF idx_def idx lba k n st])
qed

lemma em_WriteSectors_cases:
  assumes inv: "em_inv e" and len: "length data < 2 ^ 63" "data \<noteq> []"
    and w: "em_WriteSectors e lba data = (r, e')"
  shows "(case r of
            Inl _ \<Rightarrow> em_inv e' \<and> (e' = e \<or> (\<exists>idx < length (em_zones e). em_opened e idx e'))
          | Inr _ \<Rightarrow> \<exists>e1 idx k n s c. idx < length (em_zones e) \<and> idx = unat lba div unat (em_zoneSectors e) \<and>
              em_opened e idx e1 \<and> em_inv e' \<and> length data = sectorSize * n \<and>
              lba = zs_writePointer (em_zones e ! idx) \<and> unat lba = idx * unat (em_zoneSectors e) + k \<and>
              k + n \<le> unat (em_zoneSectors e) \<and> unat (lba + of_nat n) = unat lba + n \<and>
              e' = e1\<lparr>em_zones := (em_zones e1)[idx := em_append (em_zones e1 ! idx) k data s], em_openCount := c\<rparr>)"
proof (cases rule: em_WriteSectors_at [OF inv len(2) w])
  case (1 err)
  then show ?thesis using inv by simp
next
  case (2 idx k n r1 e1)
  note idx_def = 2(1) and idx = 2(2) and lba = 2(3) and k = 2(4) and n = 2(5) and w1 = 2(7)
  note e1 = em_writeState_cases [OF inv idx 2(6)]
  show ?thesis
  proof (cases r1)
    case (Inl err)
    then show ?thesis using w1 e1 by auto
  next
    case (Inr u)
    then have op: "em_opened e idx e1" and "em_inv e1" using e1 by auto
    moreover have "em_writeOpened e1 idx lba data = (r, e')" using w1 Inr by simp
    ultimately have res: "(case r of
            Inl _ \<Rightarrow> e' = e1
          | Inr _ \<Rightarrow> em_inv e' \<and> k + n \<le> unat (em_zoneSectors e) \<and> unat (lba + of_nat n) = unat lba + n \<and>
              (\<exists>s c. e' = e1\<lparr>em_zones := (em_zones e1)[idx := em_append (em_zones e1 ! idx) k data s],
                            em_openCount := c\<rparr>))"
      using em_writeOpened_spec [of e1 idx lba k data n r e'] idx lba k n len em_opened_simps [OF op idx]
      by (cases r) simp_all
    show ?thesis
    proof (cases r)
      case (Inl err)
      then show ?thesis using res op \<open>em_inv e1\<close> idx by auto
    next
      case r: (Inr v)
      then obtain s c where *: "em_inv e'" "k + n \<le> unat (em_zoneSectors e)" "unat (lba + of_nat n) = unat lba + n"
        "e' = e1\<lparr>em_zones := (em_zones e1)[idx := em_append (em_zones e1 ! idx) k data s], em_openCount := c\<rparr>"
        using res by auto
      show ?thesis unfolding r sum.case
        by (intro exI conjI) (fact * op idx idx_def lba k n)+
    qed
  qed
qed

lemma em_WriteSectors_inv:
  assumes "em_inv e" and "length data < 2 ^ 63" and "em_WriteSectors e lba data = (r, e')"
  shows "em_inv e'"
proof (cases "data = []")
  case True
  then show ?thesis using assms by (simp add: em_WriteSectors_def)
next
  case False
  then show ?thesis using em_WriteSectors_cases [OF assms(1,2) False assms(3)] by (cases r) auto
qed

lemmas em_ops_inv = em_OpenZone_inv em_CloseZone_inv em_FinishZone_inv em_ResetZone_inv em_WriteSectors_inv

section \<open>Reading\<close>

lemma length_em_sector:
  assumes "em_inv e" and "a < length (em_zones e) * unat (em_zoneSectors e)"
  shows "length (em_sector e a) = sectorSize"
proof -
  let ?zs = "unat (em_zoneSectors e)"
  have "a div ?zs < length (em_zones e)" using assms by (simp add: less_mult_imp_div_less)
  moreover have "a mod ?zs < ?zs" using assms by (simp add: em_inv_def)
  ultimately show ?thesis
    using em_inv_data_length [OF assms(1)] by (simp add: em_sector_def)
qed

text \<open>A slice of the data of a zone is a list of sectors of the device.\<close>

lemma em_zone_slice:
  assumes "length (zs_data (em_zones e ! (a div zs))) = sectorSize * zs" and "a mod zs + m \<le> zs" and "zs = unat (em_zoneSectors e)"
  shows "bslice (a mod zs * sectorSize) (a mod zs * sectorSize + sectorSize * m) (zs_data (em_zones e ! (a div zs))) =
    concat (map (em_sector e) [a..<a + m])"
proof -
  let ?d = "zs_data (em_zones e ! (a div zs))"
  have "bslice (a mod zs * sectorSize) (a mod zs * sectorSize + sectorSize * m) ?d = concat (map (\<lambda>j. sector j ?d) [a mod zs..<a mod zs + m])"
    using take_drop_sectors [of "a mod zs" m ?d] assms(1,2) by (simp add: bslice_def mult.commute)
  also have "map (\<lambda>j. sector j ?d) [a mod zs..<a mod zs + m] = map (em_sector e) [a..<a + m]"
  proof (rule nth_equalityI)
    fix i assume "i < length (map (\<lambda>j. sector j ?d) [a mod zs..<a mod zs + m])"
    then have i: "i < m" by simp
    then have c: "a mod zs + i < zs" using assms(2) by simp
    then have "(a + i) div zs = a div zs" "(a + i) mod zs = a mod zs + i" by (rule div_offset, rule mod_offset)
    then show "map (\<lambda>j. sector j ?d) [a mod zs..<a mod zs + m] ! i = map (em_sector e) [a..<a + m] ! i"
      using i assms(3) by (simp add: em_sector_def)
  qed simp
  finally show ?thesis .
qed

lemma em_read_step:
  assumes inv: "em_inv e" and a: "unat a + r \<le> length (em_zones e) * unat (em_zoneSectors e)" "0 < r"
    and o: "length result = sectorSize * (o1 + r)"
  defines "zs \<equiv> unat (em_zoneSectors e)"
  defines "m \<equiv> min r (zs - unat a mod zs)"
  shows "em_read_loop e (sectorSize * r) (sectorSize * o1) a result =
           em_read_loop e (sectorSize * (r - m)) (sectorSize * (o1 + m)) (a + of_nat m)
             (blit (sectorSize * o1) (concat (map (em_sector e) [unat a..<unat a + m])) result)"
proof -
  let ?idx = "unat a div zs"
  have zs: "0 < zs" using inv by (simp add: em_inv_def zs_def)
  have idx: "?idx < length (em_zones e)"
    using a zs by (simp add: zs_def less_mult_imp_div_less)
  have q: "unat (a div em_zoneSectors e) = ?idx" by (simp add: zs_def unat_div_distrib)
  have start: "unat (em_zoneStartLBA e ?idx) = ?idx * zs"
    using unat_em_zoneStartLBA [OF inv idx] by (simp add: zs_def)
  have off: "unat (a - em_zoneStartLBA e ?idx) = unat a mod zs"
    using start by (subst unat_sub_le) (auto simp: word_le_nat_alt minus_div_mult_eq_mod)
  have dl: "length (zs_data (em_zones e ! ?idx)) = sectorSize * zs"
    using em_inv_data_length [OF inv idx] by (simp add: zs_def)
  have lt: "unat a mod zs < zs" using zs by simp
  have m: "0 < m" "unat a mod zs + m \<le> zs" using lt a by (auto simp: m_def)
  have toCopy: "(if sectorSize * r > sectorSize * zs - unat a mod zs * sectorSize
                 then sectorSize * zs - unat a mod zs * sectorSize else sectorSize * r) = sectorSize * m"
    by (auto simp: m_def min_def algebra_simps diff_mult_distrib)
  have data: "bslice (unat a mod zs * sectorSize) (unat a mod zs * sectorSize + sectorSize * m)
       (zs_data (em_zones e ! ?idx)) = concat (map (em_sector e) [unat a..<unat a + m])"
    by (rule em_zone_slice [OF dl m(2)]) (simp add: zs_def)
  have guards: "(sectorSize * r = 0) = False" "(em_zoneCount e \<le> int ?idx) = False"
    "(sectorSize * zs - unat a mod zs * sectorSize = 0) = False"
    using a idx inv lt by (auto simp: em_inv_def)
  have next_args: "sectorSize * r - sectorSize * m = sectorSize * (r - m)"
    "sectorSize * o1 + sectorSize * m = sectorSize * (o1 + m)" "(sectorSize * m) div sectorSize = m"
    by (simp_all add: diff_mult_distrib2)
  show ?thesis
    by (subst em_read_loop.simps)
      (simp only: Let_def q off dl guards if_False toCopy data next_args)
qed

lemma em_read_loop_eq:
  assumes inv: "em_inv e"
  shows "unat a + r \<le> length (em_zones e) * unat (em_zoneSectors e) \<Longrightarrow>
         length result = sectorSize * (o1 + r) \<Longrightarrow>
         em_read_loop e (sectorSize * r) (sectorSize * o1) a result =
           take (sectorSize * o1) result @ concat (map (em_sector e) [unat a..<unat a + r])"
proof (induction r arbitrary: a o1 result rule: less_induct)
  case (less r)
  let ?zs = "unat (em_zoneSectors e)"
  show ?case
  proof (cases "r = 0")
    case True
    then show ?thesis using less.prems by (subst em_read_loop.simps) simp
  next
    case False
    define m where "m = min r (?zs - unat a mod ?zs)"
    define chunk where "chunk = concat (map (em_sector e) [unat a..<unat a + m])"
    have "unat a mod ?zs < ?zs" using inv by (simp add: em_inv_def)
    then have m: "0 < m" "m \<le> r" using False by (auto simp: m_def)
    have a': "unat (a + of_nat m) = unat a + m"
    proof -
      have "unat a + r < 2 ^ 63" using less.prems(1) inv by (auto simp: em_inv_def)
      then show ?thesis using m by (simp add: unat_add_lt unat_u64_of_nat)
    qed
    have cl: "length chunk = sectorSize * m"
    proof -
      have "map (length \<circ> em_sector e) [unat a..<unat a + m] = map (\<lambda>_. sectorSize) [unat a..<unat a + m]"
        using less.prems(1) m by (intro map_cong) (auto simp: length_em_sector [OF inv])
      then show ?thesis by (simp add: chunk_def length_concat map_replicate_const sum_list_replicate)
    qed
    have "em_read_loop e (sectorSize * r) (sectorSize * o1) a result =
        em_read_loop e (sectorSize * (r - m)) (sectorSize * (o1 + m)) (a + of_nat m)
          (blit (sectorSize * o1) chunk result)"
      unfolding chunk_def m_def using less.prems False by (intro em_read_step [OF inv]) auto
    also have "\<dots> = take (sectorSize * (o1 + m)) (blit (sectorSize * o1) chunk result) @
        concat (map (em_sector e) [unat (a + of_nat m)..<unat (a + of_nat m) + (r - m)])"
      using less.prems m a' by (intro less.IH) auto
    also have "take (sectorSize * (o1 + m)) (blit (sectorSize * o1) chunk result) =
        take (sectorSize * o1) result @ chunk"
      using take_blit [of "sectorSize * o1" chunk result] cl less.prems m by (simp add: distrib_left)
    also have "(take (sectorSize * o1) result @ chunk) @
        concat (map (em_sector e) [unat (a + of_nat m)..<unat (a + of_nat m) + (r - m)]) =
        take (sectorSize * o1) result @ concat (map (em_sector e) [unat a..<unat a + r])"
      using m upt_add_eq_append [of "unat a" "unat a + m" "r - m"]
      by (simp add: chunk_def a')
    finally show ?thesis .
  qed
qed

lemma em_ReadSectors_eq:
  assumes inv: "em_inv e" and range: "unat lba + unat count \<le> length (em_zones e) * unat (em_zoneSectors e)"
  shows "em_ReadSectors e lba count = Inr (concat (map (em_sector e) [unat lba..<unat lba + unat count]))"
proof -
  have "unat (lba + ucast count) = unat lba + unat count"
    using range inv by (subst unat_add_lt) (auto simp: em_inv_def)
  then have "\<not> lba + ucast count > em_Capacity e"
    using range unat_em_Capacity [OF inv] by (simp add: word_less_nat_alt)
  moreover have "em_read_loop e (sectorSize * unat count) (sectorSize * 0) lba (zeros (sectorSize * unat count)) =
      take (sectorSize * 0) (zeros (sectorSize * unat count)) @
      concat (map (em_sector e) [unat lba..<unat lba + unat count])"
    using inv range by (intro em_read_loop_eq) auto
  ultimately show ?thesis
    by (auto simp: em_ReadSectors_def mult.commute unat_0_iff)
qed

section \<open>The emulator implements the abstract device\<close>

lemma em_view_simps [simp]:
  "v_zones (em_view e) = length (em_zones e)"
  "v_size (em_view e) = unat (em_zoneSectors e)"
  "v_wp (em_view e) z = unat (zs_writePointer (em_zones e ! z)) - z * unat (em_zoneSectors e)"
  "v_sector (em_view e) z k = sector k (zs_data (em_zones e ! z))"
  by (simp_all add: em_view_def)

lemma unat_em_zone_lba:
  assumes "em_inv e" and "z < length (em_zones e)" and "k \<le> unat (em_zoneSectors e)"
  shows "unat (zone_lba (em_view e) z k) = z * unat (em_zoneSectors e) + k"
proof -
  have "z * unat (em_zoneSectors e) + k < 2 ^ 64" using em_zone_end_lt [OF assms(1,2)] assms(3) by simp
  then show ?thesis unfolding zone_lba_def em_view_simps by (rule unat_u64_of_nat)
qed

lemma em_opened_same_data:
  "em_opened e idx e' \<Longrightarrow> idx < length (em_zones e) \<Longrightarrow> same_data (em_view e) (em_view e')"
  by (auto simp: same_data_def fun_eq_iff em_opened_simps)

lemma em_OpenZone_same_data:
  "em_inv e \<Longrightarrow> em_OpenZone e lba = (r, e') \<Longrightarrow> same_data (em_view e) (em_view e')"
  by (auto simp: em_OpenZone_def em_zoneIndex_eq split: if_splits sum.splits
      dest!: em_openZoneLocked_cases intro: em_opened_same_data)

lemma em_CloseZone_same_data:
  "em_inv e \<Longrightarrow> em_CloseZone e lba = (r, e') \<Longrightarrow> same_data (em_view e) (em_view e')"
  by (auto simp: em_CloseZone_def em_zoneIndex_eq Let_def same_data_def fun_eq_iff nth_list_update
      split: if_splits)

lemma em_WriteSectors_written:
  assumes inv: "em_inv e" and z: "z < length (em_zones e)" "k < unat (em_zoneSectors e)"
    and data: "data \<noteq> []" "length data < 2 ^ 63"
    and w: "em_WriteSectors e (zone_lba (em_view e) z k) data = (Inr (), e')"
  shows "k = v_wp (em_view e) z \<and> length data mod sectorSize = 0 \<and>
         k + length data div sectorSize \<le> unat (em_zoneSectors e) \<and> written (em_view e) z k data (em_view e')"
proof -
  let ?zs = "unat (em_zoneSectors e)"
  have lba: "unat (zone_lba (em_view e) z k) = z * ?zs + k"
    using inv z by (intro unat_em_zone_lba) auto
  then have "unat (zone_lba (em_view e) z k) div ?zs = z" using z by simp
  then obtain e1 n s c k' where op: "em_opened e z e1" and n: "length data = sectorSize * n"
    and wp: "zone_lba (em_view e) z k = zs_writePointer (em_zones e ! z)"
    and k': "unat (zone_lba (em_view e) z k) = z * ?zs + k'" "k' + n \<le> ?zs"
    and end_lba: "unat (zone_lba (em_view e) z k + of_nat n) = z * ?zs + k + n"
    and e': "e' = e1\<lparr>em_zones := (em_zones e1)[z := em_append (em_zones e1 ! z) k' data s], em_openCount := c\<rparr>"
    using em_WriteSectors_cases [OF inv data(2,1) w] lba by auto
  have kk: "k' = k" using lba k' by simp
  note simps = em_opened_simps [OF op z(1)]
  have dl: "sectorSize * (k + n) \<le> length (zs_data (em_zones e ! z))"
    using em_inv_data_length [OF inv z(1)] k' kk by simp
  have "written (em_view e) z k data (em_view e')"
    using z n simps end_lba wp unfolding written_def e' kk
    by (auto simp: nth_list_update em_append_def fun_eq_iff sector_blit [OF n dl])
  then show ?thesis using n lba wp k' kk by simp
qed

lemma em_ReadSectors_in_zone:
  assumes inv: "em_inv e" and z: "z < length (em_zones e)" and c: "c < 2 ^ 32"
    and wp: "k + c \<le> unat (zs_writePointer (em_zones e ! z)) - z * unat (em_zoneSectors e)"
  shows "em_ReadSectors e (zone_lba (em_view e) z k) (of_nat c) =
           Inr (concat (map (v_sector (em_view e) z) [k..<k + c]))"
proof -
  let ?zs = "unat (em_zoneSectors e)"
  have kc: "k + c \<le> ?zs" using wp em_inv_zone [OF inv z] by (auto simp: em_zone_ok_def)
  have lba: "unat (zone_lba (em_view e) z k) = z * ?zs + k"
    using inv z kc by (intro unat_em_zone_lba) auto
  have cnt: "unat (of_nat c :: u32) = c" using c by (simp add: unat_of_nat)
  have "em_ReadSectors e (zone_lba (em_view e) z k) (of_nat c) =
      Inr (concat (map (em_sector e) [z * ?zs + k..<z * ?zs + k + c]))"
    using em_ReadSectors_eq [OF inv, of "zone_lba (em_view e) z k" "of_nat c"]
      em_zone_end_lt(1) [OF inv z] kc by (simp add: lba cnt)
  also have "map (em_sector e) [z * ?zs + k..<z * ?zs + k + c] = map (v_sector (em_view e) z) [k..<k + c]"
    using kc by (intro nth_equalityI) (auto simp: em_sector_def add.assoc)
  finally show ?thesis .
qed

lemma em_ResetZone_was_reset:
  assumes inv: "em_inv e" and z: "z < length (em_zones e)"
    and r: "em_ResetZone e (zone_lba (em_view e) z 0) = (Inr (), e')"
  shows "was_reset (em_view e) z (em_view e')"
proof -
  let ?zs = "unat (em_zoneSectors e)"
  have "unat (zone_lba (em_view e) z 0) = z * ?zs" using unat_em_zone_lba [OF inv z, of 0] by simp
  then have "em_zoneIndex e (zone_lba (em_view e) z 0) = Inr z"
    using inv z by (simp add: em_zoneIndex_eq em_inv_def)
  then show ?thesis
    using r unat_em_zoneStartLBA [OF inv z] z
    by (auto simp: em_ResetZone_def Let_def was_reset_def fun_eq_iff nth_list_update split: if_splits)
qed

interpretation em: zoned_device em_dev em_inv em_view
proof (unfold_locales, goal_cases)
  case (1 d)
  have "unat (em_Capacity d) = length (em_zones d) * unat (em_zoneSectors d)"
    by (rule unat_em_Capacity [OF 1])
  from u64_eq_of_nat [OF this] show ?case using 1 by (simp add: em_dev_def em_inv_def)
next
  case (2 d z)
  then show ?case using em_inv_zone [of d z] by (auto simp: em_zone_ok_def)
next
  case (3 d z k)
  then show ?case using em_inv_data_length [of d z] by simp
next
  case (4 d lba r d')
  then show ?case by (auto simp: em_dev_def intro: em_OpenZone_inv em_OpenZone_same_data)
next
  case (5 d lba r d')
  then show ?case by (auto simp: em_dev_def intro: em_CloseZone_inv em_CloseZone_same_data)
next
  case (6 d data lba e d')
  then have w: "em_WriteSectors d lba data = (Inl e, d')" by (simp add: em_dev_def)
  then have "data \<noteq> []" by (auto simp: em_WriteSectors_def)
  then show ?case using em_WriteSectors_cases [OF 6(1,2) _ w] by (auto intro: em_opened_same_data)
next
  case (7 d z k data d')
  then show ?case using em_WriteSectors_written [of d z k data d'] em_WriteSectors_inv [of d data _ "Inr ()" d']
    by (auto simp: em_dev_def)
next
  case (8 d z c k)
  then show ?case by (simp add: em_dev_def em_ReadSectors_in_zone)
next
  case (9 d z d')
  then show ?case using em_ResetZone_was_reset [of d z d'] em_ResetZone_inv [of d _ "Inr ()" d']
    by (auto simp: em_dev_def)
next
  case (10 d lba e d')
  then show ?case by (auto simp: em_dev_def em_ResetZone_def Let_def split: sum.splits)
qed

section \<open>Runs of the device\<close>

lemma em_New_inv:
  assumes new: "em_New cfg = Inr e" and small: "ec_ZoneCount cfg * ec_ZoneSizeMB cfg < 2 ^ 44"
  shows "em_inv e"
proof -
  have pos: "0 < ec_ZoneCount cfg" "0 < ec_ZoneSizeMB cfg" "0 < ec_MaxOpenZones cfg"
    using new by (auto simp: em_New_def split: if_splits)
  then obtain n mb where n: "ec_ZoneCount cfg = int n" "0 < n" and mb: "ec_ZoneSizeMB cfg = int mb" "0 < mb"
    by (metis zero_less_imp_eq_int)
  have "int (n * mb) < int (2 ^ 44)" using small n mb by simp
  then have nmb: "n * mb < 2 ^ 44" by (simp only: of_nat_less_iff)
  have mble: "mb \<le> n * mb" using n by simp
  define zs :: u64 where "zs = of_int (ec_ZoneSizeMB cfg) * 1024 * 1024 div 512"
  have "zs = of_nat (mb * 1048576) div 512" unfolding zs_def mb by (simp add: mult.commute)
  moreover have "unat (of_nat (mb * 1048576) :: u64) = mb * 1048576"
    using le_less_trans [OF mble nmb] by (intro unat_u64_of_nat) simp
  ultimately have zs: "unat zs = mb * 2048" by (simp only: unat_div_distrib) simp
  then have zspos: "0 < unat zs" using mb by simp
  have wp: "unat (of_nat i * zs) = i * unat zs" if "i < n" for i
  proof -
    have i: "i * mb < 2 ^ 44" using that nmb by (meson less_imp_le_nat mult_le_mono1 le_less_trans)
    have "i \<le> i * mb" using mb by simp
    then have "unat (of_nat i :: u64) = i" using le_less_trans [OF _ i, of i] by (intro unat_u64_of_nat) simp
    then show ?thesis using i zs by (subst unat_mult_lt) auto
  qed
  have e: "e = \<lparr>em_zones = map (\<lambda>i. \<lparr>zs_state = ZoneStateEmpty, zs_writePointer = of_nat i * zs,
                              zs_data = zeros (unat zs * sectorSize)\<rparr>) [0..<n],
                em_zoneCount = int n, em_zoneSectors = zs,
                em_maxOpenZones = ec_MaxOpenZones cfg, em_openCount = 0\<rparr>"
    using new pos n by (simp add: em_New_def Let_def zs_def)
  have "em_zone_ok (unat zs) i \<lparr>zs_state = ZoneStateEmpty, zs_writePointer = of_nat i * zs,
                              zs_data = zeros (unat zs * sectorSize)\<rparr>" if "i < n" for i
    using wp [OF that] zspos by (auto simp: em_zone_ok_def mult.commute [of _ sectorSize])
  moreover have "filter (\<lambda>z. isOpen (zs_state z)) (em_zones e) = []"
    unfolding e by (auto simp: filter_empty_conv isOpen_def)
  ultimately show ?thesis
    using pos nmb zs mb unfolding e em_inv_def by (simp add: mult.commute [of n])
qed

lemma em_step_inv: "em_step e e' \<Longrightarrow> em_inv e \<Longrightarrow> em_inv e'"
  by (auto elim!: em_stepE intro: em_ops_inv)


lemma em_reachable_inv:
  "em_reachable cfg e \<Longrightarrow> ec_ZoneCount cfg * ec_ZoneSizeMB cfg < 2 ^ 44 \<Longrightarrow> em_inv e"
  by (induction rule: em_reachable.induct) (auto intro: em_New_inv em_step_inv)

lemma zone_step_legal_same:
  "zs_writePointer z' = zs_writePointer z \<Longrightarrow> zs_data z' = zs_data z \<Longrightarrow>
     zone_edge (zs_state z) (zs_state z') \<Longrightarrow> zone_step_legal zs i z z'"
  by (simp add: zone_step_legal_def)

lemma zone_edge_simps [simp]:
  "zone_edge s s" "zone_edge s ZoneStateEmpty" "zone_edge s ZoneStateFull"
  "zone_edge ZoneStateEmpty ZoneStateImplicitOpen" "zone_edge ZoneStateEmpty ZoneStateExplicitOpen"
  "zone_edge ZoneStateClosed ZoneStateImplicitOpen" "zone_edge ZoneStateClosed ZoneStateExplicitOpen"
  "zone_edge ZoneStateImplicitOpen ZoneStateExplicitOpen"
  "zone_edge ZoneStateImplicitOpen ZoneStateClosed" "zone_edge ZoneStateExplicitOpen ZoneStateClosed"
  by (auto simp: zone_edge_def)

lemma em_openZoneLocked_legal:
  assumes "em_openZoneLocked e idx ex = (r, e')" and "idx < length (em_zones e)"
  shows "zone_step_legal zs i (em_zones e ! i) (em_zones e' ! i)"
  using assms
  by (intro zone_step_legal_same)
    (auto simp: em_openZoneLocked_def Let_def nth_list_update
      split: zone_state.splits if_splits)

lemma em_CloseZone_legal:
  assumes "em_inv e" and "em_CloseZone e lba = (r, e')"
  shows "zone_step_legal zs i (em_zones e ! i) (em_zones e' ! i)"
  using assms
  by (intro zone_step_legal_same)
    (auto simp: em_CloseZone_def em_zoneIndex_eq Let_def nth_list_update
      split: if_splits)

lemma em_FinishZone_legal:
  assumes inv: "em_inv e" and "em_FinishZone e lba = (r, e')"
  shows "zone_step_legal (unat (em_zoneSectors e)) i (em_zones e ! i) (em_zones e' ! i)"
proof -
  have "unat (zs_writePointer (em_zones e ! j)) \<le> unat (em_zoneStartLBA e j + em_zoneSectors e)"
    if "j < length (em_zones e)" for j
    using em_inv_zone [OF inv that] unat_em_zoneEnd [OF inv that] by (simp add: em_zone_ok_def)
  then show ?thesis
    using assms
    by (auto simp: em_FinishZone_def em_zoneIndex_eq Let_def nth_list_update
        zone_step_legal_def split: if_splits)
qed

lemma em_ResetZone_legal:
  assumes inv: "em_inv e" and "em_ResetZone e lba = (r, e')"
  shows "zone_step_legal (unat (em_zoneSectors e)) i (em_zones e ! i) (em_zones e' ! i)"
  using assms unat_em_zoneStartLBA [OF inv]
  by (auto simp: em_ResetZone_def em_zoneIndex_eq Let_def nth_list_update
      zone_step_legal_def split: if_splits)

lemma em_WriteSectors_edge:
  assumes inv: "em_inv e" and w: "em_WriteSectors e lba data = (r, e')"
  shows "zone_edge (zs_state (em_zones e ! i)) (zs_state (em_zones e' ! i))"
  using w inv
  by (auto simp: em_WriteSectors_def em_writeState_def em_openZoneLocked_def em_writeOpened_def
      em_zoneIndex_eq Let_def nth_list_update
      split: if_splits zone_state.splits)

lemma em_WriteSectors_legal:
  assumes inv: "em_inv e" and len: "length data < 2 ^ 63" and w: "em_WriteSectors e lba data = (r, e')"
    and i: "i < length (em_zones e)"
  shows "zone_step_legal (unat (em_zoneSectors e)) i (em_zones e ! i) (em_zones e' ! i)"
proof (cases "data = []")
  case True
  then show ?thesis using w by (auto simp: em_WriteSectors_def zone_step_legal_def)
next
  case False
  note edge = em_WriteSectors_edge [OF inv w, of i]
  note cases = em_WriteSectors_cases [OF inv len False w]
  show ?thesis
  proof (cases r)
    case (Inl err)
    then show ?thesis using cases edge by (auto intro!: zone_step_legal_same simp: em_opened_simps)
  next
    case (Inr u)
    then obtain e1 idx k n s c where c: "idx < length (em_zones e)" "em_opened e idx e1"
        "length data = sectorSize * n" "lba = zs_writePointer (em_zones e ! idx)"
        "unat lba = idx * unat (em_zoneSectors e) + k" "k + n \<le> unat (em_zoneSectors e)"
        "unat (lba + of_nat n) = unat lba + n"
        "e' = e1\<lparr>em_zones := (em_zones e1)[idx := em_append (em_zones e1 ! idx) k data s], em_openCount := c\<rparr>"
      using cases by auto
    note o = em_opened_simps [OF c(2,1)]
    have "sector j (blit (sectorSize * k) data (zs_data (em_zones e ! idx))) = sector j (zs_data (em_zones e ! idx))"
      if "j < k" for j
      using that c(3,6) em_inv_data_length [OF inv c(1)] by (subst sector_blit [OF c(3)]) auto
    then show ?thesis
      using edge c o i unfolding zone_step_legal_def
      by (cases "i = idx") (auto simp: em_append_def)
  qed
qed

lemma em_step_legal:
  assumes step: "em_step e e'" and inv: "em_inv e" and i: "i < length (em_zones e)"
  shows "zone_step_legal (unat (em_zoneSectors e)) i (em_zones e ! i) (em_zones e' ! i)"
  using step
proof cases
  case (step_open lba r)
  then show ?thesis using inv
    by (auto simp: em_OpenZone_def em_zoneIndex_eq zone_step_legal_def split: if_splits
        dest!: em_openZoneLocked_legal [where i = i and zs = "unat (em_zoneSectors e)"])
qed (use inv i in \<open>auto intro: em_CloseZone_legal em_FinishZone_legal em_ResetZone_legal em_WriteSectors_legal\<close>)

lemma em_write_then_read:
  assumes inv: "em_inv e" and data: "data \<noteq> []" "length data < sectorSize * 2 ^ 32"
    and w: "em_WriteSectors e lba data = (Inr (), e')"
  shows "em_ReadSectors e' lba (of_nat (length data div sectorSize)) = Inr data"
proof -
  let ?zs = "unat (em_zoneSectors e)"
  have len: "length data < 2 ^ 63" using data(2) by simp
  obtain e1 idx k n s c where c: "idx < length (em_zones e)" "em_opened e idx e1" "em_inv e'"
      "length data = sectorSize * n" "unat lba = idx * ?zs + k" "k + n \<le> ?zs"
      "unat (lba + of_nat n) = unat lba + n" "lba = zs_writePointer (em_zones e ! idx)"
      "e' = e1\<lparr>em_zones := (em_zones e1)[idx := em_append (em_zones e1 ! idx) k data s], em_openCount := c\<rparr>"
    using em_WriteSectors_cases [OF inv len data(1) w] by auto
  note o = em_opened_simps [OF c(2,1)]
  have z: "idx < length (em_zones e')" "em_zoneSectors e' = em_zoneSectors e" using c(1,9) o by auto
  have wp: "unat (zs_writePointer (em_zones e' ! idx)) - idx * ?zs = k + n"
    using c o by (simp add: em_append_def)
  have cnt: "length data div sectorSize = n" "n < 2 ^ 32" using c(4) data(2) by auto
  have lba: "zone_lba (em_view e') idx k = lba"
    using u64_eq_of_nat [OF c(5)] z by (simp add: zone_lba_def)
  have "map (v_sector (em_view e') idx) [k..<k + n] = map (\<lambda>j. sector j data) [0..<n]"
    using c o em_inv_data_length [OF inv c(1)]
    by (intro nth_equalityI) (auto simp: em_append_def sector_blit [OF c(4)])
  then show ?thesis
    using em_ReadSectors_in_zone [OF c(3) z(1) cnt(2), of k] wp z cnt concat_sectors [OF c(4)] lba by simp
qed

lemma em_out_of_order:
  assumes "em_inv e" and "data \<noteq> []" and "length data mod sectorSize = 0"
    and "unat lba < length (em_zones e) * unat (em_zoneSectors e)"
    and "lba \<noteq> zs_writePointer (em_zones e ! (unat lba div unat (em_zoneSectors e)))"
  shows "\<exists>err. em_WriteSectors e lba data = (Inl err, e) \<and> errors_Is err ErrOutOfOrder"
  using assms by (simp add: em_WriteSectors_def em_zoneIndex_eq less_mult_imp_div_less)

lemma em_ReadSectors_wrap:
  assumes inv: "em_inv e" and lba: "length (em_zones e) * unat (em_zoneSectors e) \<le> unat lba"
    and wrap: "2 ^ 64 \<le> unat lba + unat count"
      "unat lba + unat count - 2 ^ 64 \<le> length (em_zones e) * unat (em_zoneSectors e)"
  shows "em_ReadSectors e lba count = Inr (zeros (unat count * sectorSize))"
proof -
  let ?zs = "unat (em_zoneSectors e)"
  have pos: "0 < ?zs" using inv by (simp add: em_inv_def)
  have "unat lba < 2 ^ 64" by (rule unat_u64_lt)
  then have "count \<noteq> 0" using wrap(1) by auto
  have "unat (lba + ucast count) = unat lba + unat count - 2 ^ 64"
    using wrap(1) unat_u64_lt [of lba] unsigned_less [of count, where ?'a = nat]
    by (simp add: unat_plus_if_size word_size)
  then have "\<not> lba + ucast count > em_Capacity e"
    using wrap(2) unat_em_Capacity [OF inv] by (simp add: word_less_nat_alt)
  moreover have "length (em_zones e) \<le> unat lba div ?zs"
    using lba pos by (simp add: less_eq_div_iff_mult_less_eq)
  then have "em_read_loop e r o1 lba res = res" for r o1 res
    using inv by (subst em_read_loop.simps) (simp add: em_inv_def unat_div_distrib)
  ultimately show ?thesis using \<open>count \<noteq> 0\<close> by (simp add: em_ReadSectors_def)
qed

section \<open>Properties\<close>

text \<open>A device of two zones with two sectors each, the first one half written.\<close>

definition em_demo :: Emulator where
  "em_demo = \<lparr>em_zones = [\<lparr>zs_state = ZoneStateImplicitOpen, zs_writePointer = 1,
                            zs_data = replicate 512 7 @ zeros 512\<rparr>,
                          \<lparr>zs_state = ZoneStateEmpty, zs_writePointer = 2, zs_data = zeros 1024\<rparr>],
              em_zoneCount = 2, em_zoneSectors = 2, em_maxOpenZones = 1, em_openCount = 1\<rparr>"

lemma all_less_two: "(\<forall>i < 2. P i) \<longleftrightarrow> P 0 \<and> P (1::nat)"
  by (auto simp: less_2_cases_iff)

lemma em_demo_inv: "em_inv em_demo"
proof -
  have "em_zone_ok 2 0 \<lparr>zs_state = ZoneStateImplicitOpen, zs_writePointer = 1,
                          zs_data = replicate 512 7 @ zeros 512\<rparr>"
    unfolding em_zone_ok_def all_less_two by (simp add: sector_def zeros_def)
  moreover have "em_zone_ok 2 1 \<lparr>zs_state = ZoneStateEmpty, zs_writePointer = 2, zs_data = zeros 1024\<rparr>"
    unfolding em_zone_ok_def all_less_two by (simp add: sector_def zeros_def)
  ultimately show ?thesis
    by (simp add: em_inv_def em_demo_def All_less_Suc isOpen_def)
qed

text \<open>
  C19: in every state the emulator can reach from its constructor by any sequence of calls, the
  open-zone counter is exact and within the limit, every write pointer lies inside its zone, a zone
  is FULL exactly when its pointer is at the end, and nothing above a pointer is written
  (for a total capacity below 16 EiB, so that LBAs do not wrap).
\<close>

theorem em_reachable_invariant:
  assumes "em_reachable cfg e" and "ec_ZoneCount cfg * ec_ZoneSizeMB cfg < 2 ^ 44"
  shows "em_inv e"
  using assms by (rule em_reachable_inv)

theorem em_reachable_invariant_witness:
  "\<exists>e0. em_New \<lparr>ec_ZoneCount = 2, ec_ZoneSizeMB = 1, ec_MaxOpenZones = 1\<rparr> = Inr e0 \<and>
     em_inv (snd (em_WriteSectors (snd (em_OpenZone e0 0)) 0 (zeros 512)))"
proof -
  let ?cfg = "\<lparr>ec_ZoneCount = 2, ec_ZoneSizeMB = 1, ec_MaxOpenZones = 1\<rparr>"
  obtain e0 where new: "em_New ?cfg = Inr e0" by (simp add: em_New_def Let_def)
  have "em_step e0 (snd (em_OpenZone e0 0))" by (metis step_open prod.collapse)
  then have "em_reachable ?cfg (snd (em_OpenZone e0 0))" using new by (blast intro: em_reachable.intros)
  moreover have "length (zeros 512) < 2 ^ 63" by simp
  then have "em_step (snd (em_OpenZone e0 0)) (snd (em_WriteSectors (snd (em_OpenZone e0 0)) 0 (zeros 512)))"
    by (metis step_write prod.collapse)
  ultimately have "em_reachable ?cfg (snd (em_WriteSectors (snd (em_OpenZone e0 0)) 0 (zeros 512)))"
    by (rule reach_step)
  then have "em_inv (snd (em_WriteSectors (snd (em_OpenZone e0 0)) 0 (zeros 512)))"
    by (rule em_reachable_invariant) simp
  with new show ?thesis by blast
qed

text \<open>
  C18: the emulator, through the \<^verbatim>\<open>ZonedDevice\<close> interface, implements the abstract zoned device: a
  successful write appends exactly its data at the zone's write pointer, an error changes no data and
  no pointer, a read below the pointer returns the sectors written there, a reset empties one zone
  and touches no other.
\<close>

theorem em_implements_device: "zoned_device em_dev em_inv em_view"
  by (rule em.zoned_device_axioms)

text \<open>
  One call changes a zone only as ZBC allows: its state follows an edge of the zone state machine
  and, unless the zone is reset, the write pointer never moves back and every sector already
  written keeps its content.
\<close>

theorem em_zone_append_only:
  assumes "em_step e e'" and "em_inv e" and "i < length (em_zones e)"
  shows "zone_step_legal (unat (em_zoneSectors e)) i (em_zones e ! i) (em_zones e' ! i)"
  using assms by (rule em_step_legal)

theorem em_zone_append_only_witness:
  "zone_step_legal 2 0 (em_zones em_demo ! 0) (em_zones (snd (em_WriteSectors em_demo 1 (zeros 512))) ! 0)"
proof -
  have "length (zeros 512) < 2 ^ 63" by simp
  then have "em_step em_demo (snd (em_WriteSectors em_demo 1 (zeros 512)))"
    by (metis step_write prod.collapse)
  from em_zone_append_only [OF this em_demo_inv, of 0] show ?thesis by (simp add: em_demo_def)
qed

text \<open>What a successful \<^verbatim>\<open>WriteSectors\<close> stored is what \<^verbatim>\<open>ReadSectors\<close> returns at the same LBA.\<close>

theorem em_write_read:
  assumes "em_inv e" and "data \<noteq> []" and "length data < sectorSize * 2 ^ 32"
    and "em_WriteSectors e lba data = (Inr (), e')"
  shows "em_ReadSectors e' lba (of_nat (length data div sectorSize)) = Inr data"
  using assms by (rule em_write_then_read)

theorem em_write_read_witness:
  "em_ReadSectors (snd (em_WriteSectors em_demo 1 (replicate 512 9))) 1 1 = Inr (replicate 512 9)"
proof -
  have "em_WriteSectors em_demo 1 (replicate 512 9) =
      (Inr (), snd (em_WriteSectors em_demo 1 (replicate 512 9)))"
    by (simp add: em_demo_def em_WriteSectors_def em_zoneIndex_def em_writeState_def em_writeOpened_def
        em_zoneStartLBA_def Let_def)
  from em_write_read [OF em_demo_inv _ _ this] show ?thesis by simp
qed

text \<open>
  A write of whole sectors anywhere but at the zone's write pointer is refused with
  \<^verbatim>\<open>ErrOutOfOrder\<close> and leaves the device exactly as it was.
\<close>

theorem em_write_out_of_order:
  assumes "em_inv e" and "data \<noteq> []" and "length data mod sectorSize = 0"
    and "unat lba < length (em_zones e) * unat (em_zoneSectors e)"
    and "lba \<noteq> zs_writePointer (em_zones e ! (unat lba div unat (em_zoneSectors e)))"
  shows "\<exists>err. em_WriteSectors e lba data = (Inl err, e) \<and> errors_Is err ErrOutOfOrder"
  using assms by (rule em_out_of_order)

theorem em_write_out_of_order_witness:
  "\<exists>err. em_WriteSectors em_demo 0 (zeros 512) = (Inl err, em_demo) \<and> errors_Is err ErrOutOfOrder"
  by (rule em_write_out_of_order [OF em_demo_inv]) (simp_all add: em_demo_def zeros_def)

text \<open>
  The capacity check of \<^verbatim>\<open>ReadSectors\<close> compares \<^verbatim>\<open>lba + uint64(count)\<close> after wrap-around: a read that
  starts beyond the end of the device and wraps past \<open>2\<^sup>6\<^sup>4\<close> is not refused with \<^verbatim>\<open>ErrInvalidLBA\<close> but
  answered with zeros.
\<close>

theorem em_read_wraps:
  assumes "em_inv e" and "length (em_zones e) * unat (em_zoneSectors e) \<le> unat lba"
    and "2 ^ 64 \<le> unat lba + unat count"
    and "unat lba + unat count - 2 ^ 64 \<le> length (em_zones e) * unat (em_zoneSectors e)"
  shows "em_ReadSectors e lba count = Inr (zeros (unat count * sectorSize))"
  using assms by (rule em_ReadSectors_wrap)

theorem em_read_wraps_witness: "em_ReadSectors em_demo 0xFFFFFFFFFFFFFFFF 2 = Inr (zeros 1024)"
  using em_read_wraps [OF em_demo_inv, where lba = "0xFFFFFFFFFFFFFFFF" and count = 2]
  by (simp add: em_demo_def)

end
