(* ===== verification/Segment.thy ===== *)
theory Segment
  imports Prelude
begin

text \<open>
  Physical addresses and logical segments, \<^verbatim>\<open>internal/ztl/segment.go\<close>: the packing of a zone number and
  a sector offset into one \<^verbatim>\<open>uint64\<close>, and the arithmetic that cuts the LBA space into segments.
\<close>

type_synonym PhysAddr = u64
type_synonym SegmentID = u64

definition offsetMask :: u64 where "offsetMask = push_bit 40 1 - 1"
definition zoneIDMask :: u64 where "zoneIDMask = push_bit 24 1 - 1"

definition EncodePhysAddr :: "u32 \<Rightarrow> u64 \<Rightarrow> PhysAddr" where
  "EncodePhysAddr zoneID offsetSectors = push_bit 40 (ucast zoneID) OR (offsetSectors AND offsetMask)"

definition ZoneID :: "PhysAddr \<Rightarrow> u32" where
  "ZoneID p = ucast (drop_bit 40 p AND zoneIDMask)"

definition OffsetSectors :: "PhysAddr \<Rightarrow> u64" where
  "OffsetSectors p = p AND offsetMask"

definition IsUnmapped :: "PhysAddr \<Rightarrow> bool" where
  "IsUnmapped p \<longleftrightarrow> p = 0"

definition LBAToSegmentID :: "u64 \<Rightarrow> u64 \<Rightarrow> SegmentID" where
  "LBAToSegmentID lba sectorsPerSegment = lba div sectorsPerSegment"

definition SegmentToLBARange :: "SegmentID \<Rightarrow> u64 \<Rightarrow> u64 \<times> u64" where
  "SegmentToLBARange segID sectorsPerSegment =
     (let startLBA = segID * sectorsPerSegment in (startLBA, startLBA + sectorsPerSegment))"

definition SegmentOffsetSectors :: "u64 \<Rightarrow> u64 \<Rightarrow> u64" where
  "SegmentOffsetSectors lba sectorsPerSegment = lba mod sectorsPerSegment"

section \<open>Packing and unpacking\<close>

lemma offsetMask_eq: "offsetMask = mask 40"
  by (simp add: offsetMask_def mask_eq_decr_exp push_bit_eq_mult)

lemma zoneIDMask_eq: "zoneIDMask = mask 24"
  by (simp add: zoneIDMask_def mask_eq_decr_exp push_bit_eq_mult)

lemmas phys_defs = EncodePhysAddr_def ZoneID_def OffsetSectors_def IsUnmapped_def offsetMask_eq zoneIDMask_eq

lemma bit_u32_bound: "unat (z::u32) < 2 ^ 24 \<Longrightarrow> 24 \<le> n \<Longrightarrow> \<not> bit z n"
  by (metis bit_take_bit_iff leD take_bit_nat_eq_self_iff unsigned_take_bit_eq unsigned_word_eqI)

lemma bit_u64_bound: "unat (w::u64) < 2 ^ 40 \<Longrightarrow> 40 \<le> n \<Longrightarrow> \<not> bit w n"
  by (metis bit_take_bit_iff leD take_bit_nat_eq_self_iff unsigned_take_bit_eq unsigned_word_eqI)

lemma ZoneID_Encode:
  assumes "unat z < 2 ^ 24"
  shows "ZoneID (EncodePhysAddr z off) = z"
proof (rule bit_word_eqI)
  fix n assume "n < LENGTH(32)"
  then show "bit (ZoneID (EncodePhysAddr z off)) n = bit z n"
    using bit_u32_bound [OF assms, of n] by (cases "n < 24") (auto simp: phys_defs bit_simps)
qed

lemma OffsetSectors_Encode:
  assumes "unat off < 2 ^ 40"
  shows "OffsetSectors (EncodePhysAddr z off) = off"
proof (rule bit_word_eqI)
  fix n assume "n < LENGTH(64)"
  then show "bit (OffsetSectors (EncodePhysAddr z off)) n = bit off n"
    using bit_u64_bound [OF assms, of n] by (cases "n < 40") (auto simp: phys_defs bit_simps)
qed

lemma Encode_decode: "EncodePhysAddr (ZoneID p) (OffsetSectors p) = p"
proof (rule bit_word_eqI)
  fix n assume "n < LENGTH(64)"
  then show "bit (EncodePhysAddr (ZoneID p) (OffsetSectors p)) n = bit p n"
    by (auto simp: phys_defs bit_simps)
qed

lemma Encode_inject:
  assumes "unat z < 2 ^ 24" "unat y < 2 ^ 24" "unat off < 2 ^ 40" "unat off' < 2 ^ 40"
  shows "EncodePhysAddr z off = EncodePhysAddr y off' \<longleftrightarrow> z = y \<and> off = off'"
  by (metis ZoneID_Encode OffsetSectors_Encode assms)

lemma Encode_0 [simp]: "EncodePhysAddr 0 0 = 0"
  by (simp add: EncodePhysAddr_def)

lemma IsUnmapped_Encode:
  assumes "unat z < 2 ^ 24" "unat off < 2 ^ 40"
  shows "IsUnmapped (EncodePhysAddr z off) \<longleftrightarrow> z = 0 \<and> off = 0"
  using Encode_inject [of z 0 off 0] assms by (simp add: IsUnmapped_def)

lemma decode_inject: "ZoneID p = ZoneID q \<Longrightarrow> OffsetSectors p = OffsetSectors q \<Longrightarrow> p = q"
  by (metis Encode_decode)

lemma unat_OffsetSectors: "unat (OffsetSectors p) < 2 ^ 40"
proof -
  have "OffsetSectors p = take_bit 40 p" by (simp add: phys_defs take_bit_eq_mask)
  then show ?thesis using take_bit_nat_less_exp [of 40 "unat p"] by (simp add: unsigned_take_bit_eq)
qed

lemma unat_ZoneID: "unat (ZoneID p) < 2 ^ 24"
proof -
  have "ZoneID p = take_bit 24 (ucast (drop_bit 40 p))"
    by (rule bit_word_eqI) (auto simp: phys_defs bit_simps)
  then show ?thesis using take_bit_nat_less_exp [of 24] by (simp add: unsigned_take_bit_eq)
qed

section \<open>Segments\<close>

lemma nat_div_eq_iff: "0 < s \<Longrightarrow> (x::nat) div s = q \<longleftrightarrow> q * s \<le> x \<and> x < q * s + s"
proof -
  assume s: "0 < s"
  show ?thesis
  proof
    assume "x div s = q"
    then show "q * s \<le> x \<and> x < q * s + s"
      using mult_div_mod_eq [of s x] mod_less_divisor [OF s, of x] by (simp add: mult.commute)
  qed (auto intro: div_nat_eqI simp: mult.commute)
qed

lemma segment_range_iff:
  assumes "0 < sps" and "unat seg * unat sps + unat sps < 2 ^ 64"
    and "SegmentToLBARange seg sps = (a, b)"
  shows "LBAToSegmentID lba sps = seg \<longleftrightarrow> a \<le> lba \<and> lba < b"
    and "unat a = unat seg * unat sps" and "unat b = unat a + unat sps"
proof -
  have ab: "a = seg * sps" "b = seg * sps + sps" using assms(3) by (auto simp: SegmentToLBARange_def Let_def)
  show a: "unat a = unat seg * unat sps" unfolding ab using assms(2) by (intro unat_mult_lt) simp
  then show b: "unat b = unat a + unat sps" using assms(2) ab by (simp add: unat_add_lt)
  have pos: "0 < unat sps" using assms(1) by (simp add: word_less_nat_alt)
  have "unat lba div unat sps = unat seg \<longleftrightarrow> unat a \<le> unat lba \<and> unat lba < unat a + unat sps"
    unfolding a by (rule nat_div_eq_iff [OF pos])
  then show "LBAToSegmentID lba sps = seg \<longleftrightarrow> a \<le> lba \<and> lba < b"
    using b by (simp add: LBAToSegmentID_def unat_div_distrib word_le_nat_alt
        word_less_nat_alt word_unat_eq_iff)
qed

section \<open>Properties\<close>

text \<open>
  Packing a zone number below \<open>2\<^sup>2\<^sup>4\<close> and a sector offset below \<open>2\<^sup>4\<^sup>0\<close> loses nothing, and unpacking
  any address and packing it again gives the address back.
\<close>

theorem phys_addr_roundtrip:
  assumes "unat z < 2 ^ 24" and "unat off < 2 ^ 40"
  shows "ZoneID (EncodePhysAddr z off) = z \<and> OffsetSectors (EncodePhysAddr z off) = off \<and>
         EncodePhysAddr (ZoneID p) (OffsetSectors p) = p"
  using assms by (simp add: ZoneID_Encode OffsetSectors_Encode Encode_decode)

theorem phys_addr_roundtrip_witness:
  "ZoneID (EncodePhysAddr 0xFFFFFF 0xFFFFFFFFFF) = 0xFFFFFF \<and>
   OffsetSectors (EncodePhysAddr 0xFFFFFF 0xFFFFFFFFFF) = 0xFFFFFFFFFF \<and>
   EncodePhysAddr (ZoneID 12345) (OffsetSectors 12345) = 12345"
  by (rule phys_addr_roundtrip) simp_all

text \<open>
  The address of sector 0 of zone 0 is the value that means "unmapped", and it is the only
  address with that meaning: a segment placed there cannot be told from one never written.
\<close>

theorem phys_addr_unmapped:
  assumes "unat z < 2 ^ 24" and "unat off < 2 ^ 40"
  shows "IsUnmapped (EncodePhysAddr z off) \<longleftrightarrow> z = 0 \<and> off = 0"
  using assms by (rule IsUnmapped_Encode)

theorem phys_addr_unmapped_witness:
  "IsUnmapped (EncodePhysAddr 0 0) \<and> \<not> IsUnmapped (EncodePhysAddr 0 1)"
  using phys_addr_unmapped [of 0 0] phys_addr_unmapped [of 0 1] by simp

text \<open>
  \<^verbatim>\<open>SegmentToLBARange\<close> returns exactly the LBAs that \<^verbatim>\<open>LBAToSegmentID\<close> sends to the segment, and the
  offset of an LBA in its segment is its distance from the segment's start.
\<close>

theorem segment_ranges:
  assumes "0 < sps" and "unat seg * unat sps + unat sps < 2 ^ 64"
    and "SegmentToLBARange seg sps = (a, b)"
  shows "(LBAToSegmentID lba sps = seg \<longleftrightarrow> a \<le> lba \<and> lba < b) \<and>
         (LBAToSegmentID lba sps = seg \<longrightarrow> SegmentOffsetSectors lba sps = lba - a)"
proof -
  note r = segment_range_iff [OF assms]
  have "SegmentOffsetSectors lba sps = lba - a" if "LBAToSegmentID lba sps = seg"
    using that assms(3)
    by (auto simp: SegmentOffsetSectors_def LBAToSegmentID_def SegmentToLBARange_def Let_def
        simp flip: minus_div_mult_eq_mod)
  then show ?thesis using r(1) by blast
qed

theorem segment_ranges_witness:
  "LBAToSegmentID 20 8 = 2 \<and> SegmentOffsetSectors 20 8 = 4"
  using segment_ranges [of 8 2 16 24 20] by (simp add: SegmentToLBARange_def)

end
