(* ===== verification/L2P.thy ===== *)
theory L2P
  imports Segment "HOL-Library.AList"
begin

text \<open>
  The two mapping tables of the translation layer: the logical-to-physical table of
  \<^verbatim>\<open>internal/ztl/l2p.go\<close> (an array of atomic words) and the reverse map of \<^verbatim>\<open>internal/ztl/p2l.go\<close>.
\<close>

section \<open>Logical to physical (l2p.go)\<close>

record L2PTable =
  l2p_entries :: "PhysAddr list"
  l2p_size :: u64

definition NewL2PTable :: "u64 \<Rightarrow> L2PTable" where
  "NewL2PTable totalSegments =
     \<lparr>l2p_entries = replicate (unat totalSegments) 0, l2p_size = totalSegments\<rparr>"

definition L2P_Get :: "L2PTable \<Rightarrow> SegmentID \<Rightarrow> PhysAddr" where
  "L2P_Get t segID = (if segID \<ge> l2p_size t then 0 else l2p_entries t ! unat segID)"

definition L2P_Set :: "L2PTable \<Rightarrow> SegmentID \<Rightarrow> PhysAddr \<Rightarrow> unit result \<times> L2PTable" where
  "L2P_Set t segID phys =
     (if segID \<ge> l2p_size t then (Inl (Errorf ''segment ID out of range''), t)
      else (Inr (), t\<lparr>l2p_entries := (l2p_entries t)[unat segID := phys]\<rparr>))"

definition L2P_CAS :: "L2PTable \<Rightarrow> SegmentID \<Rightarrow> PhysAddr \<Rightarrow> PhysAddr \<Rightarrow> bool \<times> L2PTable" where
  "L2P_CAS t segID old new =
     (if segID \<ge> l2p_size t then (False, t)
      else if l2p_entries t ! unat segID = old
      then (True, t\<lparr>l2p_entries := (l2p_entries t)[unat segID := new]\<rparr>)
      else (False, t))"

definition L2P_Snapshot :: "L2PTable \<Rightarrow> PhysAddr list" where
  "L2P_Snapshot t = map (\<lambda>i. l2p_entries t ! i) [0..<unat (l2p_size t)]"

fun store_from :: "nat \<Rightarrow> PhysAddr list \<Rightarrow> PhysAddr list \<Rightarrow> PhysAddr list" where
  "store_from i [] es = es"
| "store_from i (pa # snap) es = store_from (Suc i) snap (es[i := pa])"

definition L2P_LoadSnapshot :: "L2PTable \<Rightarrow> PhysAddr list \<Rightarrow> unit result \<times> L2PTable" where
  "L2P_LoadSnapshot t snap =
     (if of_nat (length snap) \<noteq> l2p_size t then (Inl (Errorf ''snapshot size does not match table size''), t)
      else (Inr (), t\<lparr>l2p_entries := store_from 0 snap (l2p_entries t)\<rparr>))"

definition L2P_Size :: "L2PTable \<Rightarrow> u64" where
  "L2P_Size t = l2p_size t"

text \<open>The array has the length the table says; every operation keeps it.\<close>

definition l2p_inv :: "L2PTable \<Rightarrow> bool" where
  "l2p_inv t \<longleftrightarrow> length (l2p_entries t) = unat (l2p_size t)"

section \<open>Physical to logical (p2l.go)\<close>

type_synonym p2lKey = "u32 \<times> u64"

text \<open>
  A Go map with its entries in the order of insertion. Go iterates over a map in an arbitrary
  order: \<open>ord\<close> below rearranges the entries, and the facts about \<open>IterateZone\<close> hold for every
  rearrangement.
\<close>

record P2LMap =
  p2l_entries :: "(p2lKey \<times> SegmentID) list"

definition NewP2LMap :: P2LMap where
  "NewP2LMap = \<lparr>p2l_entries = []\<rparr>"

definition p2l_key :: "PhysAddr \<Rightarrow> p2lKey" where
  "p2l_key phys = (ZoneID phys, OffsetSectors phys)"

definition P2L_Set :: "P2LMap \<Rightarrow> PhysAddr \<Rightarrow> SegmentID \<Rightarrow> P2LMap" where
  "P2L_Set m phys segID = m\<lparr>p2l_entries := AList.update (p2l_key phys) segID (p2l_entries m)\<rparr>"

definition P2L_Get :: "P2LMap \<Rightarrow> PhysAddr \<Rightarrow> SegmentID option" where
  "P2L_Get m phys = map_of (p2l_entries m) (p2l_key phys)"

definition P2L_Delete :: "P2LMap \<Rightarrow> PhysAddr \<Rightarrow> P2LMap" where
  "P2L_Delete m phys = m\<lparr>p2l_entries := AList.delete (p2l_key phys) (p2l_entries m)\<rparr>"

type_synonym map_order = "(p2lKey \<times> SegmentID) list \<Rightarrow> (p2lKey \<times> SegmentID) list"

text \<open>The calls \<^verbatim>\<open>fn(offset, segID)\<close> that \<^verbatim>\<open>IterateZone\<close> makes, in order.\<close>

definition P2L_IterateZone :: "map_order \<Rightarrow> P2LMap \<Rightarrow> u32 \<Rightarrow> (u64 \<times> SegmentID) list" where
  "P2L_IterateZone ord m zoneID =
     map (\<lambda>((z, off), segID). (off, segID)) (filter (\<lambda>((z, off), segID). z = zoneID) (ord (p2l_entries m)))"

definition P2L_Len :: "P2LMap \<Rightarrow> int" where
  "P2L_Len m = int (length (p2l_entries m))"

definition p2l_inv :: "P2LMap \<Rightarrow> bool" where
  "p2l_inv m \<longleftrightarrow> distinct (map fst (p2l_entries m))"

section \<open>Lemmas\<close>

lemma L2P_Get_New [simp]: "L2P_Get (NewL2PTable n) s = 0"
  by (simp add: L2P_Get_def NewL2PTable_def word_less_nat_alt not_le)

lemma l2p_inv_New [simp]: "l2p_inv (NewL2PTable n)"
  by (simp add: l2p_inv_def NewL2PTable_def)

lemma l2p_size_New [simp]: "l2p_size (NewL2PTable n) = n"
  by (simp add: NewL2PTable_def)

lemma L2P_Get_update:
  assumes "l2p_inv t" and "s < l2p_size t"
  shows "L2P_Get (t\<lparr>l2p_entries := (l2p_entries t)[unat s := p]\<rparr>) = (L2P_Get t)(s := p)"
    (is "L2P_Get ?t = _")
proof
  fix x
  have "unat s < length (l2p_entries t)"
    using assms by (simp add: l2p_inv_def word_less_nat_alt)
  then show "L2P_Get ?t x = ((L2P_Get t)(s := p)) x"
    using assms by (auto simp: L2P_Get_def nth_list_update word_unat_eq_iff [symmetric])
qed

lemma L2P_Set_ok:
  assumes "L2P_Set t s p = (Inr (), t')" and "l2p_inv t"
  shows "L2P_Get t' = (L2P_Get t)(s := p)" and "l2p_size t' = l2p_size t" and "l2p_inv t'"
    and "s < l2p_size t"
  using assms L2P_Get_update [of t s p]
  by (auto simp: L2P_Set_def l2p_inv_def not_le split: if_splits)

lemma L2P_Set_error: "L2P_Set t s p = (Inl e, t') \<Longrightarrow> t' = t \<and> l2p_size t \<le> s"
  by (auto simp: L2P_Set_def split: if_splits)

lemma L2P_CAS_cases:
  assumes "L2P_CAS t s old new = (b, t')" and "l2p_inv t"
  shows "l2p_inv t' \<and> l2p_size t' = l2p_size t \<and> (b \<longleftrightarrow> s < l2p_size t \<and> L2P_Get t s = old) \<and>
         L2P_Get t' = (if b then (L2P_Get t)(s := new) else L2P_Get t)"
proof (cases "s < l2p_size t")
  case True
  then have "L2P_Get t s = l2p_entries t ! unat s" by (auto simp: L2P_Get_def)
  then show ?thesis
    using assms True L2P_Get_update [OF assms(2) True, of new]
    by (auto simp: L2P_CAS_def l2p_inv_def not_le split: if_splits)
next
  case False
  then show ?thesis using assms by (auto simp: L2P_CAS_def split: if_splits)
qed

lemma length_store_from [simp]: "length (store_from i snap es) = length es"
  by (induction snap arbitrary: i es) auto

lemma nth_store_from:
  "i + length snap \<le> length es \<Longrightarrow> j < length es \<Longrightarrow>
     store_from i snap es ! j = (if i \<le> j \<and> j < i + length snap then snap ! (j - i) else es ! j)"
proof (induction snap arbitrary: i es)
  case Nil
  then show ?case by auto
next
  case (Cons pa snap)
  then show ?case by (cases "j = i") (auto simp: nth_Cons' Suc_diff_le)
qed

lemma L2P_LoadSnapshot_ok:
  assumes "L2P_LoadSnapshot t snap = (Inr (), t')" and "l2p_inv t" and "length snap < 2 ^ 64"
  shows "l2p_entries t' = snap" and "l2p_size t' = l2p_size t" and "l2p_inv t'"
proof -
  have len: "length snap = length (l2p_entries t)"
    using assms unat_u64_of_nat [OF assms(3)]
    by (auto simp: L2P_LoadSnapshot_def l2p_inv_def split: if_splits)
  have t': "t' = t\<lparr>l2p_entries := store_from 0 snap (l2p_entries t)\<rparr>"
    using assms by (auto simp: L2P_LoadSnapshot_def split: if_splits)
  show "l2p_entries t' = snap"
    unfolding t' using len by (auto intro!: nth_equalityI simp: nth_store_from)
  show "l2p_size t' = l2p_size t" "l2p_inv t'" using t' assms(2) by (auto simp: l2p_inv_def)
qed

lemma L2P_Snapshot_entries: "l2p_inv t \<Longrightarrow> L2P_Snapshot t = l2p_entries t"
  by (auto simp: L2P_Snapshot_def l2p_inv_def intro!: nth_equalityI)

lemma p2l_key_inject [simp]: "p2l_key p = p2l_key q \<longleftrightarrow> p = q"
  by (auto simp: p2l_key_def dest: decode_inject)

lemma P2L_Get_Set [simp]: "P2L_Get (P2L_Set m p s) = (P2L_Get m)(p := Some s)"
  by (auto simp: P2L_Get_def P2L_Set_def update_conv fun_eq_iff)

lemma P2L_Get_Delete [simp]: "P2L_Get (P2L_Delete m p) = (P2L_Get m)(p := None)"
  by (auto simp: P2L_Get_def P2L_Delete_def delete_conv fun_eq_iff)

lemma p2l_inv_Set [simp]: "p2l_inv m \<Longrightarrow> p2l_inv (P2L_Set m p s)"
  by (simp add: p2l_inv_def P2L_Set_def distinct_update)

lemma p2l_inv_Delete [simp]: "p2l_inv m \<Longrightarrow> p2l_inv (P2L_Delete m p)"
  by (simp add: p2l_inv_def P2L_Delete_def distinct_delete)

lemma p2l_New [simp]: "p2l_inv NewP2LMap" "P2L_Get NewP2LMap p = None"
  by (simp_all add: p2l_inv_def NewP2LMap_def P2L_Get_def)

text \<open>Whatever the iteration order, the calls are exactly the entries of the zone.\<close>

lemma set_P2L_IterateZone:
  assumes "p2l_inv m" and "\<And>xs. set (ord xs) = set xs"
  shows "(off, s) \<in> set (P2L_IterateZone ord m z) \<longleftrightarrow> map_of (p2l_entries m) (z, off) = Some s"
  using assms by (force simp: P2L_IterateZone_def p2l_inv_def map_of_eq_Some_iff)

section \<open>Properties\<close>

text \<open>
  A successful compare-and-swap is the assignment of one entry, it succeeds exactly when the
  entry still holds the expected address, and a failed one changes nothing. The table keeps its size.
\<close>

theorem l2p_cas:
  assumes "L2P_CAS t s old new = (b, t')" and "l2p_inv t"
  shows "l2p_inv t' \<and> l2p_size t' = l2p_size t \<and> (b \<longleftrightarrow> s < l2p_size t \<and> L2P_Get t s = old) \<and>
         L2P_Get t' = (if b then (L2P_Get t)(s := new) else L2P_Get t)"
  using assms by (rule L2P_CAS_cases)

theorem l2p_cas_witness:
  "fst (L2P_CAS (NewL2PTable 4) 2 0 77) \<and> L2P_Get (snd (L2P_CAS (NewL2PTable 4) 2 0 77)) 2 = 77"
  using l2p_cas [of "NewL2PTable 4" 2 0 77 "fst (L2P_CAS (NewL2PTable 4) 2 0 77)"
      "snd (L2P_CAS (NewL2PTable 4) 2 0 77)"]
  by simp

text \<open>
  Loading the snapshot of a table into any table of the same size makes the two answer every
  lookup alike; a snapshot of another size is refused and changes nothing.
\<close>

theorem l2p_snapshot_roundtrip:
  assumes "l2p_inv t" and "l2p_inv u" and "L2P_LoadSnapshot u (L2P_Snapshot t) = (r, u')"
  shows "if l2p_size u = l2p_size t then r = Inr () \<and> u' = t else u' = u \<and> (\<exists>e. r = Inl e)"
proof -
  have len: "length (L2P_Snapshot t) = unat (l2p_size t)" by (simp add: L2P_Snapshot_def)
  show ?thesis
  proof (cases "l2p_size u = l2p_size t")
    case True
    then have "r = Inr ()" using assms(3) len by (auto simp: L2P_LoadSnapshot_def)
    then have "l2p_entries u' = L2P_Snapshot t" "l2p_size u' = l2p_size u"
      using L2P_LoadSnapshot_ok [of u "L2P_Snapshot t" u'] assms len unat_u64_lt by auto
    then show ?thesis using True \<open>r = Inr ()\<close> L2P_Snapshot_entries [OF assms(1)] by simp
  next
    case False
    then show ?thesis using assms(3) len by (auto simp: L2P_LoadSnapshot_def split: if_splits)
  qed
qed

theorem l2p_snapshot_roundtrip_witness:
  "L2P_LoadSnapshot (NewL2PTable 3) (L2P_Snapshot (snd (L2P_Set (NewL2PTable 3) 1 9))) =
     (Inr (), snd (L2P_Set (NewL2PTable 3) 1 9))"
proof -
  have "l2p_inv (snd (L2P_Set (NewL2PTable 3) 1 9)) \<and> l2p_size (snd (L2P_Set (NewL2PTable 3) 1 9)) = 3"
    by (simp add: L2P_Set_def NewL2PTable_def l2p_inv_def)
  then show ?thesis
    using l2p_snapshot_roundtrip [of "snd (L2P_Set (NewL2PTable 3) 1 9)" "NewL2PTable 3",
        OF _ _ prod.collapse [symmetric]]
    by (auto simp: prod_eq_iff)
qed

end
