(* ===== verification/ZoneManager.thy ===== *)
theory ZoneManager
  imports Complex_Main Emulator
begin

text \<open>
  The zone manager, \<^verbatim>\<open>internal/ztl/zone_manager.go\<close>: per-zone bookkeeping, the list of free zones,
  the LRU list of open zones and the choice of a victim for garbage collection. Operations that
  call the device take its methods \<open>ops\<close> and its state and return the state they leave.

  \<^verbatim>\<open>container/list\<close> elements have an identity, which \<^verbatim>\<open>openSet\<close> stores: the model numbers them.
  \<open>GCScore\<close> is the exact quotient; the \<^verbatim>\<open>float64\<close> quotient of the source orders zones the same way
  as long as a zone holds fewer than \<open>2\<^sup>2\<^sup>6\<close> segments, since two different quotients are then at least
  \<open>2\<^sup>-\<^sup>5\<^sup>2\<close> apart. Indexing \<^verbatim>\<open>zm.zones[zoneID]\<close> with a zone of the free list or of the open list
  is in range by the invariant \<open>zm_inv\<close>.
\<close>

section \<open>State\<close>

record ZoneInfo =
  zi_ID :: u32
  zi_State :: zone_state
  zi_WritePointer :: u64
  zi_StartLBA :: u64
  zi_SizeSectors :: u64
  zi_ValidSegs :: u32
  zi_TotalSegs :: u32
  zi_Frozen :: bool

record ZoneManager =
  zm_zones :: "ZoneInfo list"
  zm_freeList :: "u32 list"
  zm_openList :: "(nat \<times> u32) list"
  zm_openSet :: "(u32 \<times> nat) list"
  zm_frozenSet :: "u32 list"
  zm_maxOpenZones :: int
  zm_nextEl :: nat

definition GCScore :: "ZoneInfo \<Rightarrow> rat" where
  "GCScore z =
     (if zi_TotalSegs z = 0 then 0
      else let invalid = zi_TotalSegs z - zi_ValidSegs z
           in of_nat (unat invalid) / of_nat (unat (zi_TotalSegs z)))"

definition NewZoneManager :: "int \<Rightarrow> ZoneManager" where
  "NewZoneManager maxOpenZones =
     \<lparr>zm_zones = [], zm_freeList = [], zm_openList = [], zm_openSet = [], zm_frozenSet = [],
      zm_maxOpenZones = maxOpenZones, zm_nextEl = 0\<rparr>"

section \<open>The LRU list (container/list)\<close>

definition list_Remove :: "nat \<Rightarrow> (nat \<times> 'a) list \<Rightarrow> (nat \<times> 'a) list" where
  "list_Remove el l = filter (\<lambda>p. fst p \<noteq> el) l"

definition list_MoveToBack :: "nat \<Rightarrow> (nat \<times> 'a) list \<Rightarrow> (nat \<times> 'a) list" where
  "list_MoveToBack el l = filter (\<lambda>p. fst p \<noteq> el) l @ filter (\<lambda>p. fst p = el) l"

text \<open>\<^verbatim>\<open>el := zm.openList.PushBack(zoneID); zm.openSet[zoneID] = el\<close>\<close>

definition zm_pushOpen :: "ZoneManager \<Rightarrow> u32 \<Rightarrow> ZoneManager" where
  "zm_pushOpen zm zoneID =
     zm\<lparr>zm_openList := zm_openList zm @ [(zm_nextEl zm, zoneID)],
        zm_openSet := AList.update zoneID (zm_nextEl zm) (zm_openSet zm),
        zm_nextEl := zm_nextEl zm + 1\<rparr>"

text \<open>\<^verbatim>\<open>if el, ok := zm.openSet[zoneID]; ok { zm.openList.Remove(el); delete(zm.openSet, zoneID) }\<close>\<close>

definition zm_dropOpen :: "ZoneManager \<Rightarrow> u32 \<Rightarrow> ZoneManager" where
  "zm_dropOpen zm zoneID =
     (case map_of (zm_openSet zm) zoneID of
        None \<Rightarrow> zm
      | Some el \<Rightarrow> zm\<lparr>zm_openList := list_Remove el (zm_openList zm),
                      zm_openSet := AList.delete zoneID (zm_openSet zm)\<rparr>)"

definition zm_modify :: "ZoneManager \<Rightarrow> u32 \<Rightarrow> (ZoneInfo \<Rightarrow> ZoneInfo) \<Rightarrow> ZoneManager" where
  "zm_modify zm zoneID f = zm\<lparr>zm_zones := (zm_zones zm)[unat zoneID := f (zm_zones zm ! unat zoneID)]\<rparr>"

section \<open>Operations\<close>

definition zm_initZone :: "nat \<times> ZoneDescriptor \<Rightarrow> ZoneManager \<Rightarrow> ZoneManager" where
  "zm_initZone p zm =
     (case p of (i, d) \<Rightarrow>
        let zm1 = zm\<lparr>zm_zones := zm_zones zm @
                       [\<lparr>zi_ID = of_nat i, zi_State = zd_ZoneState d, zi_WritePointer = zd_WritePointer d,
                         zi_StartLBA = zd_ZoneStartLBA d, zi_SizeSectors = zd_ZoneLength d,
                         zi_ValidSegs = 0, zi_TotalSegs = 0, zi_Frozen = False\<rparr>]\<rparr> in
        if zd_ZoneState d = ZoneStateEmpty then zm1\<lparr>zm_freeList := zm_freeList zm1 @ [of_nat i]\<rparr>
        else if zd_ZoneState d = ZoneStateImplicitOpen \<or> zd_ZoneState d = ZoneStateExplicitOpen
        then zm_pushOpen zm1 (of_nat i)
        else zm1)"

definition zm_Initialize :: "'d ZonedDevice \<Rightarrow> 'd \<Rightarrow> ZoneManager \<Rightarrow> unit result \<times> ZoneManager \<times> 'd" where
  "zm_Initialize ops d zm =
     (case dev_ReportZones ops d 0 0 of
        (Inl err, d') \<Rightarrow> (Inl (Wrap ''ZoneManager.Initialize'' err), zm, d')
      | (Inr descs, d') \<Rightarrow>
          (Inr (), fold zm_initZone (enumerate 0 descs) (zm\<lparr>zm_zones := [], zm_freeList := []\<rparr>), d'))"

definition zm_evictOldestLocked :: "'d ZonedDevice \<Rightarrow> 'd \<Rightarrow> ZoneManager \<Rightarrow> unit result \<times> ZoneManager \<times> 'd" where
  "zm_evictOldestLocked ops d zm =
     (case zm_openList zm of
        [] \<Rightarrow> (Inr (), zm, d)
      | (el, zoneID) # _ \<Rightarrow>
          (case dev_CloseZone ops d (zi_StartLBA (zm_zones zm ! unat zoneID)) of
             (Inl err, d') \<Rightarrow> (Inl (Wrap ''closing zone for eviction'' err), zm, d')
           | (Inr _, d') \<Rightarrow>
               (Inr (), (zm_modify zm zoneID (zi_State_update (\<lambda>_. ZoneStateClosed)))
                          \<lparr>zm_openList := list_Remove el (zm_openList zm),
                           zm_openSet := AList.delete zoneID (zm_openSet zm)\<rparr>, d')))"

definition zm_AllocateFree :: "'d ZonedDevice \<Rightarrow> 'd \<Rightarrow> ZoneManager \<Rightarrow> u32 result \<times> ZoneManager \<times> 'd" where
  "zm_AllocateFree ops d zm =
     (if length (zm_freeList zm) = 0 then (Inl (Errorf ''no free zones available''), zm, d)
      else
        case (if int (length (zm_openSet zm)) \<ge> zm_maxOpenZones zm then zm_evictOldestLocked ops d zm
              else (Inr (), zm, d)) of
          (Inl err, zm1, d1) \<Rightarrow> (Inl (Wrap ''AllocateFree: evict'' err), zm1, d1)
        | (Inr _, zm1, d1) \<Rightarrow>
            let zoneID = last (zm_freeList zm1);
                zm2 = zm1\<lparr>zm_freeList := butlast (zm_freeList zm1)\<rparr> in
            case dev_OpenZone ops d1 (zi_StartLBA (zm_zones zm2 ! unat zoneID)) of
              (Inl err, d2) \<Rightarrow>
                (Inl (Wrap ''opening zone'' err), zm2\<lparr>zm_freeList := zm_freeList zm2 @ [zoneID]\<rparr>, d2)
            | (Inr _, d2) \<Rightarrow>
                (Inr zoneID,
                 zm_pushOpen (zm_modify zm2 zoneID (zi_State_update (\<lambda>_. ZoneStateExplicitOpen))) zoneID, d2))"

definition zm_GetOrOpen :: "'d ZonedDevice \<Rightarrow> 'd \<Rightarrow> ZoneManager \<Rightarrow> u32 \<Rightarrow> unit result \<times> ZoneManager \<times> 'd" where
  "zm_GetOrOpen ops d zm zoneID =
     (if unat zoneID \<ge> length (zm_zones zm) then (Inl (Errorf ''zone ID out of range''), zm, d)
      else
        case map_of (zm_openSet zm) zoneID of
          Some el \<Rightarrow> (Inr (), zm\<lparr>zm_openList := list_MoveToBack el (zm_openList zm)\<rparr>, d)
        | None \<Rightarrow>
            (case (if int (length (zm_openSet zm)) \<ge> zm_maxOpenZones zm then zm_evictOldestLocked ops d zm
                   else (Inr (), zm, d)) of
               (Inl err, zm1, d1) \<Rightarrow> (Inl err, zm1, d1)
             | (Inr _, zm1, d1) \<Rightarrow>
                 (case dev_OpenZone ops d1 (zi_StartLBA (zm_zones zm1 ! unat zoneID)) of
                    (Inl err, d2) \<Rightarrow> (Inl (Wrap ''opening zone'' err), zm1, d2)
                  | (Inr _, d2) \<Rightarrow>
                      (Inr (), zm_pushOpen (zm_modify zm1 zoneID (zi_State_update (\<lambda>_. ZoneStateExplicitOpen)))
                                 zoneID, d2))))"

definition zm_MarkFull :: "'d ZonedDevice \<Rightarrow> 'd \<Rightarrow> ZoneManager \<Rightarrow> u32 \<Rightarrow> unit result \<times> ZoneManager \<times> 'd" where
  "zm_MarkFull ops d zm zoneID =
     (if unat zoneID \<ge> length (zm_zones zm) then (Inl (Errorf ''zone ID out of range''), zm, d)
      else
        case dev_FinishZone ops d (zi_StartLBA (zm_zones zm ! unat zoneID)) of
          (Inl err, d') \<Rightarrow> (Inl (Wrap ''finishing zone'' err), zm, d')
        | (Inr _, d') \<Rightarrow>
            (Inr (), zm_dropOpen
               (zm_modify zm zoneID (\<lambda>z. z\<lparr>zi_State := ZoneStateFull,
                                            zi_WritePointer := zi_StartLBA z + zi_SizeSectors z\<rparr>)) zoneID, d'))"

definition zm_MarkEmpty :: "ZoneManager \<Rightarrow> u32 \<Rightarrow> unit result \<times> ZoneManager" where
  "zm_MarkEmpty zm zoneID =
     (if unat zoneID \<ge> length (zm_zones zm) then (Inl (Errorf ''zone ID out of range''), zm)
      else
        let zm1 = zm_dropOpen
                    (zm_modify zm zoneID (\<lambda>z. z\<lparr>zi_State := ZoneStateEmpty, zi_WritePointer := zi_StartLBA z,
                                                 zi_ValidSegs := 0, zi_TotalSegs := 0\<rparr>)) zoneID
        in (Inr (), zm1\<lparr>zm_frozenSet := removeAll zoneID (zm_frozenSet zm1),
                        zm_freeList := zm_freeList zm1 @ [zoneID]\<rparr>))"

definition zm_UpdateWritePointer :: "ZoneManager \<Rightarrow> u32 \<Rightarrow> u64 \<Rightarrow> ZoneManager" where
  "zm_UpdateWritePointer zm zoneID newWP =
     (if unat zoneID < length (zm_zones zm)
      then zm_modify zm zoneID (zi_WritePointer_update (\<lambda>_. newWP)) else zm)"

definition zm_IncrementValidSegs :: "ZoneManager \<Rightarrow> u32 \<Rightarrow> ZoneManager" where
  "zm_IncrementValidSegs zm zoneID =
     (if unat zoneID < length (zm_zones zm)
      then zm_modify zm zoneID (\<lambda>z. z\<lparr>zi_ValidSegs := zi_ValidSegs z + 1, zi_TotalSegs := zi_TotalSegs z + 1\<rparr>)
      else zm)"

definition zm_DecrementValidSegs :: "ZoneManager \<Rightarrow> u32 \<Rightarrow> ZoneManager" where
  "zm_DecrementValidSegs zm zoneID =
     (if unat zoneID < length (zm_zones zm) \<and> zi_ValidSegs (zm_zones zm ! unat zoneID) > 0
      then zm_modify zm zoneID (\<lambda>z. z\<lparr>zi_ValidSegs := zi_ValidSegs z - 1\<rparr>) else zm)"

definition zm_Freeze :: "ZoneManager \<Rightarrow> u32 \<Rightarrow> ZoneManager" where
  "zm_Freeze zm zoneID = zm\<lparr>zm_frozenSet := List.insert zoneID (zm_frozenSet zm)\<rparr>"

definition zm_Unfreeze :: "ZoneManager \<Rightarrow> u32 \<Rightarrow> ZoneManager" where
  "zm_Unfreeze zm zoneID = zm\<lparr>zm_frozenSet := removeAll zoneID (zm_frozenSet zm)\<rparr>"

definition zm_FreeZoneCount :: "ZoneManager \<Rightarrow> int" where
  "zm_FreeZoneCount zm = int (length (zm_freeList zm))"

definition zm_OpenZoneCount :: "ZoneManager \<Rightarrow> int" where
  "zm_OpenZoneCount zm = int (length (zm_openSet zm))"

definition zm_TotalZoneCount :: "ZoneManager \<Rightarrow> int" where
  "zm_TotalZoneCount zm = int (length (zm_zones zm))"

definition zm_ZoneInfo :: "ZoneManager \<Rightarrow> u32 \<Rightarrow> ZoneInfo option" where
  "zm_ZoneInfo zm zoneID =
     (if unat zoneID \<ge> length (zm_zones zm) then None else Some (zm_zones zm ! unat zoneID))"

definition zm_AllZones :: "ZoneManager \<Rightarrow> ZoneInfo list" where
  "zm_AllZones zm = zm_zones zm"

text \<open>One round of the loop of \<^verbatim>\<open>SelectGCVictim\<close>; the state is \<^verbatim>\<open>bestID, bestScore, found\<close>.\<close>

definition gc_candidate :: "ZoneManager \<Rightarrow> ZoneInfo \<Rightarrow> bool" where
  "gc_candidate zm z \<longleftrightarrow> zi_ID z \<notin> set (zm_frozenSet zm) \<and>
     (zi_State z = ZoneStateFull \<or> zi_State z = ZoneStateClosed) \<and> zi_TotalSegs z \<noteq> 0"

definition zm_selectRound :: "ZoneManager \<Rightarrow> ZoneInfo \<Rightarrow> u32 \<times> rat \<times> bool \<Rightarrow> u32 \<times> rat \<times> bool" where
  "zm_selectRound zm z acc =
     (case acc of (bestID, bestScore, found) \<Rightarrow>
        if zi_ID z \<in> set (zm_frozenSet zm) then acc
        else if zi_State z \<noteq> ZoneStateFull \<and> zi_State z \<noteq> ZoneStateClosed then acc
        else if zi_TotalSegs z = 0 then acc
        else if GCScore z > bestScore then (zi_ID z, GCScore z, True)
        else acc)"

definition zm_SelectGCVictim :: "ZoneManager \<Rightarrow> u32 \<times> bool" where
  "zm_SelectGCVictim zm =
     (case fold (zm_selectRound zm) (zm_zones zm) (0, -1, False) of
        (bestID, bestScore, found) \<Rightarrow> (bestID, found))"

definition zm_WritePointer :: "ZoneManager \<Rightarrow> u32 \<Rightarrow> u64" where
  "zm_WritePointer zm zoneID =
     (if unat zoneID \<ge> length (zm_zones zm) then 0 else zi_WritePointer (zm_zones zm ! unat zoneID))"

definition zm_ZoneStartLBA :: "ZoneManager \<Rightarrow> u32 \<Rightarrow> u64" where
  "zm_ZoneStartLBA zm zoneID =
     (if unat zoneID \<ge> length (zm_zones zm) then 0 else zi_StartLBA (zm_zones zm ! unat zoneID))"

text \<open>The loop of \<^verbatim>\<open>ReconcileFromDevice\<close> stops at the shorter of the two lists.\<close>

fun zm_reconcile :: "ZoneInfo list \<Rightarrow> ZoneDescriptor list \<Rightarrow> ZoneInfo list" where
  "zm_reconcile (z # zs) (d # ds) =
     z\<lparr>zi_State := zd_ZoneState d, zi_WritePointer := zd_WritePointer d\<rparr> # zm_reconcile zs ds"
| "zm_reconcile zs ds = zs"

definition zm_ReconcileFromDevice :: "'d ZonedDevice \<Rightarrow> 'd \<Rightarrow> ZoneManager \<Rightarrow> unit result \<times> ZoneManager \<times> 'd" where
  "zm_ReconcileFromDevice ops d zm =
     (case dev_ReportZones ops d 0 0 of
        (Inl err, d') \<Rightarrow> (Inl (Wrap ''ReconcileFromDevice'' err), zm, d')
      | (Inr descs, d') \<Rightarrow> (Inr (), zm\<lparr>zm_zones := zm_reconcile (zm_zones zm) descs\<rparr>, d'))"

section \<open>Runs\<close>

text \<open>
  One call of an operation of the zone manager. \<^verbatim>\<open>GetOrOpen\<close> and \<^verbatim>\<open>MarkEmpty\<close> are called for zones
  that hold data, never for a zone of the free list.
\<close>

inductive zm_step :: "'d ZonedDevice \<Rightarrow> ZoneManager \<times> 'd \<Rightarrow> ZoneManager \<times> 'd \<Rightarrow> bool" for ops where
  zm_step_alloc: "zm_AllocateFree ops d zm = (r, zm', d') \<Longrightarrow> zm_step ops (zm, d) (zm', d')"
| zm_step_open: "z \<notin> set (zm_freeList zm) \<Longrightarrow> zm_GetOrOpen ops d zm z = (r', zm', d') \<Longrightarrow>
    zm_step ops (zm, d) (zm', d')"
| zm_step_full: "zm_MarkFull ops d zm z = (r', zm', d') \<Longrightarrow> zm_step ops (zm, d) (zm', d')"
| zm_step_empty: "z \<notin> set (zm_freeList zm) \<Longrightarrow> zm_MarkEmpty zm z = (r', zm') \<Longrightarrow> zm_step ops (zm, d) (zm', d)"
| zm_step_wp: "zm_step ops (zm, d) (zm_UpdateWritePointer zm z wp, d)"
| zm_step_inc: "zm_step ops (zm, d) (zm_IncrementValidSegs zm z, d)"
| zm_step_dec: "zm_step ops (zm, d) (zm_DecrementValidSegs zm z, d)"
| zm_step_freeze: "zm_step ops (zm, d) (zm_Freeze zm z, d)"
| zm_step_unfreeze: "zm_step ops (zm, d) (zm_Unfreeze zm z, d)"
| zm_step_reconcile: "zm_ReconcileFromDevice ops d zm = (r', zm', d') \<Longrightarrow> zm_step ops (zm, d) (zm', d')"

inductive zm_reachable :: "'d ZonedDevice \<Rightarrow> ZoneManager \<times> 'd \<Rightarrow> ZoneManager \<times> 'd \<Rightarrow> bool" for ops s0 where
  zm_reach_refl: "zm_reachable ops s0 s0"
| zm_reach_step: "zm_reachable ops s0 s \<Longrightarrow> zm_step ops s s' \<Longrightarrow> zm_reachable ops s0 s'"

inductive_cases zm_stepE: "zm_step ops s s'"

section \<open>Invariant\<close>

text \<open>
  \<open>openSet\<close> and \<open>openList\<close> hold the same zones, each once, at most \<^verbatim>\<open>maxOpenZones\<close> of them; the free
  list has no duplicates and no open zone; every zone number in either is an index of \<open>zones\<close>.
\<close>

definition open_ok :: "ZoneManager \<Rightarrow> bool" where
  "open_ok zm \<longleftrightarrow>
     distinct (map fst (zm_openList zm)) \<and> distinct (map snd (zm_openList zm)) \<and>
     (\<forall>p \<in> set (zm_openList zm). fst p < zm_nextEl zm) \<and>
     distinct (map fst (zm_openSet zm)) \<and>
     set (zm_openSet zm) = prod.swap ` set (zm_openList zm)"

definition open_zones :: "ZoneManager \<Rightarrow> u32 set" where
  "open_zones zm = fst ` set (zm_openSet zm)"

definition zm_inv :: "ZoneManager \<Rightarrow> bool" where
  "zm_inv zm \<longleftrightarrow>
     length (zm_zones zm) \<le> 2 ^ 24 \<and> (\<forall>i < length (zm_zones zm). zi_ID (zm_zones zm ! i) = of_nat i) \<and>
     open_ok zm \<and> (\<forall>z \<in> open_zones zm. unat z < length (zm_zones zm)) \<and>
     distinct (zm_freeList zm) \<and> (\<forall>z \<in> set (zm_freeList zm). unat z < length (zm_zones zm)) \<and>
     set (zm_freeList zm) \<inter> open_zones zm = {} \<and>
     0 < zm_maxOpenZones zm \<and> int (length (zm_openSet zm)) \<le> zm_maxOpenZones zm"

text \<open>Everything the zone manager knows of a zone but its state.\<close>

definition zi_core :: "ZoneInfo \<Rightarrow> ZoneInfo" where
  "zi_core z = z\<lparr>zi_State := ZoneStateEmpty\<rparr>"

definition zm_frame :: "ZoneManager \<Rightarrow> ZoneManager \<Rightarrow> bool" where
  "zm_frame zm zm' \<longleftrightarrow> map zi_core (zm_zones zm') = map zi_core (zm_zones zm) \<and>
     zm_frozenSet zm' = zm_frozenSet zm \<and> zm_maxOpenZones zm' = zm_maxOpenZones zm"

section \<open>Lemmas on the open list\<close>

lemma zi_core_simps [simp]:
  "zi_core (z\<lparr>zi_State := s\<rparr>) = zi_core z"
  by (simp add: zi_core_def)

lemma zi_core_eqD:
  "zi_core y = zi_core z \<Longrightarrow> zi_ID y = zi_ID z \<and> zi_WritePointer y = zi_WritePointer z \<and>
     zi_StartLBA y = zi_StartLBA z \<and> zi_SizeSectors y = zi_SizeSectors z \<and> zi_ValidSegs y = zi_ValidSegs z \<and>
     zi_TotalSegs y = zi_TotalSegs z"
  by (cases y; cases z) (auto simp: zi_core_def)

lemma zm_frame_refl [simp]: "zm_frame zm zm"
  by (simp add: zm_frame_def)

lemma zm_frame_trans [trans]: "zm_frame a b \<Longrightarrow> zm_frame b c \<Longrightarrow> zm_frame a c"
  by (simp add: zm_frame_def)

lemma zm_frame_length: "zm_frame zm zm' \<Longrightarrow> length (zm_zones zm') = length (zm_zones zm)"
  by (metis zm_frame_def length_map)

lemma zm_frame_nth:
  assumes "zm_frame zm zm'" and "i < length (zm_zones zm)"
  shows "zi_core (zm_zones zm' ! i) = zi_core (zm_zones zm ! i)"
  using assms by (metis zm_frame_def zm_frame_length nth_map)

lemma zm_frame_zone:
  assumes "zm_frame zm zm'"
  shows "zm_WritePointer zm' z = zm_WritePointer zm z" and "zm_ZoneStartLBA zm' z = zm_ZoneStartLBA zm z"
  using zm_frame_nth [OF assms, of "unat z"] zm_frame_length [OF assms]
  by (auto simp: zm_WritePointer_def zm_ZoneStartLBA_def dest: zi_core_eqD)

lemma zm_frame_setState:
  "zm_frame zm ((zm_modify zm z (zi_State_update (\<lambda>_. s))))"
  by (cases "unat z < length (zm_zones zm)")
    (auto simp: zm_frame_def zm_modify_def map_update list_update_same_conv list_update_beyond)

lemma open_ok_length: "open_ok zm \<Longrightarrow> length (zm_openSet zm) = length (zm_openList zm)"
  by (metis open_ok_def distinct_card distinct_map card_image inj_swap inj_on_subset subset_UNIV)

lemma open_zones_list: "open_ok zm \<Longrightarrow> open_zones zm = snd ` set (zm_openList zm)"
  by (auto simp: open_ok_def open_zones_def image_image)

lemma open_upd_simps [simp]:
  "open_ok (zm\<lparr>zm_zones := zs\<rparr>) = open_ok zm" "open_ok (zm\<lparr>zm_freeList := l\<rparr>) = open_ok zm"
  "open_ok (zm\<lparr>zm_frozenSet := F\<rparr>) = open_ok zm"
  "open_zones (zm\<lparr>zm_zones := zs\<rparr>) = open_zones zm" "open_zones (zm\<lparr>zm_freeList := l\<rparr>) = open_zones zm"
  "open_zones (zm\<lparr>zm_frozenSet := F\<rparr>) = open_zones zm"
  by (simp_all add: open_ok_def open_zones_def)

lemma zm_inv_open: "zm_inv zm \<Longrightarrow> z \<in> open_zones zm \<Longrightarrow> unat z < length (zm_zones zm)"
  unfolding zm_inv_def by blast

lemma zm_inv_free:
  "zm_inv zm \<Longrightarrow> z \<in> set (zm_freeList zm) \<Longrightarrow> z \<notin> open_zones zm \<and> unat z < length (zm_zones zm)"
  unfolding zm_inv_def by blast

lemma zm_inv_shrink:
  assumes "zm_inv zm" and "open_ok zm'" and "zm_zones zm' = zm_zones zm" and "open_zones zm' \<subseteq> open_zones zm"
    and "set (zm_freeList zm') \<subseteq> set (zm_freeList zm)" and "distinct (zm_freeList zm')"
    and "zm_maxOpenZones zm' = zm_maxOpenZones zm" and "length (zm_openSet zm') \<le> length (zm_openSet zm)"
  shows "zm_inv zm'"
proof -
  have "set (zm_freeList zm') \<inter> open_zones zm' = {}" using assms(1,4,5) unfolding zm_inv_def by blast
  moreover have "\<forall>z \<in> open_zones zm'. unat z < length (zm_zones zm)" using assms zm_inv_open by blast
  moreover have "\<forall>z \<in> set (zm_freeList zm'). unat z < length (zm_zones zm)" using assms zm_inv_free by blast
  ultimately show ?thesis using assms unfolding zm_inv_def by simp
qed

lemma alist_update_fresh: "k \<notin> fst ` set al \<Longrightarrow> AList.update k v al = al @ [(k, v)]"
  by (induction al) auto

lemma zm_pushOpen_ok:
  assumes ok: "open_ok zm" and fresh: "z \<notin> open_zones zm"
  shows "open_ok (zm_pushOpen zm z)" and "open_zones (zm_pushOpen zm z) = insert z (open_zones zm)"
    and "length (zm_openSet (zm_pushOpen zm z)) = Suc (length (zm_openSet zm))"
proof -
  have upd: "AList.update z n (zm_openSet zm) = zm_openSet zm @ [(z, n)]" for n
    using fresh by (simp add: alist_update_fresh open_zones_def)
  show "open_zones (zm_pushOpen zm z) = insert z (open_zones zm)"
      "length (zm_openSet (zm_pushOpen zm z)) = Suc (length (zm_openSet zm))"
    by (simp_all add: zm_pushOpen_def upd open_zones_def)
  have "\<forall>p \<in> set (zm_openList zm). snd p \<noteq> z" using fresh ok by (force simp: open_zones_list)
  then show "open_ok (zm_pushOpen zm z)"
    using ok by (auto simp: open_ok_def zm_pushOpen_def upd)
qed

lemma zm_pushOpen_simps [simp]:
  "zm_zones (zm_pushOpen zm z) = zm_zones zm" "zm_freeList (zm_pushOpen zm z) = zm_freeList zm"
  "zm_frozenSet (zm_pushOpen zm z) = zm_frozenSet zm" "zm_maxOpenZones (zm_pushOpen zm z) = zm_maxOpenZones zm"
  by (simp_all add: zm_pushOpen_def)

lemma zm_pushOpen_inv:
  assumes "zm_inv zm" and "z \<notin> open_zones zm" and "unat z < length (zm_zones zm)"
    and "z \<notin> set (zm_freeList zm)" and "int (length (zm_openSet zm)) < zm_maxOpenZones zm"
  shows "zm_inv (zm_pushOpen zm z)" and "zm_frame zm (zm_pushOpen zm z)"
    and "open_zones (zm_pushOpen zm z) = insert z (open_zones zm)"
proof -
  have ok: "open_ok zm" using assms(1) by (simp add: zm_inv_def)
  note p = zm_pushOpen_ok [OF ok assms(2)]
  then show "open_zones (zm_pushOpen zm z) = insert z (open_zones zm)" by simp
  show "zm_frame zm (zm_pushOpen zm z)" by (simp add: zm_frame_def)
  show "zm_inv (zm_pushOpen zm z)" using assms p by (simp add: zm_inv_def)
qed

lemma distinct_filter_snd: "distinct (map f xs) \<Longrightarrow> distinct (map f (filter P xs))"
  by (induction xs) auto

lemma open_ok_remove:
  assumes ok: "open_ok zm" and el: "(el, z) \<in> set (zm_openList zm)"
  defines "zm' \<equiv> zm\<lparr>zm_openList := list_Remove el (zm_openList zm), zm_openSet := AList.delete z (zm_openSet zm)\<rparr>"
  shows "open_ok zm'" and "open_zones zm' = open_zones zm - {z}"
    and "length (zm_openSet zm') = length (zm_openSet zm) - 1"
proof -
  have same: "fst p = el \<longleftrightarrow> snd p = z" if "p \<in> set (zm_openList zm)" for p
    using ok el that
    by (metis open_ok_def eq_key_imp_eq_value fst_conv snd_conv distinct_map inj_onD)
  have del: "AList.delete z (zm_openSet zm) = filter (\<lambda>p. fst p \<noteq> z) (zm_openSet zm)"
    by (auto simp: AList.delete_eq case_prod_beta' intro: filter_cong)
  have "set (AList.delete z (zm_openSet zm)) = prod.swap ` set (list_Remove el (zm_openList zm))"
    unfolding del list_Remove_def using ok same by (auto simp: open_ok_def)
  then show ok': "open_ok zm'"
    using ok unfolding open_ok_def zm'_def
    by (auto simp: list_Remove_def distinct_filter_snd distinct_delete)
  show oz: "open_zones zm' = open_zones zm - {z}" by (auto simp: zm'_def del open_zones_def)
  have "length (zm_openSet x) = card (open_zones x)" if "open_ok x" for x
    using that unfolding open_ok_def open_zones_def by (metis distinct_card length_map set_map)
  moreover have "z \<in> open_zones zm" using el open_zones_list [OF ok] by force
  ultimately show "length (zm_openSet zm') = length (zm_openSet zm) - 1"
    using ok ok' oz by (simp add: card_Diff_singleton)
qed

lemma zm_inv_remove:
  assumes inv: "zm_inv zm" and el: "(el, z) \<in> set (zm_openList zm)"
  shows "zm_inv (zm\<lparr>zm_openList := list_Remove el (zm_openList zm),
                     zm_openSet := AList.delete z (zm_openSet zm)\<rparr>)" (is "zm_inv ?zm")
proof -
  have ok: "open_ok zm" using inv by (simp add: zm_inv_def)
  note r = open_ok_remove [OF ok el]
  show ?thesis using inv r by (intro zm_inv_shrink [OF inv]) (auto simp: zm_inv_def)
qed

lemma zm_dropOpen_inv:
  assumes "zm_inv zm"
  shows "zm_inv (zm_dropOpen zm z) \<and> zm_frame zm (zm_dropOpen zm z) \<and>
      open_zones (zm_dropOpen zm z) = open_zones zm - {z} \<and>
      zm_freeList (zm_dropOpen zm z) = zm_freeList zm \<and> zm_zones (zm_dropOpen zm z) = zm_zones zm"
proof (cases "map_of (zm_openSet zm) z")
  case None
  then have "z \<notin> open_zones zm" by (simp add: map_of_eq_None_iff open_zones_def)
  then show ?thesis using None assms by (simp add: zm_dropOpen_def)
next
  case (Some el)
  have ok: "open_ok zm" using assms by (simp add: zm_inv_def)
  have mem: "(el, z) \<in> set (zm_openList zm)"
    using map_of_SomeD [OF Some] ok by (auto simp: open_ok_def)
  note r = open_ok_remove [OF ok mem]
  have "zm_inv (zm_dropOpen zm z)"
    using zm_inv_remove [OF assms mem] by (simp add: zm_dropOpen_def Some)
  then show ?thesis using r by (simp add: zm_dropOpen_def Some zm_frame_def)
qed

lemma zm_modify_inv:
  assumes "zm_inv zm" and "\<And>z. zi_ID (f z) = zi_ID z"
  shows "zm_inv (zm_modify zm z f)"
proof -
  have "zi_ID ((zm_zones zm)[unat z := f (zm_zones zm ! unat z)] ! i) = zi_ID (zm_zones zm ! i)"
    if "i < length (zm_zones zm)" for i
    using assms(2) that by (cases "unat z < length (zm_zones zm)") (auto simp: nth_list_update)
  moreover have "open_ok (zm_modify zm z f) = open_ok zm" by (simp add: open_ok_def zm_modify_def)
  ultimately show ?thesis using assms(1) by (simp add: zm_inv_def zm_modify_def open_zones_def)
qed

lemma distinct_map_partition:
  "distinct (map f xs) \<Longrightarrow> distinct (map f (filter (\<lambda>x. \<not> P x) xs @ filter P xs))"
  by (induction xs) auto

lemma zm_MoveToBack_inv:
  assumes "zm_inv zm"
  shows "zm_inv (zm\<lparr>zm_openList := list_MoveToBack el (zm_openList zm)\<rparr>)"
proof -
  have "set (list_MoveToBack el (zm_openList zm)) = set (zm_openList zm)"
    by (auto simp: list_MoveToBack_def)
  moreover have "distinct (map fst (list_MoveToBack el (zm_openList zm)))"
      "distinct (map snd (list_MoveToBack el (zm_openList zm)))"
    using assms unfolding list_MoveToBack_def
    by (auto simp: zm_inv_def open_ok_def intro!: distinct_map_partition simp del: map_append)
  ultimately have "open_ok (zm\<lparr>zm_openList := list_MoveToBack el (zm_openList zm)\<rparr>)"
    using assms by (simp add: zm_inv_def open_ok_def)
  then show ?thesis using assms by (simp add: zm_inv_def open_zones_def)
qed

section \<open>Lemmas on the operations\<close>

text \<open>Closing an open zone and taking it off the list and the set.\<close>

lemma zm_close_one:
  assumes inv: "zm_inv zm" and mem: "(el, z) \<in> set (zm_openList zm)"
    and zm': "zm' = (zm_modify zm z (zi_State_update (\<lambda>_. ZoneStateClosed)))\<lparr>zm_openList := list_Remove el (zm_openList zm),
      zm_openSet := AList.delete z (zm_openSet zm)\<rparr>"
  shows "zm_inv zm' \<and> zm_frame zm zm' \<and> zm_freeList zm' = zm_freeList zm \<and> open_zones zm' \<subseteq> open_zones zm \<and>
    int (length (zm_openSet zm')) < zm_maxOpenZones zm'"
proof -
  let ?zm = "zm_modify zm z (zi_State_update (\<lambda>_. ZoneStateClosed))"
  have m: "zm_openSet ?zm = zm_openSet zm" "zm_openList ?zm = zm_openList zm" "zm_freeList ?zm = zm_freeList zm" "zm_maxOpenZones ?zm = zm_maxOpenZones zm"
    by (simp_all add: zm_modify_def)
  have mi: "zm_inv ?zm" using inv by (rule zm_modify_inv) simp
  then have ok: "open_ok ?zm" "int (length (zm_openSet ?zm)) \<le> zm_maxOpenZones ?zm" and mem': "(el, z) \<in> set (zm_openList ?zm)"
    using mem m by (auto simp: zm_inv_def)
  have zm'': "zm' = ?zm\<lparr>zm_openList := list_Remove el (zm_openList ?zm), zm_openSet := AList.delete z (zm_openSet ?zm)\<rparr>" using zm' m by simp
  note r = open_ok_remove [OF ok(1) mem']
  have "0 < length (zm_openSet ?zm)" using mem' ok(1) by (metis open_ok_length length_pos_if_in_set)
  then have "length (zm_openSet zm') < length (zm_openSet ?zm)" using r(3) unfolding zm'' by linarith
  then have "int (length (zm_openSet zm')) < zm_maxOpenZones zm'" using ok(2) by (simp add: zm'')
  moreover have "zm_inv zm'" unfolding zm'' by (rule zm_inv_remove [OF mi mem'])
  moreover have "zm_frame zm zm'" using zm_frame_setState [of zm z ZoneStateClosed] by (simp add: zm_frame_def zm')
  moreover have "open_zones zm' \<subseteq> open_zones zm" using r(2) unfolding zm'' by (auto simp: open_zones_def m)
  ultimately show ?thesis using m zm'' by auto
qed

lemma zm_evict_inv:
  assumes inv: "zm_inv zm" and e: "zm_evictOldestLocked ops d zm = (r, zm', d')"
  shows "zm_inv zm'" and "zm_frame zm zm'" and "zm_freeList zm' = zm_freeList zm"
    and "open_zones zm' \<subseteq> open_zones zm"
    and "r = Inr () \<Longrightarrow> int (length (zm_openSet zm')) < zm_maxOpenZones zm'"
proof -
  have *: "zm_inv zm' \<and> zm_frame zm zm' \<and> zm_freeList zm' = zm_freeList zm \<and> open_zones zm' \<subseteq> open_zones zm \<and>
    (r = Inr () \<longrightarrow> int (length (zm_openSet zm')) < zm_maxOpenZones zm')"
  proof (cases "zm_openList zm")
    case Nil
    then have "zm_openSet zm = []" using inv by (auto simp: zm_inv_def open_ok_def)
    then show ?thesis using e inv Nil by (auto simp: zm_evictOldestLocked_def zm_inv_def)
  next
    case (Cons p ps)
    obtain el z where p: "p = (el, z)" by fastforce
    obtain r1 d1 where c: "dev_CloseZone ops d (zi_StartLBA (zm_zones zm ! unat z)) = (r1, d1)" by fastforce
    show ?thesis
    proof (cases r1)
      case (Inl err)
      then show ?thesis using e Cons p c inv by (auto simp: zm_evictOldestLocked_def)
    next
      case (Inr u)
      then have "zm' = (zm_modify zm z (zi_State_update (\<lambda>_. ZoneStateClosed)))\<lparr>zm_openList := list_Remove el (zm_openList zm),
          zm_openSet := AList.delete z (zm_openSet zm)\<rparr>"
        using e Cons p c by (auto simp: zm_evictOldestLocked_def zm_modify_def)
      then show ?thesis using zm_close_one [OF inv, of el z zm'] Cons p by auto
    qed
  qed
  show "zm_inv zm'" "zm_frame zm zm'" "zm_freeList zm' = zm_freeList zm" "open_zones zm' \<subseteq> open_zones zm"
    "r = Inr () \<Longrightarrow> int (length (zm_openSet zm')) < zm_maxOpenZones zm'"
    using * by auto
qed

lemma zm_evict_if_inv:
  assumes "zm_inv zm"
    and "(if int (length (zm_openSet zm)) \<ge> zm_maxOpenZones zm then zm_evictOldestLocked ops d zm
          else (Inr (), zm, d)) = (r, zm', d')"
  shows "zm_inv zm' \<and> zm_frame zm zm' \<and> zm_freeList zm' = zm_freeList zm \<and> open_zones zm' \<subseteq> open_zones zm \<and>
    (r = Inr () \<longrightarrow> int (length (zm_openSet zm')) < zm_maxOpenZones zm')"
proof (cases "int (length (zm_openSet zm)) \<ge> zm_maxOpenZones zm")
  case True
  then have "zm_evictOldestLocked ops d zm = (r, zm', d')" using assms(2) by simp
  note zm_evict_inv [OF assms(1) this]
  then show ?thesis by blast
next
  case False
  then show ?thesis using assms by simp
qed

lemma zm_setState_pushOpen_inv:
  fixes s :: zone_state
  assumes "zm_inv zm" and "z \<notin> open_zones zm" and "unat z < length (zm_zones zm)"
    and "z \<notin> set (zm_freeList zm)" and "int (length (zm_openSet zm)) < zm_maxOpenZones zm"
  defines "zm' \<equiv> zm_pushOpen (zm_modify zm z (zi_State_update (\<lambda>_. s))) z"
  shows "zm_inv zm' \<and> zm_frame zm zm' \<and> zm_freeList zm' = zm_freeList zm \<and>
    open_zones zm' = insert z (open_zones zm)"
proof -
  let ?zm = "zm_modify zm z (zi_State_update (\<lambda>_. s))"
  have m: "zm_openSet ?zm = zm_openSet zm" "zm_freeList ?zm = zm_freeList zm"
      "zm_maxOpenZones ?zm = zm_maxOpenZones zm" "length (zm_zones ?zm) = length (zm_zones zm)"
      "open_zones ?zm = open_zones zm"
    by (simp_all add: zm_modify_def open_zones_def)
  have inv: "zm_inv ?zm" using assms(1) by (rule zm_modify_inv) simp
  have p: "zm_inv zm'" "zm_frame ?zm zm'" "open_zones zm' = insert z (open_zones ?zm)"
    unfolding zm'_def using assms m by (intro zm_pushOpen_inv [OF inv]; simp)+
  have "zm_frame zm zm'" using zm_frame_setState p(2) by (rule zm_frame_trans)
  then show ?thesis using p m by (simp add: zm'_def zm_pushOpen_def)
qed

text \<open>Taking the last zone off the free list.\<close>

lemma zm_take_free:
  assumes inv: "zm_inv zm" and "zm_freeList zm \<noteq> []"
  defines "z \<equiv> last (zm_freeList zm)" and "zm1 \<equiv> zm\<lparr>zm_freeList := butlast (zm_freeList zm)\<rparr>"
  shows "zm_inv zm1" and "zm_freeList zm = zm_freeList zm1 @ [z]" and "z \<notin> open_zones zm1" and "unat z < length (zm_zones zm1)" and "z \<notin> set (zm_freeList zm1)"
proof -
  show free: "zm_freeList zm = zm_freeList zm1 @ [z]" using assms(2) by (simp add: zm1_def z_def)
  then have mem: "z \<in> set (zm_freeList zm)" by simp
  show "z \<notin> open_zones zm1" "unat z < length (zm_zones zm1)" using zm_inv_free [OF inv mem] by (simp_all add: zm1_def open_zones_def)
  have "distinct (zm_freeList zm)" using inv by (simp add: zm_inv_def)
  then show "z \<notin> set (zm_freeList zm1)" using free by simp
  show "zm_inv zm1"
  proof (rule zm_inv_shrink [OF inv])
    show "open_ok zm1" "distinct (zm_freeList zm1)" using inv by (auto simp: zm1_def zm_inv_def open_ok_def distinct_butlast)
    show "set (zm_freeList zm1) \<subseteq> set (zm_freeList zm)" by (auto simp: zm1_def dest: in_set_butlastD)
  qed (simp_all add: zm1_def open_zones_def)
qed

lemma zm_AllocateFree_inv:
  assumes inv: "zm_inv zm" and a: "zm_AllocateFree ops d zm = (r, zm', d')"
  shows "zm_inv zm' \<and> zm_frame zm zm' \<and>
    (case r of Inl _ \<Rightarrow> zm_freeList zm' = zm_freeList zm
     | Inr z \<Rightarrow> zm_freeList zm = zm_freeList zm' @ [z] \<and> z \<in> open_zones zm')"
proof (cases "zm_freeList zm = []")
  case True
  then show ?thesis using a inv by (auto simp: zm_AllocateFree_def)
next
  case False
  obtain r1 zm1 d1 where e: "(if int (length (zm_openSet zm)) \<ge> zm_maxOpenZones zm
      then zm_evictOldestLocked ops d zm else (Inr (), zm, d)) = (r1, zm1, d1)"
    by (metis prod_cases3)
  note e1 = zm_evict_if_inv [OF inv e]
  show ?thesis
  proof (cases r1)
    case (Inl err)
    then show ?thesis using a e e1 False by (auto simp: zm_AllocateFree_def)
  next
    case (Inr u)
    let ?z = "last (zm_freeList zm1)" and ?zm = "zm1\<lparr>zm_freeList := butlast (zm_freeList zm1)\<rparr>"
    have inv1: "zm_inv zm1" "zm_freeList zm1 \<noteq> []" using e1 False by auto
    note z = zm_take_free [OF inv1]
    obtain r2 d2 where o: "dev_OpenZone ops d1 (zi_StartLBA (zm_zones ?zm ! unat ?z)) = (r2, d2)" by fastforce
    note p = zm_setState_pushOpen_inv [OF z(1), of ?z ZoneStateExplicitOpen]
    show ?thesis
    proof (cases r2)
      case r2: (Inl err)
      have "zm' = zm1" "r = Inl (Wrap ''opening zone'' err)"
        using a e False Inr o r2 inv1(2) by (auto simp: zm_AllocateFree_def Let_def)
      then show ?thesis using e1 by simp
    next
      case r2: (Inr v)
      have zm': "zm' = zm_pushOpen (zm_modify ?zm ?z (zi_State_update (\<lambda>_. ZoneStateExplicitOpen))) ?z" "r = Inr ?z"
        using a e False Inr o r2 by (auto simp: zm_AllocateFree_def Let_def)
      have "zm_frame zm ?zm" using e1 by (simp add: zm_frame_def)
      then show ?thesis using p z(2-5) e1 zm' Inr zm_frame_trans [of zm ?zm zm'] by simp
    qed
  qed
qed

lemma zm_GetOrOpen_inv:
  assumes inv: "zm_inv zm" and nfree: "z \<notin> set (zm_freeList zm)"
    and g: "zm_GetOrOpen ops d zm z = (r, zm', d')"
  shows "zm_inv zm' \<and> zm_frame zm zm' \<and> zm_freeList zm' = zm_freeList zm \<and>
    (r = Inr () \<longrightarrow> z \<in> open_zones zm')"
proof (cases "unat z < length (zm_zones zm)")
  case False
  then show ?thesis using g inv by (auto simp: zm_GetOrOpen_def)
next
  case range: True
  show ?thesis
  proof (cases "map_of (zm_openSet zm) z")
    case (Some el)
    then have "z \<in> open_zones zm" by (auto simp: open_zones_def dest: map_of_SomeD intro: rev_image_eqI)
    then show ?thesis
      using g range Some zm_MoveToBack_inv [OF inv]
      by (auto simp: zm_GetOrOpen_def zm_frame_def open_zones_def)
  next
    case None
    then have nz: "z \<notin> open_zones zm" by (simp add: open_zones_def map_of_eq_None_iff)
    obtain r1 zm1 d1 where e: "(if int (length (zm_openSet zm)) \<ge> zm_maxOpenZones zm
        then zm_evictOldestLocked ops d zm else (Inr (), zm, d)) = (r1, zm1, d1)"
      by (metis prod_cases3)
    note e1 = zm_evict_if_inv [OF inv e]
    obtain r2 d2 where o: "dev_OpenZone ops d1 (zi_StartLBA (zm_zones zm1 ! unat z)) = (r2, d2)" by fastforce
    have z: "z \<notin> open_zones zm1" "unat z < length (zm_zones zm1)" "z \<notin> set (zm_freeList zm1)"
      using e1 nz range nfree zm_frame_length [of zm zm1] by auto
    show ?thesis
    proof (cases "\<exists>err. r1 = Inl err \<or> r2 = Inl err")
      case True
      then have "zm' = zm1 \<and> r \<noteq> Inr ()"
        using g range None e o by (cases r1) (auto simp: zm_GetOrOpen_def)
      then show ?thesis using e1 by auto
    next
      case False
      then have ok: "r1 = Inr ()" "r2 = Inr ()" by (metis sum.exhaust old.unit.exhaust)+
      then have "zm' = zm_pushOpen (zm_modify zm1 z (zi_State_update (\<lambda>_. ZoneStateExplicitOpen))) z"
        using g range None e o by (auto simp: zm_GetOrOpen_def)
      then show ?thesis
        using zm_setState_pushOpen_inv [OF _ z, of ZoneStateExplicitOpen] e1 ok zm_frame_trans [of zm zm1 zm']
        by auto
    qed
  qed
qed

lemma zm_modify_simps [simp]:
  "zm_openSet (zm_modify zm z f) = zm_openSet zm" "zm_openList (zm_modify zm z f) = zm_openList zm"
  "zm_freeList (zm_modify zm z f) = zm_freeList zm" "zm_frozenSet (zm_modify zm z f) = zm_frozenSet zm"
  "zm_maxOpenZones (zm_modify zm z f) = zm_maxOpenZones zm"
  "length (zm_zones (zm_modify zm z f)) = length (zm_zones zm)"
  "open_zones (zm_modify zm z f) = open_zones zm"
  by (simp_all add: zm_modify_def open_zones_def)

lemma zm_MarkFull_inv:
  assumes "zm_inv zm" and "zm_MarkFull ops d zm z = (r, zm', d')"
  shows "zm_inv zm'"
  using assms zm_dropOpen_inv [OF zm_modify_inv [OF assms(1)]]
  by (auto simp: zm_MarkFull_def split: if_splits sum.splits prod.splits)

lemma zm_MarkEmpty_inv:
  assumes inv: "zm_inv zm" and nfree: "z \<notin> set (zm_freeList zm)" and m: "zm_MarkEmpty zm z = (r, zm')"
  shows "zm_inv zm'"
proof (cases "unat z < length (zm_zones zm)")
  case True
  let ?f = "\<lambda>z. z\<lparr>zi_State := ZoneStateEmpty, zi_WritePointer := zi_StartLBA z, zi_ValidSegs := 0, zi_TotalSegs := 0\<rparr>"
  let ?zm = "zm_dropOpen (zm_modify zm z ?f) z"
  have "zm_inv (zm_modify zm z ?f)" using inv by (rule zm_modify_inv) simp
  note d = zm_dropOpen_inv [OF this, of z]
  have zm': "zm' = ?zm\<lparr>zm_frozenSet := removeAll z (zm_frozenSet ?zm), zm_freeList := zm_freeList ?zm @ [z]\<rparr>"
    using m True by (simp add: zm_MarkEmpty_def Let_def)
  have "open_zones zm' = open_zones ?zm" "open_ok zm' = open_ok ?zm"
    by (simp_all add: zm' open_zones_def open_ok_def)
  then show ?thesis
    using d True nfree by (auto simp: zm_inv_def zm')
next
  case False
  then show ?thesis using m inv by (simp add: zm_MarkEmpty_def)
qed

lemma zm_counters_inv:
  assumes "zm_inv zm"
  shows "zm_inv (zm_UpdateWritePointer zm z wp)" and "zm_inv (zm_IncrementValidSegs zm z)"
    and "zm_inv (zm_DecrementValidSegs zm z)"
  using assms
  by (auto simp: zm_UpdateWritePointer_def zm_IncrementValidSegs_def zm_DecrementValidSegs_def
      intro!: zm_modify_inv)

lemma zm_inv_frozen: "zm_inv zm \<Longrightarrow> zm_inv (zm\<lparr>zm_frozenSet := F\<rparr>)"
  by (simp add: zm_inv_def)

lemma zm_freeze_inv:
  assumes "zm_inv zm"
  shows "zm_inv (zm_Freeze zm z)" and "zm_inv (zm_Unfreeze zm z)"
  using assms by (simp_all add: zm_Freeze_def zm_Unfreeze_def zm_inv_frozen)

lemma length_zm_reconcile [simp]: "length (zm_reconcile zs ds) = length zs"
  by (induction zs ds rule: zm_reconcile.induct) auto

lemma zm_reconcile_ID: "i < length zs \<Longrightarrow> zi_ID (zm_reconcile zs ds ! i) = zi_ID (zs ! i)"
  by (induction zs ds arbitrary: i rule: zm_reconcile.induct) (auto simp: nth_Cons')

lemma zm_Reconcile_inv:
  "zm_inv zm \<Longrightarrow> zm_ReconcileFromDevice ops d zm = (r, zm', d') \<Longrightarrow> zm_inv zm'"
  by (auto simp: zm_ReconcileFromDevice_def zm_inv_def zm_reconcile_ID
      split: sum.splits prod.splits)

text \<open>The scan of the device's zones: the first \<open>n\<close> zones have been entered.\<close>

definition init_ok :: "nat \<Rightarrow> ZoneManager \<Rightarrow> bool" where
  "init_ok n zm \<longleftrightarrow> length (zm_zones zm) = n \<and> (\<forall>i < n. zi_ID (zm_zones zm ! i) = of_nat i) \<and> open_ok zm \<and>
     (\<forall>z \<in> open_zones zm. unat z < n) \<and> distinct (zm_freeList zm) \<and>
     (\<forall>z \<in> set (zm_freeList zm). unat z < n) \<and> set (zm_freeList zm) \<inter> open_zones zm = {}"

lemma zm_initZone_ok:
  assumes ok: "init_ok n zm" and n: "n < 2 ^ 32"
  shows "init_ok (Suc n) (zm_initZone (n, d) zm)"
    and "zm_maxOpenZones (zm_initZone (n, d) zm) = zm_maxOpenZones zm"
    and "length (zm_openSet (zm_initZone (n, d) zm)) = length (zm_openSet zm) +
           of_bool (zd_ZoneState d \<in> {ZoneStateImplicitOpen, ZoneStateExplicitOpen})"
proof -
  have un: "unat (of_nat n :: u32) = n" using n by (simp add: unat_of_nat)
  have fresh: "of_nat n \<notin> open_zones zm" "of_nat n \<notin> set (zm_freeList zm)"
    using ok un unfolding init_ok_def by (metis less_irrefl)+
  have oo: "open_ok zm" using ok by (simp add: init_ok_def)
  have range: "\<forall>z \<in> open_zones zm. unat z < Suc n" "\<forall>z \<in> set (zm_freeList zm). unat z < Suc n"
    using ok by (simp_all add: init_ok_def less_SucI)
  define zi where "zi = \<lparr>zi_ID = of_nat n, zi_State = zd_ZoneState d, zi_WritePointer = zd_WritePointer d,
                         zi_StartLBA = zd_ZoneStartLBA d, zi_SizeSectors = zd_ZoneLength d,
                         zi_ValidSegs = 0, zi_TotalSegs = 0, zi_Frozen = False\<rparr>"
  define zm1 where "zm1 = zm\<lparr>zm_zones := zm_zones zm @ [zi]\<rparr>"
  have base: "length (zm_zones zm1) = Suc n" "\<forall>i < Suc n. zi_ID (zm_zones zm1 ! i) = of_nat i" "open_ok zm1"
      "open_zones zm1 = open_zones zm" "zm_freeList zm1 = zm_freeList zm" "zm_openSet zm1 = zm_openSet zm"
      "zm_maxOpenZones zm1 = zm_maxOpenZones zm"
    using ok by (auto simp: zm1_def zi_def init_ok_def nth_append less_Suc_eq)
  have eq: "zm_initZone (n, d) zm = (if zd_ZoneState d = ZoneStateEmpty
      then zm1\<lparr>zm_freeList := zm_freeList zm @ [of_nat n]\<rparr>
      else if zd_ZoneState d = ZoneStateImplicitOpen \<or> zd_ZoneState d = ZoneStateExplicitOpen
      then zm_pushOpen zm1 (of_nat n) else zm1)"
    by (simp add: zm_initZone_def zm1_def zi_def Let_def)
  have p: "open_ok (zm_pushOpen zm1 (of_nat n))"
      "open_zones (zm_pushOpen zm1 (of_nat n)) = insert (of_nat n) (open_zones zm)"
      "length (zm_openSet (zm_pushOpen zm1 (of_nat n))) = Suc (length (zm_openSet zm))"
    using zm_pushOpen_ok [OF base(3), of "of_nat n"] fresh(1) base(4,6) by simp_all
  have free: "distinct (zm_freeList zm)" "set (zm_freeList zm) \<inter> open_zones zm = {}"
    using ok by (simp_all add: init_ok_def)
  show "init_ok (Suc n) (zm_initZone (n, d) zm)"
    unfolding eq init_ok_def using base p free fresh range un by simp
  show "zm_maxOpenZones (zm_initZone (n, d) zm) = zm_maxOpenZones zm"
    unfolding eq using base by simp
  show "length (zm_openSet (zm_initZone (n, d) zm)) = length (zm_openSet zm) +
           of_bool (zd_ZoneState d \<in> {ZoneStateImplicitOpen, ZoneStateExplicitOpen})"
    unfolding eq using base p by auto
qed

lemma zm_init_fold:
  "init_ok n zm \<Longrightarrow> n + length ds < 2 ^ 32 \<Longrightarrow>
   (let zm' = fold zm_initZone (enumerate n ds) zm in
     init_ok (n + length ds) zm' \<and> zm_maxOpenZones zm' = zm_maxOpenZones zm \<and>
     length (zm_openSet zm') = length (zm_openSet zm) +
       length (filter (\<lambda>d. zd_ZoneState d \<in> {ZoneStateImplicitOpen, ZoneStateExplicitOpen}) ds))"
proof (induction ds arbitrary: n zm)
  case Nil
  then show ?case by simp
next
  case (Cons d ds)
  have n: "n < 2 ^ 32" using Cons.prems(2) by simp
  note s = zm_initZone_ok [OF Cons.prems(1) n, of d]
  have "Suc n + length ds < 2 ^ 32" using Cons.prems(2) by simp
  from Cons.IH [OF s(1) this] show ?case using s(2,3) by (auto simp: Let_def)
qed

definition open_descs :: "ZoneDescriptor list \<Rightarrow> int" where
  "open_descs ds =
     int (length (filter (\<lambda>d. zd_ZoneState d \<in> {ZoneStateImplicitOpen, ZoneStateExplicitOpen}) ds))"

lemma zm_Initialize_inv:
  assumes "dev_ReportZones ops d 0 0 = (Inr ds, d')" and "length ds \<le> 2 ^ 24"
    and "open_descs ds \<le> m" and "0 < m"
  shows "zm_inv (fst (snd (zm_Initialize ops d (NewZoneManager m))))"
proof -
  let ?zm = "(NewZoneManager m)\<lparr>zm_zones := [], zm_freeList := []\<rparr>"
  have "init_ok 0 ?zm" by (simp add: init_ok_def NewZoneManager_def open_ok_def open_zones_def)
  from zm_init_fold [OF this, of ds] show ?thesis
    using assms by (simp add: zm_Initialize_def Let_def init_ok_def zm_inv_def open_descs_def NewZoneManager_def)
qed

lemma zm_step_inv: "zm_step ops (zm, d) (zm', d') \<Longrightarrow> zm_inv zm \<Longrightarrow> zm_inv zm'"
  by (erule zm_stepE)
    (auto dest: zm_AllocateFree_inv zm_GetOrOpen_inv zm_MarkFull_inv zm_MarkEmpty_inv zm_Reconcile_inv
      intro: zm_counters_inv zm_freeze_inv)

lemma zm_reachable_inv: "zm_reachable ops s0 s \<Longrightarrow> zm_inv (fst s0) \<Longrightarrow> zm_inv (fst s)"
  by (induction rule: zm_reachable.induct) (auto dest: zm_step_inv)

section \<open>Geometry and write pointers\<close>

text \<open>The part of the bookkeeping that never changes, and how each operation moves write pointers.\<close>

definition zm_geoms :: "ZoneManager \<Rightarrow> (u64 \<times> u64) list" where
  "zm_geoms zm = map (\<lambda>z. (zi_StartLBA z, zi_SizeSectors z)) (zm_zones zm)"

lemma length_zm_geoms [simp]: "length (zm_geoms zm) = length (zm_zones zm)"
  by (simp add: zm_geoms_def)

lemma zm_geoms_frame: "zm_frame zm zm' \<Longrightarrow> zm_geoms zm' = zm_geoms zm"
  by (rule nth_equalityI)
    (auto simp: zm_geoms_def zm_frame_length dest: zi_core_eqD zm_frame_nth)

lemma zm_geoms_modify:
  assumes "\<And>z. zi_StartLBA (f z) = zi_StartLBA z" and "\<And>z. zi_SizeSectors (f z) = zi_SizeSectors z"
  shows "zm_geoms (zm_modify zm i f) = zm_geoms zm"
proof -
  have "zm_geoms (zm_modify zm i f) ! j = zm_geoms zm ! j" if "j < length (zm_zones zm)" for j
    using that assms
    by (cases "unat i < length (zm_zones zm)") (auto simp: zm_geoms_def zm_modify_def nth_list_update)
  then show ?thesis by (intro nth_equalityI) auto
qed

lemma zm_geoms_counters [simp]:
  "zm_geoms (zm_UpdateWritePointer zm z wp) = zm_geoms zm"
  "zm_geoms (zm_IncrementValidSegs zm z) = zm_geoms zm" "zm_geoms (zm_DecrementValidSegs zm z) = zm_geoms zm"
  "zm_geoms (zm_Freeze zm z) = zm_geoms zm" "zm_geoms (zm_Unfreeze zm z) = zm_geoms zm"
  by (simp_all add: zm_UpdateWritePointer_def zm_IncrementValidSegs_def zm_DecrementValidSegs_def
      zm_geoms_modify) (simp_all add: zm_geoms_def zm_Freeze_def zm_Unfreeze_def)

lemma zm_lists_counters [simp]:
  "zm_freeList (zm_UpdateWritePointer zm z wp) = zm_freeList zm"
  "zm_freeList (zm_IncrementValidSegs zm z) = zm_freeList zm"
  "zm_freeList (zm_DecrementValidSegs zm z) = zm_freeList zm"
  "zm_freeList (zm_Freeze zm z) = zm_freeList zm" "zm_freeList (zm_Unfreeze zm z) = zm_freeList zm"
  by (simp_all add: zm_UpdateWritePointer_def zm_IncrementValidSegs_def zm_DecrementValidSegs_def
      zm_Freeze_def zm_Unfreeze_def)

lemma zm_WritePointer_modify:
  "unat z < length (zm_zones zm) \<Longrightarrow>
     zm_WritePointer (zm_modify zm z f) y =
       (if y = z then zi_WritePointer (f (zm_zones zm ! unat z)) else zm_WritePointer zm y)"
  by (auto simp: zm_WritePointer_def zm_modify_def nth_list_update word_unat_eq_iff)

lemma zm_WritePointer_counters [simp]:
  "unat z < length (zm_zones zm) \<Longrightarrow>
     zm_WritePointer (zm_UpdateWritePointer zm z wp) = (zm_WritePointer zm)(z := wp)"
  "zm_WritePointer (zm_IncrementValidSegs zm z) = zm_WritePointer zm"
  "zm_WritePointer (zm_DecrementValidSegs zm z) = zm_WritePointer zm"
  "zm_WritePointer (zm_Freeze zm z) = zm_WritePointer zm" "zm_WritePointer (zm_Unfreeze zm z) = zm_WritePointer zm"
  by (auto simp: zm_UpdateWritePointer_def zm_IncrementValidSegs_def zm_DecrementValidSegs_def
      zm_WritePointer_modify fun_eq_iff)
    (auto simp: zm_WritePointer_def zm_Freeze_def zm_Unfreeze_def)

lemma zm_MarkEmpty_geoms: "zm_MarkEmpty zm z = (r, zm') \<Longrightarrow> zm_geoms zm' = zm_geoms zm"
proof -
  assume m: "zm_MarkEmpty zm z = (r, zm')"
  let ?f = "\<lambda>z. z\<lparr>zi_State := ZoneStateEmpty, zi_WritePointer := zi_StartLBA z, zi_ValidSegs := 0, zi_TotalSegs := 0\<rparr>"
  have "zm_zones zm' = zm_zones (zm_modify zm z ?f) \<or> zm' = zm"
    using m by (auto simp: zm_MarkEmpty_def zm_dropOpen_def Let_def split: if_splits option.splits)
  moreover have "zm_geoms (zm_modify zm z ?f) = zm_geoms zm" by (intro zm_geoms_modify) simp_all
  ultimately show ?thesis by (auto simp: zm_geoms_def)
qed

lemma zm_ZoneInfo_geoms:
  "zm_ZoneInfo zm z = Some zi \<Longrightarrow> unat z < length (zm_zones zm) \<and>
     zi = zm_zones zm ! unat z \<and> zm_geoms zm ! unat z = (zi_StartLBA zi, zi_SizeSectors zi)"
  by (auto simp: zm_ZoneInfo_def zm_geoms_def split: if_splits)

section \<open>Choosing a victim\<close>

lemma GCScore_nonneg: "0 \<le> GCScore z"
  unfolding GCScore_def Let_def
  by (cases "zi_TotalSegs z = 0")
    (simp_all only: simp_thms if_True if_False divide_nonneg_nonneg of_nat_0_le_iff order_refl)

lemma zm_selectRound_eq:
  "zm_selectRound zm z (b, sc, f) =
     (if gc_candidate zm z \<and> sc < GCScore z then (zi_ID z, GCScore z, True) else (b, sc, f))"
  by (auto simp: zm_selectRound_def gc_candidate_def)

lemma zm_select_fold:
  assumes "fold (zm_selectRound zm) zs (b, sc, f) = (b', sc', f')"
  shows "sc \<le> sc' \<and> (\<forall>z \<in> set zs. gc_candidate zm z \<longrightarrow> GCScore z \<le> sc') \<and>
    (b' = b \<and> sc' = sc \<and> f' = f \<or>
     f' \<and> sc < sc' \<and> (\<exists>z \<in> set zs. gc_candidate zm z \<and> zi_ID z = b' \<and> GCScore z = sc'))"
  using assms
proof (induction zs arbitrary: b sc f)
  case Nil
  then show ?case by simp
next
  case (Cons z zs)
  show ?case
  proof (cases "gc_candidate zm z \<and> sc < GCScore z")
    case True
    then have "fold (zm_selectRound zm) zs (zi_ID z, GCScore z, True) = (b', sc', f')"
      using Cons.prems by (simp add: zm_selectRound_eq)
    from Cons.IH [OF this] True show ?thesis by fastforce
  next
    case False
    then have "zm_selectRound zm z (b, sc, f) = (b, sc, f)" by (auto simp: zm_selectRound_eq)
    then have "fold (zm_selectRound zm) zs (b, sc, f) = (b', sc', f')" using Cons.prems by simp
    from Cons.IH [OF this] False show ?thesis by fastforce
  qed
qed

lemma zm_SelectGCVictim_spec:
  assumes "zm_SelectGCVictim zm = (b, f)"
  shows "f \<longleftrightarrow> (\<exists>z \<in> set (zm_zones zm). gc_candidate zm z)"
    and "f \<Longrightarrow> \<exists>z \<in> set (zm_zones zm). gc_candidate zm z \<and> zi_ID z = b \<and>
           (\<forall>y \<in> set (zm_zones zm). gc_candidate zm y \<longrightarrow> GCScore y \<le> GCScore z)"
proof -
  obtain sc where "fold (zm_selectRound zm) (zm_zones zm) (0, -1, False) = (b, sc, f)"
    using assms by (auto simp: zm_SelectGCVictim_def split: prod.splits)
  note sel = zm_select_fold [OF this]
  have "\<not> GCScore z \<le> -1" for z using GCScore_nonneg [of z] by linarith
  then show "f \<longleftrightarrow> (\<exists>z \<in> set (zm_zones zm). gc_candidate zm z)" using sel by metis
  show "\<exists>z \<in> set (zm_zones zm). gc_candidate zm z \<and> zi_ID z = b \<and>
           (\<forall>y \<in> set (zm_zones zm). gc_candidate zm y \<longrightarrow> GCScore y \<le> GCScore z)" if f
    using sel that by metis
qed

section \<open>What the zone manager does to the device\<close>

context zoned_device
begin

lemma zm_evict_device:
  assumes "dinv d" and "zm_evictOldestLocked ops d zm = (r, zm', d')"
  shows "dinv d' \<and> same_data (view d) (view d')"
  using assms
  by (auto simp: zm_evictOldestLocked_def split: list.splits prod.splits sum.splits dest: CloseZone_data)

lemma zm_AllocateFree_device:
  assumes d: "dinv d" and a: "zm_AllocateFree ops d zm = (r, zm', d')"
  shows "dinv d' \<and> same_data (view d) (view d')"
proof -
  obtain r1 zm1 d1 where e: "(if int (length (zm_openSet zm)) \<ge> zm_maxOpenZones zm
      then zm_evictOldestLocked ops d zm else (Inr (), zm, d)) = (r1, zm1, d1)"
    by (metis prod_cases3)
  have d1: "dinv d1 \<and> same_data (view d) (view d1)"
    using e d zm_evict_device [OF d] by (auto split: if_splits)
  show ?thesis
    using a e d d1 unfolding zm_AllocateFree_def
    by (auto simp: Let_def split: if_splits sum.splits prod.splits dest: OpenZone_data same_data_trans)
qed

lemma zm_GetOrOpen_device:
  assumes d: "dinv d" and a: "zm_GetOrOpen ops d zm z = (r, zm', d')"
  shows "dinv d' \<and> same_data (view d) (view d')"
proof -
  obtain r1 zm1 d1 where e: "(if int (length (zm_openSet zm)) \<ge> zm_maxOpenZones zm
      then zm_evictOldestLocked ops d zm else (Inr (), zm, d)) = (r1, zm1, d1)"
    by (metis prod_cases3)
  have d1: "dinv d1 \<and> same_data (view d) (view d1)"
    using e d zm_evict_device [OF d] by (auto split: if_splits)
  show ?thesis
    using a e d d1 unfolding zm_GetOrOpen_def
    by (auto simp: Let_def split: if_splits sum.splits prod.splits option.splits
        dest: OpenZone_data same_data_trans)
qed

end

section \<open>Properties\<close>



text \<open>
  \<^verbatim>\<open>SelectGCVictim\<close> finds a victim exactly when there is an unfrozen FULL or CLOSED zone with segments in
  it, and the zone it returns has the largest share of invalid segments among all of those.
\<close>

theorem gc_victim_best:
  assumes "zm_SelectGCVictim zm = (b, f)"
  shows "(f \<longleftrightarrow> (\<exists>z \<in> set (zm_zones zm). gc_candidate zm z)) \<and>
         (f \<longrightarrow> (\<exists>z \<in> set (zm_zones zm). gc_candidate zm z \<and> zi_ID z = b \<and>
                 (\<forall>y \<in> set (zm_zones zm). gc_candidate zm y \<longrightarrow> GCScore y \<le> GCScore z)))"
  using zm_SelectGCVictim_spec [OF assms] by blast

definition zi_demo :: "u32 \<Rightarrow> zone_state \<Rightarrow> u32 \<Rightarrow> u32 \<Rightarrow> ZoneInfo" where
  "zi_demo i s v t = \<lparr>zi_ID = i, zi_State = s, zi_WritePointer = 0, zi_StartLBA = 0, zi_SizeSectors = 2,
                       zi_ValidSegs = v, zi_TotalSegs = t, zi_Frozen = False\<rparr>"

theorem gc_victim_best_witness:
  "snd (zm_SelectGCVictim ((NewZoneManager 1)\<lparr>zm_zones := [zi_demo 0 ZoneStateFull 2 3, zi_demo 1 ZoneStateEmpty 0 0]\<rparr>))"
  using gc_victim_best [OF prod.collapse [symmetric], of
      "(NewZoneManager 1)\<lparr>zm_zones := [zi_demo 0 ZoneStateFull 2 3, zi_demo 1 ZoneStateEmpty 0 0]\<rparr>"]
  by (simp add: gc_candidate_def zi_demo_def NewZoneManager_def)

text \<open>
  When the limit of open zones is reached and the least recently used of them has become FULL on
  the device (a write filled it), \<^verbatim>\<open>AllocateFree\<close> fails although there are free zones, because closing a
  FULL zone is an error; nothing changes, so every later allocation fails the same way.
\<close>

theorem zm_alloc_stuck:
  assumes "em_inv e" and "zm_openList zm = (el, z) # rest" and "zm_maxOpenZones zm \<le> int (length (zm_openSet zm))"
    and "unat z < length (em_zones e)" and "zi_StartLBA (zm_zones zm ! unat z) = zone_lba (em_view e) (unat z) 0"
    and "zs_state (em_zones e ! unat z) = ZoneStateFull"
  shows "\<exists>err. zm_AllocateFree em_dev e zm = (Inl err, zm, e)"
proof -
  have "unat (zone_lba (em_view e) (unat z) 0) = unat z * unat (em_zoneSectors e)"
    using unat_em_zone_lba [OF assms(1,4), of 0] by simp
  moreover have "0 < unat (em_zoneSectors e)" using assms(1) by (simp add: em_inv_def)
  ultimately have "\<exists>err. em_CloseZone e (zone_lba (em_view e) (unat z) 0) = (Inl err, e)"
    using assms by (simp add: em_CloseZone_def em_zoneIndex_eq)
  then show ?thesis
    using assms by (auto simp: zm_AllocateFree_def zm_evictOldestLocked_def em_dev_def)
qed

definition em_full_demo :: Emulator where
  "em_full_demo = snd (em_WriteSectors em_demo 1 (zeros 512))"

definition zm_full_demo :: ZoneManager where
  "zm_full_demo = \<lparr>zm_zones = [zi_demo 0 ZoneStateExplicitOpen 1 1, (zi_demo 1 ZoneStateEmpty 0 0)\<lparr>zi_StartLBA := 2\<rparr>],
     zm_freeList = [1], zm_openList = [(0, 0)], zm_openSet = [(0, 0)], zm_frozenSet = [], zm_maxOpenZones = 1, zm_nextEl = 1\<rparr>"

theorem zm_alloc_stuck_witness:
  "zm_freeList zm_full_demo = [1] \<and> (\<exists>err. zm_AllocateFree em_dev em_full_demo zm_full_demo = (Inl err, zm_full_demo, em_full_demo))"
proof -
  have inv: "em_inv em_full_demo"
    unfolding em_full_demo_def
    by (rule em_WriteSectors_inv [OF em_demo_inv _ prod.collapse [symmetric]]) simp
  have z: "em_zones em_full_demo ! 0 = \<lparr>zs_state = ZoneStateFull, zs_writePointer = 2,
      zs_data = zs_data (em_zones em_full_demo ! 0)\<rparr>" "length (em_zones em_full_demo) = 2"
    by (simp_all add: em_full_demo_def em_demo_def em_WriteSectors_def em_zoneIndex_def em_writeState_def
        em_writeOpened_def em_zoneStartLBA_def Let_def zeros_def)
  have "\<exists>err. zm_AllocateFree em_dev em_full_demo zm_full_demo = (Inl err, zm_full_demo, em_full_demo)"
    by (rule zm_alloc_stuck [OF inv, where el = 0 and z = 0 and rest = "[]"])
      (use z in \<open>simp_all add: zm_full_demo_def zi_demo_def zone_lba_def, metis zoneState.select_convs(1)\<close>)
  then show ?thesis by (simp add: zm_full_demo_def)
qed

end
