(* ===== verification/WriteBuffer.thy ===== *)
theory WriteBuffer
  imports ZoneManager
begin

text \<open>
  The write buffer, \<^verbatim>\<open>internal/ztl/buffer.go\<close>: per zone, the bytes that have been accepted but not yet
  written to the device. \<^verbatim>\<open>time.Now()\<close> is the argument \<open>now\<close> (nanoseconds). Go iterates over a map in
  an arbitrary order: \<open>ord\<close> rearranges the zone numbers that \<^verbatim>\<open>FlushAll\<close> and \<^verbatim>\<open>flushAged\<close> collect.
\<close>

section \<open>State\<close>

record zoneBuffer =
  zb_zoneID :: u32
  zb_data :: bytes
  zb_writePointer :: u64
  zb_lastWriteAt :: int

record WriteBuffer =
  wb_buffers :: "(u32 \<times> zoneBuffer) list"
  wb_zoneSectors :: u64
  wb_flushAge :: int
  wb_sectorSize :: u32

section \<open>Operations\<close>

definition NewWriteBuffer :: "u64 \<Rightarrow> int \<Rightarrow> WriteBuffer" where
  "NewWriteBuffer zoneSectors flushAgeSec =
     \<lparr>wb_buffers = [], wb_zoneSectors = zoneSectors, wb_flushAge = flushAgeSec * 1000000000,
      wb_sectorSize = 512\<rparr>"

definition wb_Add :: "WriteBuffer \<Rightarrow> u32 \<Rightarrow> bytes \<Rightarrow> u64 \<Rightarrow> int \<Rightarrow> unit result \<times> WriteBuffer" where
  "wb_Add wb zoneID data writePointer now =
     (if length data = 0 then (Inr (), wb)
      else
        let buf = (case map_of (wb_buffers wb) zoneID of
                     Some buf \<Rightarrow> buf
                   | None \<Rightarrow> \<lparr>zb_zoneID = zoneID, zb_data = [], zb_writePointer = writePointer, zb_lastWriteAt = 0\<rparr>);
            buf' = buf\<lparr>zb_data := zb_data buf @ data, zb_lastWriteAt := now\<rparr>
        in (Inr (), wb\<lparr>wb_buffers := AList.update zoneID buf' (wb_buffers wb)\<rparr>))"

definition wb_Lookup :: "WriteBuffer \<Rightarrow> u32 \<Rightarrow> u64 \<Rightarrow> u32 \<Rightarrow> bytes option" where
  "wb_Lookup wb zoneID startLBA sectorCount =
     (case map_of (wb_buffers wb) zoneID of
        None \<Rightarrow> None
      | Some buf \<Rightarrow>
          let bufStartLBA = zb_writePointer buf;
              bufEndLBA = bufStartLBA + of_nat (length (zb_data buf)) div ucast (wb_sectorSize wb);
              requestStart = startLBA;
              requestEnd = startLBA + ucast sectorCount in
          if requestStart \<ge> bufEndLBA \<or> requestEnd \<le> bufStartLBA then None
          else
            let overlapStart = (if bufStartLBA > requestStart then bufStartLBA else requestStart);
                overlapEnd = (if bufEndLBA < requestEnd then bufEndLBA else requestEnd) in
            if overlapStart \<ge> overlapEnd then None
            else if overlapStart \<noteq> requestStart \<or> overlapEnd \<noteq> requestEnd then None
            else
              let bufOffset = unat (overlapStart - bufStartLBA) * unat (wb_sectorSize wb);
                  len = unat (overlapEnd - overlapStart) * unat (wb_sectorSize wb)
              in Some (bslice bufOffset (bufOffset + len) (zb_data buf)))"

definition wb_Flush ::
    "'d ZonedDevice \<Rightarrow> WriteBuffer \<Rightarrow> u32 \<Rightarrow> 'd \<Rightarrow> ZoneManager \<Rightarrow> unit result \<times> WriteBuffer \<times> ZoneManager \<times> 'd" where
  "wb_Flush ops wb zoneID d zm =
     (case map_of (wb_buffers wb) zoneID of
        None \<Rightarrow> (Inr (), wb, zm, d)
      | Some buf \<Rightarrow>
          let wb' = wb\<lparr>wb_buffers := AList.delete zoneID (wb_buffers wb)\<rparr> in
          if length (zb_data buf) = 0 then (Inr (), wb', zm, d)
          else
            case zm_GetOrOpen ops d zm zoneID of
              (Inl err, zm1, d1) \<Rightarrow> (Inl (Wrap ''WriteBuffer.Flush: open zone'' err), wb', zm1, d1)
            | (Inr _, zm1, d1) \<Rightarrow>
                (case dev_WriteSectors ops d1 (zb_writePointer buf) (zb_data buf) of
                   (Inl err, d2) \<Rightarrow> (Inl (Wrap ''WriteBuffer.Flush: write zone'' err), wb', zm1, d2)
                 | (Inr _, d2) \<Rightarrow>
                     let newWP = zb_writePointer buf + of_nat (length (zb_data buf)) div ucast (wb_sectorSize wb)
                     in (Inr (), wb', zm_UpdateWritePointer zm1 zoneID newWP, d2)))"

text \<open>The loop over the collected zone numbers; the first error is kept, later zones are still flushed.\<close>

fun wb_flushEach ::
    "'d ZonedDevice \<Rightarrow> u32 list \<Rightarrow> unit result \<Rightarrow> WriteBuffer \<Rightarrow> ZoneManager \<Rightarrow> 'd \<Rightarrow>
       unit result \<times> WriteBuffer \<times> ZoneManager \<times> 'd" where
  "wb_flushEach ops [] firstErr wb zm d = (firstErr, wb, zm, d)"
| "wb_flushEach ops (z # zs) firstErr wb zm d =
     (case wb_Flush ops wb z d zm of
        (r, wb1, zm1, d1) \<Rightarrow>
          wb_flushEach ops zs (if firstErr = Inr () then r else firstErr) wb1 zm1 d1)"

definition wb_FlushAll ::
    "(u32 list \<Rightarrow> u32 list) \<Rightarrow> 'd ZonedDevice \<Rightarrow> WriteBuffer \<Rightarrow> ZoneManager \<Rightarrow> 'd \<Rightarrow>
       unit result \<times> WriteBuffer \<times> ZoneManager \<times> 'd" where
  "wb_FlushAll ord ops wb zm d = wb_flushEach ops (ord (map fst (wb_buffers wb))) (Inr ()) wb zm d"

definition wb_aged :: "(u32 list \<Rightarrow> u32 list) \<Rightarrow> int \<Rightarrow> WriteBuffer \<Rightarrow> u32 list" where
  "wb_aged ord now wb =
     (let threshold = now - wb_flushAge wb in
      filter (\<lambda>z. case map_of (wb_buffers wb) z of Some buf \<Rightarrow> zb_lastWriteAt buf < threshold | None \<Rightarrow> False)
        (ord (map fst (wb_buffers wb))))"

definition wb_flushAged ::
    "(u32 list \<Rightarrow> u32 list) \<Rightarrow> 'd ZonedDevice \<Rightarrow> int \<Rightarrow> WriteBuffer \<Rightarrow> ZoneManager \<Rightarrow> 'd \<Rightarrow>
       WriteBuffer \<times> ZoneManager \<times> 'd" where
  "wb_flushAged ord ops now wb zm d = snd (wb_flushEach ops (wb_aged ord now wb) (Inr ()) wb zm d)"

definition wb_DirtyBytes :: "WriteBuffer \<Rightarrow> int" where
  "wb_DirtyBytes wb = sum_list (map (\<lambda>p. int (length (zb_data (snd p)))) (wb_buffers wb))"

definition wb_ZoneCount :: "WriteBuffer \<Rightarrow> int" where
  "wb_ZoneCount wb = int (length (wb_buffers wb))"

section \<open>Lemmas\<close>

text \<open>The bytes buffered for a zone.\<close>

definition wb_data :: "WriteBuffer \<Rightarrow> u32 \<Rightarrow> bytes" where
  "wb_data wb z = (case map_of (wb_buffers wb) z of None \<Rightarrow> [] | Some buf \<Rightarrow> zb_data buf)"

lemma of_nat_sectors:
  assumes "length bs = sectorSize * n" and "length bs < 2 ^ 64"
  shows "(of_nat (length bs) :: u64) div 512 = of_nat n"
proof -
  have "unat ((of_nat (length bs) :: u64) div 512) = length bs div 512"
    using assms(2) by (simp add: unat_div_distrib unat_u64_of_nat)
  then have "unat ((of_nat (length bs) :: u64) div 512) = n" using assms(1) by simp
  then show ?thesis by (rule u64_eq_of_nat)
qed

lemma map_of_wb_Add:
  assumes "wb_Add wb z data wp now = (r, wb')" and "data \<noteq> []"
  shows "map_of (wb_buffers wb') y =
           (if y = z then Some (case map_of (wb_buffers wb) z of
                Some buf \<Rightarrow> buf\<lparr>zb_data := zb_data buf @ data, zb_lastWriteAt := now\<rparr>
              | None \<Rightarrow> \<lparr>zb_zoneID = z, zb_data = data, zb_writePointer = wp, zb_lastWriteAt = now\<rparr>)
            else map_of (wb_buffers wb) y)"
    and "wb_sectorSize wb' = wb_sectorSize wb" and "r = Inr ()"
    and "wb_data wb' y = (if y = z then wb_data wb z @ data else wb_data wb y)"
  using assms by (auto simp: wb_Add_def Let_def update_conv' wb_data_def split: option.splits)

lemma wb_Lookup_eq:
  assumes buf: "map_of (wb_buffers wb) z = Some buf" and ss: "wb_sectorSize wb = 512"
    and len: "length (zb_data buf) = sectorSize * n" "length (zb_data buf) < 2 ^ 64"
    and b: "unat (zb_writePointer buf) + n < 2 ^ 64" and a: "unat a + unat c < 2 ^ 64" and c: "0 < unat c"
  shows "wb_Lookup wb z a c =
     (if unat (zb_writePointer buf) \<le> unat a \<and> unat a + unat c \<le> unat (zb_writePointer buf) + n
      then Some (concat (map (\<lambda>j. sector j (zb_data buf))
             [unat a - unat (zb_writePointer buf)..<unat a - unat (zb_writePointer buf) + unat c]))
      else None)"
proof -
  let ?s = "zb_writePointer buf"
  let ?e = "?s + of_nat (length (zb_data buf)) div 512"
  have n: "unat (of_nat n :: u64) = n" using b by (intro unat_u64_of_nat) simp
  have e: "unat ?e = unat ?s + n" using of_nat_sectors [OF len] n b by (simp add: unat_add_lt)
  have r: "unat (a + ucast c) = unat a + unat c" using a by (simp add: unat_add_lt)
  show ?thesis
  proof (cases "unat ?s \<le> unat a \<and> unat a + unat c \<le> unat ?s + n")
    case True
    have off: "unat (a - ?s) = unat a - unat ?s"
      using True by (intro unat_sub_le) (simp add: word_le_nat_alt)
    have "unat a - unat ?s + unat c \<le> n" using True by linarith
    then have fits: "sectorSize * (unat a - unat ?s + unat c) \<le> length (zb_data buf)"
      unfolding len(1) by (rule mult_le_mono2)
    have cnt: "unat (a + ucast c - a) = unat c" by simp
    have "bslice (unat (a - ?s) * 512) (unat (a - ?s) * 512 + unat c * 512) (zb_data buf) =
        concat (map (\<lambda>j. sector j (zb_data buf)) [unat a - unat ?s..<unat a - unat ?s + unat c])"
      using take_drop_sectors [OF fits] by (simp add: bslice_def off mult.commute)
    moreover have "\<not> a \<ge> ?e" "\<not> a + ucast c \<le> ?s" "\<not> ?s > a" "\<not> ?e < a + ucast c" "\<not> a \<ge> a + ucast c"
      unfolding word_le_nat_alt word_less_nat_alt e r using True c by linarith+
    ultimately show ?thesis
      using True buf ss cnt by (simp add: wb_Lookup_def Let_def)
  next
    case False
    then have "a \<ge> ?e \<or> a + ucast c \<le> ?s \<or> ?s > a \<or> ?e < a + ucast c"
      unfolding word_le_nat_alt word_less_nat_alt e r by linarith
    then show ?thesis
      using False buf ss by (auto simp: wb_Lookup_def Let_def)
  qed
qed

section \<open>Zones seen through the buffer\<close>

text \<open>
  A zone holds the sectors written to the device followed by the buffered ones: \<open>fill\<close> is their number
  and \<open>psector\<close> their content. \<open>buffered_ok\<close> couples the three places that track a zone's write pointer:
  the device, the zone manager and the buffer.
\<close>

definition fill :: "dev_view \<Rightarrow> WriteBuffer \<Rightarrow> u32 \<Rightarrow> nat" where
  "fill v wb z = v_wp v (unat z) + length (wb_data wb z) div sectorSize"

definition psector :: "dev_view \<Rightarrow> WriteBuffer \<Rightarrow> u32 \<Rightarrow> nat \<Rightarrow> bytes" where
  "psector v wb z k = (if k < v_wp v (unat z) then v_sector v (unat z) k
                       else sector (k - v_wp v (unat z)) (wb_data wb z))"

definition zone_geoms :: "dev_view \<Rightarrow> (u64 \<times> u64) list" where
  "zone_geoms v = map (\<lambda>i. (zone_lba v i 0, of_nat (v_size v))) [0..<v_zones v]"

definition buffered_ok :: "dev_view \<Rightarrow> ZoneManager \<Rightarrow> WriteBuffer \<Rightarrow> bool" where
  "buffered_ok v zm wb \<longleftrightarrow>
     wb_sectorSize wb = 512 \<and> v_size v < 2 ^ 40 \<and> zm_geoms zm = zone_geoms v \<and>
     (\<forall>z buf. map_of (wb_buffers wb) z = Some buf \<longrightarrow>
        unat z < v_zones v \<and> zb_data buf \<noteq> [] \<and> zb_writePointer buf = zone_lba v (unat z) (v_wp v (unat z))) \<and>
     (\<forall>z. unat z < v_zones v \<longrightarrow>
        length (wb_data wb z) mod sectorSize = 0 \<and> fill v wb z \<le> v_size v \<and>
        zm_WritePointer zm z = zone_lba v (unat z) (fill v wb z))"

lemma zone_geoms_length: "buffered_ok v zm wb \<Longrightarrow> length (zm_zones zm) = v_zones v"
  by (metis buffered_ok_def length_zm_geoms zone_geoms_def length_map length_upt minus_nat.diff_0)

lemma zm_ZoneInfo_ok:
  assumes "buffered_ok v zm wb" and "unat z < v_zones v"
  obtains zi where "zm_ZoneInfo zm z = Some zi" "zi_StartLBA zi = zone_lba v (unat z) 0"
    "zi_SizeSectors zi = of_nat (v_size v)"
proof -
  have len: "unat z < length (zm_zones zm)" using zone_geoms_length [OF assms(1)] assms(2) by simp
  then have i: "zm_ZoneInfo zm z = Some (zm_zones zm ! unat z)" by (simp add: zm_ZoneInfo_def)
  have "zm_geoms zm ! unat z = (zone_lba v (unat z) 0, of_nat (v_size v))"
    using assms by (simp add: buffered_ok_def zone_geoms_def)
  then show ?thesis using zm_ZoneInfo_geoms [OF i] that [OF i] by simp
qed

lemma wb_data_None: "map_of (wb_buffers wb) z = None \<Longrightarrow> wb_data wb z = []"
  by (simp add: wb_data_def)

lemma wb_data_Some: "map_of (wb_buffers wb) z = Some buf \<Longrightarrow> wb_data wb z = zb_data buf"
  by (simp add: wb_data_def)

lemma zone_lba_same: "same_data v w \<Longrightarrow> zone_lba w = zone_lba v"
  by (simp add: same_data_def zone_lba_def fun_eq_iff)

lemma same_data_fill: "same_data v w \<Longrightarrow> fill w = fill v \<and> psector w = psector v"
  by (simp add: same_data_def fill_def psector_def fun_eq_iff)

lemma buffered_ok_same:
  assumes ok: "buffered_ok v zm wb" and v: "same_data v w"
    and zm: "zm_geoms zm' = zm_geoms zm" "zm_WritePointer zm' = zm_WritePointer zm"
  shows "buffered_ok w zm' wb"
  using ok v zm zone_lba_same [OF v] same_data_fill [OF v]
  by (auto simp: buffered_ok_def same_data_def zone_geoms_def)

lemma buffered_ok_frame:
  "buffered_ok v zm wb \<Longrightarrow> same_data v w \<Longrightarrow> zm_frame zm zm' \<Longrightarrow> buffered_ok w zm' wb"
  by (erule (1) buffered_ok_same) (auto simp: zm_geoms_frame zm_frame_zone)

text \<open>Appending whole sectors to a zone through the buffer.\<close>

lemma wb_Add_fill:
  assumes "wb_Add wb z data wp now = (r, wb')" and "length data = sectorSize * n" and "0 < n"
    and "length (wb_data wb z) mod sectorSize = 0"
  shows "fill v wb' y = fill v wb y + (if y = z then n else 0)"
    and "psector v wb' y k = (if y = z \<and> fill v wb z \<le> k then sector (k - fill v wb z) data else psector v wb y k)"
proof -
  have ne: "data \<noteq> []" using assms by auto
  note a = map_of_wb_Add [OF assms(1) ne]
  obtain m where m: "length (wb_data wb z) = sectorSize * m" using assms(4) by blast
  show "fill v wb' y = fill v wb y + (if y = z then n else 0)"
    using a(4) m assms(2) by (simp add: fill_def)
  have "sector (k - v_wp v (unat z)) (wb_data wb z @ data) =
      (if k - v_wp v (unat z) < m then sector (k - v_wp v (unat z)) (wb_data wb z)
       else sector (k - v_wp v (unat z) - m) data)"
    by (rule sector_append [OF m])
  then show "psector v wb' y k =
      (if y = z \<and> fill v wb z \<le> k then sector (k - fill v wb z) data else psector v wb y k)"
    using a(4) m by (auto simp: psector_def fill_def not_less)
qed

lemma buffered_ok_Add:
  assumes ok: "buffered_ok v zm wb" and z: "unat z < v_zones v"
    and add: "wb_Add wb z data (zm_WritePointer zm z) now = (r, wb')"
    and len: "length data = sectorSize * n" "0 < n" and room: "fill v wb z + n \<le> v_size v"
  shows "buffered_ok v (zm_UpdateWritePointer zm z (zone_lba v (unat z) (fill v wb z + n))) wb'"
proof -
  have ne: "data \<noteq> []" using len by auto
  note a = map_of_wb_Add [OF add ne]
  have zl: "unat z < length (zm_zones zm)" using zone_geoms_length [OF ok] z by simp
  have mod0: "length (wb_data wb z) mod sectorSize = 0" using ok z by (simp add: buffered_ok_def)
  note f = wb_Add_fill(1) [OF add len mod0]
  have wp0: "zm_WritePointer zm z = zone_lba v (unat z) (v_wp v (unat z))" if "map_of (wb_buffers wb) z = None"
    using ok z wb_data_None [OF that] by (simp add: buffered_ok_def fill_def)
  show ?thesis
    unfolding buffered_ok_def
    using ok z a(1,2,4) f room len mod0 wp0 ne zl
    by (auto simp: buffered_ok_def split: option.splits if_splits)
qed

lemma wb_Flush_None: "map_of (wb_buffers wb) z = None \<Longrightarrow> wb_Flush ops wb z d zm = (Inr (), wb, zm, d)"
  by (simp add: wb_Flush_def)

lemma wb_Flush_okE:
  assumes "wb_Flush ops wb z d zm = (Inr (), wb', zm', d')" and "map_of (wb_buffers wb) z = Some buf"
    and "zb_data buf \<noteq> []"
  obtains zm1 d1 where "zm_GetOrOpen ops d zm z = (Inr (), zm1, d1)"
    "dev_WriteSectors ops d1 (zb_writePointer buf) (zb_data buf) = (Inr (), d')"
    "wb' = wb\<lparr>wb_buffers := AList.delete z (wb_buffers wb)\<rparr>"
    "zm' = zm_UpdateWritePointer zm1 z (zb_writePointer buf + of_nat (length (zb_data buf)) div ucast (wb_sectorSize wb))"
proof -
  obtain r1 zm1 d1 where g: "zm_GetOrOpen ops d zm z = (r1, zm1, d1)" by (metis prod_cases3)
  obtain r2 d2 where w: "dev_WriteSectors ops d1 (zb_writePointer buf) (zb_data buf) = (r2, d2)" by fastforce
  show ?thesis
    using assms g w that by (cases r1; cases r2) (auto simp: wb_Flush_def Let_def)
qed

lemma wb_flushEach_error: "fst (wb_flushEach ops zs (Inl err) wb zm d) = Inl err"
  by (induction zs arbitrary: wb zm d) (auto split: prod.splits)

lemma buffered_ok_zone:
  assumes ok: "buffered_ok v zm wb" and z: "unat z < v_zones v"
  obtains n where "length (wb_data wb z) = sectorSize * n" "fill v wb z = v_wp v (unat z) + n"
    "v_wp v (unat z) + n \<le> v_size v" "length (wb_data wb z) < 2 ^ 63"
proof -
  obtain n where n: "length (wb_data wb z) = sectorSize * n"
    using ok z unfolding buffered_ok_def by blast
  moreover have "fill v wb z = v_wp v (unat z) + n" using n by (simp add: fill_def)
  moreover have "v_wp v (unat z) + n \<le> v_size v" "v_size v < 2 ^ 40"
    using ok z n by (auto simp: buffered_ok_def fill_def)
  ultimately show ?thesis using that by auto
qed

text \<open>What flushing may do: the same zones with the same contents, more of them on the device.\<close>

definition flush_rel :: "dev_view \<Rightarrow> WriteBuffer \<Rightarrow> dev_view \<Rightarrow> WriteBuffer \<Rightarrow> bool" where
  "flush_rel v wb v' wb' \<longleftrightarrow> v_zones v' = v_zones v \<and> v_size v' = v_size v \<and> fill v' wb' = fill v wb \<and>
     (\<forall>y k. unat y < v_zones v \<longrightarrow> k < fill v wb y \<longrightarrow> psector v' wb' y k = psector v wb y k) \<and>
     (\<forall>y. v_wp v' (unat y) = v_wp v (unat y) \<or> v_wp v' (unat y) = fill v wb y)"

lemma flush_rel_refl [simp]: "flush_rel v wb v wb"
  by (simp add: flush_rel_def)

lemma flush_rel_trans: "flush_rel u a v b \<Longrightarrow> flush_rel v b w c \<Longrightarrow> flush_rel u a w c"
  unfolding flush_rel_def by metis

lemma flush_rel_same_data: "same_data v w \<Longrightarrow> flush_rel v wb w wb"
  by (simp add: flush_rel_def same_data_fill) (simp add: same_data_def)

definition bufs_not_free :: "WriteBuffer \<Rightarrow> ZoneManager \<Rightarrow> bool" where
  "bufs_not_free wb zm \<longleftrightarrow> (\<forall>z. map_of (wb_buffers wb) z \<noteq> None \<longrightarrow> z \<notin> set (zm_freeList zm))"

lemma buffered_wp_le:
  fixes y :: u32
  assumes "buffered_ok v zm wb" and "unat y < v_zones v"
  shows "v_wp v (unat y) \<le> v_size v"
proof -
  have "fill v wb y \<le> v_size v" using assms by (simp add: buffered_ok_def)
  then show ?thesis by (simp add: fill_def)
qed

text \<open>The buffer of a zone, written to the device at the zone's write pointer and dropped: nothing one can read has changed.\<close>

lemma flushed_view:
  assumes ok: "buffered_ok v zm wb" and buf: "map_of (wb_buffers wb) z = Some buf"
    and n: "length (zb_data buf) = sectorSize * n" "fill v wb z = v_wp v (unat z) + n" "v_wp v (unat z) + n \<le> v_size v"
    and w: "written v (unat z) (v_wp v (unat z)) (zb_data buf) v'"
    and zm': "zm_WritePointer zm' = zm_WritePointer zm" "zm_geoms zm' = zm_geoms zm"
  defines "wb' \<equiv> wb\<lparr>wb_buffers := AList.delete z (wb_buffers wb)\<rparr>"
  shows "buffered_ok v' zm' wb' \<and> map_of (wb_buffers wb') = (map_of (wb_buffers wb))(z := None) \<and> fill v' wb' = fill v wb \<and>
    (\<forall>y k. unat y < v_zones v \<longrightarrow> k < fill v wb y \<longrightarrow> psector v' wb' y k = psector v wb y k)"
proof -
  have v': "v_zones v' = v_zones v" "v_size v' = v_size v" "v_wp v' = (v_wp v)(unat z := v_wp v (unat z) + n)" "zone_lba v' = zone_lba v"
      "\<And>y j. y < v_zones v \<Longrightarrow> j < v_size v \<Longrightarrow> v_sector v' y j =
         (if y = unat z \<and> v_wp v (unat z) \<le> j \<and> j < v_wp v (unat z) + n then sector (j - v_wp v (unat z)) (zb_data buf) else v_sector v y j)"
    using w n(1) by (auto simp: written_def zone_lba_def fun_eq_iff)
  have wbd: "wb_data wb z = zb_data buf" by (rule wb_data_Some [OF buf])
  have bufs: "map_of (wb_buffers wb') = (map_of (wb_buffers wb))(z := None)" by (simp add: wb'_def delete_conv')
  then have wbd': "wb_data wb' y = (if y = z then [] else wb_data wb y)" for y by (simp add: wb_data_def)
  have fill': "fill v' wb' y = fill v wb y" for y using v'(3) wbd' n(2) by (auto simp: fill_def unat_inj)
  have "psector v' wb' y k = psector v wb y k" if "unat y < v_zones v" "k < fill v wb y" for y k
  proof (cases "y = z")
    case True
    then show ?thesis using that v'(3,5) n(2,3) wbd wbd' by (auto simp: psector_def)
  next
    case False
    then have "unat y \<noteq> unat z" by (simp add: unat_inj)
    then show ?thesis using False that v'(3,5) wbd' buffered_wp_le [OF ok that(1)] by (auto simp: psector_def)
  qed
  moreover have "buffered_ok v' zm' wb'"
    using ok bufs wbd' fill' zm' v'(1-4) by (auto simp: buffered_ok_def wb'_def zone_geoms_def unat_inj split: if_splits)
  ultimately show ?thesis using bufs fill' by auto
qed

context zoned_device
begin

text \<open>A successful flush moves the buffered sectors to the device and changes nothing one can read.\<close>

lemma wb_Flush_ok:
  assumes d: "dinv d" and inv: "zm_inv zm" and ok: "buffered_ok (view d) zm wb"
    and z: "z \<notin> set (zm_freeList zm)"
    and fl: "wb_Flush ops wb z d zm = (Inr (), wb', zm', d')"
  shows "dinv d' \<and> zm_inv zm' \<and> buffered_ok (view d') zm' wb' \<and> zm_freeList zm' = zm_freeList zm \<and>
    v_zones (view d') = v_zones (view d) \<and> v_size (view d') = v_size (view d) \<and>
    zm_WritePointer zm' = zm_WritePointer zm \<and> zm_geoms zm' = zm_geoms zm \<and>
    map_of (wb_buffers wb') = (map_of (wb_buffers wb))(z := None) \<and>
    v_wp (view d') = (if map_of (wb_buffers wb) z = None then v_wp (view d)
                      else (v_wp (view d))(unat z := fill (view d) wb z)) \<and>
    fill (view d') wb' = fill (view d) wb \<and>
    (\<forall>y k. unat y < v_zones (view d) \<longrightarrow> k < fill (view d) wb y \<longrightarrow> psector (view d') wb' y k = psector (view d) wb y k)"
proof (cases "map_of (wb_buffers wb) z")
  case None
  then show ?thesis using fl d inv ok by (auto simp: wb_Flush_None)
next
  case (Some buf)
  let ?v = "view d"
  have buf: "unat z < v_zones ?v" "zb_data buf \<noteq> []" "zb_writePointer buf = zone_lba ?v (unat z) (v_wp ?v (unat z))"
    using ok Some by (auto simp: buffered_ok_def)
  obtain n where n: "length (zb_data buf) = sectorSize * n" "fill ?v wb z = v_wp ?v (unat z) + n"
      "v_wp ?v (unat z) + n \<le> v_size ?v" "length (zb_data buf) < 2 ^ 63"
    using buffered_ok_zone [OF ok buf(1)] wb_data_Some [OF Some] by metis
  have n0: "0 < n" using n(1) buf(2) by (cases n) auto
  obtain zm1 d1 where g: "zm_GetOrOpen ops d zm z = (Inr (), zm1, d1)"
      and w: "dev_WriteSectors ops d1 (zb_writePointer buf) (zb_data buf) = (Inr (), d')"
      and res: "wb' = wb\<lparr>wb_buffers := AList.delete z (wb_buffers wb)\<rparr>"
        "zm' = zm_UpdateWritePointer zm1 z (zb_writePointer buf + of_nat (length (zb_data buf)) div ucast (wb_sectorSize wb))"
    using wb_Flush_okE [OF fl Some buf(2)] .
  have d1: "dinv d1" "same_data ?v (view d1)" using zm_GetOrOpen_device [OF d g] by auto
  have zm1: "zm_inv zm1" "zm_frame zm zm1" "zm_freeList zm1 = zm_freeList zm"
    using zm_GetOrOpen_inv [OF inv z g] by auto
  have "zb_writePointer buf = zone_lba (view d1) (unat z) (v_wp ?v (unat z))"
    using buf(3) zone_lba_same [OF d1(2)] by simp
  then have wr: "dinv d'" "written ?v (unat z) (v_wp ?v (unat z)) (zb_data buf) (view d')"
    using WriteSectors_ok [OF d1(1), of "unat z" "v_wp ?v (unat z)" "zb_data buf" d']
      w buf d1(2) n n0 by (auto simp: same_data_def written_def)
  have nwp: "zb_writePointer buf + of_nat (length (zb_data buf)) div ucast (wb_sectorSize wb) = zone_lba ?v (unat z) (v_wp ?v (unat z) + n)"
    using ok of_nat_sectors [OF n(1)] n(4) buf(3) by (simp add: buffered_ok_def zone_lba_def)
  have "unat z < length (zm_zones zm1)" using zone_geoms_length [OF ok] zm_frame_length [OF zm1(2)] buf(1) by simp
  moreover have "zm_WritePointer zm z = zone_lba ?v (unat z) (v_wp ?v (unat z) + n)" using ok buf(1) n(2) by (simp add: buffered_ok_def)
  ultimately have wps: "zm_WritePointer zm' = zm_WritePointer zm" using nwp zm_frame_zone(1) [OF zm1(2)] by (auto simp: res fun_eq_iff)
  have geoms: "zm_geoms zm' = zm_geoms zm" using zm_geoms_frame [OF zm1(2)] by (simp add: res)
  have "zm_inv zm'" "zm_freeList zm' = zm_freeList zm" using zm1 by (simp_all add: res zm_counters_inv)
  then show ?thesis
    using flushed_view [OF ok Some n(1-3) wr(2) wps geoms] wr n(1,2) Some wps geoms by (simp add: res(1) written_def)
qed

lemma wb_Flush_rel:
  assumes d: "dinv d" and inv: "zm_inv zm" and ok: "buffered_ok (view d) zm wb" and nf: "bufs_not_free wb zm"
    and fl: "wb_Flush ops wb z d zm = (Inr (), wb', zm', d')"
  shows "dinv d' \<and> zm_inv zm' \<and> buffered_ok (view d') zm' wb' \<and> bufs_not_free wb' zm' \<and>
    zm_freeList zm' = zm_freeList zm \<and> flush_rel (view d) wb (view d') wb' \<and>
    map_of (wb_buffers wb') = (map_of (wb_buffers wb))(z := None)"
proof (cases "map_of (wb_buffers wb) z = None")
  case True
  then show ?thesis using fl d inv ok nf by (auto simp: wb_Flush_None)
next
  case False
  then have "z \<notin> set (zm_freeList zm)" using nf by (auto simp: bufs_not_free_def)
  note r = wb_Flush_ok [OF d inv ok this fl]
  then have "flush_rel (view d) wb (view d') wb'" using False by (simp add: flush_rel_def unat_inj)
  moreover have "bufs_not_free wb' zm'" using r nf by (simp add: bufs_not_free_def)
  ultimately show ?thesis using r by simp
qed

lemma wb_flushEach_ok:
  assumes "dinv d" and "zm_inv zm" and "buffered_ok (view d) zm wb" and "bufs_not_free wb zm"
    and "wb_flushEach ops zs r wb zm d = (Inr (), wb', zm', d')"
  shows "dinv d' \<and> zm_inv zm' \<and> buffered_ok (view d') zm' wb' \<and> bufs_not_free wb' zm' \<and>
    zm_freeList zm' = zm_freeList zm \<and> flush_rel (view d) wb (view d') wb' \<and> r = Inr () \<and>
    map_of (wb_buffers wb') = (\<lambda>z. if z \<in> set zs then None else map_of (wb_buffers wb) z)"
  using assms
proof (induction zs arbitrary: r wb zm d)
  case Nil
  then show ?case by auto
next
  case (Cons z zs)
  obtain r1 wb1 zm1 d1 where f: "wb_Flush ops wb z d zm = (r1, wb1, zm1, d1)" by (metis prod_cases4)
  have e: "wb_flushEach ops zs (if r = Inr () then r1 else r) wb1 zm1 d1 = (Inr (), wb', zm', d')"
    using Cons.prems(5) f by simp
  have "(if r = Inr () then r1 else r) = Inr ()"
  proof (cases "if r = Inr () then r1 else r")
    case (Inl err)
    then show ?thesis using e wb_flushEach_error [of ops zs err wb1 zm1 d1] by simp
  qed simp
  then have r: "r = Inr ()" "r1 = Inr ()" by (auto split: if_splits)
  note s = wb_Flush_rel [OF Cons.prems(1-4), of z wb1 zm1 d1]
  note s = s [OF f [unfolded r]]
  have t: "dinv d' \<and> zm_inv zm' \<and> buffered_ok (view d') zm' wb' \<and> bufs_not_free wb' zm' \<and>
    zm_freeList zm' = zm_freeList zm1 \<and> flush_rel (view d1) wb1 (view d') wb' \<and>
    map_of (wb_buffers wb') = (\<lambda>z. if z \<in> set zs then None else map_of (wb_buffers wb1) z)"
    using Cons.IH [OF _ _ _ _ e] s by auto
  then show ?case using s r flush_rel_trans [of "view d" wb "view d1" wb1] by (auto simp: fun_eq_iff)
qed

text \<open>Flushing everything empties the buffer.\<close>

lemma wb_FlushAll_ok:
  assumes "dinv d" and "zm_inv zm" and "buffered_ok (view d) zm wb" and "bufs_not_free wb zm"
    and "\<And>xs. set (ord xs) = set xs"
    and "wb_FlushAll ord ops wb zm d = (Inr (), wb', zm', d')"
  shows "dinv d' \<and> zm_inv zm' \<and> buffered_ok (view d') zm' wb' \<and> bufs_not_free wb' zm' \<and>
    zm_freeList zm' = zm_freeList zm \<and> flush_rel (view d) wb (view d') wb' \<and>
    (\<forall>z. map_of (wb_buffers wb') z = None)"
  using wb_flushEach_ok [OF assms(1-4), of "ord (map fst (wb_buffers wb))" "Inr ()" wb' zm' d'] assms(5,6)
  by (auto simp: wb_FlushAll_def map_of_eq_None_iff)

text \<open>
  Reading a range of a zone that lies on one side of the device's write pointer: a buffer hit
  returns the content, and a miss means the device has it.
\<close>

lemma buffered_lookup:
  assumes d: "dinv d" and ok: "buffered_ok (view d) zm wb" and z: "unat z < v_zones (view d)"
    and c: "0 < c" "c < 2 ^ 32" and k: "k + c \<le> fill (view d) wb z"
  shows "wb_Lookup wb z (zone_lba (view d) (unat z) k) (of_nat c) =
    (if v_wp (view d) (unat z) \<le> k then Some (concat (map (psector (view d) wb z) [k..<k + c])) else None)"
proof -
  let ?v = "view d" and ?w = "v_wp (view d) (unat z)"
  obtain n where n: "length (wb_data wb z) = sectorSize * n" "fill ?v wb z = ?w + n" "?w + n \<le> v_size ?v"
      "length (wb_data wb z) < 2 ^ 63"
    by (rule buffered_ok_zone [OF ok z])
  have cu: "unat (of_nat c :: u32) = c" using c by (simp add: unat_of_nat)
  have lba: "unat (zone_lba ?v (unat z) j) = unat z * v_size ?v + j" if "j \<le> v_size ?v" for j
    using zone_lba_unat [OF d z that] .
  have "Suc (unat z) * v_size ?v \<le> v_zones ?v * v_size ?v" using z by (intro mult_le_mono1) simp
  then have size: "unat z * v_size ?v + v_size ?v < 2 ^ 63" using geometry [OF d] by simp
  show ?thesis
  proof (cases "map_of (wb_buffers wb) z")
    case None
    then have "n = 0" using n(1) by (simp add: wb_data_None)
    then show ?thesis using k c n(2) None by (simp add: wb_Lookup_def)
  next
    case (Some buf)
    have wbd: "zb_data buf = wb_data wb z" using wb_data_Some [OF Some] by simp
    have wp: "unat (zb_writePointer buf) = unat z * v_size ?v + ?w"
      using ok Some lba [of ?w] n(3) by (simp add: buffered_ok_def)
    have lk: "wb_Lookup wb z (zone_lba ?v (unat z) k) (of_nat c) =
       (if ?w \<le> k \<and> k + c \<le> ?w + n
        then Some (concat (map (\<lambda>j. sector j (wb_data wb z)) [k - ?w..<k - ?w + c])) else None)"
      using wb_Lookup_eq [OF Some, of n "zone_lba ?v (unat z) k" "of_nat c"] wbd wp lba [of k] n k c cu size ok
      by (simp add: buffered_ok_def)
    have "map (psector ?v wb z) [k..<k + c] = map (\<lambda>j. sector j (wb_data wb z)) [k - ?w..<k - ?w + c]" if "?w \<le> k"
      using that by (intro nth_equalityI) (auto simp: psector_def)
    then show ?thesis using lk k n(2) by simp
  qed
qed

lemma written_read:
  assumes d: "dinv d" and z: "unat z < v_zones (view d)" and c: "0 < c" "c < 2 ^ 32" and k: "k + c \<le> v_wp (view d) (unat z)"
  shows "dev_ReadSectors ops d (zone_lba (view d) (unat z) k) (of_nat c) = (Inr (concat (map (psector (view d) wb z) [k..<k + c])), d)"
proof -
  have "map (psector (view d) wb z) [k..<k + c] = map (v_sector (view d) (unat z)) [k..<k + c]" using k by (auto simp: psector_def)
  then show ?thesis using ReadSectors_written [OF d z c k] by (simp only:)
qed

lemma buffered_read:
  assumes d: "dinv d" and ok: "buffered_ok (view d) zm wb" and z: "unat z < v_zones (view d)"
    and c: "0 < c" "c < 2 ^ 32" and k: "k + c \<le> fill (view d) wb z"
    and side: "k + c \<le> v_wp (view d) (unat z) \<or> v_wp (view d) (unat z) \<le> k"
  defines "X \<equiv> concat (map (psector (view d) wb z) [k..<k + c])"
  shows "wb_Lookup wb z (zone_lba (view d) (unat z) k) (of_nat c) = None \<and>
           dev_ReadSectors ops d (zone_lba (view d) (unat z) k) (of_nat c) = (Inr X, d) \<or>
         wb_Lookup wb z (zone_lba (view d) (unat z) k) (of_nat c) = Some X"
  using side buffered_lookup [OF d ok z c k] written_read [OF d z c, of k wb] by (auto simp: X_def)

end

section \<open>Properties\<close>

text \<open>
  Data handed to \<^verbatim>\<open>Add\<close> at the end of a zone's buffer is what \<^verbatim>\<open>Lookup\<close> returns for exactly the
  sectors it was added for, as long as addresses do not wrap.
\<close>

theorem wb_add_lookup:
  assumes "wb_sectorSize wb = 512" and "length data = sectorSize * n" and "0 < n" and "n < 2 ^ 32"
    and "map_of (wb_buffers wb) z = None" and "unat wp + n < 2 ^ 64"
    and "wb_Add wb z data wp now = (r, wb')"
  shows "wb_Lookup wb' z wp (of_nat n) = Some data"
proof -
  have ne: "data \<noteq> []" using assms(2,3) by auto
  note a = map_of_wb_Add [OF assms(7) ne]
  have n: "unat (of_nat n :: u32) = n" using assms(4) by (simp add: unat_of_nat)
  show ?thesis
    using wb_Lookup_eq [OF a(1) [of z, simplified], of n wp "of_nat n"] assms n a(2) concat_sectors [OF assms(2)]
    by simp
qed

theorem wb_add_lookup_witness:
  "wb_Lookup (snd (wb_Add (NewWriteBuffer 8 5) 3 (replicate 1024 7) 24 0)) 3 24 2 = Some (replicate 1024 7)"
  using wb_add_lookup [of "NewWriteBuffer 8 5" "replicate 1024 7" 2 3 24 0, OF _ _ _ _ _ _ prod.collapse [symmetric]]
  by (simp add: NewWriteBuffer_def)

text \<open>
  \<^verbatim>\<open>Flush\<close> takes the zone's buffer out of the map before it writes: when opening the zone or writing
  to it fails, the error is returned but the data is gone from the buffer, and the device
  holds exactly what it held before.
\<close>

theorem wb_flush_error_drops:
  assumes "em_inv e" and "length (wb_data wb z) < 2 ^ 63" and "wb_Flush em_dev wb z e zm = (Inl err, wb', zm', e')"
  shows "map_of (wb_buffers wb) z \<noteq> None \<and> map_of (wb_buffers wb') z = None \<and> same_data (em_view e) (em_view e')"
proof -
  obtain buf where buf: "map_of (wb_buffers wb) z = Some buf" "zb_data buf \<noteq> []"
    using assms(3) by (auto simp: wb_Flush_def Let_def split: option.splits if_splits)
  have len: "length (zb_data buf) < 2 ^ 63" using assms(2) buf(1) by (simp add: wb_data_def)
  obtain r1 zm1 e1 where g: "zm_GetOrOpen em_dev e zm z = (r1, zm1, e1)" by (metis prod_cases3)
  have e1: "em_inv e1" "same_data (em_view e) (em_view e1)" using em.zm_GetOrOpen_device [OF assms(1) g] by auto
  obtain r2 e2 where w: "dev_WriteSectors em_dev e1 (zb_writePointer buf) (zb_data buf) = (r2, e2)" by fastforce
  have "wb' = wb\<lparr>wb_buffers := AList.delete z (wb_buffers wb)\<rparr>"
    using assms(3) buf g w by (cases r1; cases r2) (auto simp: wb_Flush_def Let_def)
  moreover have "same_data (em_view e) (em_view e')"
  proof (cases r1)
    case (Inl x)
    then have "e' = e1" using assms(3) buf g by (simp add: wb_Flush_def Let_def)
    then show ?thesis using e1 by simp
  next
    case (Inr x)
    then obtain err' where "r2 = Inl err'" "e' = e2"
      using assms(3) buf g w by (cases r2) (auto simp: wb_Flush_def Let_def)
    then show ?thesis using em.WriteSectors_error [OF e1(1) len] w e1(2) by (metis same_data_trans)
  qed
  ultimately show ?thesis using buf by (simp add: delete_conv')
qed

theorem wb_flush_error_drops_witness:
  "\<exists>err wb' zm' e'. wb_Flush em_dev (snd (wb_Add (NewWriteBuffer 2 5) 0 (replicate 512 9) 1 0)) 0 em_full_demo zm_full_demo =
     (Inl err, wb', zm', e') \<and> map_of (wb_buffers wb') 0 = None"
proof -
  let ?wb = "snd (wb_Add (NewWriteBuffer 2 5) 0 (replicate 512 9) 1 0)"
  have inv: "em_inv em_full_demo"
    unfolding em_full_demo_def by (rule em_WriteSectors_inv [OF em_demo_inv _ prod.collapse [symmetric]]) simp
  have len: "length (wb_data ?wb 0) < 2 ^ 63" by (simp add: wb_Add_def NewWriteBuffer_def wb_data_def)
  obtain r wb' zm' e' where f: "wb_Flush em_dev ?wb 0 em_full_demo zm_full_demo = (r, wb', zm', e')"
    by (metis prod_cases4)
  moreover have "\<exists>err. r = Inl err"
    using f by (auto simp: wb_Flush_def wb_Add_def NewWriteBuffer_def Let_def zm_GetOrOpen_def zm_full_demo_def
        em_dev_def em_WriteSectors_def em_full_demo_def em_demo_def em_zoneIndex_def em_writeState_def
        em_writeOpened_def em_zoneStartLBA_def zi_demo_def)
  ultimately show ?thesis using wb_flush_error_drops [OF inv len] by metis
qed

end
