(* ===== verification/Gc.thy ===== *)
theory Gc
  imports L2P WriteBuffer
begin

text \<open>
  The state shared by the translation layer and its garbage collector, the journal interface of
  \<^verbatim>\<open>internal/ztl/journal_iface.go\<close>, and the collector of \<^verbatim>\<open>internal/ztl/gc.go\<close>. The Go objects point
  at one another; here all of them are fields of one record, which each operation takes and returns.

  The collector runs beside foreground writes and takes locks per call. \<open>gc_migrateSegment\<close> is
  therefore cut in two at the point where it has copied the data: \<open>gc_migratePrepare\<close>, then
  \<open>gc_migrateCommit\<close>, which may start from a state that a foreground write has changed.
\<close>

section \<open>Shared state\<close>

record 'j Journal =
  jn_LogL2PUpdate :: "'j \<Rightarrow> SegmentID \<Rightarrow> PhysAddr \<Rightarrow> PhysAddr \<Rightarrow> u64 result \<times> 'j"
  jn_LogZoneOpen :: "'j \<Rightarrow> u32 \<Rightarrow> unit result \<times> 'j"
  jn_LogZoneClose :: "'j \<Rightarrow> u32 \<Rightarrow> unit result \<times> 'j"
  jn_LogZoneReset :: "'j \<Rightarrow> u32 \<Rightarrow> unit result \<times> 'j"
  jn_GroupCommit :: "'j \<Rightarrow> unit result \<times> 'j"

record GCStats =
  gs_ZonesReclaimed :: int
  gs_BytesMigrated :: int
  gs_RunCount :: int
  gs_Running :: int

record GCStatsSnapshot =
  gss_ZonesReclaimed :: int
  gss_BytesMigrated :: int
  gss_RunCount :: int
  gss_Running :: bool

definition GCStats_Snapshot :: "GCStats \<Rightarrow> GCStatsSnapshot" where
  "GCStats_Snapshot s =
     \<lparr>gss_ZonesReclaimed = gs_ZonesReclaimed s, gss_BytesMigrated = gs_BytesMigrated s,
      gss_RunCount = gs_RunCount s, gss_Running = (gs_Running s \<noteq> 0)\<rparr>"

record ('d, 'j) ZTL =
  ztl_l2p :: L2PTable
  ztl_p2l :: P2LMap
  ztl_buf :: WriteBuffer
  ztl_zm :: ZoneManager
  ztl_gcStats :: GCStats
  ztl_device :: 'd
  ztl_journal :: 'j
  ztl_sectorsPerSeg :: u64
  ztl_zoneSectors :: u64
  ztl_emergencyFreeZones :: int
  ztl_freeTriggerRatio :: rat
  ztl_triggerCh :: bool
  ztl_currentWriteZone :: u32
  ztl_currentZoneOpen :: bool

text \<open>
  Calls on the journal, which may be \<^verbatim>\<open>nil\<close>: \<open>None\<close>.
\<close>

definition log_l2p ::
    "'j Journal option \<Rightarrow> SegmentID \<Rightarrow> PhysAddr \<Rightarrow> PhysAddr \<Rightarrow> ('d, 'j) ZTL \<Rightarrow> unit result \<times> ('d, 'j) ZTL" where
  "log_l2p jn segID old new s =
     (case jn of
        None \<Rightarrow> (Inr (), s)
      | Some J \<Rightarrow>
          (case jn_LogL2PUpdate J (ztl_journal s) segID old new of
             (Inl err, j) \<Rightarrow> (Inl err, s\<lparr>ztl_journal := j\<rparr>)
           | (Inr _, j) \<Rightarrow> (Inr (), s\<lparr>ztl_journal := j\<rparr>)))"

definition log_call ::
    "('j Journal \<Rightarrow> 'j \<Rightarrow> unit result \<times> 'j) \<Rightarrow> 'j Journal option \<Rightarrow> ('d, 'j) ZTL \<Rightarrow> unit result \<times> ('d, 'j) ZTL" where
  "log_call f jn s =
     (case jn of
        None \<Rightarrow> (Inr (), s)
      | Some J \<Rightarrow> (case f J (ztl_journal s) of (r, j) \<Rightarrow> (r, s\<lparr>ztl_journal := j\<rparr>)))"

section \<open>Migrating one segment\<close>

text \<open>
  The first half of \<^verbatim>\<open>migrateSegment\<close>. \<open>Inr None\<close> is the early \<^verbatim>\<open>return nil\<close>; \<open>Inr (Some \<dots>)\<close>
  carries the local variables \<^verbatim>\<open>currentPhys, newZoneID, newWP, newPhys, data\<close> on to the second half.
\<close>

definition gc_migratePrepare ::
    "'d ZonedDevice \<Rightarrow> 'j Journal option \<Rightarrow> u32 \<Rightarrow> SegmentID \<Rightarrow> u64 \<Rightarrow> ('d, 'j) ZTL \<Rightarrow>
       (PhysAddr \<times> u32 \<times> u64 \<times> PhysAddr \<times> bytes) option result \<times> ('d, 'j) ZTL" where
  "gc_migratePrepare ops jn victimID segID victimOffset s =
     (let currentPhys = L2P_Get (ztl_l2p s) segID in
      if IsUnmapped currentPhys then (Inr None, s\<lparr>ztl_p2l := P2L_Delete (ztl_p2l s) currentPhys\<rparr>)
      else if ZoneID currentPhys \<noteq> victimID \<or> OffsetSectors currentPhys \<noteq> victimOffset then (Inr None, s)
      else
        case zm_ZoneInfo (ztl_zm s) victimID of
          None \<Rightarrow> (Inl (Errorf ''victim zone not found''), s)
        | Some victimInfo \<Rightarrow>
            let readLBA = zi_StartLBA victimInfo + victimOffset in
            case dev_ReadSectors ops (ztl_device s) readLBA (ucast (ztl_sectorsPerSeg s)) of
              (Inl err, d1) \<Rightarrow> (Inl (Wrap ''reading segment from victim zone'' err), s\<lparr>ztl_device := d1\<rparr>)
            | (Inr data, d1) \<Rightarrow>
                case zm_AllocateFree ops d1 (ztl_zm s) of
                  (Inl err, zm2, d2) \<Rightarrow>
                    (Inl (Wrap ''allocating zone for GC migration'' err), s\<lparr>ztl_device := d2, ztl_zm := zm2\<rparr>)
                | (Inr newZoneID, zm2, d2) \<Rightarrow>
                    let newWP = zm_WritePointer zm2 newZoneID;
                        newOffset = newWP - zm_ZoneStartLBA zm2 newZoneID;
                        newPhys = EncodePhysAddr newZoneID newOffset in
                    case log_l2p jn segID currentPhys newPhys (s\<lparr>ztl_device := d2, ztl_zm := zm2\<rparr>) of
                      (Inl err, s3) \<Rightarrow> (Inl (Wrap ''logging L2P update for segment'' err), s3)
                    | (Inr _, s3) \<Rightarrow>
                        (case dev_WriteSectors ops (ztl_device s3) newWP data of
                           (Inl err, d4) \<Rightarrow> (Inl (Wrap ''writing migrated data to zone'' err), s3\<lparr>ztl_device := d4\<rparr>)
                         | (Inr _, d4) \<Rightarrow>
                             (Inr (Some (currentPhys, newZoneID, newWP, newPhys, data)), s3\<lparr>ztl_device := d4\<rparr>)))"

text \<open>The second half: publish the new place unless a foreground write has taken over.\<close>

definition gc_migrateCommit ::
    "u32 \<Rightarrow> SegmentID \<Rightarrow> PhysAddr \<times> u32 \<times> u64 \<times> PhysAddr \<times> bytes \<Rightarrow> ('d, 'j) ZTL \<Rightarrow> ('d, 'j) ZTL" where
  "gc_migrateCommit victimID segID loc s =
     (case loc of (currentPhys, newZoneID, newWP, newPhys, data) \<Rightarrow>
        let zm1 = zm_UpdateWritePointer (ztl_zm s) newZoneID (newWP + ztl_sectorsPerSeg s) in
        case L2P_CAS (ztl_l2p s) segID currentPhys newPhys of
          (False, _) \<Rightarrow>
            s\<lparr>ztl_zm := zm_DecrementValidSegs (zm_IncrementValidSegs zm1 newZoneID) newZoneID\<rparr>
        | (True, l2p) \<Rightarrow>
            s\<lparr>ztl_l2p := l2p,
              ztl_p2l := P2L_Set (P2L_Delete (ztl_p2l s) currentPhys) newPhys segID,
              ztl_zm := zm_IncrementValidSegs (zm_DecrementValidSegs zm1 victimID) newZoneID,
              ztl_gcStats := (ztl_gcStats s)
                 \<lparr>gs_BytesMigrated := gs_BytesMigrated (ztl_gcStats s) + int (length data)\<rparr>\<rparr>)"

definition gc_migrateSegment ::
    "'d ZonedDevice \<Rightarrow> 'j Journal option \<Rightarrow> u32 \<Rightarrow> SegmentID \<Rightarrow> u64 \<Rightarrow> ('d, 'j) ZTL \<Rightarrow> unit result \<times> ('d, 'j) ZTL" where
  "gc_migrateSegment ops jn victimID segID victimOffset s =
     (case gc_migratePrepare ops jn victimID segID victimOffset s of
        (Inl err, s1) \<Rightarrow> (Inl err, s1)
      | (Inr None, s1) \<Rightarrow> (Inr (), s1)
      | (Inr (Some loc), s1) \<Rightarrow> (Inr (), gc_migrateCommit victimID segID loc s1))"

section \<open>Collecting a zone\<close>

definition gc_liveSegs :: "map_order \<Rightarrow> u32 \<Rightarrow> ('d, 'j) ZTL \<Rightarrow> (u64 \<times> SegmentID) list" where
  "gc_liveSegs ord victimID s =
     filter (\<lambda>(offsetSectors, segID).
               let phys = L2P_Get (ztl_l2p s) segID
               in \<not> IsUnmapped phys \<and> ZoneID phys = victimID \<and> OffsetSectors phys = offsetSectors)
            (P2L_IterateZone ord (ztl_p2l s) victimID)"

fun gc_migrateAll ::
    "'d ZonedDevice \<Rightarrow> 'j Journal option \<Rightarrow> u32 \<Rightarrow> (u64 \<times> SegmentID) list \<Rightarrow> ('d, 'j) ZTL \<Rightarrow> unit result \<times> ('d, 'j) ZTL" where
  "gc_migrateAll ops jn victimID [] s = (Inr (), s)"
| "gc_migrateAll ops jn victimID ((off, segID) # segs) s =
     (case gc_migrateSegment ops jn victimID segID off s of
        (Inl err, s1) \<Rightarrow> (Inl (Wrap ''migrating segment'' err), s1)
      | (Inr _, s1) \<Rightarrow> gc_migrateAll ops jn victimID segs s1)"

text \<open>The part of \<^verbatim>\<open>collectZone\<close> after the migration: journal the intent, reset the zone, free it.\<close>

definition gc_resetVictim ::
    "'d ZonedDevice \<Rightarrow> 'j Journal option \<Rightarrow> u32 \<Rightarrow> ('d, 'j) ZTL \<Rightarrow> unit result \<times> ('d, 'j) ZTL" where
  "gc_resetVictim ops jn victimID s =
     (case log_call (\<lambda>J j. jn_LogZoneReset J j victimID) jn s of
        (Inl err, s1) \<Rightarrow> (Inl (Wrap ''logging zone reset'' err), s1)
      | (Inr _, s1) \<Rightarrow>
          (case log_call jn_GroupCommit jn s1 of
             (Inl err, s2) \<Rightarrow> (Inl (Wrap ''committing zone reset journal'' err), s2)
           | (Inr _, s2) \<Rightarrow>
               (case zm_ZoneInfo (ztl_zm s2) victimID of
                  None \<Rightarrow> (Inl (Errorf ''victim zone not found''), s2)
                | Some victimInfo \<Rightarrow>
                    (case dev_ResetZone ops (ztl_device s2) (zi_StartLBA victimInfo) of
                       (Inl err, d3) \<Rightarrow> (Inl (Wrap ''resetting victim zone'' err), s2\<lparr>ztl_device := d3\<rparr>)
                     | (Inr _, d3) \<Rightarrow>
                         (case zm_MarkEmpty (ztl_zm s2) victimID of
                            (Inl err, zm4) \<Rightarrow>
                              (Inl (Wrap ''marking victim zone empty'' err), s2\<lparr>ztl_device := d3, ztl_zm := zm4\<rparr>)
                          | (Inr _, zm4) \<Rightarrow>
                              (Inr (), s2\<lparr>ztl_device := d3, ztl_zm := zm4,
                                          ztl_gcStats := (ztl_gcStats s2)
                                            \<lparr>gs_ZonesReclaimed := gs_ZonesReclaimed (ztl_gcStats s2) + 1\<rparr>\<rparr>))))))"

definition gc_collectZone ::
    "map_order \<Rightarrow> 'd ZonedDevice \<Rightarrow> 'j Journal option \<Rightarrow> u32 \<Rightarrow> ('d, 'j) ZTL \<Rightarrow> unit result \<times> ('d, 'j) ZTL" where
  "gc_collectZone ord ops jn victimID s =
     (let s1 = s\<lparr>ztl_zm := zm_Freeze (ztl_zm s) victimID\<rparr>;
          (r, s2) = (case gc_migrateAll ops jn victimID (gc_liveSegs ord victimID s1) s1 of
                       (Inl err, s') \<Rightarrow> (Inl err, s')
                     | (Inr _, s') \<Rightarrow> gc_resetVictim ops jn victimID s')
      in (r, s2\<lparr>ztl_zm := zm_Unfreeze (ztl_zm s2) victimID\<rparr>))"

section \<open>Cycles\<close>

definition gc_shouldTrigger :: "('d, 'j) ZTL \<Rightarrow> bool" where
  "gc_shouldTrigger s =
     (let total = zm_TotalZoneCount (ztl_zm s) in
      if total = 0 then False
      else of_int (zm_FreeZoneCount (ztl_zm s)) / of_int total < ztl_freeTriggerRatio s)"

definition gc_runCycle :: "map_order \<Rightarrow> 'd ZonedDevice \<Rightarrow> 'j Journal option \<Rightarrow> ('d, 'j) ZTL \<Rightarrow> ('d, 'j) ZTL" where
  "gc_runCycle ord ops jn s =
     (let s1 = s\<lparr>ztl_gcStats := (ztl_gcStats s)\<lparr>gs_Running := 1, gs_RunCount := gs_RunCount (ztl_gcStats s) + 1\<rparr>\<rparr>;
          s2 = (case zm_SelectGCVictim (ztl_zm s1) of
                  (victimID, found) \<Rightarrow> if \<not> found then s1 else snd (gc_collectZone ord ops jn victimID s1))
      in s2\<lparr>ztl_gcStats := (ztl_gcStats s2)\<lparr>gs_Running := 0\<rparr>\<rparr>)"

definition gc_TriggerManual :: "('d, 'j) ZTL \<Rightarrow> ('d, 'j) ZTL" where
  "gc_TriggerManual s = s\<lparr>ztl_triggerCh := True\<rparr>"

text \<open>What the background loop does on an event: a queued trigger, or a tick of its one-second timer.\<close>

datatype gc_event = Trigger | Tick

fun gc_run :: "map_order \<Rightarrow> 'd ZonedDevice \<Rightarrow> 'j Journal option \<Rightarrow> gc_event \<Rightarrow> ('d, 'j) ZTL \<Rightarrow> ('d, 'j) ZTL" where
  "gc_run ord ops jn Trigger s = (if ztl_triggerCh s then gc_runCycle ord ops jn (s\<lparr>ztl_triggerCh := False\<rparr>) else s)"
| "gc_run ord ops jn Tick s = (if gc_shouldTrigger s then gc_runCycle ord ops jn s else s)"

text \<open>
  The emergency loop ends when enough zones are free, when there is no victim or when a collection
  fails. Nothing else bounds it, so it is a partial function: \<open>None\<close> is a call that never returns.
\<close>

partial_function (option) gc_RunEmergencyGC ::
    "map_order \<Rightarrow> 'd ZonedDevice \<Rightarrow> 'j Journal option \<Rightarrow> ('d, 'j) ZTL \<Rightarrow> (unit result \<times> ('d, 'j) ZTL) option" where
  "gc_RunEmergencyGC ord ops jn s =
     (if zm_FreeZoneCount (ztl_zm s) < ztl_emergencyFreeZones s then
        (case zm_SelectGCVictim (ztl_zm s) of
           (victimID, found) \<Rightarrow>
             if \<not> found then Some (Inl (Errorf ''emergency GC: no GC victim available''), s)
             else
               (case gc_collectZone ord ops jn victimID s of
                  (Inl err, s1) \<Rightarrow> Some (Inl (Wrap ''emergency GC cycle'' err), s1)
                | (Inr _, s1) \<Rightarrow> gc_RunEmergencyGC ord ops jn s1))
      else Some (Inr (), s))"

declare gc_RunEmergencyGC.simps [code]

end
