(* ===== verification/Ztl.thy ===== *)
theory Ztl
  imports Gc Config
begin

text \<open>
  The zone translation layer, \<^verbatim>\<open>internal/ztl/ztl.go\<close>: reads, writes, unmaps and flushes of the logical
  device on top of the mapping tables, the write buffer, the zone manager and the zoned device.
  \<open>ops\<close> are the methods of the device, \<open>jn\<close> the journal (or \<open>None\<close>), \<open>ord\<close> the iteration orders of Go
  maps and \<open>now\<close> the time. Background goroutines are steps of their own (\<open>gc_run\<close>, \<open>wb_flushAged\<close>).
\<close>

section \<open>Construction\<close>

definition ztl_New ::
    "Config \<Rightarrow> 'd ZonedDevice \<Rightarrow> 'd \<Rightarrow> 'j \<Rightarrow> ('d, 'j) ZTL result" where
  "ztl_New cfg ops d j =
     (let sectorsPerSeg = SectorsPerSegment cfg;
          zoneSectors = dev_ZoneSize ops d in
      if sectorsPerSeg = 0 then Inl (Errorf ''sectors per segment must be positive'')
      else if zoneSectors = 0 then Inl (Errorf ''zone size must be positive'')
      else
        let totalSectors = dev_Capacity ops d;
            totalSegments = totalSectors div sectorsPerSeg in
        if totalSegments = 0 then Inl (Errorf ''device capacity too small for segment size'')
        else
          case zm_Initialize ops d (NewZoneManager (dev_MaxOpenZones ops d)) of
            (Inl err, _, _) \<Rightarrow> Inl (Wrap ''initializing zone manager'' err)
          | (Inr _, zm, d') \<Rightarrow>
              Inr \<lparr>ztl_l2p = NewL2PTable totalSegments, ztl_p2l = NewP2LMap,
                   ztl_buf = NewWriteBuffer zoneSectors (zc_BufferFlushAgeSec (cfg_ZTL cfg)),
                   ztl_zm = zm,
                   ztl_gcStats = \<lparr>gs_ZonesReclaimed = 0, gs_BytesMigrated = 0, gs_RunCount = 0, gs_Running = 0\<rparr>,
                   ztl_device = d', ztl_journal = j, ztl_sectorsPerSeg = sectorsPerSeg,
                   ztl_zoneSectors = zoneSectors,
                   ztl_emergencyFreeZones = zc_GCEmergencyFreeZones (cfg_ZTL cfg),
                   ztl_freeTriggerRatio = zc_GCTriggerFreeRatio (cfg_ZTL cfg),
                   ztl_triggerCh = False, ztl_currentWriteZone = 0, ztl_currentZoneOpen = False\<rparr>)"

section \<open>Reading\<close>

text \<open>The part of segment \<open>segID\<close> that the request \<open>[lba, endLBA)\<close> touches.\<close>

definition seg_overlap :: "u64 \<Rightarrow> u64 \<Rightarrow> u64 \<Rightarrow> SegmentID \<Rightarrow> u64 \<times> u64" where
  "seg_overlap sectorsPerSeg lba endLBA segID =
     (case SegmentToLBARange segID sectorsPerSeg of
        (segStartLBA, segEndLBA) \<Rightarrow>
          (if lba > segStartLBA then lba else segStartLBA,
           if endLBA < segEndLBA then endLBA else segEndLBA))"

fun ztl_readSegs ::
    "'d ZonedDevice \<Rightarrow> ('d, 'j) ZTL \<Rightarrow> u64 \<Rightarrow> u64 \<Rightarrow> SegmentID list \<Rightarrow> bytes \<Rightarrow> nat \<Rightarrow> bytes result \<times> ('d, 'j) ZTL" where
  "ztl_readSegs ops s lba endLBA [] result resultOffset = (Inr result, s)"
| "ztl_readSegs ops s lba endLBA (segID # segs) result resultOffset =
     (let (segStartLBA, segEndLBA) = SegmentToLBARange segID (ztl_sectorsPerSeg s);
          (readStart, readEnd) = seg_overlap (ztl_sectorsPerSeg s) lba endLBA segID;
          readCount = ucast (readEnd - readStart) :: u32;
          physAddr = L2P_Get (ztl_l2p s) segID in
      if IsUnmapped physAddr
      then ztl_readSegs ops s lba endLBA segs result (resultOffset + unat readCount * sectorSize)
      else
        case zm_ZoneInfo (ztl_zm s) (ZoneID physAddr) of
          None \<Rightarrow> (Inl (Errorf ''zone not found in zone manager''), s)
        | Some zoneInfo \<Rightarrow>
            let physSegStartLBA = zi_StartLBA zoneInfo + OffsetSectors physAddr;
                intraSegOffset = readStart - segStartLBA;
                physReadLBA = physSegStartLBA + intraSegOffset in
            case wb_Lookup (ztl_buf s) (ZoneID physAddr) physReadLBA readCount of
              Some bufData \<Rightarrow>
                ztl_readSegs ops s lba endLBA segs (blit resultOffset bufData result) (resultOffset + length bufData)
            | None \<Rightarrow>
                (case dev_ReadSectors ops (ztl_device s) physReadLBA readCount of
                   (Inl err, d) \<Rightarrow> (Inl (Wrap ''reading'' err), s\<lparr>ztl_device := d\<rparr>)
                 | (Inr data, d) \<Rightarrow>
                     ztl_readSegs ops (s\<lparr>ztl_device := d\<rparr>) lba endLBA segs (blit resultOffset data result)
                       (resultOffset + length data)))"

definition ztl_Read :: "'d ZonedDevice \<Rightarrow> ('d, 'j) ZTL \<Rightarrow> u64 \<Rightarrow> u32 \<Rightarrow> bytes result \<times> ('d, 'j) ZTL" where
  "ztl_Read ops s lba count =
     (if count = 0 then (Inr [], s)
      else
        let result = zeros (unat count * sectorSize);
            startSeg = LBAToSegmentID lba (ztl_sectorsPerSeg s);
            endLBA = lba + ucast count;
            endSeg = LBAToSegmentID (endLBA - 1) (ztl_sectorsPerSeg s)
        in ztl_readSegs ops s lba endLBA (word_upto startSeg endSeg) result 0)"

section \<open>Writing\<close>

text \<open>The check of \<^verbatim>\<open>getWriteZone\<close> that the current zone has room for one more segment.\<close>

definition ztl_hasRoom :: "('d, 'j) ZTL \<Rightarrow> bool" where
  "ztl_hasRoom s =
     (case zm_ZoneInfo (ztl_zm s) (ztl_currentWriteZone s) of
        None \<Rightarrow> False
      | Some zoneInfo \<Rightarrow>
          let currentWP = zm_WritePointer (ztl_zm s) (ztl_currentWriteZone s);
              remainingSectors = zi_StartLBA zoneInfo + zi_SizeSectors zoneInfo - currentWP
          in remainingSectors \<ge> ztl_sectorsPerSeg s)"

definition ztl_getWriteZone ::
    "'d ZonedDevice \<Rightarrow> 'j Journal option \<Rightarrow> ('d, 'j) ZTL \<Rightarrow> u32 result \<times> ('d, 'j) ZTL" where
  "ztl_getWriteZone ops jn s =
     (if ztl_currentZoneOpen s \<and> ztl_hasRoom s then (Inr (ztl_currentWriteZone s), s)
      else
        let s1 = s\<lparr>ztl_currentZoneOpen := False\<rparr> in
        case zm_AllocateFree ops (ztl_device s1) (ztl_zm s1) of
          (Inl err, zm2, d2) \<Rightarrow> (Inl (Wrap ''allocating write zone'' err), s1\<lparr>ztl_zm := zm2, ztl_device := d2\<rparr>)
        | (Inr zoneID, zm2, d2) \<Rightarrow>
            let s3 = snd (log_call (\<lambda>J j. jn_LogZoneOpen J j zoneID) jn (s1\<lparr>ztl_zm := zm2, ztl_device := d2\<rparr>))
            in (Inr zoneID, s3\<lparr>ztl_currentWriteZone := zoneID, ztl_currentZoneOpen := True\<rparr>))"

text \<open>The mapping updates of \<^verbatim>\<open>writeSegment\<close>: reverse map and counters of valid segments.\<close>

definition ztl_remap :: "SegmentID \<Rightarrow> PhysAddr \<Rightarrow> PhysAddr \<Rightarrow> u32 \<Rightarrow> ('d, 'j) ZTL \<Rightarrow> ('d, 'j) ZTL" where
  "ztl_remap segID oldPhys newPhys zoneID s =
     (let s1 = (if \<not> IsUnmapped oldPhys
                then s\<lparr>ztl_p2l := P2L_Delete (ztl_p2l s) oldPhys,
                       ztl_zm := zm_DecrementValidSegs (ztl_zm s) (ZoneID oldPhys)\<rparr>
                else s)
      in s1\<lparr>ztl_p2l := P2L_Set (ztl_p2l s1) newPhys segID,
            ztl_zm := zm_IncrementValidSegs (ztl_zm s1) zoneID\<rparr>)"

text \<open>The end of \<^verbatim>\<open>writeSegment\<close>: a zone that is full is flushed at once.\<close>

definition ztl_flushIfFull ::
    "'d ZonedDevice \<Rightarrow> u32 \<Rightarrow> ZoneInfo \<Rightarrow> u64 \<Rightarrow> ('d, 'j) ZTL \<Rightarrow> unit result \<times> ('d, 'j) ZTL" where
  "ztl_flushIfFull ops zoneID zoneInfo newWP s =
     (if newWP \<ge> zi_StartLBA zoneInfo + zi_SizeSectors zoneInfo then
        (case wb_Flush ops (ztl_buf s) zoneID (ztl_device s) (ztl_zm s) of
           (r, wb, zm, d) \<Rightarrow>
             let s1 = s\<lparr>ztl_buf := wb, ztl_zm := zm, ztl_device := d\<rparr> in
             (case r of
                Inl err \<Rightarrow> (Inl (Wrap ''flush full zone'' err), s1)
              | Inr _ \<Rightarrow> (Inr (), s1\<lparr>ztl_currentZoneOpen := False\<rparr>)))
      else (Inr (), s))"

definition ztl_writeSegment ::
    "'d ZonedDevice \<Rightarrow> 'j Journal option \<Rightarrow> int \<Rightarrow> ('d, 'j) ZTL \<Rightarrow> SegmentID \<Rightarrow> bytes \<Rightarrow> unit result \<times> ('d, 'j) ZTL" where
  "ztl_writeSegment ops jn now s segID data =
     (case ztl_getWriteZone ops jn s of
        (Inl err, s1) \<Rightarrow> (Inl err, s1)
      | (Inr zoneID, s1) \<Rightarrow>
          (case zm_ZoneInfo (ztl_zm s1) zoneID of
             None \<Rightarrow> (Inl (Errorf ''zone not found''), s1)
           | Some zoneInfo \<Rightarrow>
               let currentWP = zm_WritePointer (ztl_zm s1) zoneID;
                   offsetInZone = currentWP - zi_StartLBA zoneInfo;
                   newPhys = EncodePhysAddr zoneID offsetInZone;
                   oldPhys = L2P_Get (ztl_l2p s1) segID in
               case log_l2p jn segID oldPhys newPhys s1 of
                 (Inl err, s2) \<Rightarrow> (Inl (Wrap ''WAL log L2P update'' err), s2)
               | (Inr _, s2) \<Rightarrow>
                   (case L2P_Set (ztl_l2p s2) segID newPhys of
                      (Inl err, _) \<Rightarrow> (Inl (Wrap ''L2P set segment'' err), s2)
                    | (Inr _, l2p) \<Rightarrow>
                        let s3 = ztl_remap segID oldPhys newPhys zoneID (s2\<lparr>ztl_l2p := l2p\<rparr>);
                            newWP = currentWP + of_nat (length data) div 512;
                            s4 = s3\<lparr>ztl_zm := zm_UpdateWritePointer (ztl_zm s3) zoneID newWP\<rparr>
                        in case wb_Add (ztl_buf s4) zoneID data currentWP now of
                             (Inl err, wb) \<Rightarrow> (Inl (Wrap ''write buffer add'' err), s4\<lparr>ztl_buf := wb\<rparr>)
                           | (Inr _, wb) \<Rightarrow> ztl_flushIfFull ops zoneID zoneInfo newWP (s4\<lparr>ztl_buf := wb\<rparr>))))"

fun ztl_writeSegs ::
    "'d ZonedDevice \<Rightarrow> 'j Journal option \<Rightarrow> int \<Rightarrow> ('d, 'j) ZTL \<Rightarrow> u64 \<Rightarrow> u64 \<Rightarrow> SegmentID list \<Rightarrow> bytes \<Rightarrow> nat \<Rightarrow>
       unit result \<times> ('d, 'j) ZTL" where
  "ztl_writeSegs ops jn now s lba endLBA [] data dataOffset = (Inr (), s)"
| "ztl_writeSegs ops jn now s lba endLBA (segID # segs) data dataOffset =
     (let (writeStart, writeEnd) = seg_overlap (ztl_sectorsPerSeg s) lba endLBA segID;
          writeCount = unat (writeEnd - writeStart) * sectorSize;
          segData = bslice dataOffset (dataOffset + writeCount) data in
      case ztl_writeSegment ops jn now s segID segData of
        (Inl err, s1) \<Rightarrow> (Inl (Wrap ''writing segment'' err), s1)
      | (Inr _, s1) \<Rightarrow> ztl_writeSegs ops jn now s1 lba endLBA segs data (dataOffset + writeCount))"

text \<open>
  \<open>None\<close> is a write whose emergency collection never returns.
\<close>

definition ztl_Write ::
    "map_order \<Rightarrow> 'd ZonedDevice \<Rightarrow> 'j Journal option \<Rightarrow> int \<Rightarrow> ('d, 'j) ZTL \<Rightarrow> u64 \<Rightarrow> bytes \<Rightarrow>
       (unit result \<times> ('d, 'j) ZTL) option" where
  "ztl_Write ord ops jn now s lba data =
     (if length data = 0 then Some (Inr (), s)
      else if length data mod 512 \<noteq> 0 then Some (Inl (Errorf ''write data length not a multiple of sector size''), s)
      else
        case (if zm_FreeZoneCount (ztl_zm s) < ztl_emergencyFreeZones s then gc_RunEmergencyGC ord ops jn s
              else Some (Inr (), s)) of
          None \<Rightarrow> None
        | Some (Inl err, s1) \<Rightarrow> Some (Inl (Wrap ''emergency GC'' err), s1)
        | Some (Inr _, s1) \<Rightarrow>
            let startSeg = LBAToSegmentID lba (ztl_sectorsPerSeg s1);
                endLBA = lba + of_nat (length data) div 512;
                endSeg = LBAToSegmentID (endLBA - 1) (ztl_sectorsPerSeg s1) in
            Some (case ztl_writeSegs ops jn now s1 lba endLBA (word_upto startSeg endSeg) data 0 of
                    (Inl err, s2) \<Rightarrow> (Inl err, s2)
                  | (Inr _, s2) \<Rightarrow>
                      (case log_call jn_GroupCommit jn s2 of
                         (Inl err, s3) \<Rightarrow> (Inl (Wrap ''WAL group commit'' err), s3)
                       | (Inr _, s3) \<Rightarrow> (Inr (), s3))))"

section \<open>Flushing, unmapping, closing\<close>

definition ztl_flushBuf ::
    "(u32 list \<Rightarrow> u32 list) \<Rightarrow> 'd ZonedDevice \<Rightarrow> ('d, 'j) ZTL \<Rightarrow> unit result \<times> ('d, 'j) ZTL" where
  "ztl_flushBuf zord ops s =
     (case wb_FlushAll zord ops (ztl_buf s) (ztl_zm s) (ztl_device s) of
        (r, wb, zm, d) \<Rightarrow> (r, s\<lparr>ztl_buf := wb, ztl_zm := zm, ztl_device := d\<rparr>))"

definition ztl_Flush ::
    "(u32 list \<Rightarrow> u32 list) \<Rightarrow> 'd ZonedDevice \<Rightarrow> 'j Journal option \<Rightarrow> ('d, 'j) ZTL \<Rightarrow> unit result \<times> ('d, 'j) ZTL" where
  "ztl_Flush zord ops jn s =
     (case ztl_flushBuf zord ops s of
        (Inl err, s1) \<Rightarrow> (Inl (Wrap ''ZTL.Flush'' err), s1)
      | (Inr _, s1) \<Rightarrow> log_call jn_GroupCommit jn s1)"

fun ztl_unmapSegs ::
    "'j Journal option \<Rightarrow> SegmentID list \<Rightarrow> ('d, 'j) ZTL \<Rightarrow> unit result \<times> ('d, 'j) ZTL" where
  "ztl_unmapSegs jn [] s = (Inr (), s)"
| "ztl_unmapSegs jn (segID # segs) s =
     (let oldPhys = L2P_Get (ztl_l2p s) segID in
      if IsUnmapped oldPhys then ztl_unmapSegs jn segs s
      else
        case log_l2p jn segID oldPhys 0 s of
          (Inl err, s1) \<Rightarrow> (Inl (Wrap ''WAL log unmap'' err), s1)
        | (Inr _, s1) \<Rightarrow>
            (case L2P_Set (ztl_l2p s1) segID 0 of
               (Inl err, _) \<Rightarrow> (Inl err, s1)
             | (Inr _, l2p) \<Rightarrow>
                 ztl_unmapSegs jn segs
                   (s1\<lparr>ztl_l2p := l2p, ztl_p2l := P2L_Delete (ztl_p2l s1) oldPhys,
                       ztl_zm := zm_DecrementValidSegs (ztl_zm s1) (ZoneID oldPhys)\<rparr>)))"

definition ztl_Unmap ::
    "'j Journal option \<Rightarrow> ('d, 'j) ZTL \<Rightarrow> u64 \<Rightarrow> u32 \<Rightarrow> unit result \<times> ('d, 'j) ZTL" where
  "ztl_Unmap jn s lba count =
     (let startSeg = LBAToSegmentID lba (ztl_sectorsPerSeg s);
          endLBA = lba + ucast count;
          endSeg = LBAToSegmentID (endLBA - 1) (ztl_sectorsPerSeg s)
      in ztl_unmapSegs jn (word_upto startSeg endSeg) s)"

definition ztl_Close ::
    "(u32 list \<Rightarrow> u32 list) \<Rightarrow> 'd ZonedDevice \<Rightarrow> ('d, 'j) ZTL \<Rightarrow> unit result \<times> ('d, 'j) ZTL" where
  "ztl_Close zord ops s =
     (case ztl_flushBuf zord ops s of
        (Inl err, s1) \<Rightarrow> (Inl (Wrap ''ZTL.Close flush'' err), s1)
      | (Inr _, s1) \<Rightarrow> (Inr (), s1))"

definition ztl_TriggerGC :: "('d, 'j) ZTL \<Rightarrow> ('d, 'j) ZTL" where
  "ztl_TriggerGC s = gc_TriggerManual s"

definition ztl_L2PGet :: "('d, 'j) ZTL \<Rightarrow> SegmentID \<Rightarrow> PhysAddr" where
  "ztl_L2PGet s segID = L2P_Get (ztl_l2p s) segID"

definition ztl_BlockSize :: "'d ZonedDevice \<Rightarrow> ('d, 'j) ZTL \<Rightarrow> u32" where
  "ztl_BlockSize ops s = dev_BlockSize ops (ztl_device s)"

definition ztl_Capacity :: "'d ZonedDevice \<Rightarrow> ('d, 'j) ZTL \<Rightarrow> u64" where
  "ztl_Capacity ops s = dev_Capacity ops (ztl_device s)"

section \<open>Invariant and logical content\<close>

text \<open>
  A mapped segment lies in a zone, below the zone's fill level, and on one side of the device's write
  pointer: all of it is on the device or all of it is in the buffer.
\<close>

definition seg_ok :: "dev_view \<Rightarrow> WriteBuffer \<Rightarrow> nat \<Rightarrow> PhysAddr \<Rightarrow> bool" where
  "seg_ok v wb S p \<longleftrightarrow> unat (ZoneID p) < v_zones v \<and> unat (OffsetSectors p) + S \<le> fill v wb (ZoneID p) \<and>
     (unat (OffsetSectors p) + S \<le> v_wp v (unat (ZoneID p)) \<or> v_wp v (unat (ZoneID p)) \<le> unat (OffsetSectors p))"

definition ztl_inv :: "dev_view \<Rightarrow> ('d, 'j) ZTL \<Rightarrow> bool" where
  "ztl_inv v s \<longleftrightarrow>
     l2p_inv (ztl_l2p s) \<and> p2l_inv (ztl_p2l s) \<and> zm_inv (ztl_zm s) \<and>
     buffered_ok v (ztl_zm s) (ztl_buf s) \<and> bufs_not_free (ztl_buf s) (ztl_zm s) \<and>
     0 < unat (ztl_sectorsPerSeg s) \<and> unat (ztl_sectorsPerSeg s) < 2 ^ 32 \<and>
     unat (ztl_sectorsPerSeg s) \<le> v_size v \<and>
     unat (l2p_size (ztl_l2p s)) * unat (ztl_sectorsPerSeg s) < 2 ^ 63 \<and>
     (\<forall>z \<in> set (zm_freeList (ztl_zm s)). fill v (ztl_buf s) z = 0) \<and>
     (ztl_currentZoneOpen s \<longrightarrow>
        ztl_currentWriteZone s \<notin> set (zm_freeList (ztl_zm s)) \<and> unat (ztl_currentWriteZone s) < v_zones v) \<and>
     (\<forall>g. L2P_Get (ztl_l2p s) g \<noteq> 0 \<longrightarrow>
        seg_ok v (ztl_buf s) (unat (ztl_sectorsPerSeg s)) (L2P_Get (ztl_l2p s) g) \<and>
        P2L_Get (ztl_p2l s) (L2P_Get (ztl_l2p s) g) = Some g)"

text \<open>The content of sector \<open>i\<close> of segment \<open>g\<close>, and of the logical sector \<open>a\<close>.\<close>

definition seg_sector :: "dev_view \<Rightarrow> ('d, 'j) ZTL \<Rightarrow> SegmentID \<Rightarrow> nat \<Rightarrow> bytes" where
  "seg_sector v s g i =
     (let p = L2P_Get (ztl_l2p s) g in
      if p = 0 then zeros sectorSize
      else psector v (ztl_buf s) (ZoneID p) (unat (OffsetSectors p) + i))"

definition logical :: "dev_view \<Rightarrow> ('d, 'j) ZTL \<Rightarrow> nat \<Rightarrow> bytes" where
  "logical v s a =
     seg_sector v s (of_nat (a div unat (ztl_sectorsPerSeg s))) (a mod unat (ztl_sectorsPerSeg s))"

section \<open>Reading returns the logical content\<close>

lemma seg_overlap_unat:
  assumes S: "0 < unat sps" "unat g * unat sps + unat sps < 2 ^ 64"
    and l: "unat lba < unat g * unat sps + unat sps" "unat g * unat sps < unat e"
    and o: "seg_overlap sps lba e g = (a, b)"
  shows "unat a = max (unat lba) (unat g * unat sps)" and "unat b = min (unat e) (unat g * unat sps + unat sps)"
    and "SegmentToLBARange g sps = (g * sps, g * sps + sps)" and "unat (g * sps) = unat g * unat sps"
proof -
  show r: "SegmentToLBARange g sps = (g * sps, g * sps + sps)" by (simp add: SegmentToLBARange_def Let_def)
  have "0 < sps" using S(1) by (simp add: word_less_nat_alt)
  note u = segment_range_iff(2,3) [OF this S(2) r]
  show "unat (g * sps) = unat g * unat sps" using u by simp
  show "unat a = max (unat lba) (unat g * unat sps)" "unat b = min (unat e) (unat g * unat sps + unat sps)"
    using o u by (auto simp: seg_overlap_def r word_less_nat_alt split: if_splits)
qed

text \<open>The part of segment \<open>g\<close> that a request covers, sectors \<open>a\<close> to \<open>b\<close>.\<close>

lemma seg_chunk:
  assumes S: "0 < unat sps" "unat sps < 2 ^ 32" and G: "unat g * unat sps + unat sps < 2 ^ 64"
    and l: "unat lba < unat g * unat sps + unat sps" "unat g * unat sps < unat e" "unat lba < unat e"
    and a: "a = max (unat lba) (unat g * unat sps)" and b: "b = min (unat e) (unat g * unat sps + unat sps)"
    and ov: "seg_overlap sps lba e g = (ra, rb)"
  shows "unat lba \<le> a" and "unat g * unat sps \<le> a" and "a < b" and "b \<le> unat g * unat sps + unat sps" and "b \<le> unat e"
    and "(ucast (rb - ra) :: u32) = of_nat (b - a)" and "unat (of_nat (b - a) :: u32) = b - a"
    and "ra - g * sps = of_nat (a - unat g * unat sps)" and "SegmentToLBARange g sps = (g * sps, g * sps + sps)"
proof -
  note u = seg_overlap_unat [OF S(1) G l(1,2) ov]
  show r: "unat lba \<le> a" "unat g * unat sps \<le> a" "a < b" "b \<le> unat g * unat sps + unat sps" "b \<le> unat e" using a b l S(1) by auto
  have "unat (rb - ra) = b - a" using u(1,2) a b r by (subst unat_sub_le) (auto simp: word_le_nat_alt)
  then have "rb - ra = of_nat (b - a)" by (rule u64_eq_of_nat)
  moreover have "b - a < 2 ^ 32" using r S(2) by linarith
  ultimately show "(ucast (rb - ra) :: u32) = of_nat (b - a)" "unat (of_nat (b - a) :: u32) = b - a"
    by (simp_all add: unsigned_of_nat take_bit_nat_eq_self)
  show "ra - g * sps = of_nat (a - unat g * unat sps)"
    using u(1,4) r a by (intro u64_eq_of_nat) (subst unat_sub_le, auto simp: word_le_nat_alt)
  show "SegmentToLBARange g sps = (g * sps, g * sps + sps)" by (rule u(3))
qed

lemma blit_same:
  assumes "off + length src \<le> length dst" and "\<And>i. i < length src \<Longrightarrow> dst ! (off + i) = src ! i"
  shows "blit off src dst = dst"
proof (rule nth_equalityI)
  show "length (blit off src dst) = length dst" using assms(1) by simp
  fix i assume "i < length (blit off src dst)"
  then have i: "i < length dst" using assms(1) by simp
  consider "i < off" | "off \<le> i" "i < off + length src" | "off + length src \<le> i" by linarith
  then show "blit off src dst ! i = dst ! i"
  proof cases
    case 2
    then obtain j where "i = off + j" "j < length src" by (metis le_Suc_ex nat_add_left_cancel_less)
    then show ?thesis using assms by (simp add: blit_fits nth_append)
  qed (use i assms in \<open>auto simp: blit_fits nth_append\<close>)
qed

lemma nth_blit_after:
  assumes "off + length src \<le> i" and "i < length dst"
  shows "blit off src dst ! i = dst ! i"
proof -
  obtain j where "i = off + (length src + j)" using assms(1) by (metis le_Suc_ex add.assoc)
  then show ?thesis using assms by (simp add: blit_fits nth_append add.assoc)
qed

lemma length_concat_sectors:
  "(\<And>x. a \<le> x \<Longrightarrow> x < b \<Longrightarrow> length (f x) = sectorSize) \<Longrightarrow>
     length (concat (map f [a..<b])) = sectorSize * (b - a)"
  by (induction b) (auto simp: Suc_diff_le)

lemma logical_in_seg:
  assumes "0 < unat (ztl_sectorsPerSeg s)" and "unat g * unat (ztl_sectorsPerSeg s) \<le> x"
    and "x < unat g * unat (ztl_sectorsPerSeg s) + unat (ztl_sectorsPerSeg s)"
  shows "logical v s x = seg_sector v s g (x - unat g * unat (ztl_sectorsPerSeg s))"
proof -
  have "x div unat (ztl_sectorsPerSeg s) = unat g" using assms by (simp add: nat_div_eq_iff)
  moreover from this have "x mod unat (ztl_sectorsPerSeg s) = x - unat g * unat (ztl_sectorsPerSeg s)"
    by (simp add: modulo_nat_def)
  ultimately show ?thesis by (simp add: logical_def)
qed

lemma zone_lba_add: "zone_lba v z k + of_nat n = zone_lba v z (k + n)"
  by (simp add: zone_lba_def)

text \<open>Flushing keeps the invariant and the logical content.\<close>

lemma seg_ok_flush: "flush_rel v wb v' wb' \<Longrightarrow> seg_ok v wb S p \<Longrightarrow> seg_ok v' wb' S p"
  unfolding seg_ok_def flush_rel_def by metis

text \<open>What writing may do: zones grow, what is in them stays where it is.\<close>

definition zones_grow :: "dev_view \<Rightarrow> WriteBuffer \<Rightarrow> dev_view \<Rightarrow> WriteBuffer \<Rightarrow> bool" where
  "zones_grow v wb v' wb' \<longleftrightarrow> v_zones v' = v_zones v \<and> v_size v' = v_size v \<and> (\<forall>y :: u32. v_wp v (unat y) \<le> v_wp v' (unat y)) \<and>
     (\<forall>y k. unat y < v_zones v \<longrightarrow> k < fill v wb y \<longrightarrow> psector v' wb' y k = psector v wb y k) \<and>
     (\<forall>S p. seg_ok v wb S p \<longrightarrow> seg_ok v' wb' S p) \<and> (\<forall>y. fill v wb y \<le> fill v' wb' y)"

lemma zones_grow_trans: "zones_grow u a v b \<Longrightarrow> zones_grow v b w c \<Longrightarrow> zones_grow u a w c"
  unfolding zones_grow_def by (metis le_trans less_le_trans)

lemma flush_rel_grow:
  assumes f: "flush_rel v wb v' wb'"
  shows "zones_grow v wb v' wb'"
proof -
  have "v_wp v (unat y) \<le> v_wp v' (unat y)" for y :: u32
    using f [unfolded flush_rel_def, THEN conjunct2, THEN conjunct2, THEN conjunct2, THEN conjunct2, THEN spec, of y] by (auto simp: fill_def)
  then show ?thesis using f seg_ok_flush [OF f] by (simp add: zones_grow_def flush_rel_def)
qed

lemma ztl_inv_flush:
  assumes inv: "ztl_inv v s" and f: "flush_rel v (ztl_buf s) v' wb" and "buffered_ok v' zm wb" and "zm_inv zm"
    and "bufs_not_free wb zm" and "zm_freeList zm = zm_freeList (ztl_zm s)"
  shows "ztl_inv v' (s\<lparr>ztl_buf := wb, ztl_zm := zm, ztl_device := d\<rparr>)"
proof -
  have "fill v' wb = fill v (ztl_buf s)" "v_zones v' = v_zones v" "v_size v' = v_size v"
    using f by (auto simp: flush_rel_def)
  then show ?thesis
    using assms seg_ok_flush [OF f] by (auto simp: ztl_inv_def)
qed

lemma seg_sector_flush:
  assumes inv: "ztl_inv v s" and f: "flush_rel v (ztl_buf s) v' wb" and i: "i < unat (ztl_sectorsPerSeg s)"
  shows "seg_sector v' (s\<lparr>ztl_buf := wb, ztl_zm := zm, ztl_device := d\<rparr>) h i = seg_sector v s h i"
proof -
  let ?p = "L2P_Get (ztl_l2p s) h"
  have "seg_ok v (ztl_buf s) (unat (ztl_sectorsPerSeg s)) ?p" if "?p \<noteq> 0"
    using inv that by (simp add: ztl_inv_def)
  then have "psector v' wb (ZoneID ?p) (unat (OffsetSectors ?p) + i) =
      psector v (ztl_buf s) (ZoneID ?p) (unat (OffsetSectors ?p) + i)" if "?p \<noteq> 0"
    using f that i by (auto simp: flush_rel_def seg_ok_def)
  then show ?thesis by (simp add: seg_sector_def Let_def)
qed

lemma logical_flush:
  assumes "ztl_inv v s" and "flush_rel v (ztl_buf s) v' wb"
  shows "logical v' (s\<lparr>ztl_buf := wb, ztl_zm := zm, ztl_device := d\<rparr>) = logical v s"
  using assms by (auto simp: logical_def fun_eq_iff intro!: seg_sector_flush simp: ztl_inv_def)

lemma ztl_inv_closed: "ztl_inv v s \<Longrightarrow> ztl_inv v (s\<lparr>ztl_currentZoneOpen := False\<rparr>)"
  by (simp add: ztl_inv_def)

lemma seg_sector_fields [simp]:
  "seg_sector v (s\<lparr>ztl_currentZoneOpen := b\<rparr>) = seg_sector v s"
  "seg_sector v (s\<lparr>ztl_journal := j\<rparr>) = seg_sector v s"
  by (auto simp: seg_sector_def fun_eq_iff Let_def)

text \<open>Changes to the other fields that keep the invariant.\<close>

lemma log_l2p_state:
  assumes "log_l2p jn g p q s = (r, s')"
  shows "\<exists>j. s' = s\<lparr>ztl_journal := j\<rparr>"
proof (cases jn)
  case None
  then have "s' = s\<lparr>ztl_journal := ztl_journal s\<rparr>" using assms by (simp add: log_l2p_def)
  then show ?thesis by blast
qed (use assms in \<open>auto simp: log_l2p_def split: prod.splits sum.splits\<close>)

lemma log_call_state:
  assumes "log_call f jn s = (r, s')"
  shows "\<exists>j. s' = s\<lparr>ztl_journal := j\<rparr>"
proof (cases jn)
  case None
  then have "s' = s\<lparr>ztl_journal := ztl_journal s\<rparr>" using assms by (simp add: log_call_def)
  then show ?thesis by blast
qed (use assms in \<open>auto simp: log_call_def split: prod.splits\<close>)

lemma ztl_inv_journal [simp]:
  "ztl_inv v (s\<lparr>ztl_journal := j\<rparr>) = ztl_inv v s" "logical v (s\<lparr>ztl_journal := j\<rparr>) = logical v s"
  by (auto simp: ztl_inv_def logical_def seg_sector_def fun_eq_iff Let_def)

lemma ztl_inv_alloc:
  assumes inv: "ztl_inv v s" and v: "same_data v v'" and zm: "zm_inv zm" "zm_frame (ztl_zm s) zm"
    and free: "set (zm_freeList zm) \<subseteq> set (zm_freeList (ztl_zm s))"
    and cur: "b \<Longrightarrow> z \<notin> set (zm_freeList zm) \<and> unat z < v_zones v"
  shows "ztl_inv v' (s\<lparr>ztl_zm := zm, ztl_device := d, ztl_currentWriteZone := z, ztl_currentZoneOpen := b\<rparr>)"
proof -
  have "buffered_ok v' zm (ztl_buf s)" using inv v zm by (auto simp: ztl_inv_def intro: buffered_ok_frame)
  moreover have "bufs_not_free (ztl_buf s) zm" using inv free by (auto simp: ztl_inv_def bufs_not_free_def)
  moreover have "seg_ok v' (ztl_buf s) S p" if "seg_ok v (ztl_buf s) S p" for S p
    using flush_rel_same_data [OF v] that by (rule seg_ok_flush)
  ultimately show ?thesis
    using inv zm free cur v same_data_fill [OF v] by (auto simp: ztl_inv_def same_data_def)
qed

lemma ztl_remap_simps [simp]:
  "ztl_l2p (ztl_remap g p q z s) = ztl_l2p s" "ztl_buf (ztl_remap g p q z s) = ztl_buf s"
  "ztl_sectorsPerSeg (ztl_remap g p q z s) = ztl_sectorsPerSeg s" "ztl_device (ztl_remap g p q z s) = ztl_device s"
  "ztl_currentWriteZone (ztl_remap g p q z s) = ztl_currentWriteZone s"
  "ztl_currentZoneOpen (ztl_remap g p q z s) = ztl_currentZoneOpen s"
  "ztl_emergencyFreeZones (ztl_remap g p q z s) = ztl_emergencyFreeZones s"
  "zm_freeList (ztl_zm (ztl_remap g p q z s)) = zm_freeList (ztl_zm s)"
  "zm_geoms (ztl_zm (ztl_remap g p q z s)) = zm_geoms (ztl_zm s)"
  "zm_WritePointer (ztl_zm (ztl_remap g p q z s)) = zm_WritePointer (ztl_zm s)"
  "zm_inv (ztl_zm s) \<Longrightarrow> zm_inv (ztl_zm (ztl_remap g p q z s))"
  "p2l_inv (ztl_p2l s) \<Longrightarrow> p2l_inv (ztl_p2l (ztl_remap g p q z s))"
  by (simp_all add: ztl_remap_def Let_def zm_counters_inv)

lemma P2L_Get_remap:
  "P2L_Get (ztl_p2l (ztl_remap g p q z s)) r =
     (if r = q then Some g else if p \<noteq> 0 \<and> r = p then None else P2L_Get (ztl_p2l s) r)"
  by (auto simp: ztl_remap_def Let_def IsUnmapped_def)

text \<open>
  The state of \<^verbatim>\<open>writeSegment\<close> once the segment has a new place at the end of zone \<open>z\<close> and its data is
  in the buffer.
\<close>

definition ztl_placed ::
    "SegmentID \<Rightarrow> PhysAddr \<Rightarrow> u32 \<Rightarrow> u64 \<Rightarrow> L2PTable \<Rightarrow> bytes \<Rightarrow> int \<Rightarrow> ('d, 'j) ZTL \<Rightarrow> ('d, 'j) ZTL" where
  "ztl_placed g newPhys z newWP l2p data now s =
     (let s3 = ztl_remap g (L2P_Get (ztl_l2p s) g) newPhys z (s\<lparr>ztl_l2p := l2p\<rparr>);
          wp = zm_WritePointer (ztl_zm s) z;
          s4 = s3\<lparr>ztl_zm := zm_UpdateWritePointer (ztl_zm s3) z newWP\<rparr>
      in s4\<lparr>ztl_buf := snd (wb_Add (ztl_buf s4) z data wp now)\<rparr>)"

lemma wb_Add_case:
  "(case wb_Add wb z data wp now of (Inl err, wb') \<Rightarrow> f err wb' | (Inr u, wb') \<Rightarrow> h wb') = h (snd (wb_Add wb z data wp now))"
  by (simp add: wb_Add_def Let_def)

lemma ztl_writeSegment_okE:
  assumes "ztl_writeSegment ops jn now s g data = (Inr (), s')"
  obtains z s1 zi j l2p newPhys newWP where
    "ztl_getWriteZone ops jn s = (Inr z, s1)" "zm_ZoneInfo (ztl_zm s1) z = Some zi"
    "newPhys = EncodePhysAddr z (zm_WritePointer (ztl_zm s1) z - zi_StartLBA zi)"
    "newWP = zm_WritePointer (ztl_zm s1) z + of_nat (length data) div 512"
    "L2P_Set (ztl_l2p s1) g newPhys = (Inr (), l2p)"
    "ztl_flushIfFull ops z zi newWP (ztl_placed g newPhys z newWP l2p data now (s1\<lparr>ztl_journal := j\<rparr>)) = (Inr (), s')"
proof -
  obtain z s1 where g: "ztl_getWriteZone ops jn s = (Inr z, s1)"
    using assms by (auto simp: ztl_writeSegment_def split: prod.splits sum.splits)
  obtain zi where zi: "zm_ZoneInfo (ztl_zm s1) z = Some zi"
    using assms g by (auto simp: ztl_writeSegment_def split: option.splits)
  define newPhys where "newPhys = EncodePhysAddr z (zm_WritePointer (ztl_zm s1) z - zi_StartLBA zi)"
  obtain s2 where l: "log_l2p jn g (L2P_Get (ztl_l2p s1) g) newPhys s1 = (Inr (), s2)"
    using assms g zi by (auto simp: ztl_writeSegment_def Let_def newPhys_def split: prod.splits sum.splits)
  obtain j where s2: "s2 = s1\<lparr>ztl_journal := j\<rparr>" using log_l2p_state [OF l] by blast
  obtain l2p where set: "L2P_Set (ztl_l2p s1) g newPhys = (Inr (), l2p)"
    using assms g zi l s2 by (auto simp: ztl_writeSegment_def Let_def newPhys_def split: prod.splits sum.splits)
  show ?thesis
    by (rule that [OF g zi newPhys_def refl set, of j])
      (use assms g zi l s2 set in \<open>simp add: ztl_writeSegment_def Let_def newPhys_def ztl_placed_def wb_Add_case\<close>)
qed

lemma ztl_placed_simps:
  "ztl_l2p (ztl_placed g p z wp l2p data now s) = l2p"
  "ztl_sectorsPerSeg (ztl_placed g p z wp l2p data now s) = ztl_sectorsPerSeg s"
  "ztl_buf (ztl_placed g p z wp l2p data now s) = snd (wb_Add (ztl_buf s) z data (zm_WritePointer (ztl_zm s) z) now)"
  "zm_freeList (ztl_zm (ztl_placed g p z wp l2p data now s)) = zm_freeList (ztl_zm s)"
  "zm_geoms (ztl_zm (ztl_placed g p z wp l2p data now s)) = zm_geoms (ztl_zm s)"
  "unat z < length (zm_zones (ztl_zm s)) \<Longrightarrow>
     zm_WritePointer (ztl_zm (ztl_placed g p z wp l2p data now s)) = (zm_WritePointer (ztl_zm s))(z := wp)"
  "zm_inv (ztl_zm s) \<Longrightarrow> zm_inv (ztl_zm (ztl_placed g p z wp l2p data now s))"
  "p2l_inv (ztl_p2l s) \<Longrightarrow> p2l_inv (ztl_p2l (ztl_placed g p z wp l2p data now s))"
  "ztl_currentWriteZone (ztl_placed g p z wp l2p data now s) = ztl_currentWriteZone s"
  "ztl_currentZoneOpen (ztl_placed g p z wp l2p data now s) = ztl_currentZoneOpen s"
  "ztl_device (ztl_placed g p z wp l2p data now s) = ztl_device s"
  "ztl_emergencyFreeZones (ztl_placed g p z wp l2p data now s) = ztl_emergencyFreeZones s"
  "P2L_Get (ztl_p2l (ztl_placed g p z wp l2p data now s)) r =
     (if r = p then Some g else if L2P_Get (ztl_l2p s) g \<noteq> 0 \<and> r = L2P_Get (ztl_l2p s) g then None
      else P2L_Get (ztl_p2l s) r)"
proof -
  have len: "length (zm_zones (ztl_zm (ztl_remap g q p z s'))) = length (zm_zones (ztl_zm s'))" for q s'
    using ztl_remap_simps(9) [of g q p z s'] by (metis length_zm_geoms)
  show "unat z < length (zm_zones (ztl_zm s)) \<Longrightarrow>
     zm_WritePointer (ztl_zm (ztl_placed g p z wp l2p data now s)) = (zm_WritePointer (ztl_zm s))(z := wp)"
    by (simp add: ztl_placed_def Let_def len)
qed (simp_all add: ztl_placed_def Let_def zm_counters_inv P2L_Get_remap)

text \<open>The new place is fresh, so no other segment's address is overwritten in either table.\<close>

lemma ztl_place_fresh:
  assumes inv: "ztl_inv v s" and z: "unat z < v_zones v"
    and p: "p = EncodePhysAddr z (of_nat (fill v (ztl_buf s) z))"
  shows "ZoneID p = z" "unat (OffsetSectors p) = fill v (ztl_buf s) z" "L2P_Get (ztl_l2p s) h = p \<Longrightarrow> p = 0"
proof -
  have "buffered_ok v (ztl_zm s) (ztl_buf s)" "zm_inv (ztl_zm s)" using inv by (auto simp: ztl_inv_def)
  then have "v_zones v \<le> 2 ^ 24" "fill v (ztl_buf s) z < 2 ^ 40"
    using zone_geoms_length [of v "ztl_zm s" "ztl_buf s"] z by (auto simp: zm_inv_def buffered_ok_def)
  then have "unat z < 2 ^ 24" "unat (of_nat (fill v (ztl_buf s) z) :: u64) = fill v (ztl_buf s) z"
    "fill v (ztl_buf s) z < 2 ^ 40"
    using z by (auto simp: unat_u64_of_nat)
  then show dec: "ZoneID p = z" "unat (OffsetSectors p) = fill v (ztl_buf s) z"
    unfolding p by (simp_all add: ZoneID_Encode OffsetSectors_Encode)
  assume h: "L2P_Get (ztl_l2p s) h = p"
  show "p = 0"
  proof (rule ccontr)
    assume "p \<noteq> 0"
    then have "seg_ok v (ztl_buf s) (unat (ztl_sectorsPerSeg s)) p" "0 < unat (ztl_sectorsPerSeg s)"
      using inv h by (auto simp: ztl_inv_def)
    then show False using dec by (simp add: seg_ok_def)
  qed
qed

lemma ztl_place:
  fixes now :: int
  assumes inv: "ztl_inv v s" and z: "unat z < v_zones v" "z \<notin> set (zm_freeList (ztl_zm s))"
    and room: "fill v (ztl_buf s) z + unat (ztl_sectorsPerSeg s) \<le> v_size v"
    and len: "length data = sectorSize * unat (ztl_sectorsPerSeg s)"
    and p: "p = EncodePhysAddr z (of_nat (fill v (ztl_buf s) z))"
    and wp: "newWP = zone_lba v (unat z) (fill v (ztl_buf s) z + unat (ztl_sectorsPerSeg s))"
    and set: "L2P_Set (ztl_l2p s) g p = (Inr (), l2p)"
  defines "s' \<equiv> ztl_placed g p z newWP l2p data now s"
  shows "ztl_inv v s' \<and> fill v (ztl_buf s') = (fill v (ztl_buf s))(z := fill v (ztl_buf s) z + unat (ztl_sectorsPerSeg s)) \<and>
    (\<forall>h i. i < unat (ztl_sectorsPerSeg s) \<longrightarrow>
       seg_sector v s' h i = (if h = g then (if p = 0 then zeros sectorSize else sector i data)
                              else seg_sector v s h i)) \<and>
    zones_grow v (ztl_buf s) v (ztl_buf s')"
proof -
  let ?S = "unat (ztl_sectorsPerSeg s)" and ?f = "fill v (ztl_buf s)" and ?L = "L2P_Get (ztl_l2p s)"
  have S: "0 < ?S" "l2p_inv (ztl_l2p s)" and ok: "buffered_ok v (ztl_zm s) (ztl_buf s)"
    using inv by (auto simp: ztl_inv_def)
  have seg: "seg_ok v (ztl_buf s) ?S (?L h)" "P2L_Get (ztl_p2l s) (?L h) = Some h" if "?L h \<noteq> 0" for h
    using inv that by (auto simp: ztl_inv_def)
  note fresh = ztl_place_fresh [OF inv z(1) p]
  note l2p = L2P_Set_ok [OF set S(2)]
  obtain r wb' where add: "wb_Add (ztl_buf s) z data (zm_WritePointer (ztl_zm s) z) now = (r, wb')" by fastforce
  have mod0: "length (wb_data (ztl_buf s) z) mod sectorSize = 0" using ok z by (simp add: buffered_ok_def)
  note fillp = wb_Add_fill [OF add len S(1) mod0, of v]
  have buf': "ztl_buf s' = wb'" using add by (simp add: s'_def ztl_placed_simps)
  have zl: "unat z < length (zm_zones (ztl_zm s))" using zone_geoms_length [OF ok] z by simp
  have ok': "buffered_ok v (ztl_zm s') wb'"
    using buffered_ok_Add [OF ok z(1) add len S(1) room]
    by (rule buffered_ok_same) (simp_all add: s'_def ztl_placed_simps zl wp)
  have nf: "bufs_not_free wb' (ztl_zm s')"
  proof -
    have "data \<noteq> []" using len S(1) by auto
    moreover have "bufs_not_free (ztl_buf s) (ztl_zm s)" using inv by (simp add: ztl_inv_def)
    ultimately show ?thesis
      using z(2) map_of_wb_Add(1) [OF add]
      by (auto simp: bufs_not_free_def s'_def ztl_placed_simps split: if_splits)
  qed
  have new: "seg_ok v wb' ?S p" using fresh(1,2) z fillp(1) by (auto simp: seg_ok_def fill_def)
  have old: "seg_ok v wb' n q" if "seg_ok v (ztl_buf s) n q" for n q
    using that fillp(1) [of "ZoneID q"] by (auto simp: seg_ok_def)
  have maps: "seg_ok v wb' ?S (L2P_Get l2p h) \<and> P2L_Get (ztl_p2l s') (L2P_Get l2p h) = Some h"
    if "L2P_Get l2p h \<noteq> 0" for h
    using that l2p(1) new old seg fresh(3) [of h]
    by (cases "h = g") (auto simp: s'_def ztl_placed_simps, metis option.inject)
  have "ztl_inv v s'"
    using inv ok' nf maps l2p(2,3) z(2) fillp(1) buf'
    by (auto simp: ztl_inv_def s'_def ztl_placed_simps)
  moreover have "seg_sector v s' h i = (if h = g then (if p = 0 then zeros sectorSize else sector i data)
      else seg_sector v s h i)" if i: "i < ?S" for h i
  proof -
    have "psector v wb' (ZoneID q) (unat (OffsetSectors q) + i) = psector v (ztl_buf s) (ZoneID q) (unat (OffsetSectors q) + i)"
      if "seg_ok v (ztl_buf s) ?S q" for q
      using that i fillp(2) by (auto simp: seg_ok_def)
    then show ?thesis
      using l2p(1) seg fresh(1,2) fillp(2) buf'
      by (auto simp: seg_sector_def Let_def s'_def ztl_placed_simps)
  qed
  moreover have "zones_grow v (ztl_buf s) v (ztl_buf s')" using old fillp by (auto simp: zones_grow_def buf')
  ultimately show ?thesis using fillp(1) buf' by (auto simp: fun_eq_iff)
qed

text \<open>Unmapping makes whole segments read as zeros.\<close>

lemma ztl_unmap_one:
  assumes inv: "ztl_inv v s" and p: "p = L2P_Get (ztl_l2p s) g" "p \<noteq> 0" and set: "L2P_Set (ztl_l2p s) g 0 = (Inr (), l2p)"
  defines "s' \<equiv> s\<lparr>ztl_l2p := l2p, ztl_p2l := P2L_Delete (ztl_p2l s) p,
                  ztl_zm := zm_DecrementValidSegs (ztl_zm s) (ZoneID p)\<rparr>"
  shows "ztl_inv v s' \<and> (\<forall>h i. seg_sector v s' h i = (if h = g then zeros sectorSize else seg_sector v s h i))"
proof -
  have li: "l2p_inv (ztl_l2p s)" and ok: "buffered_ok v (ztl_zm s) (ztl_buf s)" using inv by (auto simp: ztl_inv_def)
  note l = L2P_Set_ok [OF set li]
  have "buffered_ok v (zm_DecrementValidSegs (ztl_zm s) (ZoneID p)) (ztl_buf s)"
    using ok by (rule buffered_ok_same) simp_all
  moreover have "P2L_Get (P2L_Delete (ztl_p2l s) p) (L2P_Get l2p h) = Some h \<and>
      seg_ok v (ztl_buf s) (unat (ztl_sectorsPerSeg s)) (L2P_Get l2p h)" if "L2P_Get l2p h \<noteq> 0" for h
  proof -
    have h: "h \<noteq> g" "L2P_Get l2p h = L2P_Get (ztl_l2p s) h" using that l(1) by (auto split: if_splits)
    moreover have "P2L_Get (ztl_p2l s) (L2P_Get (ztl_l2p s) h) = Some h" "P2L_Get (ztl_p2l s) p = Some g"
      using inv p that h by (auto simp: ztl_inv_def)
    ultimately show ?thesis using inv that by (auto simp: ztl_inv_def)
  qed
  ultimately have "ztl_inv v s'"
    using inv l by (auto simp: ztl_inv_def s'_def zm_counters_inv bufs_not_free_def)
  then show ?thesis using l(1) by (simp add: seg_sector_def s'_def Let_def)
qed

lemma ztl_unmapSegs_ok:
  assumes "ztl_inv v s" and "ztl_unmapSegs jn segs s = (Inr (), s')"
  shows "ztl_inv v s' \<and> ztl_device s' = ztl_device s \<and> ztl_sectorsPerSeg s' = ztl_sectorsPerSeg s \<and> ztl_buf s' = ztl_buf s \<and>
    (\<forall>h i. seg_sector v s' h i = (if h \<in> set segs then zeros sectorSize else seg_sector v s h i))"
  using assms
proof (induction segs arbitrary: s)
  case Nil
  then show ?case by auto
next
  case (Cons g segs)
  let ?p = "L2P_Get (ztl_l2p s) g"
  show ?case
  proof (cases "?p = 0")
    case True
    then have "ztl_unmapSegs jn segs s = (Inr (), s')" using Cons.prems(2) by (simp add: IsUnmapped_def)
    from Cons.IH [OF Cons.prems(1) this] show ?thesis using True by (auto simp: seg_sector_def)
  next
    case False
    obtain r1 s1 where l: "log_l2p jn g ?p 0 s = (r1, s1)" by fastforce
    have r1: "r1 = Inr ()" using Cons.prems(2) False l by (cases r1) (auto simp: IsUnmapped_def)
    obtain j where s1: "s1 = s\<lparr>ztl_journal := j\<rparr>" using log_l2p_state [OF l] by blast
    obtain l2p where set: "L2P_Set (ztl_l2p s1) g 0 = (Inr (), l2p)"
      using Cons.prems(2) False l r1 by (auto simp: IsUnmapped_def Let_def split: prod.splits sum.splits)
    let ?s2 = "s1\<lparr>ztl_l2p := l2p, ztl_p2l := P2L_Delete (ztl_p2l s1) ?p,
                  ztl_zm := zm_DecrementValidSegs (ztl_zm s1) (ZoneID ?p)\<rparr>"
    have rest: "ztl_unmapSegs jn segs ?s2 = (Inr (), s')"
      using Cons.prems(2) False l r1 set by (simp add: IsUnmapped_def Let_def)
    have i1: "ztl_inv v s1" "?p = L2P_Get (ztl_l2p s1) g" using Cons.prems(1) s1 by simp_all
    note one = ztl_unmap_one [OF i1 False set]
    from Cons.IH [OF conjunct1 [OF one] rest] one show ?thesis by (simp add: s1)
  qed
qed

text \<open>
  The segments from number \<open>G\<close> on, \<open>m\<close> of them, have been written and hold \<open>c\<close> (unless they got the address that means \<^verbatim>\<open>unmapped\<close>, which cannot
  happen once zone 0 is in use); the others are as before.
\<close>

definition segs_written :: "dev_view \<Rightarrow> ('d, 'j) ZTL \<Rightarrow> dev_view \<Rightarrow> ('d, 'j) ZTL \<Rightarrow> nat \<Rightarrow> nat \<Rightarrow> (nat \<Rightarrow> nat \<Rightarrow> bytes) \<Rightarrow> bool" where
  "segs_written v s v' s' G m c \<longleftrightarrow> ztl_sectorsPerSeg s' = ztl_sectorsPerSeg s \<and>
     (\<forall>h. unat h \<notin> {G..<G + m} \<longrightarrow> L2P_Get (ztl_l2p s') h = L2P_Get (ztl_l2p s) h) \<and>
     (0 < fill v (ztl_buf s) 0 \<longrightarrow> 0 < fill v' (ztl_buf s') 0 \<and> (\<forall>h. unat h \<in> {G..<G + m} \<longrightarrow> L2P_Get (ztl_l2p s') h \<noteq> 0)) \<and>
     (\<forall>h i. i < unat (ztl_sectorsPerSeg s) \<longrightarrow> seg_sector v' s' h i =
        (if unat h \<in> {G..<G + m} then (if L2P_Get (ztl_l2p s') h = 0 then zeros sectorSize else c (unat h) i) else seg_sector v s h i))"

lemma segs_written_none: "segs_written v s v s G 0 c"
  by (simp add: segs_written_def)

lemma segs_written_cons:
  assumes one: "segs_written v s v1 s1 G 1 c" and rest: "segs_written v1 s1 v' s' (Suc G) m c"
  shows "segs_written v s v' s' G (Suc m) c"
proof -
  have sps: "ztl_sectorsPerSeg s1 = ztl_sectorsPerSeg s" using one by (simp add: segs_written_def)
  have here: "unat h \<in> {G..<G + 1} \<longleftrightarrow> unat h = G" "unat h \<in> {G..<G + Suc m} \<longleftrightarrow> unat h = G \<or> unat h \<in> {Suc G..<Suc G + m}" for h :: u64 by auto
  have off: "G \<notin> {Suc G..<Suc G + m}" by simp
  have "L2P_Get (ztl_l2p s') h = L2P_Get (ztl_l2p s) h" if "unat h \<notin> {G..<G + Suc m}" for h
    using one rest that unfolding segs_written_def here by metis
  moreover have "0 < fill v' (ztl_buf s') 0 \<and> (\<forall>h. unat h \<in> {G..<G + Suc m} \<longrightarrow> L2P_Get (ztl_l2p s') h \<noteq> 0)" if "0 < fill v (ztl_buf s) 0"
    using one rest that off unfolding segs_written_def here by metis
  moreover have "seg_sector v' s' h i =
      (if unat h \<in> {G..<G + Suc m} then (if L2P_Get (ztl_l2p s') h = 0 then zeros sectorSize else c (unat h) i) else seg_sector v s h i)"
    if "i < unat (ztl_sectorsPerSeg s)" for h i
    using one rest that off unfolding segs_written_def here sps by (cases "unat h = G") simp_all
  ultimately show ?thesis using one rest by (simp add: segs_written_def)
qed

lemma sector_slice:
  "i < n \<Longrightarrow> sector i (bslice (sectorSize * k) (sectorSize * k + n * sectorSize) data) = sector (k + i) data"
proof -
  assume "i < n"
  then have "sectorSize * i + sectorSize \<le> n * sectorSize" by simp
  then show ?thesis by (simp add: bslice_def sector_def drop_take min_def algebra_simps)
qed

lemma aligned_segments:
  fixes lba sps :: u64 and data :: bytes
  assumes S: "0 < unat sps" and al: "unat lba = G * unat sps" "length data = sectorSize * (unat sps * n)" "0 < n" and range: "unat lba + unat sps * n < 2 ^ 54"
  defines "e \<equiv> lba + of_nat (length data) div 512"
  shows "unat e = (G + n) * unat sps" and "unat (LBAToSegmentID lba sps) = G"
    and "word_upto (LBAToSegmentID lba sps) (LBAToSegmentID (e - 1) sps) = map of_nat [G..<G + n]"
proof -
  have "unat sps * n < 2 ^ 54" using range by linarith
  then have "length data < 2 ^ 64" unfolding al(2) by (simp add: mult.commute)
  then have "(of_nat (length data) :: u64) div 512 = of_nat (unat sps * n)" by (rule of_nat_sectors [OF al(2)])
  moreover have "unat (of_nat (unat sps * n) :: u64) = unat sps * n" using range by (intro unat_u64_of_nat) simp
  ultimately show e: "unat e = (G + n) * unat sps" using al(1) range by (simp add: e_def unat_add_lt algebra_simps)
  show g: "unat (LBAToSegmentID lba sps) = G" using al(1) S by (simp add: LBAToSegmentID_def unat_div_distrib)
  have "0 < unat e" using e S al(3) by simp
  then have "unat (e - 1) = unat e - 1" by (subst unat_sub_le) (auto simp: word_le_nat_alt)
  moreover have "(unat e - 1) div unat sps = G + n - 1"
    unfolding nat_div_eq_iff [OF S] e using S al(3) by (cases n) (auto simp: algebra_simps)
  ultimately have "unat (LBAToSegmentID (e - 1) sps) = G + n - 1" by (simp add: LBAToSegmentID_def unat_div_distrib)
  then show "word_upto (LBAToSegmentID lba sps) (LBAToSegmentID (e - 1) sps) = map of_nat [G..<G + n]"
    unfolding word_upto_def g using al(3) by simp
qed

text \<open>In terms of sectors: the range has the data, the rest is as before.\<close>

lemma segs_written_logical:
  assumes w: "segs_written v s v' s' G n (\<lambda>h i. sector (unat (ztl_sectorsPerSeg s) * (h - G) + i) data)" and used: "0 < fill v (ztl_buf s) 0"
    and S: "0 < unat (ztl_sectorsPerSeg s)" and a: "a < 2 ^ 63" and L: "L = G * unat (ztl_sectorsPerSeg s)"
  shows "logical v' s' a = (if L \<le> a \<and> a < L + unat (ztl_sectorsPerSeg s) * n then sector (a - L) data else logical v s a)"
proof -
  let ?S = "unat (ztl_sectorsPerSeg s)"
  have h: "unat (of_nat (a div ?S) :: u64) = a div ?S"
    by (intro unat_u64_of_nat le_less_trans [OF div_le_dividend]) (use a in simp)
  have i: "a mod ?S < ?S" using S by simp
  have "a div ?S \<in> {G..<G + n} \<longleftrightarrow> L \<le> a \<and> a < L + ?S * n"
    using S L by (simp add: less_eq_div_iff_mult_less_eq div_less_iff_less_mult algebra_simps)
  moreover have "?S * (a div ?S - G) + a mod ?S = a - L" if "L \<le> a"
  proof -
    have "G \<le> a div ?S" using that L S by (simp add: less_eq_div_iff_mult_less_eq)
    then obtain q where q: "a div ?S = G + q" using le_Suc_ex by blast
    have "?S * (G + q) + a mod ?S = a" using mult_div_mod_eq [of ?S a] q by simp
    then show ?thesis using q L by (simp add: distrib_left mult.commute [of G])
  qed
  ultimately show ?thesis using w used h i by (auto simp: logical_def segs_written_def)
qed

context zoned_device
begin

text \<open>
  The zone that \<open>getWriteZone\<close> returns has room for one more segment and is not free any more; the
  logical content is unchanged, whether it succeeds or fails.
\<close>

lemma ztl_getWriteZone_reuse:
  assumes d: "dinv d" and ok: "buffered_ok (view d) zm wb" and z: "unat z < v_zones (view d)"
    and zi: "zm_ZoneInfo zm z = Some zi"
    and room: "zi_StartLBA zi + zi_SizeSectors zi - zm_WritePointer zm z \<ge> S"
  shows "fill (view d) wb z + unat S \<le> v_size (view d)"
proof -
  let ?v = "view d"
  have wp: "zm_WritePointer zm z = zone_lba ?v (unat z) (fill ?v wb z)" "fill ?v wb z \<le> v_size ?v"
    using ok z by (auto simp: buffered_ok_def)
  obtain zi' where "zm_ZoneInfo zm z = Some zi'" "zi_StartLBA zi' = zone_lba ?v (unat z) 0"
    "zi_SizeSectors zi' = of_nat (v_size ?v)" by (rule zm_ZoneInfo_ok [OF ok z])
  then have zi': "zi_StartLBA zi + zi_SizeSectors zi = zone_lba ?v (unat z) (v_size ?v)"
    using zi by (simp add: zone_lba_def)
  have "zone_lba ?v (unat z) (fill ?v wb z) \<le> zone_lba ?v (unat z) (v_size ?v)"
    using zone_lba_unat [OF d z] wp(2) by (simp add: word_le_nat_alt)
  then have "unat (zi_StartLBA zi + zi_SizeSectors zi - zm_WritePointer zm z) = v_size ?v - fill ?v wb z"
    using zone_lba_unat [OF d z] wp zi' by (simp add: unat_sub_le)
  then show ?thesis using room wp(2) by (simp add: word_le_nat_alt)
qed

lemma ztl_getWriteZone_ok:
  assumes d: "dinv (ztl_device s)" and inv: "ztl_inv (view (ztl_device s)) s"
    and g: "ztl_getWriteZone ops jn s = (r, s')"
  shows "dinv (ztl_device s') \<and> ztl_inv (view (ztl_device s')) s' \<and>
    same_data (view (ztl_device s)) (view (ztl_device s')) \<and>
    ztl_buf s' = ztl_buf s \<and> ztl_l2p s' = ztl_l2p s \<and> ztl_sectorsPerSeg s' = ztl_sectorsPerSeg s \<and>
    ztl_emergencyFreeZones s' = ztl_emergencyFreeZones s \<and>
    (\<forall>z. r = Inr z \<longrightarrow> unat z < v_zones (view (ztl_device s')) \<and> z \<notin> set (zm_freeList (ztl_zm s')) \<and>
       fill (view (ztl_device s')) (ztl_buf s') z + unat (ztl_sectorsPerSeg s) \<le> v_size (view (ztl_device s')))"
proof (cases "ztl_currentZoneOpen s \<and> ztl_hasRoom s")
  case True
  then have "r = Inr (ztl_currentWriteZone s)" "s' = s" using g by (auto simp: ztl_getWriteZone_def)
  moreover have "unat (ztl_currentWriteZone s) < v_zones (view (ztl_device s))"
      "ztl_currentWriteZone s \<notin> set (zm_freeList (ztl_zm s))"
      "buffered_ok (view (ztl_device s)) (ztl_zm s) (ztl_buf s)"
    using inv True by (auto simp: ztl_inv_def)
  ultimately show ?thesis
    using d inv True ztl_getWriteZone_reuse [OF d] by (auto simp: ztl_hasRoom_def split: option.splits)
next
  case False
  obtain ra zm2 d2 where a: "zm_AllocateFree ops (ztl_device s) (ztl_zm s) = (ra, zm2, d2)" by (metis prod_cases3)
  have zi: "zm_inv (ztl_zm s)" using inv by (simp add: ztl_inv_def)
  note az = zm_AllocateFree_inv [OF zi a] and ad = zm_AllocateFree_device [OF d a]
  let ?v = "view (ztl_device s)"
  have gw: "ztl_getWriteZone ops jn s = (case ra of
      Inl err \<Rightarrow> (Inl (Wrap ''allocating write zone'' err), s\<lparr>ztl_currentZoneOpen := False, ztl_zm := zm2, ztl_device := d2\<rparr>)
    | Inr z \<Rightarrow> (Inr z, (snd (log_call (\<lambda>J j. jn_LogZoneOpen J j z) jn
          (s\<lparr>ztl_currentZoneOpen := False, ztl_zm := zm2, ztl_device := d2\<rparr>)))
          \<lparr>ztl_currentWriteZone := z, ztl_currentZoneOpen := True\<rparr>))"
    unfolding ztl_getWriteZone_def Let_def using False a by (auto split: sum.splits option.splits)
  show ?thesis
  proof (cases ra)
    case (Inl err)
    have "s' = s\<lparr>ztl_zm := zm2, ztl_device := d2, ztl_currentWriteZone := ztl_currentWriteZone s, ztl_currentZoneOpen := False\<rparr>"
      using g gw Inl by auto
    moreover from this have "ztl_inv (view d2) s'"
      using ztl_inv_alloc [OF inv, of "view d2" zm2 False "ztl_currentWriteZone s" d2] az ad Inl by simp
    ultimately show ?thesis using ad g gw Inl by auto
  next
    case (Inr z)
    obtain j where "snd (log_call (\<lambda>J j. jn_LogZoneOpen J j z) jn
          (s\<lparr>ztl_currentZoneOpen := False, ztl_zm := zm2, ztl_device := d2\<rparr>)) =
        s\<lparr>ztl_currentZoneOpen := False, ztl_zm := zm2, ztl_device := d2, ztl_journal := j\<rparr>"
      using log_call_state [OF prod.collapse [symmetric]] by fastforce
    then have s': "r = Inr z" "s' = s\<lparr>ztl_zm := zm2, ztl_device := d2, ztl_currentWriteZone := z, ztl_currentZoneOpen := True, ztl_journal := j\<rparr>"
      using g gw Inr by auto
    have free: "zm_freeList (ztl_zm s) = zm_freeList zm2 @ [z]" using az Inr by simp
    have zf: "z \<notin> set (zm_freeList zm2)" "unat z < v_zones ?v" "fill ?v (ztl_buf s) z = 0" "unat (ztl_sectorsPerSeg s) \<le> v_size ?v"
      using inv free zm_inv_free [OF zi, of z] zone_geoms_length [of ?v "ztl_zm s" "ztl_buf s"]
      by (auto simp: ztl_inv_def zm_inv_def)
    then have "ztl_inv (view d2) s'"
      using ztl_inv_alloc [OF inv, of "view d2" zm2 True z d2] az ad free s' by auto
    then show ?thesis
      using ad s' zf same_data_fill [of ?v "view d2"] by (auto simp: same_data_def)
  qed
qed

lemma ztl_flushIfFull_ok:
  assumes d: "dinv (ztl_device s)" and inv: "ztl_inv (view (ztl_device s)) s"
    and f: "ztl_flushIfFull ops z zi wp s = (Inr (), s')"
  shows "dinv (ztl_device s') \<and> ztl_inv (view (ztl_device s')) s' \<and>
    fill (view (ztl_device s')) (ztl_buf s') = fill (view (ztl_device s)) (ztl_buf s) \<and>
    ztl_l2p s' = ztl_l2p s \<and> ztl_sectorsPerSeg s' = ztl_sectorsPerSeg s \<and>
    ztl_emergencyFreeZones s' = ztl_emergencyFreeZones s \<and>
    (\<forall>h i. i < unat (ztl_sectorsPerSeg s) \<longrightarrow>
       seg_sector (view (ztl_device s')) s' h i = seg_sector (view (ztl_device s)) s h i) \<and>
    zones_grow (view (ztl_device s)) (ztl_buf s) (view (ztl_device s')) (ztl_buf s')"
proof (cases "wp \<ge> zi_StartLBA zi + zi_SizeSectors zi")
  case True
  obtain r wb zm d' where fl: "wb_Flush ops (ztl_buf s) z (ztl_device s) (ztl_zm s) = (r, wb, zm, d')"
    by (metis prod_cases4)
  have r: "r = Inr ()" "s' = s\<lparr>ztl_buf := wb, ztl_zm := zm, ztl_device := d', ztl_currentZoneOpen := False\<rparr>"
    using f True fl by (auto simp: ztl_flushIfFull_def Let_def split: sum.splits)
  have pre: "zm_inv (ztl_zm s)" "buffered_ok (view (ztl_device s)) (ztl_zm s) (ztl_buf s)"
    "bufs_not_free (ztl_buf s) (ztl_zm s)" using inv by (auto simp: ztl_inv_def)
  note w = wb_Flush_rel [OF d pre fl [unfolded r(1)]]
  then have rel: "flush_rel (view (ztl_device s)) (ztl_buf s) (view d') wb" by simp
  have "ztl_inv (view d') s'"
    unfolding r(2) using ztl_inv_flush [OF inv rel, where zm = zm and d = d'] w by (auto intro: ztl_inv_closed)
  then show ?thesis
    using w seg_sector_flush [OF inv rel, where zm = zm and d = d'] flush_rel_grow [OF rel] by (simp add: r(2) flush_rel_def)
next
  case False
  then show ?thesis using assms flush_rel_grow [OF flush_rel_refl] by (simp add: ztl_flushIfFull_def)
qed

text \<open>A successful \<open>writeSegment\<close> of a whole segment replaces the content of that segment only.\<close>

lemma ztl_writeSegment_ok:
  assumes d: "dinv (ztl_device s)" and inv: "ztl_inv (view (ztl_device s)) s"
    and len: "length data = sectorSize * unat (ztl_sectorsPerSeg s)"
    and w: "ztl_writeSegment ops jn now s g data = (Inr (), s')"
  shows "dinv (ztl_device s') \<and> ztl_inv (view (ztl_device s')) s' \<and>
    ztl_sectorsPerSeg s' = ztl_sectorsPerSeg s \<and> (\<forall>h. h \<noteq> g \<longrightarrow> L2P_Get (ztl_l2p s') h = L2P_Get (ztl_l2p s) h) \<and>
    g < l2p_size (ztl_l2p s) \<and>
    (0 < fill (view (ztl_device s)) (ztl_buf s) 0 \<longrightarrow>
       L2P_Get (ztl_l2p s') g \<noteq> 0 \<and> 0 < fill (view (ztl_device s')) (ztl_buf s') 0) \<and>
    (\<forall>h i. i < unat (ztl_sectorsPerSeg s) \<longrightarrow> seg_sector (view (ztl_device s')) s' h i =
       (if h = g then (if L2P_Get (ztl_l2p s') g = 0 then zeros sectorSize else sector i data)
        else seg_sector (view (ztl_device s)) s h i)) \<and>
    zones_grow (view (ztl_device s)) (ztl_buf s) (view (ztl_device s')) (ztl_buf s')"
proof -
  obtain z s1 zi j l2p p wp where
    g: "ztl_getWriteZone ops jn s = (Inr z, s1)" and zi: "zm_ZoneInfo (ztl_zm s1) z = Some zi"
    and p: "p = EncodePhysAddr z (zm_WritePointer (ztl_zm s1) z - zi_StartLBA zi)"
    and wp: "wp = zm_WritePointer (ztl_zm s1) z + of_nat (length data) div 512"
    and set: "L2P_Set (ztl_l2p s1) g p = (Inr (), l2p)"
    and fl: "ztl_flushIfFull ops z zi wp (ztl_placed g p z wp l2p data now (s1\<lparr>ztl_journal := j\<rparr>)) = (Inr (), s')"
    using ztl_writeSegment_okE [OF w] .
  let ?v = "view (ztl_device s)" and ?v1 = "view (ztl_device s1)" and ?s2 = "s1\<lparr>ztl_journal := j\<rparr>"
  let ?S = "unat (ztl_sectorsPerSeg s)" and ?f = "fill (view (ztl_device s1)) (ztl_buf s1) z"
  note s1 = ztl_getWriteZone_ok [OF d inv g]
  have same: "seg_sector ?v1 s1 = seg_sector ?v s"
    using s1 same_data_fill [of ?v ?v1] by (auto simp: seg_sector_def Let_def fun_eq_iff)
  have ok: "buffered_ok ?v1 (ztl_zm s1) (ztl_buf s1)" and lp: "l2p_inv (ztl_l2p s1)"
    using s1 by (auto simp: ztl_inv_def)
  have z: "unat z < v_zones ?v1" "z \<notin> set (zm_freeList (ztl_zm s1))" "?f + ?S \<le> v_size ?v1" using s1 by auto
  have zwp: "zm_WritePointer (ztl_zm s1) z = zone_lba ?v1 (unat z) ?f" "v_size ?v1 < 2 ^ 40"
    using ok z(1) by (auto simp: buffered_ok_def)
  have start: "zi_StartLBA zi = zone_lba ?v1 (unat z) 0"
    using zm_ZoneInfo_ok [OF ok z(1)] zi by (metis option.inject)
  have p': "p = EncodePhysAddr z (of_nat ?f)" using p zwp start by (simp add: zone_lba_def)
  have wp': "wp = zone_lba ?v1 (unat z) (?f + ?S)"
    using wp zwp of_nat_sectors [OF len] len z(3) by (simp add: zone_lba_def)
  have "ztl_inv ?v1 ?s2" using s1 by simp
  note fresh = ztl_place_fresh [OF this z(1), of p]
  have zone0: "p \<noteq> 0" if "0 < fill ?v (ztl_buf s) 0"
  proof
    assume "p = 0"
    then have "z = 0" "?f = 0" using fresh(1,2) p' by (auto simp: ZoneID_def OffsetSectors_def)
    then show False using that s1 same_data_fill [of ?v ?v1] by simp
  qed
  have pl: "ztl_inv ?v1 (ztl_placed g p z wp l2p data now ?s2) \<and>
      fill ?v1 (ztl_buf (ztl_placed g p z wp l2p data now ?s2)) = (fill ?v1 (ztl_buf s1))(z := ?f + ?S) \<and>
      (\<forall>h i. i < ?S \<longrightarrow> seg_sector ?v1 (ztl_placed g p z wp l2p data now ?s2) h i =
         (if h = g then (if p = 0 then zeros sectorSize else sector i data) else seg_sector ?v1 s1 h i)) \<and>
      zones_grow ?v1 (ztl_buf s1) ?v1 (ztl_buf (ztl_placed g p z wp l2p data now ?s2))"
    using ztl_place [of ?v1 ?s2 z data p wp g l2p now] s1 z len p' wp' set by simp
  have "dinv (ztl_device (ztl_placed g p z wp l2p data now ?s2))" using s1 by (simp add: ztl_placed_simps)
  note fin = ztl_flushIfFull_ok [OF this _ fl]
  have "0 < fill ?v1 (ztl_buf (ztl_placed g p z wp l2p data now ?s2)) 0" if "0 < fill ?v (ztl_buf s) 0"
    using that pl s1 same_data_fill [of ?v ?v1] by (auto simp: fun_upd_def)
  moreover have "zones_grow ?v (ztl_buf s) (view (ztl_device s')) (ztl_buf s')"
    using flush_rel_grow [OF flush_rel_same_data, of ?v ?v1 "ztl_buf s"] s1 pl fin by (simp add: ztl_placed_simps) (metis zones_grow_trans)
  ultimately show ?thesis
    using fin pl same L2P_Set_ok(1,4) [OF set lp] s1 zone0 by (simp add: ztl_placed_simps)
qed

lemma psector_length:
  assumes d: "dinv d" and ok: "buffered_ok (view d) zm wb" and z: "unat z < v_zones (view d)"
    and k: "k < fill (view d) wb z"
  shows "length (psector (view d) wb z k) = sectorSize"
proof (cases "k < v_wp (view d) (unat z)")
  case True
  moreover have "k < v_size (view d)" using True wp_le [OF d z] by simp
  ultimately show ?thesis using sector_length [OF d z] by (simp add: psector_def)
next
  case False
  obtain n where n: "length (wb_data wb z) = sectorSize * n" "fill (view d) wb z = v_wp (view d) (unat z) + n"
    using buffered_ok_zone [OF ok z] by metis
  have "Suc (k - v_wp (view d) (unat z)) \<le> n" using False k n(2) by linarith
  then have "sectorSize * Suc (k - v_wp (view d) (unat z)) \<le> length (wb_data wb z)"
    unfolding n(1) by (rule mult_le_mono2)
  then show ?thesis using False by (simp add: psector_def)
qed

lemma seg_sector_length:
  assumes "dinv d" and inv: "ztl_inv (view d) s" and "i < unat (ztl_sectorsPerSeg s)"
  shows "length (seg_sector (view d) s g i) = sectorSize"
proof (cases "L2P_Get (ztl_l2p s) g = 0")
  case False
  then have "seg_ok (view d) (ztl_buf s) (unat (ztl_sectorsPerSeg s)) (L2P_Get (ztl_l2p s) g)"
    and ok: "buffered_ok (view d) (ztl_zm s) (ztl_buf s)"
    using inv by (auto simp: ztl_inv_def)
  then show ?thesis
    using False psector_length [OF assms(1) ok] assms(3) by (simp add: seg_sector_def Let_def seg_ok_def)
qed (simp add: seg_sector_def)

lemma logical_length:
  assumes "dinv d" and "ztl_inv (view d) s"
  shows "length (logical (view d) s a) = sectorSize"
  using assms by (auto simp: logical_def intro!: seg_sector_length simp: ztl_inv_def)

text \<open>Sectors \<open>i\<close> to \<open>i + c\<close> of a mapped segment, from the buffer or from the device.\<close>

lemma ztl_seg_read:
  assumes d: "dinv d" and inv: "ztl_inv (view d) s" and p: "p = L2P_Get (ztl_l2p s) g" "p \<noteq> 0"
    and c: "0 < c" "i + c \<le> unat (ztl_sectorsPerSeg s)"
  defines "X \<equiv> concat (map (seg_sector (view d) s g) [i..<i + c])"
    and "lba \<equiv> zone_lba (view d) (unat (ZoneID p)) 0 + OffsetSectors p + of_nat i"
  shows "wb_Lookup (ztl_buf s) (ZoneID p) lba (of_nat c) = None \<and>
           dev_ReadSectors ops d lba (of_nat c) = (Inr X, d) \<or>
         wb_Lookup (ztl_buf s) (ZoneID p) lba (of_nat c) = Some X"
proof -
  let ?o = "unat (OffsetSectors p)" and ?S = "unat (ztl_sectorsPerSeg s)"
  have ok: "buffered_ok (view d) (ztl_zm s) (ztl_buf s)" and S: "?S < 2 ^ 32"
    and seg: "seg_ok (view d) (ztl_buf s) ?S p"
    using inv p by (auto simp: ztl_inv_def)
  have z: "unat (ZoneID p) < v_zones (view d)" using seg by (simp add: seg_ok_def)
  have lba: "lba = zone_lba (view d) (unat (ZoneID p)) (?o + i)"
    using u64_eq_of_nat [of "OffsetSectors p" ?o] by (simp add: lba_def zone_lba_def)
  have X: "X = concat (map (psector (view d) (ztl_buf s) (ZoneID p)) [?o + i..<?o + i + c])"
    unfolding X_def using p(2) by (intro arg_cong [of _ _ concat] nth_equalityI) (auto simp: seg_sector_def Let_def p ac_simps)
  have k: "?o + i + c \<le> fill (view d) (ztl_buf s) (ZoneID p)"
      "?o + i + c \<le> v_wp (view d) (unat (ZoneID p)) \<or> v_wp (view d) (unat (ZoneID p)) \<le> ?o + i"
    using seg c by (auto simp: seg_ok_def)
  have "c < 2 ^ 32" using c S by simp
  from buffered_read [OF d ok z c(1) this k] show ?thesis unfolding lba X .
qed

text \<open>One round of the read loop copies the logical content of its part of the segment.\<close>

lemma ztl_readSegs_step:
  assumes d: "dinv d" "ztl_device s = d" and inv: "ztl_inv (view d) s"
    and G: "unat g * unat (ztl_sectorsPerSeg s) + unat (ztl_sectorsPerSeg s) < 2 ^ 64"
    and l: "unat lba < unat g * unat (ztl_sectorsPerSeg s) + unat (ztl_sectorsPerSeg s)"
      "unat g * unat (ztl_sectorsPerSeg s) < unat e" "unat lba < unat e"
    and a: "a = max (unat lba) (unat g * unat (ztl_sectorsPerSeg s))"
    and b: "b = min (unat e) (unat g * unat (ztl_sectorsPerSeg s) + unat (ztl_sectorsPerSeg s))"
    and res: "length result = sectorSize * (unat e - unat lba)"
      "\<And>i. sectorSize * (a - unat lba) \<le> i \<Longrightarrow> i < length result \<Longrightarrow> result ! i = 0"
  defines "X \<equiv> concat (map (logical (view d) s) [a..<b])"
  shows "ztl_readSegs ops s lba e (g # segs) result (sectorSize * (a - unat lba)) =
         ztl_readSegs ops s lba e segs (blit (sectorSize * (a - unat lba)) X result) (sectorSize * (b - unat lba))"
proof -
  let ?S = "unat (ztl_sectorsPerSeg s)" and ?g = "unat g * unat (ztl_sectorsPerSeg s)"
  let ?off = "sectorSize * (a - unat lba)" and ?p = "L2P_Get (ztl_l2p s) g"
  have S: "0 < ?S" "?S < 2 ^ 32" using inv by (auto simp: ztl_inv_def)
  obtain ra rb where ov: "seg_overlap (ztl_sectorsPerSeg s) lba e g = (ra, rb)" by fastforce
  note k = seg_chunk [OF S G l a b ov]
  note ab = k(1-5) and intra = k(8) and u = k(9)
  define c where "c = b - a"
  have c: "0 < c" "a - ?g + c \<le> ?S" "b = a + c" using ab by (auto simp: c_def)
  have rc: "(ucast (rb - ra) :: u32) = of_nat c" "unat (of_nat c :: u32) = c" using k(6,7) by (simp_all add: c_def)
  have X: "X = concat (map (seg_sector (view d) s g) [a - ?g..<a - ?g + c])"
  proof -
    have "map (logical (view d) s) [a..<b] = map (\<lambda>x. seg_sector (view d) s g (x - ?g)) [a..<b]"
      using logical_in_seg [OF S(1)] ab by auto
    also have "\<dots> = map (seg_sector (view d) s g) [a - ?g..<a - ?g + c]"
      using ab c(3) by (intro nth_equalityI) auto
    finally show ?thesis by (simp add: X_def)
  qed
  have lenX: "length X = sectorSize * c"
    unfolding X_def c_def by (rule length_concat_sectors) (simp add: logical_length [OF d(1) inv])
  have offs: "?off + sectorSize * c = sectorSize * (b - unat lba)" using ab by (simp add: c_def)
  show ?thesis
  proof (cases "?p = 0")
    case True
    have "X = zeros (sectorSize * c)"
      unfolding X using True by (induction c) (auto simp: seg_sector_def zeros_def replicate_add [symmetric])
    moreover have "blit ?off (zeros (sectorSize * c)) result = result"
      using res ab offs by (intro blit_same) (auto simp: zeros_def)
    ultimately show ?thesis using True ov u rc offs by (simp add: IsUnmapped_def mult.commute)
  next
    case False
    have ok: "buffered_ok (view d) (ztl_zm s) (ztl_buf s)" using inv by (simp add: ztl_inv_def)
    have z: "unat (ZoneID ?p) < v_zones (view d)" using inv False by (auto simp: ztl_inv_def seg_ok_def)
    obtain zi where zi: "zm_ZoneInfo (ztl_zm s) (ZoneID ?p) = Some zi"
        "zi_StartLBA zi = zone_lba (view d) (unat (ZoneID ?p)) 0"
      by (rule zm_ZoneInfo_ok [OF ok z])
    from ztl_seg_read [OF d(1) inv refl False c(1,2)] X show ?thesis
      using False ov u rc zi intra offs lenX d(2) by (auto simp: IsUnmapped_def)
  qed
qed

text \<open>The segments of a request: the first of the remaining ones overlaps it, and behind the last one nothing is left.\<close>

lemma read_segs_next:
  assumes S: "0 < S" and le: "0 < unat e" "unat e \<le> 2 ^ 63" and G: "unat lba div S \<le> unat g" "unat g \<le> (unat e - 1) div S"
  shows "unat g * S < unat e" and "unat lba < unat g * S + S" and "unat (g + 1) = Suc (unat g)"
    and "word_upto g (of_nat ((unat e - 1) div S)) = g # word_upto (g + 1) (of_nat ((unat e - 1) div S))"
proof -
  let ?l = "(unat e - 1) div S"
  have "unat g * S \<le> ?l * S" using G(2) by simp
  also have "\<dots> \<le> unat e - 1" by simp
  finally show "unat g * S < unat e" using le by linarith
  show "unat lba < unat g * S + S" using G(1) S by (metis add.commute div_less_iff_less_mult less_Suc_eq_le mult_Suc)
  have "?l < 2 ^ 63" by (rule le_less_trans [OF div_le_dividend]) (use le in simp)
  then have l: "unat (of_nat ?l :: u64) = ?l" "?l < 2 ^ 63" by (simp_all add: unat_u64_of_nat)
  then have lt: "of_nat ?l < (- 1 :: u64)" by (simp add: word_less_nat_alt unat_minus_one_word64)
  show "word_upto g (of_nat ?l) = g # word_upto (g + 1) (of_nat ?l)" using word_upto_unfold [OF lt, of g] G(2) l(1) by (simp add: word_le_nat_alt)
  show "unat (g + 1) = Suc (unat g)" using G(2) l by (intro unat_inc) (auto simp: unat_minus_one_word64)
qed

lemma read_segs_end:
  assumes S: "0 < S" and "unat e \<le> 2 ^ 63" and g: "unat g = Suc ((unat e - 1) div S)"
  shows "unat e \<le> unat g * S" and "word_upto g (of_nat ((unat e - 1) div S)) = []"
proof -
  let ?l = "(unat e - 1) div S"
  have "unat e - 1 < Suc ?l * S" using S by (simp add: dividend_less_div_times add.commute)
  then show "unat e \<le> unat g * S" using g by simp
  have "?l < 2 ^ 64" by (rule le_less_trans [OF div_le_dividend]) (use assms(2) in simp)
  then have "unat (of_nat ?l :: u64) = ?l" by (rule unat_u64_of_nat)
  then show "word_upto g (of_nat ?l) = []" using g by (simp add: word_upto_def)
qed

lemma ztl_readSegs_eq:
  assumes d: "dinv d" "ztl_device s = d" and inv: "ztl_inv (view d) s"
    and le: "unat lba < unat e" "unat e \<le> 2 ^ 63"
    and G: "unat lba div unat (ztl_sectorsPerSeg s) \<le> unat g" "unat g + m = Suc ((unat e - 1) div unat (ztl_sectorsPerSeg s))"
    and p: "p = min (unat e) (max (unat lba) (unat g * unat (ztl_sectorsPerSeg s)))"
    and res: "length result = sectorSize * (unat e - unat lba)"
      "\<And>i. sectorSize * (p - unat lba) \<le> i \<Longrightarrow> i < length result \<Longrightarrow> result ! i = 0"
  shows "ztl_readSegs ops s lba e (word_upto g (of_nat ((unat e - 1) div unat (ztl_sectorsPerSeg s)))) result
           (sectorSize * (p - unat lba)) =
         (Inr (take (sectorSize * (p - unat lba)) result @ concat (map (logical (view d) s) [p..<unat e])), s)"
  using G p res
proof (induction m arbitrary: g p result)
  case m0: 0
  let ?S = "unat (ztl_sectorsPerSeg s)"
  have S: "0 < ?S" using inv by (simp add: ztl_inv_def)
  note e = read_segs_end [OF S le(2), of g]
  have "p = unat e" using m0.prems(2,3) le e(1) by simp
  then show ?case using m0.prems(2,4) e(2) by simp
next
  case (Suc m)
  let ?S = "unat (ztl_sectorsPerSeg s)" and ?l = "(unat e - 1) div unat (ztl_sectorsPerSeg s)"
  let ?L = "unat lba" and ?E = "unat e"
  have S: "0 < ?S" "?S < 2 ^ 32" using inv by (auto simp: ztl_inv_def)
  have "0 < ?E" "unat g \<le> ?l" using le Suc.prems(2) by simp_all
  note n = read_segs_next [OF S(1) \<open>0 < ?E\<close> le(2) Suc.prems(1) \<open>unat g \<le> ?l\<close>]
  note gE = n(1) and Lg = n(2) and g1 = n(3) and up = n(4)
  define b where "b = min ?E (unat g * ?S + ?S)"
  have p: "p = max ?L (unat g * ?S)" using Suc.prems(3) gE le by simp
  have b: "b = min ?E (max ?L (unat (g + 1) * ?S))" "p < b" "b \<le> ?E" "?L \<le> p"
    using g1 Lg gE le p S(1) by (auto simp: b_def)
  let ?X = "concat (map (logical (view d) s) [p..<b])" and ?off = "sectorSize * (p - ?L)"
  have lenX: "?off + length ?X = sectorSize * (b - ?L)"
  proof -
    have "length ?X = sectorSize * (b - p)"
      by (rule length_concat_sectors) (simp add: logical_length [OF d(1) inv])
    then show ?thesis using b(2,4) by simp
  qed
  have fits: "?off + length ?X \<le> length result" using Suc.prems(4) b(3) lenX by simp
  have "ztl_readSegs ops s lba e (word_upto g (of_nat ?l)) result ?off =
      ztl_readSegs ops s lba e (word_upto (g + 1) (of_nat ?l)) (blit ?off ?X result) (sectorSize * (b - ?L))"
    unfolding up using Suc.prems(4,5) gE le S
    by (intro ztl_readSegs_step [OF d inv _ Lg gE le(1) p b_def]) auto
  also have "\<dots> = (Inr (take (sectorSize * (b - ?L)) (blit ?off ?X result) @
      concat (map (logical (view d) s) [b..<?E])), s)"
  proof (rule Suc.IH)
    fix i assume i: "sectorSize * (b - ?L) \<le> i" "i < length (blit ?off ?X result)"
    then have "blit ?off ?X result ! i = result ! i"
      using fits lenX by (intro nth_blit_after) simp_all
    then show "blit ?off ?X result ! i = 0" using Suc.prems(5) [of i] i fits lenX by simp
  qed (use Suc.prems g1 b fits in auto)
  also have "take (sectorSize * (b - ?L)) (blit ?off ?X result) = take ?off result @ ?X"
    using take_blit [OF fits] lenX by simp
  finally show ?case using upt_append [of p b ?E] b(2,3) by simp
qed

text \<open>\<^verbatim>\<open>Read\<close> returns the logical content and changes nothing.\<close>

lemma read_request:
  assumes "unat lba + unat c \<le> 2 ^ 63" and "0 < unat (c :: u32)" and e: "e = lba + ucast c"
  shows "unat e = unat lba + unat c" and "LBAToSegmentID (e - 1) sps = of_nat ((unat e - 1) div unat sps)"
    and "unat (LBAToSegmentID lba sps) = unat lba div unat sps" and "unat lba div unat sps \<le> (unat e - 1) div unat sps"
proof -
  show u: "unat e = unat lba + unat c" using assms by (simp add: unat_add_lt)
  have "unat (e - 1) = unat e - 1" using u assms(2) by (subst unat_sub_le) (auto simp: word_le_nat_alt)
  then show "LBAToSegmentID (e - 1) sps = of_nat ((unat e - 1) div unat sps)"
    by (intro u64_eq_of_nat) (simp add: LBAToSegmentID_def unat_div_distrib)
  show "unat (LBAToSegmentID lba sps) = unat lba div unat sps" by (simp add: LBAToSegmentID_def unat_div_distrib)
  show "unat lba div unat sps \<le> (unat e - 1) div unat sps" using u assms(2) by (intro div_le_mono) simp
qed

lemma ztl_Read_logical:
  assumes d: "dinv (ztl_device s)" and inv: "ztl_inv (view (ztl_device s)) s"
    and range: "unat lba + unat c \<le> 2 ^ 63"
  shows "ztl_Read ops s lba c =
    (Inr (concat (map (logical (view (ztl_device s)) s) [unat lba..<unat lba + unat c])), s)"
proof (cases "c = 0")
  case False
  let ?S = "unat (ztl_sectorsPerSeg s)" and ?e = "lba + ucast c"
  have c: "0 < unat c" using False by (simp add: unat_gt_0)
  let ?g = "LBAToSegmentID lba (ztl_sectorsPerSeg s)"
  note q = read_request [OF range c refl]
  note e = q(1) and e1 = q(2) [of "ztl_sectorsPerSeg s"] and g = q(3) [of "ztl_sectorsPerSeg s"]
  have "unat lba div ?S \<le> (unat ?e - 1) div ?S" by (rule q(4))
  then obtain m where m: "unat ?g + m = Suc ((unat ?e - 1) div ?S)"
    using g by (metis le_Suc_ex le_SucI)
  have p: "unat lba = min (unat ?e) (max (unat lba) (unat ?g * ?S))" using g e by simp
  have "ztl_readSegs ops s lba ?e (word_upto ?g (of_nat ((unat ?e - 1) div ?S))) (zeros (unat c * sectorSize))
      (sectorSize * (unat lba - unat lba)) = (Inr (take (sectorSize * (unat lba - unat lba)) (zeros (unat c * sectorSize)) @
      concat (map (logical (view (ztl_device s)) s) [unat lba..<unat ?e])), s)"
    by (rule ztl_readSegs_eq [OF d refl inv _ _ _ m p]) (use e c range g in \<open>auto simp: zeros_def\<close>)
  then show ?thesis using False e e1 by (simp add: ztl_Read_def Let_def)
qed (simp add: ztl_Read_def)

text \<open>The loop of \<^verbatim>\<open>Write\<close> over whole segments \<open>g, g + 1, \<dots>\<close>.\<close>

lemma seg_overlap_whole:
  assumes S: "0 < unat sps" and range: "(unat g + m) * unat sps < 2 ^ 63" and m: "0 < m"
    and lba: "unat lba \<le> unat g * unat sps" and e: "unat e = (unat g + m) * unat sps"
  shows "\<exists>a b. seg_overlap sps lba e g = (a, b) \<and> unat (b - a) = unat sps"
proof -
  obtain a b where ov: "seg_overlap sps lba e g = (a, b)" by fastforce
  have "Suc (unat g) * unat sps \<le> (unat g + m) * unat sps" using m by (intro mult_le_mono1) simp
  then have le: "unat g * unat sps + unat sps \<le> unat e" using e by simp
  have l: "unat g * unat sps + unat sps < 2 ^ 64" "unat lba < unat g * unat sps + unat sps" "unat g * unat sps < unat e"
    using le range e S lba m by auto
  note u = seg_overlap_unat [OF S l(1,2,3) ov]
  have "unat a = unat g * unat sps" "unat b = unat g * unat sps + unat sps" using u lba le by auto
  then have "unat (b - a) = unat sps" by (subst unat_sub_le) (auto simp: word_le_nat_alt)
  then show ?thesis using ov by blast
qed

lemma ztl_writeSegment_written:
  assumes "dinv (ztl_device s)" and "ztl_inv (view (ztl_device s)) s" and "length data = sectorSize * unat (ztl_sectorsPerSeg s)"
    and "ztl_writeSegment ops jn now s g data = (Inr (), s')" and c: "\<And>i. i < unat (ztl_sectorsPerSeg s) \<Longrightarrow> c (unat g) i = sector i data"
  shows "dinv (ztl_device s') \<and> ztl_inv (view (ztl_device s')) s' \<and>
    segs_written (view (ztl_device s)) s (view (ztl_device s')) s' (unat g) 1 c"
proof -
  have "unat h \<in> {unat g..<unat g + 1} \<longleftrightarrow> h = g" for h using unat_inj [of h g] by auto
  then show ?thesis using ztl_writeSegment_ok [OF assms(1-4)] c by (simp add: segs_written_def)
qed

lemma ztl_writeSegs_ok:
  fixes g :: SegmentID
  assumes "dinv (ztl_device s)" and "ztl_inv (view (ztl_device s)) s"
    and "(unat g + m) * unat (ztl_sectorsPerSeg s) < 2 ^ 63" and "unat e = (unat g + m) * unat (ztl_sectorsPerSeg s)"
    and "unat lba \<le> unat g * unat (ztl_sectorsPerSeg s)"
    and "B \<le> unat g" and "length data = sectorSize * (unat (ztl_sectorsPerSeg s) * (unat g + m - B))"
    and "ztl_writeSegs ops jn now s lba e (map of_nat [unat g..<unat g + m]) data
              (sectorSize * (unat (ztl_sectorsPerSeg s) * (unat g - B))) = (Inr (), s')"
  shows "dinv (ztl_device s') \<and> ztl_inv (view (ztl_device s')) s' \<and>
    segs_written (view (ztl_device s)) s (view (ztl_device s')) s' (unat g) m
      (\<lambda>h i. sector (unat (ztl_sectorsPerSeg s) * (h - B) + i) data)"
  using assms
proof (induction m arbitrary: s g)
  case 0
  then show ?case by (simp add: segs_written_none)
next
  case (Suc m)
  let ?S = "unat (ztl_sectorsPerSeg s)"
  let ?off = "sectorSize * (?S * (unat g - B))" and ?c = "\<lambda>h i. sector (?S * (h - B) + i) data"
  let ?sd = "bslice ?off (?off + ?S * sectorSize) data"
  have S: "0 < ?S" using Suc.prems(2) by (simp add: ztl_inv_def)
  obtain a b where ov: "seg_overlap (ztl_sectorsPerSeg s) lba e g = (a, b)" "unat (b - a) = ?S"
    using seg_overlap_whole [OF S Suc.prems(3) _ Suc.prems(5,4)] by auto
  have "unat g * 1 \<le> (unat g + Suc m) * ?S" using S by (intro mult_le_mono) auto
  then have g1: "unat (g + 1) = Suc (unat g)" using Suc.prems(3) by (intro unat_inc) (auto simp: unat_minus_one_word64)
  have upt: "map of_nat [unat g..<unat g + Suc m] = g # map of_nat [unat (g + 1)..<unat (g + 1) + m]"
    unfolding g1 by (simp add: upt_conv_Cons del: upt_Suc)
  have next_off: "?off + ?S * sectorSize = sectorSize * (?S * (unat (g + 1) - B))" using g1 Suc.prems(6) by (simp add: Suc_diff_le algebra_simps)
  obtain s1 where ws: "ztl_writeSegment ops jn now s g ?sd = (Inr (), s1)"
    and rest: "ztl_writeSegs ops jn now s1 lba e (map of_nat [unat (g + 1)..<unat (g + 1) + m]) data (?off + ?S * sectorSize) = (Inr (), s')"
    using Suc.prems(8) unfolding upt by (auto simp: ov Let_def split: prod.splits sum.splits)
  obtain k where k: "unat g = B + k" using Suc.prems(6) le_Suc_ex by blast
  have sd: "length ?sd = sectorSize * ?S" using Suc.prems(7) by (simp add: k algebra_simps)
  have s1: "dinv (ztl_device s1)" "ztl_inv (view (ztl_device s1)) s1" "segs_written (view (ztl_device s)) s (view (ztl_device s1)) s1 (unat g) 1 ?c"
    using ztl_writeSegment_written [OF Suc.prems(1,2) sd ws, of ?c] sector_slice by simp_all
  have sps: "ztl_sectorsPerSeg s1 = ztl_sectorsPerSeg s" using s1(3) by (simp add: segs_written_def)
  have "dinv (ztl_device s') \<and> ztl_inv (view (ztl_device s')) s' \<and>
      segs_written (view (ztl_device s1)) s1 (view (ztl_device s')) s' (unat (g + 1)) m (\<lambda>h i. sector (unat (ztl_sectorsPerSeg s1) * (h - B) + i) data)"
    by (rule Suc.IH) (use s1(1,2) Suc.prems rest g1 in \<open>simp_all add: sps next_off\<close>)
  then show ?case using segs_written_cons [OF s1(3)] by (simp add: g1 sps)
qed

lemma ztl_Write_segs:
  assumes w: "ztl_Write ord ops jn now s lba data = Some (Inr (), s')" and data: "data \<noteq> []"
    and noGC: "ztl_emergencyFreeZones s \<le> zm_FreeZoneCount (ztl_zm s)"
  defines "e \<equiv> lba + of_nat (length data) div 512"
  obtains s2 j where
    "ztl_writeSegs ops jn now s lba e (word_upto (LBAToSegmentID lba (ztl_sectorsPerSeg s))
       (LBAToSegmentID (e - 1) (ztl_sectorsPerSeg s))) data 0 = (Inr (), s2)"
    "s' = s2\<lparr>ztl_journal := j\<rparr>" "length data mod 512 = 0"
proof -
  obtain r s2 where ws: "ztl_writeSegs ops jn now s lba e (word_upto (LBAToSegmentID lba (ztl_sectorsPerSeg s))
       (LBAToSegmentID (e - 1) (ztl_sectorsPerSeg s))) data 0 = (r, s2)" by fastforce
  have m: "length data mod 512 = 0" using w data by (auto simp: ztl_Write_def split: if_splits)
  obtain r3 s3 where lc: "log_call jn_GroupCommit jn s2 = (r3, s3)" by fastforce
  have r: "r = Inr ()" "s' = s3"
    using w data noGC m ws lc
    by (auto simp: ztl_Write_def Let_def e_def [symmetric] split: sum.splits)
  obtain j where "s3 = s2\<lparr>ztl_journal := j\<rparr>" using log_call_state [OF lc] by blast
  then show ?thesis by (intro that [of s2 j]) (use ws r m in simp_all)
qed

lemma ztl_Write_logical:
  fixes lba :: u64
  assumes d: "dinv (ztl_device s)" and inv: "ztl_inv (view (ztl_device s)) s"
    and noGC: "ztl_emergencyFreeZones s \<le> zm_FreeZoneCount (ztl_zm s)"
    and al: "unat lba = G * unat (ztl_sectorsPerSeg s)" "length data = sectorSize * (unat (ztl_sectorsPerSeg s) * n)" "0 < n"
    and range: "unat lba + unat (ztl_sectorsPerSeg s) * n < 2 ^ 54"
    and used: "0 < fill (view (ztl_device s)) (ztl_buf s) 0"
    and w: "ztl_Write ord ops jn now s lba data = Some (Inr (), s')"
  shows "dinv (ztl_device s') \<and> ztl_inv (view (ztl_device s')) s' \<and>
    ztl_sectorsPerSeg s' = ztl_sectorsPerSeg s \<and> 0 < fill (view (ztl_device s')) (ztl_buf s') 0 \<and>
    (\<forall>a < 2 ^ 63. logical (view (ztl_device s')) s' a =
       (if unat lba \<le> a \<and> a < unat lba + unat (ztl_sectorsPerSeg s) * n then sector (a - unat lba) data
        else logical (view (ztl_device s)) s a))"
proof -
  let ?S = "unat (ztl_sectorsPerSeg s)" and ?e = "lba + of_nat (length data) div 512" and ?g = "LBAToSegmentID lba (ztl_sectorsPerSeg s)"
  have S: "0 < ?S" using inv by (simp add: ztl_inv_def)
  note seg = aligned_segments [OF S al range]
  have ne: "data \<noteq> []" using al S by auto
  obtain s2 j where ws: "ztl_writeSegs ops jn now s lba ?e (map of_nat [G..<G + n]) data 0 = (Inr (), s2)" and s': "s' = s2\<lparr>ztl_journal := j\<rparr>"
    using ztl_Write_segs [OF w ne noGC] seg(3) by metis
  have r: "(G + n) * ?S < 2 ^ 63" using range al(1) by (simp add: algebra_simps)
  have ok: "dinv (ztl_device s2) \<and> ztl_inv (view (ztl_device s2)) s2 \<and>
      segs_written (view (ztl_device s)) s (view (ztl_device s2)) s2 G n (\<lambda>h i. sector (?S * (h - G) + i) data)"
    using ztl_writeSegs_ok [of s ?g n ?e lba G data jn now s2] d inv r seg(1,2) al ws by simp
  then have "\<forall>a < 2 ^ 63. logical (view (ztl_device s2)) s2 a =
      (if unat lba \<le> a \<and> a < unat lba + ?S * n then sector (a - unat lba) data else logical (view (ztl_device s)) s a)"
    using segs_written_logical [OF _ used S _ al(1)] by blast
  then show ?thesis using ok s' used by (simp add: segs_written_def)
qed

text \<open>A successful flush changes no logical content and leaves every mapped segment on the device.\<close>

lemma ztl_flushBuf_ok:
  assumes d: "dinv (ztl_device s)" and inv: "ztl_inv (view (ztl_device s)) s"
    and ord: "\<And>xs. set (zord xs) = set xs" and f: "ztl_flushBuf zord ops s = (Inr (), s')"
  shows "dinv (ztl_device s') \<and> ztl_inv (view (ztl_device s')) s' \<and> ztl_sectorsPerSeg s' = ztl_sectorsPerSeg s \<and>
    logical (view (ztl_device s')) s' = logical (view (ztl_device s)) s \<and>
    ztl_l2p s' = ztl_l2p s \<and> (\<forall>z. map_of (wb_buffers (ztl_buf s')) z = None)"
proof -
  obtain r wb zm d' where fl: "wb_FlushAll zord ops (ztl_buf s) (ztl_zm s) (ztl_device s) = (r, wb, zm, d')"
    by (metis prod_cases4)
  have r: "r = Inr ()" "s' = s\<lparr>ztl_buf := wb, ztl_zm := zm, ztl_device := d'\<rparr>"
    using f fl by (auto simp: ztl_flushBuf_def)
  have pre: "zm_inv (ztl_zm s)" "buffered_ok (view (ztl_device s)) (ztl_zm s) (ztl_buf s)"
    "bufs_not_free (ztl_buf s) (ztl_zm s)" using inv by (auto simp: ztl_inv_def)
  note w = wb_FlushAll_ok [OF d pre ord fl [unfolded r(1)]]
  then have rel: "flush_rel (view (ztl_device s)) (ztl_buf s) (view d') wb" by simp
  have "ztl_inv (view d') s'" unfolding r(2) by (rule ztl_inv_flush [OF inv rel]) (use w in simp_all)
  moreover have "logical (view d') s' = logical (view (ztl_device s)) s"
    unfolding r(2) by (rule logical_flush [OF inv rel])
  ultimately show ?thesis using w by (simp add: r(2))
qed

lemma flushed_on_device:
  assumes "ztl_inv (view d) s" and "\<forall>z. map_of (wb_buffers (ztl_buf s)) z = None"
    and "L2P_Get (ztl_l2p s) g = p" and "p \<noteq> 0" and "i < unat (ztl_sectorsPerSeg s)"
  shows "unat (OffsetSectors p) + i < v_wp (view d) (unat (ZoneID p))"
    and "seg_sector (view d) s g i = v_sector (view d) (unat (ZoneID p)) (unat (OffsetSectors p) + i)"
proof -
  have "seg_ok (view d) (ztl_buf s) (unat (ztl_sectorsPerSeg s)) p" using assms by (auto simp: ztl_inv_def)
  then show w: "unat (OffsetSectors p) + i < v_wp (view d) (unat (ZoneID p))"
    using assms(2,5) by (simp add: seg_ok_def fill_def wb_data_None)
  then show "seg_sector (view d) s g i = v_sector (view d) (unat (ZoneID p)) (unat (OffsetSectors p) + i)"
    using assms by (simp add: seg_sector_def Let_def psector_def)
qed

end

section \<open>The initial state over the emulator\<close>

lemma zm_init_geoms:
  "map (\<lambda>z. (zi_StartLBA z, zi_SizeSectors z)) (zm_zones (fold zm_initZone (enumerate n ds) zm)) =
     map (\<lambda>z. (zi_StartLBA z, zi_SizeSectors z)) (zm_zones zm) @ map (\<lambda>d. (zd_ZoneStartLBA d, zd_ZoneLength d)) ds"
  by (induction ds arbitrary: n zm) (simp_all add: zm_initZone_def Let_def)

lemma zm_init_wps:
  "map zi_WritePointer (zm_zones (fold zm_initZone (enumerate n ds) zm)) =
     map zi_WritePointer (zm_zones zm) @ map zd_WritePointer ds"
  by (induction ds arbitrary: n zm) (simp_all add: zm_initZone_def Let_def)

lemma zm_init_free:
  "zm_freeList (fold zm_initZone (enumerate n ds) zm) =
     zm_freeList zm @ map of_nat (filter (\<lambda>i. zd_ZoneState (ds ! (i - n)) = ZoneStateEmpty) [n..<n + length ds])"
proof (induction ds arbitrary: n zm)
  case (Cons d ds)
  have one: "zm_freeList (zm_initZone (n, d) zm) =
      zm_freeList zm @ (if zd_ZoneState d = ZoneStateEmpty then [of_nat n] else [])"
    by (simp add: zm_initZone_def Let_def)
  have "[n..<n + length (d # ds)] = n # [Suc n..<Suc n + length ds]"
    by (simp add: upt_conv_Cons del: upt_Suc)
  moreover have "filter (\<lambda>i. zd_ZoneState ((d # ds) ! (i - n)) = ZoneStateEmpty) [Suc n..<Suc n + length ds] =
      filter (\<lambda>i. zd_ZoneState (ds ! (i - Suc n)) = ZoneStateEmpty) [Suc n..<Suc n + length ds]"
    by (intro filter_cong) (auto simp: nth_Cons')
  ultimately show ?case
    using Cons.IH [of "Suc n" "zm_initZone (n, d) zm"] one by simp
qed simp

lemmas zm_init_lists = zm_init_geoms zm_init_wps zm_init_free

definition em_desc :: "Emulator \<Rightarrow> nat \<Rightarrow> ZoneDescriptor" where
  "em_desc e i = \<lparr>zd_ZoneType = ZoneTypeSequentialWrite, zd_ZoneState = zs_state (em_zones e ! i),
     zd_ZoneCondition = 0, zd_Reset = False, zd_NonSeq = False, zd_ZoneLength = em_zoneSectors e,
     zd_ZoneStartLBA = em_zoneStartLBA e i, zd_WritePointer = zs_writePointer (em_zones e ! i)\<rparr>"

lemma em_report_all:
  "em_inv e \<Longrightarrow> em_zones e \<noteq> [] \<Longrightarrow> dev_ReportZones em_dev e 0 0 = (Inr (map (em_desc e) [0..<length (em_zones e)]), e)"
  by (simp add: em_dev_def em_ReportZones_def em_desc_def em_inv_def Let_def)

lemma em_open_descs:
  assumes "em_inv e"
  shows "open_descs (map (em_desc e) [0..<length (em_zones e)]) \<le> em_maxOpenZones e"
proof -
  have "filter (\<lambda>i. isOpen (zs_state (em_zones e ! i))) [0..<length (em_zones e)] =
      filter (\<lambda>i. zd_ZoneState (em_desc e i) \<in> {ZoneStateImplicitOpen, ZoneStateExplicitOpen}) [0..<length (em_zones e)]"
    by (auto simp: em_desc_def isOpen_def intro!: filter_cong)
  moreover have "length (filter (\<lambda>z. isOpen (zs_state z)) (em_zones e)) =
      length (filter (\<lambda>i. isOpen (zs_state (em_zones e ! i))) [0..<length (em_zones e)])"
    by (metis (mono_tags, lifting) comp_apply filter_cong filter_map length_map map_nth)
  ultimately show ?thesis using assms by (simp add: open_descs_def em_inv_def filter_map o_def)
qed

lemma em_zone_lba_start: "em_zoneStartLBA e i = zone_lba (em_view e) i 0"
  by (simp add: em_zoneStartLBA_def zone_lba_def)

lemma em_initial_buffered:
  assumes inv: "em_inv e" and size: "unat (em_zoneSectors e) < 2 ^ 40"
    and zm: "map (\<lambda>z. (zi_StartLBA z, zi_SizeSectors z)) (zm_zones zm) =
        map (\<lambda>i. (em_zoneStartLBA e i, em_zoneSectors e)) [0..<length (em_zones e)]"
      "map zi_WritePointer (zm_zones zm) = map zs_writePointer (em_zones e)"
  shows "buffered_ok (em_view e) zm (NewWriteBuffer zs age)"
proof -
  have len: "length (zm_zones zm) = length (em_zones e)" using zm(2) by (metis length_map)
  have "zm_WritePointer zm z = zone_lba (em_view e) (unat z) (v_wp (em_view e) (unat z))"
    if z: "unat z < length (em_zones e)" for z
  proof -
    have "zm_WritePointer zm z = zs_writePointer (em_zones e ! unat z)"
      using z len arg_cong [OF zm(2), of "\<lambda>l. l ! unat z"] by (simp add: zm_WritePointer_def)
    moreover have "unat z * unat (em_zoneSectors e) \<le> unat (zs_writePointer (em_zones e ! unat z))"
      using em_inv_zone [OF inv z] by (simp add: em_zone_ok_def)
    ultimately show ?thesis by (simp add: zone_lba_def)
  qed
  moreover have "v_wp (em_view e) (unat z) \<le> unat (em_zoneSectors e)" if "unat z < length (em_zones e)" for z :: u32
    using em.wp_le [OF inv, of "unat z"] that by simp
  ultimately show ?thesis
    using size zm(1)
    by (simp add: buffered_ok_def NewWriteBuffer_def zm_geoms_def zone_geoms_def fill_def wb_data_def
        em_zone_lba_start)
qed

lemma ztl_New_em_inv:
  assumes inv: "em_inv e" and zones: "em_zones e \<noteq> []" "length (em_zones e) \<le> 2 ^ 24"
    and size: "unat (em_zoneSectors e) < 2 ^ 40" "0 < em_maxOpenZones e"
    and seg: "unat (SectorsPerSegment cfg) < 2 ^ 32" "unat (SectorsPerSegment cfg) \<le> unat (em_zoneSectors e)"
    and new: "ztl_New cfg em_dev e j = Inr s"
  shows "ztl_inv (em_view e) s \<and> ztl_device s = e"
proof -
  let ?ds = "map (em_desc e) [0..<length (em_zones e)]" and ?fresh = "NewZoneManager (em_maxOpenZones e)"
  let ?zm = "fold zm_initZone (enumerate 0 ?ds) (?fresh\<lparr>zm_zones := [], zm_freeList := []\<rparr>)"
  note rep = em_report_all [OF inv zones(1)]
  have dev: "dev_ZoneSize em_dev e = em_zoneSectors e" "dev_Capacity em_dev e = em_Capacity e"
    "dev_MaxOpenZones em_dev e = em_maxOpenZones e" by (simp_all add: em_dev_def)
  have ini: "zm_Initialize em_dev e ?fresh = (Inr (), ?zm, e)" using rep by (simp add: zm_Initialize_def)
  have zi: "zm_inv ?zm"
    using zm_Initialize_inv [OF rep _ em_open_descs [OF inv] size(2)] zones(2) unfolding ini by simp
  note lists = zm_init_lists [where n = 0 and ds = ?ds and zm = "?fresh\<lparr>zm_zones := [], zm_freeList := []\<rparr>"]
  have "map zs_writePointer (em_zones e) = map (\<lambda>i. zs_writePointer (em_zones e ! i)) [0..<length (em_zones e)]"
    by (intro nth_equalityI) auto
  then have bo: "buffered_ok (em_view e) ?zm (NewWriteBuffer zs age)" for zs age
    using lists(1,2) by (intro em_initial_buffered [OF inv size(1)]) (simp_all add: em_desc_def o_def)
  have free: "fill (em_view e) (NewWriteBuffer zs age) z = 0" if z: "z \<in> set (zm_freeList ?zm)" for z zs age
  proof -
    obtain i where i: "z = of_nat i" "i < length (em_zones e)" "zs_state (em_zones e ! i) = ZoneStateEmpty"
      using z lists(3) by (auto simp: em_desc_def)
    then have "unat z = i" using zones(2) by (simp add: unat_of_nat)
    then show ?thesis
      using i em_inv_zone [OF inv i(2)] by (simp add: em_zone_ok_def fill_def wb_data_def NewWriteBuffer_def)
  qed
  have S: "SectorsPerSegment cfg \<noteq> 0" using new by (auto simp: ztl_New_def Let_def)
  have cap: "unat (em_Capacity e div SectorsPerSegment cfg) * unat (SectorsPerSegment cfg) < 2 ^ 63"
  proof -
    have "unat (em_Capacity e) div unat (SectorsPerSegment cfg) * unat (SectorsPerSegment cfg) \<le> unat (em_Capacity e)"
      by simp
    also have "\<dots> < 2 ^ 63" using unat_em_Capacity [OF inv] inv by (simp add: em_inv_def)
    finally show ?thesis by (simp add: unat_div_distrib)
  qed
  have "s = \<lparr>ztl_l2p = NewL2PTable (em_Capacity e div SectorsPerSegment cfg), ztl_p2l = NewP2LMap,
                   ztl_buf = NewWriteBuffer (em_zoneSectors e) (zc_BufferFlushAgeSec (cfg_ZTL cfg)),
                   ztl_zm = ?zm,
                   ztl_gcStats = \<lparr>gs_ZonesReclaimed = 0, gs_BytesMigrated = 0, gs_RunCount = 0, gs_Running = 0\<rparr>,
                   ztl_device = e, ztl_journal = j, ztl_sectorsPerSeg = SectorsPerSegment cfg,
                   ztl_zoneSectors = em_zoneSectors e,
                   ztl_emergencyFreeZones = zc_GCEmergencyFreeZones (cfg_ZTL cfg),
                   ztl_freeTriggerRatio = zc_GCTriggerFreeRatio (cfg_ZTL cfg),
                   ztl_triggerCh = False, ztl_currentWriteZone = 0, ztl_currentZoneOpen = False\<rparr>"
    using new ini dev by (auto simp: ztl_New_def Let_def split: if_splits)
  then show ?thesis
    using zi bo free seg S cap by (simp add: ztl_inv_def bufs_not_free_def NewWriteBuffer_def unat_gt_0)
qed

end
