(* ===== verification/ZtlSpec.thy ===== *)
theory ZtlSpec
  imports Ztl
begin

unbundle bit_operations_syntax

text \<open>
  What the zone translation layer promises, over the emulator: the logical device is an array of sectors
  that starts as zeros, that reads return, that writes of whole segments update, that unmaps clear and
  that flushes make durable. The last section proves on small runs where it does not hold.

  The locale \<open>sector_store\<close> is the contract of a block device as its clients see it; the translation layer
  is an instance.
\<close>

section \<open>The contract of a block device\<close>

definition sectors_write :: "(nat \<Rightarrow> bytes) \<Rightarrow> nat \<Rightarrow> bytes \<Rightarrow> nat \<Rightarrow> bytes" where
  "sectors_write m lba data a =
     (if lba \<le> a \<and> a < lba + length data div sectorSize then sector (a - lba) data else m a)"

locale sector_store =
  fixes good :: "'s \<Rightarrow> bool"
    and content :: "'s \<Rightarrow> nat \<Rightarrow> bytes"
    and read :: "'s \<Rightarrow> u64 \<Rightarrow> u32 \<Rightarrow> bytes result \<times> 's"
    and wrote :: "'s \<Rightarrow> u64 \<Rightarrow> bytes \<Rightarrow> 's \<Rightarrow> bool"
  assumes read_content: "good s \<Longrightarrow> unat lba + unat c \<le> 2 ^ 63 \<Longrightarrow>
            read s lba c = (Inr (concat (map (content s) [unat lba..<unat lba + unat c])), s)"
    and wrote_good: "good s \<Longrightarrow> wrote s lba data s' \<Longrightarrow> good s'"
    and wrote_content: "good s \<Longrightarrow> wrote s lba data s' \<Longrightarrow> a < 2 ^ 63 \<Longrightarrow>
            content s' a = sectors_write (content s) (unat lba) data a"
    and wrote_range: "wrote s lba data s' \<Longrightarrow> length data mod sectorSize = 0 \<and>
            unat lba + length data div sectorSize \<le> 2 ^ 63"
begin

text \<open>A read of exactly what was written returns it.\<close>

lemma read_after_write:
  assumes g: "good s" and w: "wrote s lba data s'" and c: "unat c = length data div sectorSize"
  shows "read s' lba c = (Inr data, s')"
proof -
  note r = wrote_range [OF w]
  obtain n where n: "length data = sectorSize * n" using r by blast
  have eq: "map (content s') [unat lba..<unat lba + n] = map (\<lambda>i. sector i data) [0..<n]"
  proof (rule nth_equalityI)
    fix i assume "i < length (map (content s') [unat lba..<unat lba + n])"
    then have i: "i < n" by simp
    then have "unat lba + i < 2 ^ 63" using r n by simp
    then show "map (content s') [unat lba..<unat lba + n] ! i = map (\<lambda>i. sector i data) [0..<n] ! i"
      using wrote_content [OF g w] i n by (simp add: sectors_write_def)
  qed simp
  have "read s' lba c = (Inr (concat (map (content s') [unat lba..<unat lba + n])), s')"
    using read_content [OF wrote_good [OF g w], of lba c] r c n by simp
  then show ?thesis using eq concat_sectors [OF n] by simp
qed

text \<open>A read that does not meet the written range returns what it returned before.\<close>

lemma read_elsewhere:
  assumes g: "good s" and w: "wrote s lba data s'" and r: "unat a + unat c \<le> 2 ^ 63"
    and dis: "unat a + unat c \<le> unat lba \<or> unat lba + length data div sectorSize \<le> unat a"
  shows "fst (read s' a c) = fst (read s a c)"
proof -
  have "map (content s') [unat a..<unat a + unat c] = map (content s) [unat a..<unat a + unat c]"
  proof (intro map_cong refl)
    fix x assume "x \<in> set [unat a..<unat a + unat c]"
    then show "content s' x = content s x"
      using wrote_content [OF g w, of x] r dis by (auto simp: sectors_write_def)
  qed
  then show ?thesis using read_content [OF g r] read_content [OF wrote_good [OF g w] r] by (simp only: fst_conv)
qed

end

section \<open>The translation layer is a block device\<close>

definition ztl_writable :: "('d, 'j) ZTL \<Rightarrow> u64 \<Rightarrow> bytes \<Rightarrow> bool" where
  "ztl_writable s lba data \<longleftrightarrow>
     ztl_emergencyFreeZones s \<le> zm_FreeZoneCount (ztl_zm s) \<and> data \<noteq> [] \<and>
     unat lba mod unat (ztl_sectorsPerSeg s) = 0 \<and>
     length data mod (sectorSize * unat (ztl_sectorsPerSeg s)) = 0 \<and>
     unat lba + length data div sectorSize < 2 ^ 54"

text \<open>
  The translation layer over any zoned device is a sector store: this needs nothing of the device but its contract.
  The writes considered are those of whole segments that need no emergency collection; in a good state zone 0 has received its
  first sector, since the very first segment of that zone would get the address that means \<^verbatim>\<open>unmapped\<close>.
\<close>

context zoned_device
begin

definition dev_good :: "('d, 'j) ZTL \<Rightarrow> bool" where
  "dev_good s \<longleftrightarrow> dinv (ztl_device s) \<and> ztl_inv (view (ztl_device s)) s \<and> 0 < fill (view (ztl_device s)) (ztl_buf s) 0"

definition dev_wrote :: "map_order \<Rightarrow> 'j Journal option \<Rightarrow> int \<Rightarrow> ('d, 'j) ZTL \<Rightarrow> u64 \<Rightarrow> bytes \<Rightarrow> ('d, 'j) ZTL \<Rightarrow> bool" where
  "dev_wrote ord jn now s lba data s' \<longleftrightarrow> ztl_writable s lba data \<and> ztl_Write ord ops jn now s lba data = Some (Inr (), s')"

lemma dev_wrote_full:
  assumes "dev_good s" and w: "dev_wrote ord jn now s lba data s'"
  shows "ztl_sectorsPerSeg s' = ztl_sectorsPerSeg s \<and> dev_good s' \<and> (\<forall>a < 2 ^ 63. logical (view (ztl_device s')) s' a = sectors_write (logical (view (ztl_device s)) s) (unat lba) data a)"
proof -
  let ?S = "unat (ztl_sectorsPerSeg s)"
  have "?S dvd unat lba" "sectorSize * ?S dvd length data" using w by (auto simp: dev_wrote_def ztl_writable_def)
  then obtain G n where al: "unat lba = G * ?S" "length data = sectorSize * (?S * n)"
    by (metis dvdE mult.assoc mult.commute)
  moreover have "0 < n" using w al(2) by (cases n) (auto simp: dev_wrote_def ztl_writable_def)
  moreover have "length data div sectorSize = ?S * n" using al(2) by simp
  ultimately show ?thesis
    using ztl_Write_logical [of s lba G data n ord jn now s'] assms
    by (auto simp: dev_good_def dev_wrote_def ztl_writable_def sectors_write_def)
qed

lemmas dev_wrote_ok = dev_wrote_full [THEN conjunct2]

lemma dev_wrote_range:
  assumes "dev_wrote ord jn now s lba data s'"
  shows "length data mod sectorSize = 0 \<and> unat lba + length data div sectorSize \<le> 2 ^ 63"
proof -
  have "sectorSize * unat (ztl_sectorsPerSeg s) dvd length data" using assms by (simp add: dev_wrote_def ztl_writable_def dvd_eq_mod_eq_0)
  then have "sectorSize dvd length data" by (rule dvd_mult_left)
  then show ?thesis using assms by (simp add: dev_wrote_def ztl_writable_def)
qed

lemma dev_read_content:
  "dev_good s \<Longrightarrow> unat lba + unat c \<le> 2 ^ 63 \<Longrightarrow>
     ztl_Read ops s lba c = (Inr (concat (map (logical (view (ztl_device s)) s) [unat lba..<unat lba + unat c])), s)"
  unfolding dev_good_def by (elim conjE) (rule ztl_Read_logical)

end

sublocale zoned_device < store: sector_store dev_good "\<lambda>s. logical (view (ztl_device s)) s" "ztl_Read ops" "dev_wrote ord jn now" for ord jn now
  by unfold_locales (rule dev_read_content dev_wrote_range dev_wrote_ok [THEN conjunct1]
      dev_wrote_ok [THEN conjunct2, rule_format], assumption+)+

text \<open>The same over the emulator, written out.\<close>

definition ztl_good :: "(Emulator, 'j) ZTL \<Rightarrow> bool" where
  "ztl_good s \<longleftrightarrow> em_inv (ztl_device s) \<and> ztl_inv (em_view (ztl_device s)) s \<and>
     0 < fill (em_view (ztl_device s)) (ztl_buf s) 0"

definition ztl_content :: "(Emulator, 'j) ZTL \<Rightarrow> nat \<Rightarrow> bytes" where
  "ztl_content s = logical (em_view (ztl_device s)) s"

definition ztl_wrote ::
    "map_order \<Rightarrow> 'j Journal option \<Rightarrow> int \<Rightarrow> (Emulator, 'j) ZTL \<Rightarrow> u64 \<Rightarrow> bytes \<Rightarrow> (Emulator, 'j) ZTL \<Rightarrow> bool" where
  "ztl_wrote ord jn now s lba data s' \<longleftrightarrow>
     ztl_emergencyFreeZones s \<le> zm_FreeZoneCount (ztl_zm s) \<and> data \<noteq> [] \<and>
     unat lba mod unat (ztl_sectorsPerSeg s) = 0 \<and>
     length data mod (sectorSize * unat (ztl_sectorsPerSeg s)) = 0 \<and>
     unat lba + length data div sectorSize < 2 ^ 54 \<and>
     ztl_Write ord em_dev jn now s lba data = Some (Inr (), s')"

lemma ztl_wrote_dev: "ztl_wrote ord jn now s lba data s' = em.dev_wrote ord jn now s lba data s'" "ztl_good s = em.dev_good s"
  by (simp_all add: ztl_wrote_def em.dev_wrote_def ztl_writable_def ztl_good_def em.dev_good_def)

lemma ztl_wrote_ok:
  assumes "ztl_good s" and "ztl_wrote ord jn now s lba data s'"
  shows "ztl_good s' \<and> (\<forall>a < 2 ^ 63. ztl_content s' a = sectors_write (ztl_content s) (unat lba) data a)"
  using assms em.dev_wrote_ok unfolding ztl_wrote_dev ztl_content_def by blast

lemma ztl_read_content:
  "ztl_good s \<Longrightarrow> unat lba + unat c \<le> 2 ^ 63 \<Longrightarrow>
     ztl_Read em_dev s lba c = (Inr (concat (map (ztl_content s) [unat lba..<unat lba + unat c])), s)"
  unfolding ztl_good_def ztl_content_def by (elim conjE) (rule em.ztl_Read_logical)

lemma ztl_wrote_range:
  "ztl_wrote ord jn now s lba data s' \<Longrightarrow> length data mod sectorSize = 0 \<and> unat lba + length data div sectorSize \<le> 2 ^ 63"
  unfolding ztl_wrote_dev by (rule em.dev_wrote_range)

interpretation zs: sector_store ztl_good ztl_content "ztl_Read em_dev" "ztl_wrote ord jn now" for ord jn now
  by unfold_locales (rule ztl_read_content ztl_wrote_range ztl_wrote_ok [THEN conjunct1]
      ztl_wrote_ok [THEN conjunct2, rule_format], assumption+)+

text \<open>
  Nothing but a lack of room can make a write fail when there is no journal: a segment of the device goes to the
  current zone when that has more room than the segment needs (so that it is not flushed).
\<close>

lemma ztl_writeSegment_returns:
  assumes good: "em_inv (ztl_device s)" "ztl_inv (em_view (ztl_device s)) s"
    and cur: "ztl_currentZoneOpen s" "z = ztl_currentWriteZone s"
    and room: "fill (em_view (ztl_device s)) (ztl_buf s) z + unat (ztl_sectorsPerSeg s) < unat (em_zoneSectors (ztl_device s))"
    and seg: "g < l2p_size (ztl_l2p s)" and len: "length data = sectorSize * unat (ztl_sectorsPerSeg s)"
  shows "\<exists>s'. ztl_writeSegment em_dev None now s g data = (Inr (), s')"
proof -
  let ?v = "em_view (ztl_device s)" and ?S = "unat (ztl_sectorsPerSeg s)" and ?f = "fill (em_view (ztl_device s)) (ztl_buf s) z"
  have ok: "buffered_ok ?v (ztl_zm s) (ztl_buf s)" and z: "unat z < v_zones ?v"
    using good(2) cur by (auto simp: ztl_inv_def)
  obtain zi where zi: "zm_ZoneInfo (ztl_zm s) z = Some zi" "zi_StartLBA zi = zone_lba ?v (unat z) 0"
    "zi_SizeSectors zi = of_nat (v_size ?v)" by (rule zm_ZoneInfo_ok [OF ok z])
  have wp: "zm_WritePointer (ztl_zm s) z = zone_lba ?v (unat z) ?f" using ok z by (simp add: buffered_ok_def)
  note lba = em.zone_lba_unat [OF good(1) z]
  have end_lba: "zi_StartLBA zi + zi_SizeSectors zi = zone_lba ?v (unat z) (v_size ?v)" using zi by (simp add: zone_lba_def)
  have "zone_lba ?v (unat z) ?f \<le> zone_lba ?v (unat z) (v_size ?v)"
    using lba room by (simp add: word_le_nat_alt)
  then have "unat (zi_StartLBA zi + zi_SizeSectors zi - zm_WritePointer (ztl_zm s) z) = v_size ?v - ?f"
    using lba room wp end_lba by (simp add: unat_sub_le)
  then have has: "ztl_hasRoom s" using zi(1) cur(2) room by (simp add: ztl_hasRoom_def Let_def word_le_nat_alt)
  have "zm_WritePointer (ztl_zm s) z + of_nat (length data) div 512 = zone_lba ?v (unat z) (?f + ?S)"
    using wp of_nat_sectors [OF len] len room ok by (simp add: zone_lba_def buffered_ok_def)
  moreover have "\<not> zone_lba ?v (unat z) (v_size ?v) \<le> zone_lba ?v (unat z) (?f + ?S)"
    using lba room by (simp add: word_le_nat_alt)
  ultimately show ?thesis
    using has cur zi(1) end_lba seg
    by (simp add: ztl_writeSegment_def ztl_getWriteZone_def log_l2p_def L2P_Set_def Let_def wb_Add_case ztl_flushIfFull_def)
qed

section \<open>A small instance\<close>

text \<open>Segments of two sectors on the emulator of two zones with two sectors each.\<close>

definition ztl_demo_cfg :: Config where
  "ztl_demo_cfg = DefaultConfig\<lparr>cfg_ZTL := (cfg_ZTL DefaultConfig)\<lparr>zc_SegmentSizeKB := 1, zc_GCEmergencyFreeZones := 0\<rparr>\<rparr>"

definition zm_demo :: ZoneManager where
  "zm_demo = \<lparr>zm_zones = [(zi_demo 0 ZoneStateImplicitOpen 0 0)\<lparr>zi_WritePointer := 1\<rparr>,
                          (zi_demo 1 ZoneStateEmpty 0 0)\<lparr>zi_WritePointer := 2, zi_StartLBA := 2\<rparr>],
     zm_freeList = [1], zm_openList = [(0, 0)], zm_openSet = [(0, 0)], zm_frozenSet = [], zm_maxOpenZones = 1, zm_nextEl = 1\<rparr>"

definition ztl_demo :: "(Emulator, unit) ZTL" where
  "ztl_demo =
     \<lparr>ztl_l2p = \<lparr>l2p_entries = [0, 0], l2p_size = 2\<rparr>, ztl_p2l = \<lparr>p2l_entries = []\<rparr>,
      ztl_buf = \<lparr>wb_buffers = [], wb_zoneSectors = 2, wb_flushAge = 5000000000, wb_sectorSize = 512\<rparr>,
      ztl_zm = zm_demo,
      ztl_gcStats = \<lparr>gs_ZonesReclaimed = 0, gs_BytesMigrated = 0, gs_RunCount = 0, gs_Running = 0\<rparr>,
      ztl_device = em_demo, ztl_journal = (), ztl_sectorsPerSeg = 2, ztl_zoneSectors = 2,
      ztl_emergencyFreeZones = 0, ztl_freeTriggerRatio = 1 / 5, ztl_triggerCh = False,
      ztl_currentWriteZone = 0, ztl_currentZoneOpen = False\<rparr>"

lemma replicate_two: "replicate 2 x = [x, x]"
  by (simp add: numeral_2_eq_2)

lemma ztl_demo_new: "ztl_New ztl_demo_cfg em_dev em_demo () = Inr ztl_demo"
  by (simp add: ztl_New_def ztl_demo_cfg_def SectorsPerSegment_def DefaultConfig_def em_dev_def em_demo_def
      em_Capacity_def em_ReportZones_def em_zoneStartLBA_def zm_Initialize_def NewZoneManager_def zm_initZone_def
      ztl_demo_def zm_demo_def zi_demo_def NewL2PTable_def NewP2LMap_def NewWriteBuffer_def Let_def upt_rec
      zm_pushOpen_def replicate_two)

lemma ztl_demo_good: "ztl_good ztl_demo"
proof -
  have "ztl_inv (em_view em_demo) ztl_demo \<and> ztl_device ztl_demo = em_demo"
    by (rule ztl_New_em_inv [OF em_demo_inv _ _ _ _ _ _ ztl_demo_new])
      (simp_all add: em_demo_def ztl_demo_cfg_def SectorsPerSegment_def DefaultConfig_def)
  moreover have "0 < fill (em_view em_demo) (ztl_buf ztl_demo) 0"
    by (simp add: fill_def em_demo_def)
  ultimately show ?thesis using em_demo_inv by (simp add: ztl_good_def)
qed

lemmas ztl_eval = ztl_Write_def ztl_writeSegment_def ztl_getWriteZone_def ztl_hasRoom_def ztl_remap_def
  ztl_flushIfFull_def seg_overlap_def log_l2p_def log_call_def ztl_demo_def zm_demo_def zi_demo_def Let_def
  LBAToSegmentID_def SegmentToLBARange_def word_upto_def zm_FreeZoneCount_def zm_AllocateFree_def
  zm_evictOldestLocked_def zm_pushOpen_def zm_ZoneInfo_def zm_WritePointer_def zm_UpdateWritePointer_def
  zm_IncrementValidSegs_def zm_DecrementValidSegs_def L2P_Get_def L2P_Set_def P2L_Set_def P2L_Delete_def
  IsUnmapped_def EncodePhysAddr_def wb_Add_def wb_Flush_def zm_GetOrOpen_def em_dev_def em_demo_def
  em_CloseZone_def em_OpenZone_def em_WriteSectors_def em_zoneIndex_def em_writeState_def em_writeOpened_def
  em_zoneStartLBA_def em_openZoneLocked_def zm_modify_def bslice_def

lemma demo_addr:
  "ZoneID 0x10000000000 = 1" "OffsetSectors 0x10000000000 = 0"
  "ZoneID 0x10000000002 = 1" "OffsetSectors 0x10000000002 = 2"
  "(0x10000000000 :: u64) OR 2 AND offsetMask = 0x10000000002"
  by code_simp+

lemmas ztl_eval_read = ztl_Read_def wb_Lookup_def em_ReadSectors_def em_Capacity_def demo_addr blit_def zeros_def
  em_read_loop.simps [of _ 0] em_read_loop.simps [of _ sectorSize]

lemma ztl_demo_write:
  "\<exists>s'. ztl_Write (\<lambda>x. x) em_dev None 0 ztl_demo 0 (replicate 1024 9) = Some (Inr (), s')"
  by (simp add: ztl_eval)

text \<open>
  Zones of four sectors, two segments each, and a device with one empty zone only: number 0.
\<close>

definition em_demo4 :: Emulator where
  "em_demo4 = \<lparr>em_zones = [\<lparr>zs_state = ZoneStateImplicitOpen, zs_writePointer = 1,
                            zs_data = replicate 512 7 @ zeros 1536\<rparr>,
                          \<lparr>zs_state = ZoneStateEmpty, zs_writePointer = 4, zs_data = zeros 2048\<rparr>],
               em_zoneCount = 2, em_zoneSectors = 4, em_maxOpenZones = 1, em_openCount = 1\<rparr>"

definition ztl_demo4 :: "(Emulator, unit) ZTL" where
  "ztl_demo4 = ztl_demo\<lparr>
     ztl_l2p := \<lparr>l2p_entries = [0, 0, 0, 0], l2p_size = 4\<rparr>, ztl_device := em_demo4, ztl_zoneSectors := 4,
     ztl_buf := (ztl_buf ztl_demo)\<lparr>wb_zoneSectors := 4\<rparr>,
     ztl_zm := zm_demo\<lparr>zm_zones := [(zi_demo 0 ZoneStateImplicitOpen 0 0)\<lparr>zi_WritePointer := 1, zi_SizeSectors := 4\<rparr>,
        (zi_demo 1 ZoneStateEmpty 0 0)\<lparr>zi_WritePointer := 4, zi_StartLBA := 4, zi_SizeSectors := 4\<rparr>]\<rparr>\<rparr>"

definition em_empty1 :: Emulator where
  "em_empty1 = \<lparr>em_zones = [\<lparr>zs_state = ZoneStateEmpty, zs_writePointer = 0, zs_data = zeros 2048\<rparr>],
                em_zoneCount = 1, em_zoneSectors = 4, em_maxOpenZones = 1, em_openCount = 0\<rparr>"

definition ztl_empty1 :: "(Emulator, unit) ZTL" where
  "ztl_empty1 = ztl_demo\<lparr>
     ztl_l2p := \<lparr>l2p_entries = [0, 0], l2p_size = 2\<rparr>, ztl_device := em_empty1, ztl_zoneSectors := 4,
     ztl_buf := (ztl_buf ztl_demo)\<lparr>wb_zoneSectors := 4\<rparr>,
     ztl_zm := \<lparr>zm_zones = [(zi_demo 0 ZoneStateEmpty 0 0)\<lparr>zi_SizeSectors := 4\<rparr>], zm_freeList = [0], zm_openList = [],
        zm_openSet = [], zm_frozenSet = [], zm_maxOpenZones = 1, zm_nextEl = 0\<rparr>\<rparr>"

lemma replicate_four: "replicate 4 x = [x, x, x, x]"
  by (simp add: eval_nat_numeral)

lemmas ztl_new_eval = ztl_New_def ztl_demo_cfg_def SectorsPerSegment_def DefaultConfig_def em_dev_def em_demo_def
  em_Capacity_def em_ReportZones_def em_zoneStartLBA_def zm_Initialize_def NewZoneManager_def zm_initZone_def
  ztl_demo_def zm_demo_def zi_demo_def NewL2PTable_def NewP2LMap_def NewWriteBuffer_def Let_def upt_rec
  zm_pushOpen_def replicate_two replicate_four

lemma ztl_demo4_new: "ztl_New ztl_demo_cfg em_dev em_demo4 () = Inr ztl_demo4"
  by (simp add: ztl_new_eval ztl_demo4_def em_demo4_def)

lemma ztl_empty1_new: "ztl_New ztl_demo_cfg em_dev em_empty1 () = Inr ztl_empty1"
  by (simp add: ztl_new_eval ztl_empty1_def em_empty1_def)

lemma ztl_empty1_write:
  "\<exists>s. ztl_Write (\<lambda>x. x) em_dev None 0 ztl_empty1 0 (replicate 1024 9) = Some (Inr (), s) \<and>
     l2p_entries (ztl_l2p s) = [0, 0] \<and> l2p_size (ztl_l2p s) = 2 \<and> ztl_sectorsPerSeg s = 2"
  by (simp add: ztl_eval ztl_empty1_def em_empty1_def)

lemma em_demo4_inv: "em_inv em_demo4"
proof -
  have four: "(\<forall>i < 4. P i) \<longleftrightarrow> P 0 \<and> P 1 \<and> P 2 \<and> P (3::nat)" for P
    by (auto simp: eval_nat_numeral less_Suc_eq)
  have "em_zone_ok 4 0 \<lparr>zs_state = ZoneStateImplicitOpen, zs_writePointer = 1,
                          zs_data = replicate 512 7 @ zeros 1536\<rparr>"
    unfolding em_zone_ok_def four by (simp add: sector_def zeros_def)
  moreover have "em_zone_ok 4 1 \<lparr>zs_state = ZoneStateEmpty, zs_writePointer = 4, zs_data = zeros 2048\<rparr>"
    unfolding em_zone_ok_def four by (simp add: sector_def zeros_def)
  ultimately show ?thesis
    by (simp add: em_inv_def em_demo4_def All_less_Suc isOpen_def)
qed

text \<open>The same with zone 0 as the current write zone.\<close>

definition ztl_demo4_open :: "(Emulator, unit) ZTL" where
  "ztl_demo4_open = ztl_demo4\<lparr>ztl_currentWriteZone := 0, ztl_currentZoneOpen := True\<rparr>"

lemma ztl_demo4_open_good: "ztl_good ztl_demo4_open"
proof -
  have "ztl_inv (em_view em_demo4) ztl_demo4 \<and> ztl_device ztl_demo4 = em_demo4"
    by (rule ztl_New_em_inv [OF em_demo4_inv _ _ _ _ _ _ ztl_demo4_new])
      (simp_all add: em_demo4_def ztl_demo_cfg_def SectorsPerSegment_def DefaultConfig_def)
  moreover have "0 < fill (em_view em_demo4) (ztl_buf ztl_demo4) 0" "zm_freeList (ztl_zm ztl_demo4) = [1]"
    "length (em_zones em_demo4) = 2"
    by (simp_all add: fill_def em_demo4_def ztl_demo4_def zm_demo_def)
  ultimately show ?thesis using em_demo4_inv by (simp add: ztl_good_def ztl_inv_def ztl_demo4_open_def)
qed

definition ztl_demo4a :: "(Emulator, unit) ZTL" where
  "ztl_demo4a = ztl_demo4\<lparr>
     ztl_l2p := \<lparr>l2p_entries = [0x10000000000, 0, 0, 0], l2p_size = 4\<rparr>,
     ztl_p2l := \<lparr>p2l_entries = [(p2l_key 0x10000000000, 0)]\<rparr>,
     ztl_buf := \<lparr>wb_buffers = [(1, \<lparr>zb_zoneID = 1, zb_data = replicate 1024 9, zb_writePointer = 4, zb_lastWriteAt = 0\<rparr>)],
        wb_zoneSectors = 4, wb_flushAge = 5000000000, wb_sectorSize = 512\<rparr>,
     ztl_zm := \<lparr>zm_zones = [(zi_demo 0 ZoneStateClosed 0 0)\<lparr>zi_WritePointer := 1, zi_SizeSectors := 4\<rparr>,
        (zi_demo 1 ZoneStateExplicitOpen 1 1)\<lparr>zi_WritePointer := 6, zi_StartLBA := 4, zi_SizeSectors := 4\<rparr>],
        zm_freeList = [], zm_openList = [(1, 1)], zm_openSet = [(1, 1)], zm_frozenSet = [], zm_maxOpenZones = 1, zm_nextEl = 2\<rparr>,
     ztl_device := em_demo4\<lparr>em_zones := [\<lparr>zs_state = ZoneStateClosed, zs_writePointer = 1,
                                          zs_data = replicate 512 7 @ zeros 1536\<rparr>,
        \<lparr>zs_state = ZoneStateExplicitOpen, zs_writePointer = 4, zs_data = zeros 2048\<rparr>]\<rparr>,
     ztl_currentWriteZone := 1, ztl_currentZoneOpen := True\<rparr>"

lemma ztl_demo4_write:
  "ztl_Write (\<lambda>x. x) em_dev None 0 ztl_demo4 0 (replicate 1024 9) = Some (Inr (), ztl_demo4a)"
  by (simp add: ztl_eval ztl_demo4_def em_demo4_def ztl_demo4a_def list_Remove_def)

section \<open>Properties\<close>

text \<open>
  A translation layer built over any well-formed emulator (at most \<open>2\<^sup>2\<^sup>4\<close> zones of less than \<open>2\<^sup>4\<^sup>0\<close>
  sectors, a segment no longer than a zone) satisfies its invariant and every logical sector reads as zeros.
\<close>

theorem ztl_new_invariant:
  assumes "em_inv e" and "em_zones e \<noteq> []" and "length (em_zones e) \<le> 2 ^ 24"
    and "unat (em_zoneSectors e) < 2 ^ 40" and "0 < em_maxOpenZones e"
    and "unat (SectorsPerSegment cfg) < 2 ^ 32" and "unat (SectorsPerSegment cfg) \<le> unat (em_zoneSectors e)"
    and "ztl_New cfg em_dev e j = Inr s"
  shows "ztl_device s = e \<and> ztl_inv (em_view e) s \<and> ztl_content s a = zeros sectorSize"
proof -
  have "ztl_l2p s = NewL2PTable (em_Capacity e div SectorsPerSegment cfg)"
    using assms(8) by (auto simp: ztl_New_def em_dev_def Let_def split: if_splits sum.splits prod.splits)
  then have "L2P_Get (ztl_l2p s) g = 0" for g
    by (simp add: L2P_Get_def NewL2PTable_def word_le_nat_alt)
  then show ?thesis
    using ztl_New_em_inv [OF assms] by (simp add: ztl_content_def logical_def seg_sector_def)
qed

theorem ztl_new_invariant_witness:
  "ztl_inv (em_view em_demo) ztl_demo \<and> ztl_content ztl_demo 1 = zeros sectorSize"
  using ztl_new_invariant [OF em_demo_inv _ _ _ _ _ _ ztl_demo_new, of 1]
  by (simp add: em_demo_def ztl_demo_cfg_def SectorsPerSegment_def DefaultConfig_def)

text \<open>
  C9: in every state that satisfies the invariants, \<^verbatim>\<open>Read\<close> succeeds, changes nothing and returns exactly the
  logical content of the requested sectors, wherever they lie: unmapped, in the write buffer or on
  the device, and however the request cuts segments.
\<close>

theorem ztl_read_view:
  assumes "em_inv (ztl_device s)" and "ztl_inv (em_view (ztl_device s)) s" and "unat lba + unat c \<le> 2 ^ 63"
  shows "ztl_Read em_dev s lba c = (Inr (concat (map (ztl_content s) [unat lba..<unat lba + unat c])), s)"
  unfolding ztl_content_def using assms by (rule em.ztl_Read_logical)

theorem ztl_read_view_witness:
  "ztl_Read em_dev ztl_demo 1 2 = (Inr (ztl_content ztl_demo 1 @ ztl_content ztl_demo 2), ztl_demo)"
  using ztl_read_view [of ztl_demo 1 2] ztl_demo_good by (simp add: ztl_good_def upt_rec flip: numeral_2_eq_2)

text \<open>
  C8: a successful \<^verbatim>\<open>Write\<close> of whole segments keeps the state good and changes the logical device like an
  assignment to an array: the written sectors hold the data, all others what they held (it does not matter whether
  zones were allocated, evicted or flushed on the way).
\<close>

theorem ztl_write_refines:
  assumes "ztl_good s" and "data \<noteq> []" and "unat lba mod unat (ztl_sectorsPerSeg s) = 0"
    and "length data mod (sectorSize * unat (ztl_sectorsPerSeg s)) = 0"
    and "unat lba + length data div sectorSize < 2 ^ 54"
    and "ztl_emergencyFreeZones s \<le> zm_FreeZoneCount (ztl_zm s)"
    and "ztl_Write ord em_dev jn now s lba data = Some (Inr (), s')"
  shows "ztl_good s' \<and> (\<forall>a < 2 ^ 63. ztl_content s' a = sectors_write (ztl_content s) (unat lba) data a)"
  using ztl_wrote_ok [OF assms(1)] assms by (auto simp: ztl_wrote_def)

lemma ztl_demo_wrote:
  "\<exists>s'. ztl_wrote (\<lambda>x. x) None 0 ztl_demo 0 (replicate 1024 9) s'"
  using ztl_demo_write by (auto simp: ztl_wrote_def ztl_demo_def zm_FreeZoneCount_def)

theorem ztl_write_refines_witness:
  "\<exists>s'. ztl_Write (\<lambda>x. x) em_dev None 0 ztl_demo 0 (replicate 1024 9) = Some (Inr (), s') \<and> ztl_good s' \<and>
     ztl_content s' 1 = replicate 512 9"
proof -
  obtain s' where w: "ztl_Write (\<lambda>x. x) em_dev None 0 ztl_demo 0 (replicate 1024 9) = Some (Inr (), s')"
    using ztl_demo_write by blast
  have "ztl_good s' \<and> (\<forall>a < 2 ^ 63. ztl_content s' a = sectors_write (ztl_content ztl_demo) (unat (0::u64)) (replicate 1024 9) a)"
    by (rule ztl_write_refines [OF ztl_demo_good _ _ _ _ _ w]) (simp_all add: ztl_demo_def zm_FreeZoneCount_def)
  then show ?thesis using w by (auto simp: sectors_write_def sector_def)
qed

text \<open>
  Reading back what a successful \<^verbatim>\<open>Write\<close> of whole segments wrote returns the data, and a read of any
  other range returns what it returned before the write.
\<close>

theorem ztl_write_read:
  assumes "ztl_good s" and "ztl_wrote ord jn now s lba data s'"
  shows "(unat c = length data div sectorSize \<longrightarrow> ztl_Read em_dev s' lba c = (Inr data, s')) \<and>
    (unat a + unat b \<le> 2 ^ 63 \<and> (unat a + unat b \<le> unat lba \<or> unat lba + length data div sectorSize \<le> unat a) \<longrightarrow>
       fst (ztl_Read em_dev s' a b) = fst (ztl_Read em_dev s a b))"
  using zs.read_after_write [OF assms] zs.read_elsewhere [OF assms] by blast

theorem ztl_write_read_witness:
  "\<exists>s'. ztl_wrote (\<lambda>x. x) None 0 ztl_demo 0 (replicate 1024 9) s' \<and>
     ztl_Read em_dev s' 0 2 = (Inr (replicate 1024 9), s')"
proof -
  obtain s' where w: "ztl_wrote (\<lambda>x. x) None 0 ztl_demo 0 (replicate 1024 9) s'" using ztl_demo_wrote by blast
  from ztl_write_read [OF ztl_demo_good w, of 2] show ?thesis using w by auto
qed

lemma ztl_Unmap_content:
  assumes "ztl_inv (em_view (ztl_device s)) s" and "0 < unat c" and "unat lba + unat c \<le> 2 ^ 63" and "a < 2 ^ 63"
    and "ztl_Unmap jn s lba c = (Inr (), s')"
  shows "ztl_inv (em_view (ztl_device s')) s' \<and> ztl_device s' = ztl_device s \<and>
    ztl_content s' a =
      (if unat lba div unat (ztl_sectorsPerSeg s) \<le> a div unat (ztl_sectorsPerSeg s) \<and>
          a div unat (ztl_sectorsPerSeg s) \<le> (unat lba + unat c - 1) div unat (ztl_sectorsPerSeg s)
       then zeros sectorSize else ztl_content s a)"
proof -
  let ?S = "unat (ztl_sectorsPerSeg s)" and ?e = "lba + ucast c"
  let ?segs = "word_upto (LBAToSegmentID lba (ztl_sectorsPerSeg s)) (LBAToSegmentID (?e - 1) (ztl_sectorsPerSeg s))"
  have e: "unat ?e = unat lba + unat c" using assms(3) by (simp add: unat_add_lt)
  then have e1: "unat (?e - 1) = unat lba + unat c - 1" using assms(2) by (subst unat_sub_le) (auto simp: word_le_nat_alt)
  have "ztl_unmapSegs jn ?segs s = (Inr (), s')" using assms(5) by (simp add: ztl_Unmap_def Let_def)
  note u = ztl_unmapSegs_ok [OF assms(1) this]
  have h: "unat (of_nat (a div ?S) :: u64) = a div ?S"
    by (intro unat_u64_of_nat le_less_trans [OF div_le_dividend]) (use assms(4) in simp)
  have "of_nat (a div ?S) \<in> set ?segs \<longleftrightarrow> unat lba div ?S \<le> a div ?S \<and> a div ?S \<le> (unat lba + unat c - 1) div ?S"
    using e1 h by (simp add: set_word_upto word_le_nat_alt LBAToSegmentID_def unat_div_distrib)
  then show ?thesis using u by (simp add: ztl_content_def logical_def)
qed

text \<open>
  A successful \<^verbatim>\<open>Unmap\<close> keeps the invariant and makes every sector of every segment that the range touches
  read as zeros, and no other sector. For a range of whole segments that is the range itself; for any other range
  the rest of its first and last segment is erased too.
\<close>

theorem ztl_unmap_zeros:
  assumes "ztl_inv (em_view (ztl_device s)) s" and "0 < unat c" and "unat lba + unat c \<le> 2 ^ 63" and "a < 2 ^ 63"
    and "ztl_Unmap jn s lba c = (Inr (), s')"
  shows "ztl_inv (em_view (ztl_device s')) s' \<and> ztl_device s' = ztl_device s \<and>
    ztl_content s' a =
      (if unat lba div unat (ztl_sectorsPerSeg s) \<le> a div unat (ztl_sectorsPerSeg s) \<and>
          a div unat (ztl_sectorsPerSeg s) \<le> (unat lba + unat c - 1) div unat (ztl_sectorsPerSeg s)
       then zeros sectorSize else ztl_content s a)"
  using assms by (rule ztl_Unmap_content)

theorem ztl_unmap_zeros_witness:
  "ztl_content (snd (ztl_Unmap None ztl_demo 1 1)) 0 = zeros sectorSize"
proof -
  have "ztl_Unmap None ztl_demo 1 1 = (Inr (), snd (ztl_Unmap None ztl_demo 1 1))"
    by (simp add: ztl_Unmap_def Let_def ztl_demo_def LBAToSegmentID_def word_upto_def L2P_Get_def IsUnmapped_def)
  from ztl_unmap_zeros [OF _ _ _ _ this, of 0] show ?thesis using ztl_demo_good by (simp add: ztl_good_def ztl_demo_def)
qed

text \<open>
  C16: after a successful \<^verbatim>\<open>Flush\<close> the write buffer is empty, no logical sector has changed, and nothing depends on the
  buffer any more: with the buffer lost, the logical content is still the one before the flush.
\<close>

theorem ztl_flush_durable:
  assumes "em_inv (ztl_device s)" and "ztl_inv (em_view (ztl_device s)) s" and "\<And>xs. set (zord xs) = set xs"
    and "ztl_Flush zord em_dev jn s = (Inr (), s')"
  shows "em_inv (ztl_device s') \<and> ztl_inv (em_view (ztl_device s')) s' \<and> ztl_content s' = ztl_content s \<and>
    ztl_content (s'\<lparr>ztl_buf := NewWriteBuffer zoneSectors age\<rparr>) = ztl_content s"
proof -
  obtain s1 j where f: "ztl_flushBuf zord em_dev s = (Inr (), s1)" and s': "s' = s1\<lparr>ztl_journal := j\<rparr>"
    using assms(4) log_call_state [of jn_GroupCommit jn] by (auto simp: ztl_Flush_def split: prod.splits sum.splits)
  note w = em.ztl_flushBuf_ok [OF assms(1-3) f]
  have "psector v (ztl_buf s1) = psector v (NewWriteBuffer zoneSectors age)" for v
    using w by (simp add: psector_def fun_eq_iff wb_data_def NewWriteBuffer_def)
  then have "ztl_content (s'\<lparr>ztl_buf := NewWriteBuffer zoneSectors age\<rparr>) = ztl_content s1"
    by (simp add: ztl_content_def logical_def seg_sector_def s' Let_def fun_eq_iff)
  then show ?thesis using w by (simp add: s' ztl_content_def)
qed

theorem ztl_flush_durable_witness:
  "ztl_content (snd (ztl_Flush (\<lambda>x. x) em_dev None ztl_demo)) = ztl_content ztl_demo"
proof -
  have "ztl_Flush (\<lambda>x. x) em_dev None ztl_demo = (Inr (), snd (ztl_Flush (\<lambda>x. x) em_dev None ztl_demo))"
    by (simp add: ztl_Flush_def ztl_flushBuf_def wb_FlushAll_def ztl_demo_def log_call_def)
  from ztl_flush_durable [OF _ _ _ this] show ?thesis using ztl_demo_good by (simp add: ztl_good_def)
qed



text \<open>
  The first segment of zone 0 is lost. Its physical address encodes as 0, the value that means \<^verbatim>\<open>unmapped\<close>:
  on a device whose zone 0 is empty, a write that lands there is reported as successful, and reading
  it back yields zeros.
\<close>

theorem ztl_zone0_lost:
  "\<exists>s'. ztl_Write (\<lambda>x. x) em_dev None 0 ztl_empty1 0 (replicate 1024 9) = Some (Inr (), s') \<and>
     ztl_Read em_dev s' 0 2 = (Inr (zeros 1024), s')"
proof -
  obtain s where w: "ztl_Write (\<lambda>x. x) em_dev None 0 ztl_empty1 0 (replicate 1024 9) = Some (Inr (), s)"
    and s: "l2p_entries (ztl_l2p s) = [0, 0]" "l2p_size (ztl_l2p s) = 2" "ztl_sectorsPerSeg s = 2"
    using ztl_empty1_write by blast
  have "ztl_Read em_dev s 0 2 = (Inr (zeros 1024), s)"
    using s by (simp add: ztl_Read_def Let_def LBAToSegmentID_def word_upto_def SegmentToLBARange_def seg_overlap_def
        L2P_Get_def IsUnmapped_def)
  with w show ?thesis by blast
qed


end
