(* ===== verification/GcSpec.thy ===== *)
theory GcSpec
  imports ZtlSpec
begin

text \<open>
  Garbage collection does not change what the device contains. The invariant of the translation layer and the logical content are
  followed through the migration of each live segment and the reset of the victim, on success and on every error.
\<close>

section \<open>Helpers\<close>

lemma sector_concat:
  "\<forall>x \<in> set xs. length x = sectorSize \<Longrightarrow> i < length xs \<Longrightarrow> sector i (concat xs) = xs ! i"
proof (induction xs arbitrary: i)
  case (Cons x xs)
  have "length x = sectorSize * 1" using Cons.prems by simp
  from sector_append [OF this, of i "concat xs"] Cons show ?case
    by (cases i) (simp_all add: sector_def)
qed simp

lemma ztl_inv_zm:
  assumes "ztl_inv v s" and "zm_inv zm" and "zm_geoms zm = zm_geoms (ztl_zm s)" and "zm_WritePointer zm = zm_WritePointer (ztl_zm s)"
    and "set (zm_freeList zm) \<subseteq> set (zm_freeList (ztl_zm s))"
  shows "ztl_inv v (s\<lparr>ztl_zm := zm\<rparr>)"
proof -
  have "buffered_ok v zm (ztl_buf s)" using assms by (auto simp: ztl_inv_def intro: buffered_ok_same)
  moreover have "bufs_not_free (ztl_buf s) zm" using assms by (auto simp: ztl_inv_def bufs_not_free_def)
  ultimately show ?thesis using assms by (auto simp: ztl_inv_def)
qed

lemma seg_sector_cong:
  "L2P_Get (ztl_l2p t) = L2P_Get (ztl_l2p s) \<Longrightarrow> ztl_buf t = ztl_buf s \<Longrightarrow> seg_sector v t = seg_sector v s"
  by (simp add: seg_sector_def fun_eq_iff Let_def)

text \<open>Two states with the same segments and the same content in them.\<close>

definition same_segs :: "dev_view \<Rightarrow> ('d, 'j) ZTL \<Rightarrow> dev_view \<Rightarrow> ('d, 'j) ZTL \<Rightarrow> bool" where
  "same_segs v s w t \<longleftrightarrow> ztl_sectorsPerSeg t = ztl_sectorsPerSeg s \<and>
     (\<forall>h i. i < unat (ztl_sectorsPerSeg s) \<longrightarrow> seg_sector w t h i = seg_sector v s h i)"

lemma same_segs_refl [simp]: "same_segs v s v s"
  by (simp add: same_segs_def)

lemma same_segs_trans: "same_segs u r v s \<Longrightarrow> same_segs v s w t \<Longrightarrow> same_segs u r w t"
  by (simp add: same_segs_def)

lemma same_segs_logical: "same_segs v s w t \<Longrightarrow> 0 < unat (ztl_sectorsPerSeg s) \<Longrightarrow> logical w t = logical v s"
  by (simp add: same_segs_def logical_def fun_eq_iff)

text \<open>
  What the collector relies on: the victim is a zone of the device that is not free, not the current write zone and has nothing
  in the write buffer; and zone 0 is not empty (its first segment would get the address that means \<^verbatim>\<open>unmapped\<close>).
\<close>

definition gc_ready :: "dev_view \<Rightarrow> u32 \<Rightarrow> ('d, 'j) ZTL \<Rightarrow> bool" where
  "gc_ready v victim s \<longleftrightarrow> ztl_inv v s \<and> unat victim < v_zones v \<and> victim \<notin> set (zm_freeList (ztl_zm s)) \<and>
     (ztl_currentZoneOpen s \<longrightarrow> ztl_currentWriteZone s \<noteq> victim) \<and>
     map_of (wb_buffers (ztl_buf s)) victim = None \<and> 0 < fill v (ztl_buf s) 0"

lemma gc_ready_journal [simp]: "gc_ready v V (s\<lparr>ztl_journal := j\<rparr>) = gc_ready v V s"
  by (simp add: gc_ready_def)

lemma gc_ready_zm:
  assumes "gc_ready v V s" and "zm_inv zm" and "zm_geoms zm = zm_geoms (ztl_zm s)" and "zm_WritePointer zm = zm_WritePointer (ztl_zm s)"
    and "set (zm_freeList zm) \<subseteq> set (zm_freeList (ztl_zm s))"
  shows "gc_ready v V (s\<lparr>ztl_zm := zm\<rparr>)"
  using assms ztl_inv_zm [OF _ assms(2-5)] by (auto simp: gc_ready_def)

lemma gc_ready_device:
  assumes "gc_ready v V s" and "same_data v w"
  shows "gc_ready w V (s\<lparr>ztl_device := d\<rparr>)" and "seg_sector w (s\<lparr>ztl_device := d\<rparr>) = seg_sector v s"
proof -
  have f: "fill w = fill v" "psector w = psector v" using same_data_fill [OF assms(2)] by auto
  show "seg_sector w (s\<lparr>ztl_device := d\<rparr>) = seg_sector v s" by (simp add: seg_sector_def fun_eq_iff Let_def f)
  have "ztl_inv v s" using assms(1) by (simp add: gc_ready_def)
  moreover have "seg_ok w (ztl_buf s) S p = seg_ok v (ztl_buf s) S p" for S p
    using assms(2) f by (simp add: seg_ok_def same_data_def)
  moreover have "buffered_ok w (ztl_zm s) (ztl_buf s)" if "buffered_ok v (ztl_zm s) (ztl_buf s)"
    using that assms(2) by (rule buffered_ok_same) simp_all
  ultimately have "ztl_inv w (s\<lparr>ztl_device := d\<rparr>)" using assms(2) f by (simp add: ztl_inv_def same_data_def)
  then show "gc_ready w V (s\<lparr>ztl_device := d\<rparr>)" using assms f by (simp add: gc_ready_def same_data_def)
qed

section \<open>A segment moved to a fresh zone\<close>

text \<open>A zone that was empty has received \<open>data\<close>: the buffers fit the new view, and only that zone reads differently.\<close>

lemma fresh_zone_view:
  assumes ok: "buffered_ok v zm wb" and z: "unat z < v_zones v" "fill v wb z = 0" and w: "written v (unat z) 0 data w"
    and data: "length data = sectorSize * S" "S \<le> v_size v"
    and zm': "zm_geoms zm' = zm_geoms zm" "zm_WritePointer zm' = (zm_WritePointer zm)(z := zone_lba v (unat z) S)"
  shows "buffered_ok w zm' wb" and "fill w wb = (fill v wb)(z := S)"
    and "y \<noteq> z \<Longrightarrow> unat y < v_zones v \<Longrightarrow> psector w wb y k = psector v wb y k" and "i < S \<Longrightarrow> psector w wb z i = sector i data"
proof -
  have wpz: "v_wp v (unat z) = 0" using z(2) by (simp add: fill_def)
  have "length (wb_data wb z) mod sectorSize = 0" "length (wb_data wb z) div sectorSize = 0"
    using z ok by (auto simp: fill_def buffered_ok_def)
  then have wdz: "wb_data wb z = []" using div_mult_mod_eq [of "length (wb_data wb z)" sectorSize] by simp
  have nb: "map_of (wb_buffers wb) z = None"
  proof (cases "map_of (wb_buffers wb) z")
    case (Some buf)
    then show ?thesis using ok wdz wb_data_Some [OF Some] by (auto simp: buffered_ok_def)
  qed
  have geo: "v_zones w = v_zones v" "v_size w = v_size v" "v_wp w = (v_wp v)(unat z := S)" "zone_lba w = zone_lba v"
    using w data(1) by (auto simp: written_def zone_lba_def fun_eq_iff)
  show fill: "fill w wb = (fill v wb)(z := S)" using geo(3) wpz wdz by (auto simp: fill_def fun_eq_iff simp flip: word_unat_eq_iff)
  show "psector w wb y k = psector v wb y k" if "y \<noteq> z" "unat y < v_zones v"
    using that w geo(3) buffered_wp_le [OF ok that(2)] by (auto simp: psector_def written_def word_unat_eq_iff)
  show "psector w wb z i = sector i data" if "i < S"
    using that w geo(3) data z(1) wpz wdz by (auto simp: psector_def written_def)
  show "buffered_ok w zm' wb"
    using ok fill geo zm' nb data(2) z(1) by (auto simp: buffered_ok_def zone_geoms_def wdz simp flip: word_unat_eq_iff)
qed

text \<open>
  Zone \<open>z\<close> is empty and now holds a copy of segment \<open>g\<close>, whose entries point there.
\<close>

lemma gc_place:
  fixes gs :: GCStats and d :: 'd and s :: "('d, 'j) ZTL"
  assumes ready: "gc_ready v V s" and p: "p = L2P_Get (ztl_l2p s) g" "p \<noteq> 0"
    and z: "unat z < v_zones v" "z \<notin> set (zm_freeList (ztl_zm s))" "z \<noteq> V" "fill v (ztl_buf s) z = 0"
    and data: "length data = sectorSize * unat (ztl_sectorsPerSeg s)" "\<And>i. i < unat (ztl_sectorsPerSeg s) \<Longrightarrow> sector i data = seg_sector v s g i"
    and w: "written v (unat z) 0 data w"
    and l2p: "L2P_Get l2p = (L2P_Get (ztl_l2p s))(g := EncodePhysAddr z 0)" "l2p_inv l2p" "l2p_size l2p = l2p_size (ztl_l2p s)"
    and zm: "zm_inv zm" "zm_geoms zm = zm_geoms (ztl_zm s)" "zm_freeList zm = zm_freeList (ztl_zm s)"
      "zm_WritePointer zm = (zm_WritePointer (ztl_zm s))(z := zone_lba v (unat z) (unat (ztl_sectorsPerSeg s)))"
  defines "t \<equiv> s\<lparr>ztl_l2p := l2p, ztl_p2l := P2L_Set (P2L_Delete (ztl_p2l s) p) (EncodePhysAddr z 0) g, ztl_zm := zm,
      ztl_gcStats := gs, ztl_device := d\<rparr>"
  shows "gc_ready w V t \<and> same_segs v s w t \<and> ZoneID (L2P_Get l2p g) = z"
proof -
  let ?S = "unat (ztl_sectorsPerSeg s)" and ?q = "EncodePhysAddr z 0" and ?wb = "ztl_buf s" and ?L = "L2P_Get (ztl_l2p s)"
  have inv: "ztl_inv v s" and f0: "0 < fill v ?wb 0" using ready by (auto simp: gc_ready_def)
  then have ok: "buffered_ok v (ztl_zm s) ?wb" and S: "0 < ?S" "?S \<le> v_size v" and zi: "zm_inv (ztl_zm s)" by (auto simp: ztl_inv_def)
  have z0: "z \<noteq> 0" using z(4) f0 by auto
  have "unat z < 2 ^ 24" using z(1) zone_geoms_length [OF ok] zi by (simp add: zm_inv_def)
  then have q: "ZoneID ?q = z" "OffsetSectors ?q = 0"
    using ZoneID_Encode [of z 0] OffsetSectors_Encode [of 0 z] by (auto simp: word_unat_eq_iff)
  have q0: "?q \<noteq> 0" using q(1) z0 by (auto simp: ZoneID_def)
  have geo: "v_zones w = v_zones v" "v_size w = v_size v" "v_wp w = (v_wp v)(unat z := ?S)" using w data(1) by (auto simp: written_def)
  note fresh = fresh_zone_view [OF ok z(1,4) w data(1) S(2) zm(2,4)]
  have other: "ZoneID (?L h) \<noteq> z" if "?L h \<noteq> 0" for h
    using inv that z(4) S(1) by (auto simp: ztl_inv_def seg_ok_def)
  have seg: "seg_ok w ?wb ?S (L2P_Get l2p h) \<and> P2L_Get (ztl_p2l t) (L2P_Get l2p h) = Some h" if "L2P_Get l2p h \<noteq> 0" for h
  proof (cases "h = g")
    case True
    then show ?thesis using l2p(1) q q0 z(1) geo fresh(2) by (simp add: t_def seg_ok_def)
  next
    case False
    then have h: "?L h \<noteq> 0" "L2P_Get l2p h = ?L h" using that l2p(1) by auto
    have "P2L_Get (ztl_p2l s) p = Some g" using inv p by (auto simp: ztl_inv_def)
    then have "?L h \<noteq> p" using inv h(1) False by (auto simp: ztl_inv_def)
    moreover have "?L h \<noteq> ?q" using other [OF h(1)] q(1) by auto
    moreover have "seg_ok v ?wb ?S (?L h)" "P2L_Get (ztl_p2l s) (?L h) = Some h" using inv h(1) by (auto simp: ztl_inv_def)
    moreover have "unat (ZoneID (?L h)) \<noteq> unat z" using other [OF h(1)] by (simp add: word_unat_eq_iff)
    ultimately show ?thesis using other [OF h(1)] by (simp add: h(2) t_def seg_ok_def geo fresh(2))
  qed
  have "bufs_not_free ?wb zm" using inv zm(3) by (simp add: ztl_inv_def bufs_not_free_def)
  then have "ztl_inv w t"
    using inv fresh(1) seg l2p(2,3) zm(1,3) geo fresh(2) z(2) by (auto simp: ztl_inv_def t_def)
  then have "gc_ready w V t" using ready fresh(2) geo zm(3) z0 z(3) by (auto simp: gc_ready_def t_def)
  moreover have "seg_sector w t h i = seg_sector v s h i" if i: "i < ?S" for h i
  proof (cases "h = g")
    case True
    then show ?thesis using l2p(1) q q0 fresh(4) [OF i] data(2) [OF i] by (simp add: seg_sector_def t_def Let_def)
  next
    case False
    have "unat (ZoneID (?L h)) < v_zones v" if "?L h \<noteq> 0" using inv that by (auto simp: ztl_inv_def seg_ok_def)
    then show ?thesis using l2p(1) False other [of h] fresh(3) by (simp add: seg_sector_def t_def Let_def)
  qed
  ultimately show ?thesis using l2p(1) q(1) by (simp add: same_segs_def t_def)
qed

section \<open>The victim reset\<close>

lemma zm_MarkEmpty_ok:
  assumes "zm_MarkEmpty zm z = (r, zm')" and "unat z < length (zm_zones zm)" and "zm_inv zm" and "z \<notin> set (zm_freeList zm)"
  shows "r = Inr () \<and> zm_inv zm' \<and> zm_freeList zm' = zm_freeList zm @ [z] \<and>
    zm_WritePointer zm' = (zm_WritePointer zm)(z := zm_ZoneStartLBA zm z)"
proof -
  let ?f = "\<lambda>z. z\<lparr>zi_State := ZoneStateEmpty, zi_WritePointer := zi_StartLBA z, zi_ValidSegs := 0, zi_TotalSegs := 0\<rparr>"
  have "zm_zones zm' = zm_zones (zm_modify zm z ?f)" "zm_freeList zm' = zm_freeList zm @ [z]" "r = Inr ()"
    using assms(1,2) by (auto simp: zm_MarkEmpty_def zm_dropOpen_def Let_def zm_modify_def split: option.splits)
  moreover from this have "zm_WritePointer zm' = zm_WritePointer (zm_modify zm z ?f)" by (simp add: zm_WritePointer_def fun_eq_iff)
  ultimately show ?thesis
    using zm_MarkEmpty_inv [OF assms(3,4,1)] assms(2) by (auto simp: fun_eq_iff zm_WritePointer_modify zm_ZoneStartLBA_def)
qed

lemma gc_reset:
  fixes gs :: GCStats and d :: 'd and s :: "('d, 'j) ZTL"
  assumes ready: "gc_ready v V s" and gone: "\<And>h. L2P_Get (ztl_l2p s) h \<noteq> 0 \<Longrightarrow> ZoneID (L2P_Get (ztl_l2p s) h) \<noteq> V"
    and w: "was_reset v (unat V) w" and m: "zm_MarkEmpty (ztl_zm s) V = (r, zm)"
  defines "t \<equiv> s\<lparr>ztl_device := d, ztl_zm := zm, ztl_gcStats := gs\<rparr>"
  shows "r = Inr () \<and> ztl_inv w t \<and> same_segs v s w t"
proof -
  let ?wb = "ztl_buf s" and ?L = "L2P_Get (ztl_l2p s)"
  have inv: "ztl_inv v s" and V: "unat V < v_zones v" "V \<notin> set (zm_freeList (ztl_zm s))" "map_of (wb_buffers ?wb) V = None"
    "ztl_currentZoneOpen s \<longrightarrow> ztl_currentWriteZone s \<noteq> V" using ready by (auto simp: gc_ready_def)
  then have ok: "buffered_ok v (ztl_zm s) ?wb" and zi: "zm_inv (ztl_zm s)" by (auto simp: ztl_inv_def)
  have zl: "unat V < length (zm_zones (ztl_zm s))" using zone_geoms_length [OF ok] V(1) by simp
  note me = zm_MarkEmpty_ok [OF m zl zi V(2)] and geo = zm_MarkEmpty_geoms [OF m]
  have st: "zm_ZoneStartLBA (ztl_zm s) V = zone_lba v (unat V) 0"
    by (rule zm_ZoneInfo_ok [OF ok V(1)]) (auto simp: zm_ZoneStartLBA_def zm_ZoneInfo_def split: if_splits)
  have f: "v_zones w = v_zones v" "v_size w = v_size v" "v_wp w = (v_wp v)(unat V := 0)" "zone_lba w = zone_lba v"
    using w by (auto simp: was_reset_def zone_lba_def fun_eq_iff)
  have nd: "wb_data ?wb V = []" using V(3) by (rule wb_data_None)
  have fill: "fill w ?wb = (fill v ?wb)(V := 0)" using f(3) nd by (auto simp: fill_def fun_eq_iff simp flip: word_unat_eq_iff)
  have ps: "psector w ?wb y = psector v ?wb y" if "y \<noteq> V" "unat y < v_zones v" for y
    using that w f(3) by (auto simp: psector_def was_reset_def fun_eq_iff word_unat_eq_iff)
  have bok: "buffered_ok w zm ?wb"
    using ok fill f geo me st V(3) nd by (auto simp: buffered_ok_def zone_geoms_def simp flip: word_unat_eq_iff)
  have seg: "seg_ok w ?wb S p = seg_ok v ?wb S p" if "ZoneID p \<noteq> V" for S p
    using that f fill by (simp add: seg_ok_def word_unat_eq_iff)
  have "bufs_not_free ?wb zm" using inv me V(3) by (auto simp: ztl_inv_def bufs_not_free_def)
  then have "ztl_inv w t" using inv bok me f fill V(4) gone seg by (auto simp: ztl_inv_def t_def)
  moreover have "seg_sector w t h i = seg_sector v s h i" for h i
  proof (cases "?L h = 0")
    case False
    then have "unat (ZoneID (?L h)) < v_zones v" using inv by (auto simp: ztl_inv_def seg_ok_def)
    then show ?thesis using gone [OF False] ps by (simp add: seg_sector_def t_def Let_def)
  qed (simp add: seg_sector_def t_def)
  ultimately show ?thesis using me by (simp add: same_segs_def t_def)
qed

context zoned_device
begin

text \<open>Reading a live segment of the victim returns its content, since nothing of the victim is buffered.\<close>

lemma gc_read_segment:
  assumes d: "dinv d" and ready: "gc_ready (view d) V s" and p: "p = L2P_Get (ztl_l2p s) g" "p \<noteq> 0" "ZoneID p = V"
    and zi: "zm_ZoneInfo (ztl_zm s) V = Some zi"
  shows "dev_ReadSectors ops d (zi_StartLBA zi + OffsetSectors p) (ucast (ztl_sectorsPerSeg s)) =
    (Inr (concat (map (seg_sector (view d) s g) [0..<unat (ztl_sectorsPerSeg s)])), d)"
proof -
  let ?S = "unat (ztl_sectorsPerSeg s)"
  have inv: "ztl_inv (view d) s" and V: "unat V < v_zones (view d)" and nb: "map_of (wb_buffers (ztl_buf s)) V = None"
    using ready by (auto simp: gc_ready_def)
  then have ok: "buffered_ok (view d) (ztl_zm s) (ztl_buf s)" and S: "0 < ?S" "?S < 2 ^ 32" by (auto simp: ztl_inv_def)
  obtain zi' where "zm_ZoneInfo (ztl_zm s) V = Some zi'" "zi_StartLBA zi' = zone_lba (view d) (unat V) 0"
    by (rule zm_ZoneInfo_ok [OF ok V])
  then have start: "zi_StartLBA zi = zone_lba (view d) (unat V) 0" using zi by simp
  have "wb_Lookup (ztl_buf s) (ZoneID p) lba n = None" for lba n using nb p(3) by (simp add: wb_Lookup_def)
  with ztl_seg_read [OF d inv p(1,2) S(1), of 0] show ?thesis by (simp add: p(3) start)
qed

lemma gc_data_sectors:
  fixes g :: SegmentID
  assumes d: "dinv d" and ready: "gc_ready (view d) V s"
  defines "X \<equiv> concat (map (seg_sector (view d) s g) [0..<unat (ztl_sectorsPerSeg s)])"
  shows "length X = sectorSize * unat (ztl_sectorsPerSeg s)"
    and "i < unat (ztl_sectorsPerSeg s) \<Longrightarrow> sector i X = seg_sector (view d) s g i"
proof -
  have len: "length (seg_sector (view d) s g i) = sectorSize" if "i < unat (ztl_sectorsPerSeg s)" for i
    using seg_sector_length [OF d _ that] ready by (simp add: gc_ready_def)
  show "length X = sectorSize * unat (ztl_sectorsPerSeg s)"
    unfolding X_def by (subst length_concat_sectors) (simp_all add: len)
  show "i < unat (ztl_sectorsPerSeg s) \<Longrightarrow> sector i X = seg_sector (view d) s g i"
    unfolding X_def by (subst sector_concat) (auto simp: len)
qed

text \<open>
  Migrating one segment: content and invariant are kept whatever the outcome. On success the segment has left the
  victim if it was at the given place; no other segment moves.
\<close>

definition gc_kept :: "u32 \<Rightarrow> ('d, 'j) ZTL \<Rightarrow> ('d, 'j) ZTL \<Rightarrow> bool" where
  "gc_kept V s t \<longleftrightarrow> dinv (ztl_device t) \<and> gc_ready (view (ztl_device t)) V t \<and>
     same_segs (view (ztl_device s)) s (view (ztl_device t)) t"

lemma gc_kept_trans: "gc_kept V r s \<Longrightarrow> gc_kept V s t \<Longrightarrow> gc_kept V r t"
  by (auto simp: gc_kept_def intro: same_segs_trans)

lemma gc_alloc:
  assumes d: "dinv (ztl_device s)" and ready: "gc_ready (view (ztl_device s)) V s"
    and a: "zm_AllocateFree ops (ztl_device s) (ztl_zm s) = (r, zm, d2)"
  defines "t \<equiv> s\<lparr>ztl_device := d2, ztl_zm := zm\<rparr>"
  shows "gc_kept V s t" and "r = Inr z \<Longrightarrow> unat z < v_zones (view d2) \<and> z \<notin> set (zm_freeList zm) \<and> z \<noteq> V \<and>
    fill (view d2) (ztl_buf s) z = 0 \<and> zm_WritePointer zm z = zone_lba (view d2) (unat z) 0 \<and> zm_ZoneStartLBA zm z = zone_lba (view d2) (unat z) 0"
proof -
  let ?v = "view (ztl_device s)"
  have inv: "ztl_inv ?v s" and V: "V \<notin> set (zm_freeList (ztl_zm s))" using ready by (auto simp: gc_ready_def)
  then have zi: "zm_inv (ztl_zm s)" and ok: "buffered_ok ?v (ztl_zm s) (ztl_buf s)" by (auto simp: ztl_inv_def)
  note az = zm_AllocateFree_inv [OF zi a] and ad = zm_AllocateFree_device [OF d a]
  have fr: "zm_geoms zm = zm_geoms (ztl_zm s)" "zm_WritePointer zm = zm_WritePointer (ztl_zm s)" "zm_ZoneStartLBA zm = zm_ZoneStartLBA (ztl_zm s)"
    using az zm_geoms_frame zm_frame_zone by (auto simp: fun_eq_iff)
  have sub: "set (zm_freeList zm) \<subseteq> set (zm_freeList (ztl_zm s))" using az by (auto split: sum.splits)
  have "gc_ready ?v V (s\<lparr>ztl_zm := zm\<rparr>)" using gc_ready_zm [OF ready _ fr(1,2) sub] az by blast
  from gc_ready_device [OF this, of "view d2" d2] ad
  have "gc_ready (view d2) V (s\<lparr>ztl_zm := zm, ztl_device := d2\<rparr>)" "seg_sector (view d2) (s\<lparr>ztl_zm := zm, ztl_device := d2\<rparr>) = seg_sector ?v (s\<lparr>ztl_zm := zm\<rparr>)"
    by auto
  moreover have "seg_sector ?v (s\<lparr>ztl_zm := zm\<rparr>) = seg_sector ?v s" by (rule seg_sector_cong) simp_all
  moreover have "t = s\<lparr>ztl_zm := zm, ztl_device := d2\<rparr>" by (simp add: t_def)
  ultimately show "gc_kept V s t" using ad by (simp add: gc_kept_def same_segs_def)
  assume r: "r = Inr z"
  then have free: "zm_freeList (ztl_zm s) = zm_freeList zm @ [z]" using az by simp
  have dist: "z \<notin> set (zm_freeList zm)" "unat z < length (zm_zones (ztl_zm s))"
    using zi free by (auto simp: zm_inv_def)
  have zz: "unat z < v_zones ?v" using dist zone_geoms_length [OF ok] by simp
  have f: "fill ?v (ztl_buf s) z = 0" using inv free by (auto simp: ztl_inv_def)
  have wp: "zm_WritePointer (ztl_zm s) z = zone_lba ?v (unat z) 0" using ok zz f by (simp add: buffered_ok_def)
  have "zm_ZoneStartLBA (ztl_zm s) z = zone_lba ?v (unat z) 0"
    by (rule zm_ZoneInfo_ok [OF ok zz]) (auto simp: zm_ZoneStartLBA_def zm_ZoneInfo_def split: if_splits)
  then show "unat z < v_zones (view d2) \<and> z \<notin> set (zm_freeList zm) \<and> z \<noteq> V \<and> fill (view d2) (ztl_buf s) z = 0 \<and>
      zm_WritePointer zm z = zone_lba (view d2) (unat z) 0 \<and> zm_ZoneStartLBA zm z = zone_lba (view d2) (unat z) 0"
    using zz dist V free f wp fr ad zone_lba_same [of ?v "view d2"] same_data_fill [of ?v "view d2"] by (auto simp: same_data_def)
qed

lemma gc_kept_p2l:
  assumes "dinv (ztl_device s)" and "gc_ready (view (ztl_device s)) V s"
  shows "gc_kept V s (s\<lparr>ztl_p2l := P2L_Delete (ztl_p2l s) 0\<rparr>)"
proof -
  have inv: "ztl_inv (view (ztl_device s)) s" using assms(2) by (simp add: gc_ready_def)
  then have "ztl_inv (view (ztl_device s)) (s\<lparr>ztl_p2l := P2L_Delete (ztl_p2l s) 0\<rparr>)"
    by (auto simp: ztl_inv_def P2L_Get_Delete)
  moreover have "seg_sector v (s\<lparr>ztl_p2l := P\<rparr>) = seg_sector v s" for v P by (rule seg_sector_cong) simp_all
  ultimately show ?thesis using assms by (simp add: gc_kept_def gc_ready_def same_segs_def)
qed

lemma gc_kept_journal [simp]: "gc_kept V s (t\<lparr>ztl_journal := j\<rparr>) = gc_kept V s t"
proof -
  have "seg_sector v (t\<lparr>ztl_journal := j\<rparr>) = seg_sector v t" for v by (rule seg_sector_cong) simp_all
  then show ?thesis by (simp add: gc_kept_def same_segs_def)
qed

text \<open>The segment is where the collector found it.\<close>

definition live_at :: "u32 \<Rightarrow> SegmentID \<Rightarrow> u64 \<Rightarrow> ('d, 'j) ZTL \<Rightarrow> bool" where
  "live_at V g off s \<longleftrightarrow> L2P_Get (ztl_l2p s) g \<noteq> 0 \<and> ZoneID (L2P_Get (ztl_l2p s) g) = V \<and> OffsetSectors (L2P_Get (ztl_l2p s) g) = off"

lemma gc_prepare_skips:
  assumes "dinv (ztl_device s)" and "gc_ready (view (ztl_device s)) V s" and "\<not> live_at V g off s"
    and "gc_migratePrepare ops jn V g off s = (r, t)"
  shows "r = Inr None \<and> gc_kept V s t \<and> ztl_l2p t = ztl_l2p s"
  using assms gc_kept_p2l [OF assms(1,2)]
  by (auto simp: gc_migratePrepare_def live_at_def IsUnmapped_def gc_kept_def Let_def split: if_splits)

lemma gc_prepare_live:
  assumes d: "dinv (ztl_device s)" and ready: "gc_ready (view (ztl_device s)) V s" and live: "live_at V g off s"
    and m: "gc_migratePrepare ops jn V g off s = (r, t)"
  obtains (fail) e where "r = Inl e" "gc_kept V s t"
  | (placed) z zm d2 j data d4 where
      "r = Inr (Some (L2P_Get (ztl_l2p s) g, z, zm_WritePointer zm z, EncodePhysAddr z 0, data))"
      "t = s\<lparr>ztl_zm := zm, ztl_journal := j, ztl_device := d4\<rparr>"
      "zm_AllocateFree ops (ztl_device s) (ztl_zm s) = (Inr z, zm, d2)"
      "data = concat (map (seg_sector (view (ztl_device s)) s g) [0..<unat (ztl_sectorsPerSeg s)])"
      "dinv d4" "written (view d2) (unat z) 0 data (view d4)"
proof -
  let ?p = "L2P_Get (ztl_l2p s) g" and ?d = "ztl_device s"
  have p: "?p \<noteq> 0" "ZoneID ?p = V" "OffsetSectors ?p = off" using live by (auto simp: live_at_def)
  have inv: "ztl_inv (view ?d) s" and V: "unat V < v_zones (view ?d)" using ready by (auto simp: gc_ready_def)
  then have ok: "buffered_ok (view ?d) (ztl_zm s) (ztl_buf s)" and S: "0 < unat (ztl_sectorsPerSeg s)"
    "unat (ztl_sectorsPerSeg s) < 2 ^ 32" "unat (ztl_sectorsPerSeg s) \<le> v_size (view ?d)" by (auto simp: ztl_inv_def)
  obtain zi where zi: "zm_ZoneInfo (ztl_zm s) V = Some zi" by (rule zm_ZoneInfo_ok [OF ok V])
  define data where "data = concat (map (seg_sector (view ?d) s g) [0..<unat (ztl_sectorsPerSeg s)])"
  have rd: "dev_ReadSectors ops ?d (zi_StartLBA zi + off) (ucast (ztl_sectorsPerSeg s)) = (Inr data, ?d)"
    using gc_read_segment [OF d ready refl p(1,2) zi] p(3) by (simp add: data_def)
  have len: "length data = sectorSize * unat (ztl_sectorsPerSeg s)" unfolding data_def by (rule gc_data_sectors [OF d ready])
  then have data: "data \<noteq> []" "length data < 2 ^ 63" using S by auto
  obtain ra zm d2 where a: "zm_AllocateFree ops ?d (ztl_zm s) = (ra, zm, d2)" by (metis prod_cases3)
  note al = gc_alloc [OF d ready a]
  show thesis
  proof (cases ra)
    case (Inl e)
    then show thesis using m p zi rd a al(1) fail by (auto simp: gc_migratePrepare_def IsUnmapped_def Let_def)
  next
    case (Inr z)
    note z = al(2) [OF Inr]
    let ?t = "s\<lparr>ztl_device := d2, ztl_zm := zm\<rparr>"
    have d2: "dinv d2" "v_size (view d2) = v_size (view ?d)" using zm_AllocateFree_device [OF d a] by (auto simp: same_data_def)
    obtain rl s3 where l: "log_l2p jn g ?p (EncodePhysAddr z 0) ?t = (rl, s3)" by fastforce
    then obtain j where s3: "s3 = ?t\<lparr>ztl_journal := j\<rparr>" using log_l2p_state by blast
    obtain rw d4 where w: "dev_WriteSectors ops d2 (zm_WritePointer zm z) data = (rw, d4)" by fastforce
    have prep: "gc_migratePrepare ops jn V g off s =
        (case rl of Inl err \<Rightarrow> (Inl (Wrap ''logging L2P update for segment'' err), s3)
         | Inr _ \<Rightarrow> (case rw of Inl err \<Rightarrow> (Inl (Wrap ''writing migrated data to zone'' err), s3\<lparr>ztl_device := d4\<rparr>)
             | Inr _ \<Rightarrow> (Inr (Some (?p, z, zm_WritePointer zm z, EncodePhysAddr z 0, data)), s3\<lparr>ztl_device := d4\<rparr>)))"
      using p zi rd a Inr z l w s3 by (auto simp: gc_migratePrepare_def IsUnmapped_def Let_def split: sum.splits)
    show thesis
    proof (cases "\<exists>e. rl = Inl e \<or> rw = Inl e")
      case True
      have "gc_kept V ?t (s3\<lparr>ztl_device := d4\<rparr>)" if "rw = Inl e" for e
      proof -
        have k: "dinv d4" "same_data (view d2) (view d4)" using WriteSectors_error [OF d2(1) data(2)] w that by auto
        have "gc_ready (view d2) V s3" using al(1) by (simp add: gc_kept_def s3)
        from gc_ready_device [OF this k(2)] k(1) show ?thesis using seg_sector_cong [of s3 ?t "view d2"] by (simp add: gc_kept_def same_segs_def s3)
      qed
      then show thesis using True prep m al(1) fail gc_kept_trans [OF al(1)] by (auto simp: s3 split: sum.splits)
    next
      case False
      then have ok: "rl = Inr ()" "rw = Inr ()" by (cases rl; cases rw; auto)+
      have "dinv d4 \<and> written (view d2) (unat z) 0 data (view d4)"
        using WriteSectors_ok [OF d2(1), of "unat z" 0 data d4] w z d2(2) S data ok(2) by auto
      moreover have "t = s\<lparr>ztl_zm := zm, ztl_journal := j, ztl_device := d4\<rparr>" using m prep ok by (simp add: s3)
      ultimately show thesis using placed [of z zm data d4 j d2] m prep ok a Inr by (simp add: data_def)
    qed
  qed
qed

lemma gc_migrateSegment_ok:
  assumes d: "dinv (ztl_device s)" and ready: "gc_ready (view (ztl_device s)) V s" and m: "gc_migrateSegment ops jn V g off s = (r, t)"
  shows "gc_kept V s t \<and> (r = Inr () \<longrightarrow> \<not> live_at V g off t \<and>
    (\<forall>h. L2P_Get (ztl_l2p t) h \<noteq> 0 \<and> ZoneID (L2P_Get (ztl_l2p t) h) = V \<longrightarrow> L2P_Get (ztl_l2p t) h = L2P_Get (ztl_l2p s) h))"
proof -
  obtain rp s1 where prep: "gc_migratePrepare ops jn V g off s = (rp, s1)" by fastforce
  show ?thesis
  proof (cases "live_at V g off s")
    case False
    then show ?thesis using gc_prepare_skips [OF d ready False prep] m prep by (auto simp: gc_migrateSegment_def live_at_def)
  next
    case True
    from d ready True prep show ?thesis
    proof (cases rule: gc_prepare_live)
      case (fail e)
      then show ?thesis using m prep by (auto simp: gc_migrateSegment_def)
    next
      case (placed z zm d2 j data d4)
      let ?s2 = "s\<lparr>ztl_zm := zm, ztl_journal := j, ztl_device := d2\<rparr>" and ?p = "L2P_Get (ztl_l2p s) g" and ?q = "EncodePhysAddr z 0"
      let ?zm = "zm_IncrementValidSegs (zm_DecrementValidSegs (zm_UpdateWritePointer zm z (zm_WritePointer zm z + ztl_sectorsPerSeg s)) V) z"
      note al = gc_alloc [OF d ready placed(3)]
      have p: "?p \<noteq> 0" "ZoneID ?p = V" using True by (auto simp: live_at_def)
      have inv: "ztl_inv (view (ztl_device s)) s" using ready by (simp add: gc_ready_def)
      obtain b l2p where cas: "L2P_CAS (ztl_l2p s) g ?p ?q = (b, l2p)" by fastforce
      have l: "b" "l2p_inv l2p" "l2p_size l2p = l2p_size (ztl_l2p s)" "L2P_Get l2p = (L2P_Get (ztl_l2p s))(g := ?q)"
        using L2P_CAS_cases [OF cas] inv p(1) by (auto simp: ztl_inv_def L2P_Get_def split: if_splits)
      have eq: "?s2 = s\<lparr>ztl_device := d2, ztl_zm := zm\<rparr>\<lparr>ztl_journal := j\<rparr>" by simp
      have kept: "gc_kept V s ?s2" unfolding eq gc_kept_journal by (rule al(1))
      then have ready2: "gc_ready (view d2) V ?s2" and same: "same_segs (view (ztl_device s)) s (view d2) ?s2" by (simp_all add: gc_kept_def)
      have zi: "zm_inv zm" using ready2 by (simp add: gc_ready_def ztl_inv_def)
      have zlen: "unat z < length (zm_zones zm)"
        using ready2 al(2) zone_geoms_length [of "view d2" zm "ztl_buf s"] by (simp add: gc_ready_def ztl_inv_def)
      define gs where "gs = (ztl_gcStats s)\<lparr>gs_BytesMigrated := gs_BytesMigrated (ztl_gcStats s) + int (length data)\<rparr>"
      define u where "u = ?s2\<lparr>ztl_l2p := l2p, ztl_p2l := P2L_Set (P2L_Delete (ztl_p2l ?s2) ?p) ?q g, ztl_zm := ?zm, ztl_gcStats := gs, ztl_device := d4\<rparr>"
      have t: "t = u" "r = Inr ()" using m prep placed(1,2) cas l(1) by (auto simp: gc_migrateSegment_def gc_migrateCommit_def Let_def gs_def u_def)
      have sec: "sector i data = seg_sector (view d2) ?s2 g i" if "i < unat (ztl_sectorsPerSeg s)" for i
        using gc_data_sectors(2) [OF d ready that, of g] same that by (simp add: placed(4) same_segs_def)
      have "gc_ready (view d4) V u \<and> same_segs (view d2) ?s2 (view d4) u \<and> ZoneID (L2P_Get l2p g) = z"
        unfolding u_def
      proof (rule gc_place [OF ready2])
        show "length data = sectorSize * unat (ztl_sectorsPerSeg ?s2)" using gc_data_sectors(1) [OF d ready] by (simp add: placed(4))
        show "zm_WritePointer ?zm = (zm_WritePointer (ztl_zm ?s2))(z := zone_lba (view d2) (unat z) (unat (ztl_sectorsPerSeg ?s2)))"
          using zlen al(2) zone_lba_add [of "view d2" "unat z" 0 "unat (ztl_sectorsPerSeg s)"] by simp
        show "zm_inv ?zm" by (intro zm_counters_inv zi)
      qed (use p l al(2) sec placed(6) in simp_all)
      then have "gc_kept V ?s2 t" "ZoneID (L2P_Get (ztl_l2p t) g) = z" using placed(5) by (simp_all add: gc_kept_def t(1)) (simp_all add: u_def)
      moreover have "z \<noteq> V" using al(2) by simp
      moreover have "L2P_Get (ztl_l2p t) = (L2P_Get (ztl_l2p s))(g := ?q)" using l(4) by (simp add: t(1) u_def)
      ultimately show ?thesis using gc_kept_trans [OF kept] by (auto simp: live_at_def)
    qed
  qed
qed

lemma gc_migrateAll_ok:
  "dinv (ztl_device s) \<Longrightarrow> gc_ready (view (ztl_device s)) V s \<Longrightarrow> gc_migrateAll ops jn V segs s = (r, t) \<Longrightarrow>
   gc_kept V s t \<and> (r = Inr () \<longrightarrow> (\<forall>h. L2P_Get (ztl_l2p t) h \<noteq> 0 \<and> ZoneID (L2P_Get (ztl_l2p t) h) = V \<longrightarrow>
      L2P_Get (ztl_l2p t) h = L2P_Get (ztl_l2p s) h \<and> (OffsetSectors (L2P_Get (ztl_l2p t) h), h) \<notin> set segs))"
proof (induction segs arbitrary: s)
  case Nil
  then show ?case by (simp add: gc_kept_def)
next
  case (Cons x segs)
  obtain off g where x: "x = (off, g)" by fastforce
  obtain r1 s1 where s1: "gc_migrateSegment ops jn V g off s = (r1, s1)" by fastforce
  note step = gc_migrateSegment_ok [OF Cons.prems(1,2) s1]
  show ?case
  proof (cases r1)
    case (Inl e)
    then show ?thesis using Cons.prems(3) s1 step by (auto simp: x)
  next
    case (Inr u)
    have k: "dinv (ztl_device s1)" "gc_ready (view (ztl_device s1)) V s1" using step by (auto simp: gc_kept_def)
    have "gc_migrateAll ops jn V segs s1 = (r, t)" using Cons.prems(3) s1 Inr by (simp add: x)
    from Cons.IH [OF k this] step Inr show ?thesis
      using gc_kept_trans [of V s s1 t] by (auto simp: x live_at_def)
  qed
qed

text \<open>The list the collector works through is complete.\<close>

lemma gc_liveSegs_complete:
  assumes "ztl_inv v s" and "\<And>xs. set (ord xs) = set xs" and "L2P_Get (ztl_l2p s) h \<noteq> 0" and "ZoneID (L2P_Get (ztl_l2p s) h) = V"
  shows "(OffsetSectors (L2P_Get (ztl_l2p s) h), h) \<in> set (gc_liveSegs ord V s)"
proof -
  have "p2l_inv (ztl_p2l s)" "P2L_Get (ztl_p2l s) (L2P_Get (ztl_l2p s) h) = Some h" using assms(1,3) by (auto simp: ztl_inv_def)
  then show ?thesis
    using set_P2L_IterateZone [of "ztl_p2l s" ord, OF _ assms(2)] assms(3,4)
    by (simp add: gc_liveSegs_def P2L_Get_def p2l_key_def IsUnmapped_def)
qed

text \<open>What every outcome of a collection keeps.\<close>

definition gc_safe :: "('d, 'j) ZTL \<Rightarrow> ('d, 'j) ZTL \<Rightarrow> bool" where
  "gc_safe s t \<longleftrightarrow> dinv (ztl_device t) \<and> ztl_inv (view (ztl_device t)) t \<and> same_segs (view (ztl_device s)) s (view (ztl_device t)) t"

lemma gc_kept_safe: "gc_kept V s t \<Longrightarrow> gc_safe s t"
  by (simp add: gc_kept_def gc_safe_def gc_ready_def)

lemma gc_kept_safe_trans: "gc_kept V r s \<Longrightarrow> gc_safe s t \<Longrightarrow> gc_safe r t"
  by (auto simp: gc_kept_def gc_safe_def intro: same_segs_trans)

lemma gc_safe_zm:
  assumes "gc_safe s t" and "zm_inv zm" and "zm_geoms zm = zm_geoms (ztl_zm t)" and "zm_WritePointer zm = zm_WritePointer (ztl_zm t)"
    and "zm_freeList zm = zm_freeList (ztl_zm t)"
  shows "gc_safe s (t\<lparr>ztl_zm := zm\<rparr>)"
proof -
  have "seg_sector v (t\<lparr>ztl_zm := zm\<rparr>) = seg_sector v t" for v by (rule seg_sector_cong) simp_all
  then show ?thesis using assms ztl_inv_zm [OF _ assms(2-4)] by (auto simp: gc_safe_def same_segs_def)
qed

lemma gc_resetVictim_ok:
  assumes d: "dinv (ztl_device s)" and ready: "gc_ready (view (ztl_device s)) V s"
    and gone: "\<And>h. L2P_Get (ztl_l2p s) h \<noteq> 0 \<Longrightarrow> ZoneID (L2P_Get (ztl_l2p s) h) \<noteq> V"
    and m: "gc_resetVictim ops jn V s = (r, t)"
  shows "gc_safe s t"
proof -
  have refl: "gc_kept V s s" using d ready by (simp add: gc_kept_def)
  then have j: "gc_safe s (s\<lparr>ztl_journal := j\<rparr>)" for j using gc_kept_safe [of V s] by simp
  obtain r1 s1 where l1: "log_call (\<lambda>J j. jn_LogZoneReset J j V) jn s = (r1, s1)" by fastforce
  then obtain j1 where s1: "s1 = s\<lparr>ztl_journal := j1\<rparr>" using log_call_state by blast
  obtain r2 s2 where l2: "log_call jn_GroupCommit jn s1 = (r2, s2)" by fastforce
  then obtain j2 where s2: "s2 = s\<lparr>ztl_journal := j2\<rparr>" using log_call_state s1 by fastforce
  have V: "unat V < v_zones (view (ztl_device s))" "buffered_ok (view (ztl_device s)) (ztl_zm s) (ztl_buf s)"
    using ready by (auto simp: gc_ready_def ztl_inv_def)
  obtain zi where zi: "zm_ZoneInfo (ztl_zm s) V = Some zi" "zi_StartLBA zi = zone_lba (view (ztl_device s)) (unat V) 0"
    by (rule zm_ZoneInfo_ok [OF V(2,1)])
  obtain r3 d3 where rs: "dev_ResetZone ops (ztl_device s) (zi_StartLBA zi) = (r3, d3)" by fastforce
  obtain r4 zm4 where me: "zm_MarkEmpty (ztl_zm s) V = (r4, zm4)" by fastforce
  have ready2: "gc_ready (view (ztl_device s)) V s2" using ready by (simp add: s2)
  have gone2: "\<And>h. L2P_Get (ztl_l2p s2) h \<noteq> 0 \<Longrightarrow> ZoneID (L2P_Get (ztl_l2p s2) h) \<noteq> V" using gone by (simp add: s2)
  have same: "same_segs v s w (s2\<lparr>ztl_device := d3, ztl_zm := zm, ztl_gcStats := gs\<rparr>) =
    same_segs v s2 w (s2\<lparr>ztl_device := d3, ztl_zm := zm, ztl_gcStats := gs\<rparr>)" for v w zm gs
    using seg_sector_cong [of s2 s v] by (simp add: same_segs_def s2)
  show ?thesis
  proof (cases "\<exists>e. r1 = Inl e \<or> r2 = Inl e \<or> r3 = Inl e")
    case True
    have "gc_safe s (s2\<lparr>ztl_device := d3\<rparr>)" if "r3 = Inl e" for e
    proof -
      have k: "dinv d3" "same_data (view (ztl_device s)) (view d3)" using ResetZone_error [OF d] rs that by auto
      from gc_ready_device [OF ready2 k(2)] k(1) show ?thesis
        using seg_sector_cong [of s2 s "view (ztl_device s)"] by (simp add: gc_safe_def same_segs_def gc_ready_def s2)
    qed
    then show ?thesis using True m l1 l2 zi(1) rs me j
      by (auto simp: gc_resetVictim_def s1 s2 split: sum.splits prod.splits)
  next
    case False
    then have ok: "r1 = Inr ()" "r2 = Inr ()" "r3 = Inr ()" by (cases r1; cases r2; cases r3; auto)+
    have k: "dinv d3" "was_reset (view (ztl_device s)) (unat V) (view d3)" using ResetZone_ok [OF d V(1)] rs ok(3) zi(2) by auto
    have rz: "r4 = Inr () \<and> ztl_inv (view d3) (s2\<lparr>ztl_device := d3, ztl_zm := zm4, ztl_gcStats := gs\<rparr>) \<and>
        same_segs (view (ztl_device s)) s2 (view d3) (s2\<lparr>ztl_device := d3, ztl_zm := zm4, ztl_gcStats := gs\<rparr>)" for gs
      using gc_reset [OF ready2 gone2 k(2)] me by (simp add: s2)
    show ?thesis using m l1 l2 zi(1) rs me ok k(1) rz same
      by (auto simp: gc_resetVictim_def gc_safe_def s2)
  qed
qed

lemma gc_collectZone_ok:
  assumes d: "dinv (ztl_device s)" and ready: "gc_ready (view (ztl_device s)) V s" and ord: "\<And>xs. set (ord xs) = set xs"
    and m: "gc_collectZone ord ops jn V s = (r, t)"
  shows "gc_safe s t"
proof -
  let ?s1 = "s\<lparr>ztl_zm := zm_Freeze (ztl_zm s) V\<rparr>"
  have zi: "zm_inv (ztl_zm s)" using ready by (simp add: gc_ready_def ztl_inv_def)
  have r1: "gc_ready (view (ztl_device s)) V ?s1" using ready zm_freeze_inv [OF zi] by (intro gc_ready_zm) simp_all
  have k1: "gc_kept V s ?s1" using d r1 seg_sector_cong [of ?s1 s] by (simp add: gc_kept_def same_segs_def)
  obtain ra u where ma: "gc_migrateAll ops jn V (gc_liveSegs ord V ?s1) ?s1 = (ra, u)" by fastforce
  have d1: "dinv (ztl_device ?s1)" and r1': "gc_ready (view (ztl_device ?s1)) V ?s1" using d r1 by simp_all
  note mv = gc_migrateAll_ok [OF d1 r1' ma]
  have k2: "gc_kept V s u" using gc_kept_trans [OF k1] mv by blast
  obtain rb w where w: "(case ra of Inl err \<Rightarrow> (Inl err, u) | Inr _ \<Rightarrow> gc_resetVictim ops jn V u) = (rb, w)" by fastforce
  have "gc_safe s w"
  proof (cases ra)
    case (Inl e)
    then show ?thesis using w gc_kept_safe [OF k2] by simp
  next
    case (Inr x)
    have "ZoneID (L2P_Get (ztl_l2p u) h) \<noteq> V" if "L2P_Get (ztl_l2p u) h \<noteq> 0" for h
      using mv that Inr gc_liveSegs_complete [of "view (ztl_device s)" ?s1 ord h V, OF _ ord] r1 by (auto simp: gc_ready_def)
    then have "gc_safe u w" using gc_resetVictim_ok [of u V jn rb w] k2 w Inr by (auto simp: gc_kept_def)
    then show ?thesis by (rule gc_kept_safe_trans [OF k2])
  qed
  moreover have "t = w\<lparr>ztl_zm := zm_Unfreeze (ztl_zm w) V\<rparr>" using m ma w by (auto simp: gc_collectZone_def Let_def split: sum.splits prod.splits)
  moreover have "zm_inv (ztl_zm w)" using calculation(1) by (simp add: gc_safe_def ztl_inv_def)
  ultimately show ?thesis using gc_safe_zm [of s w "zm_Unfreeze (ztl_zm w) V"] zm_freeze_inv by simp
qed

end

section \<open>Properties\<close>

text \<open>
  What a cycle relies on, and the code does not check: the victim it will choose is not on the free list, is not the
  current write zone and has no data in the write buffer; and zone 0 is not empty.
\<close>

definition gc_victim_ok :: "(Emulator, 'j) ZTL \<Rightarrow> bool" where
  "gc_victim_ok s \<longleftrightarrow>
     (case zm_SelectGCVictim (ztl_zm s) of (victim, found) \<Rightarrow>
        found \<longrightarrow> victim \<notin> set (zm_freeList (ztl_zm s)) \<and> (ztl_currentZoneOpen s \<longrightarrow> ztl_currentWriteZone s \<noteq> victim) \<and>
          map_of (wb_buffers (ztl_buf s)) victim = None)"

lemma gc_victim_ready:
  assumes "ztl_good s" and "gc_victim_ok s" and "zm_SelectGCVictim (ztl_zm s) = (V, True)"
  shows "gc_ready (em_view (ztl_device s)) V s"
proof -
  have inv: "ztl_inv (em_view (ztl_device s)) s" using assms(1) by (simp add: ztl_good_def)
  then have zi: "zm_inv (ztl_zm s)" and ok: "buffered_ok (em_view (ztl_device s)) (ztl_zm s) (ztl_buf s)" by (auto simp: ztl_inv_def)
  obtain i where i: "i < length (zm_zones (ztl_zm s))" "zi_ID (zm_zones (ztl_zm s) ! i) = V"
    using zm_SelectGCVictim_spec(2) [OF assms(3)] by (auto simp: in_set_conv_nth)
  then have "V = of_nat i" "i < 2 ^ 24" using zi by (auto simp: zm_inv_def)
  then have "unat V = i" by (simp add: unat_of_nat take_bit_nat_eq_self)
  then show ?thesis using assms i(1) inv zone_geoms_length [OF ok] by (simp add: gc_ready_def gc_victim_ok_def ztl_good_def)
qed

lemma gc_stats_state [simp]:
  "ztl_inv v (s\<lparr>ztl_gcStats := gs\<rparr>) = ztl_inv v s" "logical v (s\<lparr>ztl_gcStats := gs\<rparr>) = logical v s"
  "ztl_inv v (s\<lparr>ztl_triggerCh := b\<rparr>) = ztl_inv v s" "logical v (s\<lparr>ztl_triggerCh := b\<rparr>) = logical v s"
  by (auto simp: ztl_inv_def logical_def seg_sector_def fun_eq_iff Let_def)

lemma gc_runCycle_ok:
  assumes "ztl_good s" and "gc_victim_ok s" and "\<And>xs. set (ord xs) = set xs"
  shows "em_inv (ztl_device (gc_runCycle ord em_dev jn s)) \<and>
    ztl_inv (em_view (ztl_device (gc_runCycle ord em_dev jn s))) (gc_runCycle ord em_dev jn s) \<and>
    ztl_sectorsPerSeg (gc_runCycle ord em_dev jn s) = ztl_sectorsPerSeg s \<and> ztl_content (gc_runCycle ord em_dev jn s) = ztl_content s"
proof -
  define s1 where "s1 = s\<lparr>ztl_gcStats := (ztl_gcStats s)\<lparr>gs_Running := 1, gs_RunCount := gs_RunCount (ztl_gcStats s) + 1\<rparr>\<rparr>"
  have good: "ztl_good s1" "gc_victim_ok s1" "ztl_content s1 = ztl_content s"
    using assms(1,2) by (simp_all add: s1_def ztl_good_def gc_victim_ok_def ztl_content_def)
  obtain V f where sel: "zm_SelectGCVictim (ztl_zm s1) = (V, f)" by fastforce
  define s2 where "s2 = (if \<not> f then s1 else snd (gc_collectZone ord em_dev jn V s1))"
  have "em_inv (ztl_device s2) \<and> ztl_inv (em_view (ztl_device s2)) s2 \<and> ztl_sectorsPerSeg s2 = ztl_sectorsPerSeg s \<and> ztl_content s2 = ztl_content s"
  proof (cases f)
    case True
    obtain r where "gc_collectZone ord em_dev jn V s1 = (r, s2)" using True by (cases "gc_collectZone ord em_dev jn V s1") (simp add: s2_def)
    then have "em.gc_safe s1 s2"
      using em.gc_collectZone_ok [of s1 V ord jn r s2] gc_victim_ready [OF good(1,2)] sel True good(1) assms(3) by (simp add: ztl_good_def)
    then show ?thesis
      using same_segs_logical [of "em_view (ztl_device s1)" s1 "em_view (ztl_device s2)" s2] good
      by (auto simp: em.gc_safe_def ztl_content_def ztl_good_def ztl_inv_def same_segs_def s1_def)
  qed (use good in \<open>simp add: s2_def s1_def ztl_good_def\<close>)
  moreover have "gc_runCycle ord em_dev jn s = s2\<lparr>ztl_gcStats := (ztl_gcStats s2)\<lparr>gs_Running := 0\<rparr>\<rparr>"
    using sel by (simp add: gc_runCycle_def Let_def s1_def s2_def)
  ultimately show ?thesis by (simp add: ztl_content_def)
qed

lemma gc_run_ok:
  assumes "ztl_good s" and "gc_victim_ok s" and "\<And>xs. set (ord xs) = set xs" and "gc_run ord em_dev jn event s = t"
  shows "em_inv (ztl_device t) \<and> ztl_inv (em_view (ztl_device t)) t \<and> ztl_sectorsPerSeg t = ztl_sectorsPerSeg s \<and> ztl_content t = ztl_content s"
proof -
  have good: "ztl_good (s\<lparr>ztl_triggerCh := False\<rparr>)" "gc_victim_ok (s\<lparr>ztl_triggerCh := False\<rparr>)"
    "ztl_content (s\<lparr>ztl_triggerCh := False\<rparr>) = ztl_content s"
    using assms(1,2) by (simp_all add: ztl_good_def gc_victim_ok_def ztl_content_def)
  show ?thesis
    using gc_runCycle_ok [OF assms(1-3), of jn] gc_runCycle_ok [OF good(1,2) assms(3), of jn] good(3) assms(1,4)
    by (cases event) (auto simp: ztl_good_def)
qed


text \<open>Three zones of one segment: zone 0 in use, zone 1 with the live segment 0 and due for collection, zone 2 free.\<close>

definition em_gdemo :: Emulator where
  "em_gdemo = \<lparr>em_zones = [\<lparr>zs_state = ZoneStateFull, zs_writePointer = 2, zs_data = replicate 1024 7\<rparr>,
                           \<lparr>zs_state = ZoneStateFull, zs_writePointer = 4, zs_data = replicate 1024 9\<rparr>,
                           \<lparr>zs_state = ZoneStateEmpty, zs_writePointer = 4, zs_data = zeros 1024\<rparr>],
               em_zoneCount = 3, em_zoneSectors = 2, em_maxOpenZones = 1, em_openCount = 0\<rparr>"

definition ztl_gdemo :: "(Emulator, unit) ZTL" where
  "ztl_gdemo = ztl_demo\<lparr>ztl_l2p := \<lparr>l2p_entries = [0x10000000000, 0, 0], l2p_size = 3\<rparr>,
     ztl_p2l := \<lparr>p2l_entries = [(p2l_key 0x10000000000, 0)]\<rparr>, ztl_device := em_gdemo,
     ztl_zm := \<lparr>zm_zones = [(zi_demo 0 ZoneStateFull 0 0)\<lparr>zi_WritePointer := 2\<rparr>,
        (zi_demo 1 ZoneStateFull 1 2)\<lparr>zi_WritePointer := 4, zi_StartLBA := 2\<rparr>,
        (zi_demo 2 ZoneStateEmpty 0 0)\<lparr>zi_WritePointer := 4, zi_StartLBA := 4\<rparr>],
       zm_freeList = [2], zm_openList = [], zm_openSet = [], zm_frozenSet = [], zm_maxOpenZones = 1, zm_nextEl = 0\<rparr>,
     ztl_triggerCh := True\<rparr>"

lemma em_gdemo_inv: "em_inv em_gdemo"
proof -
  have "em_zone_ok 2 i \<lparr>zs_state = ZoneStateFull, zs_writePointer = of_nat (2 * i + 2), zs_data = replicate 1024 x\<rparr>" if "i < 2" for i x
    using that by (auto simp: em_zone_ok_def all_less_two less_2_cases_iff)
  from this [of 0] this [of 1] have "em_zone_ok 2 0 \<lparr>zs_state = ZoneStateFull, zs_writePointer = 2, zs_data = replicate 1024 7\<rparr>"
    "em_zone_ok 2 1 \<lparr>zs_state = ZoneStateFull, zs_writePointer = 4, zs_data = replicate 1024 9\<rparr>" by simp_all
  moreover have "em_zone_ok 2 (Suc (Suc 0)) \<lparr>zs_state = ZoneStateEmpty, zs_writePointer = 4, zs_data = zeros 1024\<rparr>"
    by (simp add: em_zone_ok_def all_less_two sector_def zeros_def)
  ultimately show ?thesis by (simp add: em_inv_def em_gdemo_def isOpen_def All_less_Suc)
qed

lemma ztl_gdemo_good: "ztl_good ztl_gdemo" "gc_victim_ok ztl_gdemo"
proof -
  have fields: "ztl_device ztl_gdemo = em_gdemo" "wb_buffers (ztl_buf ztl_gdemo) = []" "unat (ztl_sectorsPerSeg ztl_gdemo) = 2"
    "zm_freeList (ztl_zm ztl_gdemo) = [2]" "ztl_currentZoneOpen ztl_gdemo = False" "l2p_size (ztl_l2p ztl_gdemo) = 3" "wb_sectorSize (ztl_buf ztl_gdemo) = 512"
    by (simp_all add: ztl_gdemo_def ztl_demo_def)
  have z3: "(unat z < 3) \<longleftrightarrow> z \<in> {0, 1, 2}" for z :: u32
    by (auto simp: word_unat_eq_iff)
  have fill: "fill (em_view em_gdemo) (ztl_buf ztl_gdemo) z = v_wp (em_view em_gdemo) (unat z)" "wb_data (ztl_buf ztl_gdemo) z = []" for z
    by (simp_all add: fill_def fields wb_data_def)
  have l2p: "L2P_Get (ztl_l2p ztl_gdemo) g = (if g = 0 then 0x10000000000 else 0)" for g
    by (auto simp: L2P_Get_def ztl_gdemo_def word_less_nat_alt not_le word_unat_eq_iff nth_Cons split: nat.splits)
  have zm: "zm_inv (ztl_zm ztl_gdemo)"
    by (simp add: zm_inv_def ztl_gdemo_def open_ok_def open_zones_def zi_demo_def All_less_Suc)
  have "buffered_ok (em_view em_gdemo) (ztl_zm ztl_gdemo) (ztl_buf ztl_gdemo)"
    by (auto simp: buffered_ok_def fields em_gdemo_def fill z3 zone_geoms_def zm_geoms_def zone_lba_def zm_WritePointer_def ztl_gdemo_def ztl_demo_def
        zi_demo_def upt_rec wb_data_def fill_def simp flip: numeral_3_eq_3)
  moreover have "L2P_Get (ztl_l2p ztl_gdemo) g \<noteq> 0 \<Longrightarrow> seg_ok (em_view em_gdemo) (ztl_buf ztl_gdemo) 2 (L2P_Get (ztl_l2p ztl_gdemo) g) \<and>
      P2L_Get (ztl_p2l ztl_gdemo) (L2P_Get (ztl_l2p ztl_gdemo) g) = Some g" for g
    by (cases "g = 0") (simp_all add: l2p seg_ok_def fill demo_addr, simp_all add: em_gdemo_def ztl_gdemo_def P2L_Get_def)
  moreover have "l2p_inv (ztl_l2p ztl_gdemo)" "p2l_inv (ztl_p2l ztl_gdemo)" "fill (em_view em_gdemo) (ztl_buf ztl_gdemo) 2 = 0"
    "fill (em_view em_gdemo) (ztl_buf ztl_gdemo) 0 = 2" "v_size (em_view em_gdemo) = 2"
    unfolding fill by (simp_all add: l2p_inv_def p2l_inv_def ztl_gdemo_def em_gdemo_def)
  ultimately show "ztl_good ztl_gdemo"
    using em_gdemo_inv zm by (simp add: ztl_good_def ztl_inv_def fields bufs_not_free_def del: em_view_simps)
  show "gc_victim_ok ztl_gdemo"
    by (simp add: gc_victim_ok_def fields) (simp add: zm_SelectGCVictim_def zm_selectRound_def gc_candidate_def ztl_gdemo_def zi_demo_def GCScore_def)
qed

lemma ztl_gdemo_run: "zm_freeList (ztl_zm (gc_run (\<lambda>x. x) em_dev None Trigger ztl_gdemo)) = [1]"
  by (simp add: ztl_gdemo_def em_gdemo_def ztl_eval ztl_eval_read gc_runCycle_def zm_SelectGCVictim_def zm_selectRound_def gc_candidate_def GCScore_def
      gc_collectZone_def gc_liveSegs_def P2L_IterateZone_def p2l_key_def zm_Freeze_def zm_Unfreeze_def gc_migrateSegment_def gc_migratePrepare_def
      gc_migrateCommit_def zm_ZoneStartLBA_def L2P_CAS_def gc_resetVictim_def em_ResetZone_def zm_MarkEmpty_def zm_dropOpen_def isOpen_def
      list_Remove_def em_read_loop.simps [of _ 1024])


end
