(* ===== verification/System.thy ===== *)
theory System
  imports GcSpec
begin

text \<open>
  The translation layer at work: what initiators ask for and what the background goroutines do, in any order. The goroutines are started
  by \<^verbatim>\<open>ztl.New\<close> and by \<^verbatim>\<open>main\<close>: the collector (\<^verbatim>\<open>GCEngine.run\<close>), the loop that flushes aged buffers (\<^verbatim>\<open>StartFlushLoop\<close>) and the loop that
  commits the journal (\<^verbatim>\<open>StartGroupCommitLoop\<close>). Each of their rounds is one step, as is each call from outside. The
  specification is an array of sectors with two operations, write a range and erase a range of segments.
\<close>

section \<open>Background rounds\<close>

text \<open>One tick of \<^verbatim>\<open>StartFlushLoop\<close>.\<close>

definition ztl_flushTick :: "(u32 list \<Rightarrow> u32 list) \<Rightarrow> 'd ZonedDevice \<Rightarrow> int \<Rightarrow> ('d, 'j) ZTL \<Rightarrow> ('d, 'j) ZTL" where
  "ztl_flushTick zord ops now s =
     (case wb_flushAged zord ops now (ztl_buf s) (ztl_zm s) (ztl_device s) of
        (wb, zm, d) \<Rightarrow> s\<lparr>ztl_buf := wb, ztl_zm := zm, ztl_device := d\<rparr>)"

text \<open>One tick of \<^verbatim>\<open>StartGroupCommitLoop\<close>, or its last commit when the context ends; the error is dropped.\<close>

definition ztl_commitTick :: "'j Journal option \<Rightarrow> ('d, 'j) ZTL \<Rightarrow> ('d, 'j) ZTL" where
  "ztl_commitTick jn s = snd (log_call jn_GroupCommit jn s)"

section \<open>Steps\<close>

datatype sys_event =
    EvRead u64 u32
  | EvWrite u64 bytes
  | EvUnmap u64 u32
  | EvFlush
  | EvTriggerGC
  | EvGC gc_event
  | EvFlushTick
  | EvCommitTick

text \<open>
  The steps: calls that report success, and background rounds in which no flush fails (\<^verbatim>\<open>flushAged\<close> drops such an error, and the data with it). Writes are of
  whole segments with enough free zones; a collection must find a victim that is not being written, and zone 0 is left non-empty.
\<close>

inductive sys_step ::
    "map_order \<Rightarrow> (u32 list \<Rightarrow> u32 list) \<Rightarrow> 'j Journal option \<Rightarrow> sys_event \<Rightarrow> (Emulator, 'j) ZTL \<Rightarrow> (Emulator, 'j) ZTL \<Rightarrow> bool"
  for zo zord jn where
  sys_read: "unat lba + unat c \<le> 2 ^ 63 \<Longrightarrow> ztl_Read em_dev s lba c = (r, s') \<Longrightarrow> sys_step zo zord jn (EvRead lba c) s s'"
| sys_write: "ztl_writable s lba data \<Longrightarrow> ztl_Write zo em_dev jn now s lba data = Some (Inr (), s') \<Longrightarrow>
    sys_step zo zord jn (EvWrite lba data) s s'"
| sys_unmap: "0 < unat c \<Longrightarrow> unat lba + unat c \<le> 2 ^ 63 \<Longrightarrow> ztl_Unmap jn s lba c = (Inr (), s') \<Longrightarrow>
    sys_step zo zord jn (EvUnmap lba c) s s'"
| sys_flush: "ztl_Flush zord em_dev jn s = (Inr (), s') \<Longrightarrow> sys_step zo zord jn EvFlush s s'"
| sys_trigger: "sys_step zo zord jn EvTriggerGC s (ztl_TriggerGC s)"
| sys_gc: "gc_victim_ok s \<Longrightarrow> gc_run zo em_dev jn ev s = s' \<Longrightarrow> 0 < fill (em_view (ztl_device s')) (ztl_buf s') 0 \<Longrightarrow>
    sys_step zo zord jn (EvGC ev) s s'"
| sys_flush_tick: "fst (wb_flushEach em_dev (wb_aged zord now (ztl_buf s)) (Inr ()) (ztl_buf s) (ztl_zm s) (ztl_device s)) = Inr () \<Longrightarrow>
    sys_step zo zord jn EvFlushTick s (ztl_flushTick zord em_dev now s)"
| sys_commit_tick: "sys_step zo zord jn EvCommitTick s (ztl_commitTick jn s)"

inductive_cases sys_stepE: "sys_step zo zord jn e s s'"

inductive sys_run ::
    "map_order \<Rightarrow> (u32 list \<Rightarrow> u32 list) \<Rightarrow> 'j Journal option \<Rightarrow> sys_event list \<Rightarrow> (Emulator, 'j) ZTL \<Rightarrow> (Emulator, 'j) ZTL \<Rightarrow> bool"
  for zo zord jn where
  sys_run_nil: "sys_run zo zord jn [] s s"
| sys_run_cons: "sys_step zo zord jn e s s1 \<Longrightarrow> sys_run zo zord jn es s1 s' \<Longrightarrow> sys_run zo zord jn (e # es) s s'"

text \<open>The specification.\<close>

fun sys_spec :: "nat \<Rightarrow> sys_event \<Rightarrow> (nat \<Rightarrow> bytes) \<Rightarrow> nat \<Rightarrow> bytes" where
  "sys_spec S (EvWrite lba data) f = sectors_write f (unat lba) data"
| "sys_spec S (EvUnmap lba c) f =
     (\<lambda>a. if unat lba div S \<le> a div S \<and> a div S \<le> (unat lba + unat c - 1) div S then zeros sectorSize else f a)"
| "sys_spec S _ f = f"

section \<open>Simulation\<close>

lemma ztl_good_flush:
  assumes "ztl_good s" and "wb_flushEach em_dev zs (Inr ()) (ztl_buf s) (ztl_zm s) (ztl_device s) = (Inr (), wb, zm, d)"
  shows "ztl_good (s\<lparr>ztl_buf := wb, ztl_zm := zm, ztl_device := d\<rparr>) \<and> ztl_content (s\<lparr>ztl_buf := wb, ztl_zm := zm, ztl_device := d\<rparr>) = ztl_content s"
proof -
  have inv: "em_inv (ztl_device s)" "ztl_inv (em_view (ztl_device s)) s" "0 < fill (em_view (ztl_device s)) (ztl_buf s) 0"
    using assms(1) by (auto simp: ztl_good_def)
  then have pre: "zm_inv (ztl_zm s)" "buffered_ok (em_view (ztl_device s)) (ztl_zm s) (ztl_buf s)" "bufs_not_free (ztl_buf s) (ztl_zm s)"
    by (auto simp: ztl_inv_def)
  note w = em.wb_flushEach_ok [OF inv(1) pre assms(2)]
  then have rel: "flush_rel (em_view (ztl_device s)) (ztl_buf s) (em_view d) wb" by simp
  have "ztl_inv (em_view d) (s\<lparr>ztl_buf := wb, ztl_zm := zm, ztl_device := d\<rparr>)" by (rule ztl_inv_flush [OF inv(2) rel]) (use w in simp_all)
  moreover have "fill (em_view d) wb 0 = fill (em_view (ztl_device s)) (ztl_buf s) 0" using rel by (simp add: flush_rel_def)
  ultimately show ?thesis using w inv(3) logical_flush [OF inv(2) rel] by (simp add: ztl_good_def ztl_content_def)
qed

lemma ztl_good_fields [simp]:
  "ztl_good (s\<lparr>ztl_journal := j\<rparr>) = ztl_good s" "ztl_content (s\<lparr>ztl_journal := j\<rparr>) = ztl_content s"
  "ztl_good (s\<lparr>ztl_triggerCh := b\<rparr>) = ztl_good s" "ztl_content (s\<lparr>ztl_triggerCh := b\<rparr>) = ztl_content s"
  by (auto simp: ztl_good_def ztl_content_def logical_def seg_sector_def ztl_inv_def fun_eq_iff Let_def)

lemma flushBuf_good:
  assumes "ztl_good s" and "ztl_flushBuf zord em_dev s = (Inr (), s')"
  shows "ztl_good s' \<and> ztl_content s' = ztl_content s \<and> ztl_sectorsPerSeg s' = ztl_sectorsPerSeg s"
proof -
  obtain r wb zm d where f: "wb_FlushAll zord em_dev (ztl_buf s) (ztl_zm s) (ztl_device s) = (r, wb, zm, d)" by (metis prod_cases4)
  then have "r = Inr ()" "s' = s\<lparr>ztl_buf := wb, ztl_zm := zm, ztl_device := d\<rparr>" using assms(2) by (auto simp: ztl_flushBuf_def)
  then show ?thesis using ztl_good_flush [OF assms(1)] f by (auto simp: wb_FlushAll_def)
qed

lemma sys_step_sim:
  assumes "sys_step zo zord jn e s s'" and "ztl_good s" and "\<And>xs. set (zo xs) = set xs"
  shows "ztl_good s' \<and> ztl_sectorsPerSeg s' = ztl_sectorsPerSeg s \<and>
    (\<forall>a < 2 ^ 63. ztl_content s' a = sys_spec (unat (ztl_sectorsPerSeg s)) e (ztl_content s) a)"
  using assms(1)
proof cases
  case (sys_read lba c r)
  then show ?thesis using ztl_read_content [OF assms(2)] assms(2) by simp
next
  case (sys_write lba data now)
  then have "em.dev_good s" "em.dev_wrote zo jn now s lba data s'" using assms(2) by (simp_all add: em.dev_wrote_def ztl_wrote_dev)
  from em.dev_wrote_full [OF this] show ?thesis using sys_write(1) by (simp add: ztl_wrote_dev ztl_content_def)
next
  case (sys_unmap c lba)
  have "ztl_inv (em_view (ztl_device s)) s" using assms(2) by (simp add: ztl_good_def)
  moreover from this have "ztl_sectorsPerSeg s' = ztl_sectorsPerSeg s \<and> ztl_buf s' = ztl_buf s"
    using ztl_unmapSegs_ok sys_unmap(4) by (fastforce simp: ztl_Unmap_def Let_def)
  moreover note u = ztl_Unmap_content [OF calculation(1) sys_unmap(2,3) _ sys_unmap(4)]
  moreover have "ztl_inv (em_view (ztl_device s')) s' \<and> ztl_device s' = ztl_device s" using u [of 0] by auto
  ultimately show ?thesis using u [THEN conjunct2, THEN conjunct2] assms(2) sys_unmap(1) by (auto simp: ztl_good_def)
next
  case sys_flush
  then obtain s1 j where "ztl_flushBuf zord em_dev s = (Inr (), s1)" "s' = s1\<lparr>ztl_journal := j\<rparr>"
    using log_call_state [of jn_GroupCommit jn] by (auto simp: ztl_Flush_def split: prod.splits sum.splits)
  then show ?thesis using flushBuf_good [OF assms(2)] sys_flush(1) by simp
next
  case sys_trigger
  then show ?thesis using assms(2) by (simp add: ztl_TriggerGC_def gc_TriggerManual_def)
next
  case (sys_gc ev)
  then show ?thesis using gc_run_ok [OF assms(2) sys_gc(2) assms(3) sys_gc(3)] by (simp add: ztl_good_def)
next
  case (sys_flush_tick now)
  then obtain wb zm d where "wb_flushEach em_dev (wb_aged zord now (ztl_buf s)) (Inr ()) (ztl_buf s) (ztl_zm s) (ztl_device s) = (Inr (), wb, zm, d)"
    by (metis prod.collapse)
  then show ?thesis using ztl_good_flush [OF assms(2)] sys_flush_tick(1,2) by (simp add: ztl_flushTick_def wb_flushAged_def)
next
  case sys_commit_tick
  then show ?thesis using log_call_state [OF prod.collapse [symmetric], of jn_GroupCommit jn s] assms(2)
    by (auto simp: ztl_commitTick_def)
qed

lemma sys_spec_cong: "(\<forall>a < N. f a = g a) \<Longrightarrow> (\<forall>a < N. sys_spec S e f a = sys_spec S e g a)"
  by (cases e) (auto simp: sectors_write_def)

lemma sys_specs_cong: "(\<forall>a < N. f a = g a) \<Longrightarrow> (\<forall>a < N. fold (sys_spec S) es f a = fold (sys_spec S) es g a)"
proof (induction es arbitrary: f g)
  case (Cons e es)
  from Cons.IH [OF sys_spec_cong [OF Cons.prems]] show ?case by simp
qed simp

lemma sys_run_sim:
  assumes "sys_run zo zord jn es s s'" and "ztl_good s" and "\<And>xs. set (zo xs) = set xs"
  shows "ztl_good s' \<and> ztl_sectorsPerSeg s' = ztl_sectorsPerSeg s \<and>
    (\<forall>a < 2 ^ 63. ztl_content s' a = fold (sys_spec (unat (ztl_sectorsPerSeg s))) es (ztl_content s) a)"
  using assms(1,2)
proof (induction rule: sys_run.induct)
  case (sys_run_nil s)
  then show ?case by simp
next
  case (sys_run_cons e s s1 es s')
  have st: "ztl_good s1" "ztl_sectorsPerSeg s1 = ztl_sectorsPerSeg s"
    "\<forall>a < 2 ^ 63. ztl_content s1 a = sys_spec (unat (ztl_sectorsPerSeg s)) e (ztl_content s) a"
    using sys_step_sim [OF sys_run_cons.hyps(1) sys_run_cons.prems assms(3)] by auto
  then show ?case using sys_run_cons.IH [OF st(1)] sys_specs_cong [OF st(3)] by auto
qed

section \<open>Properties\<close>



end
