(* ===== verification/Lifecycle.thy ===== *)
theory Lifecycle
  imports System
begin

text \<open>
  The goroutines of the translation layer and its \<^verbatim>\<open>Close\<close>: \<^verbatim>\<open>GCEngine.Start\<close>, \<^verbatim>\<open>run\<close> and \<^verbatim>\<open>Stop\<close> of \<^verbatim>\<open>internal/ztl/gc.go\<close>, \<^verbatim>\<open>StartFlushLoop\<close> of
  \<^verbatim>\<open>internal/ztl/buffer.go\<close> and \<^verbatim>\<open>ZTL.Close\<close> of \<^verbatim>\<open>internal/ztl/ztl.go\<close>. They run beside each other and beside the callers of the layer, so they are step relations. The
  work of a round is the sequential model: \<open>gc_runCycle\<close>, \<open>gc_run\<close>, \<open>ztl_flushTick\<close>, \<open>ztl_Close\<close>.
\<close>

section \<open>State\<close>

text \<open>
  A loop: not started, in its \<^verbatim>\<open>select\<close>, with a case chosen whose work is still to do, returned. \<^verbatim>\<open>Close\<close>: not called, after \<^verbatim>\<open>cancelCtx\<close>, after \<^verbatim>\<open>close(gc.stopCh)\<close> and
  waiting for \<^verbatim>\<open>doneCh\<close>, before the flush, returned.
\<close>

datatype gc_pc = GcIdle | GcSelect | GcCycle | GcTick | GcEnded
datatype flush_pc = FlushIdle | FlushSelect | FlushDue | FlushEnded
datatype close_pc = CloseNotCalled | CloseCancelled | CloseStopping | CloseFlushing | CloseDone "unit result"

record ('d, 'j) ZtlRun =
  zr_ztl :: "('d, 'j) ZTL"
  zr_ctxDone :: bool
  zr_stopCh :: bool
  zr_doneCh :: bool
  zr_gc :: gc_pc
  zr_flush :: flush_pc
  zr_close :: close_pc

text \<open>What \<^verbatim>\<open>NewGCEngine\<close> adds to the layer: two channels, not closed.\<close>

definition newZtlRun :: "('d, 'j) ZTL \<Rightarrow> ('d, 'j) ZtlRun" where
  "newZtlRun z = \<lparr>zr_ztl = z, zr_ctxDone = False, zr_stopCh = False, zr_doneCh = False, zr_gc = GcIdle, zr_flush = FlushIdle,
     zr_close = CloseNotCalled\<rparr>"

definition gc_Start :: "('d, 'j) ZtlRun \<Rightarrow> ('d, 'j) ZtlRun" where
  "gc_Start r = r\<lparr>zr_gc := GcSelect\<rparr>"

definition wb_StartFlushLoop :: "('d, 'j) ZtlRun \<Rightarrow> ('d, 'j) ZtlRun" where
  "wb_StartFlushLoop r = r\<lparr>zr_flush := FlushSelect\<rparr>"

text \<open>The end of \<^verbatim>\<open>ztl.New\<close>.\<close>

definition ztl_launch :: "('d, 'j) ZTL \<Rightarrow> ('d, 'j) ZtlRun" where
  "ztl_launch z = wb_StartFlushLoop (gc_Start (newZtlRun z))"

section \<open>Steps\<close>

text \<open>
  The collector. When several cases of the \<^verbatim>\<open>select\<close> are ready, Go picks any: a round may begin after the context has ended.
\<close>

inductive gcLoop_step :: "map_order \<Rightarrow> 'd ZonedDevice \<Rightarrow> 'j Journal option \<Rightarrow> ('d, 'j) ZtlRun \<Rightarrow> ('d, 'j) ZtlRun \<Rightarrow> bool"
  for zo ops jn where
  gc_ctx: "zr_gc r = GcSelect \<Longrightarrow> zr_ctxDone r \<Longrightarrow> gcLoop_step zo ops jn r (r\<lparr>zr_gc := GcEnded, zr_doneCh := True\<rparr>)"
| gc_stop: "zr_gc r = GcSelect \<Longrightarrow> zr_stopCh r \<Longrightarrow> gcLoop_step zo ops jn r (r\<lparr>zr_gc := GcEnded, zr_doneCh := True\<rparr>)"
| gc_trigger: "zr_gc r = GcSelect \<Longrightarrow> ztl_triggerCh (zr_ztl r) \<Longrightarrow>
    gcLoop_step zo ops jn r (r\<lparr>zr_gc := GcCycle, zr_ztl := (zr_ztl r)\<lparr>ztl_triggerCh := False\<rparr>\<rparr>)"
| gc_tick: "zr_gc r = GcSelect \<Longrightarrow> gcLoop_step zo ops jn r (r\<lparr>zr_gc := GcTick\<rparr>)"
| gc_cycle: "zr_gc r = GcCycle \<Longrightarrow> gcLoop_step zo ops jn r (r\<lparr>zr_gc := GcSelect, zr_ztl := gc_runCycle zo ops jn (zr_ztl r)\<rparr>)"
| gc_check: "zr_gc r = GcTick \<Longrightarrow> gcLoop_step zo ops jn r (r\<lparr>zr_gc := GcSelect, zr_ztl := gc_run zo ops jn Tick (zr_ztl r)\<rparr>)"

text \<open>The loop that flushes aged buffers.\<close>

inductive flushLoop_step :: "(u32 list \<Rightarrow> u32 list) \<Rightarrow> 'd ZonedDevice \<Rightarrow> ('d, 'j) ZtlRun \<Rightarrow> ('d, 'j) ZtlRun \<Rightarrow> bool" for zord ops where
  fl_ctx: "zr_flush r = FlushSelect \<Longrightarrow> zr_ctxDone r \<Longrightarrow> flushLoop_step zord ops r (r\<lparr>zr_flush := FlushEnded\<rparr>)"
| fl_tick: "zr_flush r = FlushSelect \<Longrightarrow> flushLoop_step zord ops r (r\<lparr>zr_flush := FlushDue\<rparr>)"
| fl_flush: "zr_flush r = FlushDue \<Longrightarrow>
    flushLoop_step zord ops r (r\<lparr>zr_flush := FlushSelect, zr_ztl := ztl_flushTick zord ops now (zr_ztl r)\<rparr>)"

text \<open>\<^verbatim>\<open>Stop\<close>, as \<^verbatim>\<open>Close\<close> calls it: close one channel, wait for the other.\<close>

inductive stop_step :: "('d, 'j) ZtlRun \<Rightarrow> ('d, 'j) ZtlRun \<Rightarrow> bool" where
  st_close: "zr_close r = CloseCancelled \<Longrightarrow> stop_step r (r\<lparr>zr_close := CloseStopping, zr_stopCh := True\<rparr>)"
| st_wait: "zr_close r = CloseStopping \<Longrightarrow> zr_doneCh r \<Longrightarrow> stop_step r (r\<lparr>zr_close := CloseFlushing\<rparr>)"

text \<open>\<^verbatim>\<open>Close\<close>: end the context, \<^verbatim>\<open>Stop\<close> the collector, flush.\<close>

inductive close_step :: "(u32 list \<Rightarrow> u32 list) \<Rightarrow> 'd ZonedDevice \<Rightarrow> ('d, 'j) ZtlRun \<Rightarrow> ('d, 'j) ZtlRun \<Rightarrow> bool" for zord ops where
  cl_cancel: "zr_close r = CloseNotCalled \<Longrightarrow> close_step zord ops r (r\<lparr>zr_close := CloseCancelled, zr_ctxDone := True\<rparr>)"
| cl_stop: "stop_step r r' \<Longrightarrow> close_step zord ops r r'"
| cl_flush: "zr_close r = CloseFlushing \<Longrightarrow> ztl_Close zord ops (zr_ztl r) = (res, z) \<Longrightarrow>
    close_step zord ops r (r\<lparr>zr_close := CloseDone res, zr_ztl := z\<rparr>)"

text \<open>The layer by itself, and with callers that may do anything to its state.\<close>

inductive own_step ::
    "map_order \<Rightarrow> (u32 list \<Rightarrow> u32 list) \<Rightarrow> 'd ZonedDevice \<Rightarrow> 'j Journal option \<Rightarrow> ('d, 'j) ZtlRun \<Rightarrow> ('d, 'j) ZtlRun \<Rightarrow> bool"
  for zo zord ops jn where
  collecting: "gcLoop_step zo ops jn r r' \<Longrightarrow> own_step zo zord ops jn r r'"
| flushing: "flushLoop_step zord ops r r' \<Longrightarrow> own_step zo zord ops jn r r'"
| closing: "close_step zord ops r r' \<Longrightarrow> own_step zo zord ops jn r r'"

inductive run_reach ::
    "map_order \<Rightarrow> (u32 list \<Rightarrow> u32 list) \<Rightarrow> 'd ZonedDevice \<Rightarrow> 'j Journal option \<Rightarrow> ('d, 'j) ZTL \<Rightarrow> ('d, 'j) ZtlRun \<Rightarrow> bool"
  for zo zord ops jn z where
  launched: "run_reach zo zord ops jn z (ztl_launch z)"
| stepped: "run_reach zo zord ops jn z r \<Longrightarrow> own_step zo zord ops jn r r' \<Longrightarrow> run_reach zo zord ops jn z r'"
| called: "run_reach zo zord ops jn z r \<Longrightarrow> run_reach zo zord ops jn z (r\<lparr>zr_ztl := z'\<rparr>)"

inductive_cases gcLoop_stepE: "gcLoop_step zo ops jn r r'"
inductive_cases flushLoop_stepE: "flushLoop_step zord ops r r'"
inductive_cases stop_stepE: "stop_step r r'"
inductive_cases close_stepE: "close_step zord ops r r'"
inductive_cases own_stepE: "own_step zo zord ops jn r r'"

section \<open>Invariant\<close>

fun close_rank :: "close_pc \<Rightarrow> nat" where
  "close_rank CloseNotCalled = 0"
| "close_rank CloseCancelled = 1"
| "close_rank CloseStopping = 2"
| "close_rank CloseFlushing = 3"
| "close_rank (CloseDone res) = 4"

text \<open>The channels say how far \<^verbatim>\<open>Close\<close> and the collector are.\<close>

definition run_inv :: "('d, 'j) ZtlRun \<Rightarrow> bool" where
  "run_inv r \<longleftrightarrow> zr_gc r \<noteq> GcIdle \<and> (zr_doneCh r \<longleftrightarrow> zr_gc r = GcEnded) \<and> (zr_ctxDone r \<longleftrightarrow> 1 \<le> close_rank (zr_close r)) \<and>
     (zr_stopCh r \<longleftrightarrow> 2 \<le> close_rank (zr_close r)) \<and> (3 \<le> close_rank (zr_close r) \<longrightarrow> zr_doneCh r)"

lemma own_step_inv: "own_step zo zord ops jn r r' \<Longrightarrow> run_inv r \<Longrightarrow> run_inv r'"
  by (elim own_stepE gcLoop_stepE flushLoop_stepE close_stepE stop_stepE) (auto simp: run_inv_def)

lemma run_reach_inv: "run_reach zo zord ops jn z r \<Longrightarrow> run_inv r"
proof (induction rule: run_reach.induct)
  case launched
  show ?case by (simp add: run_inv_def ztl_launch_def wb_StartFlushLoop_def gc_Start_def newZtlRun_def)
next
  case (stepped r r')
  then show ?case using own_step_inv by blast
next
  case (called r z')
  then show ?case by (auto simp: run_inv_def)
qed

text \<open>The two steps of a triggered round make \<open>gc_run\<close>.\<close>

lemma gc_round_run:
  assumes "gcLoop_step zo ops jn r r1" and "zr_gc r = GcSelect" and "zr_gc r1 \<noteq> GcEnded" and "gcLoop_step zo ops jn r1 r2"
  shows "\<exists>ev. zr_ztl r2 = gc_run zo ops jn ev (zr_ztl r)"
  using assms(1,4) assms(2,3) by (elim gcLoop_stepE) (auto intro: exI [of _ Trigger] exI [of _ Tick])

lemma buffers_none: "\<forall>z. map_of (wb_buffers wb) z = None \<Longrightarrow> wb_buffers wb = []"
  by (cases "wb_buffers wb") (force split: if_splits)+

lemma ztl_Close_empty:
  assumes "\<forall>z. map_of (wb_buffers (ztl_buf s)) z = None" and "\<And>xs. set (zord xs) = set xs"
  shows "ztl_Close zord ops s = (Inr (), s)"
  using buffers_none [OF assms(1)] assms(2) [of "[]"] by (simp add: ztl_Close_def ztl_flushBuf_def wb_FlushAll_def)

lemma ztl_flushTick_empty:
  assumes "wb_buffers (ztl_buf s) = []" and "\<And>xs. set (zord xs) = set xs"
  shows "ztl_flushTick zord ops now s = s"
proof -
  have "zord [] = []" using assms(2) [of "[]"] by simp
  then show ?thesis using assms(1) by (simp add: ztl_flushTick_def wb_flushAged_def wb_aged_def)
qed

text \<open>After \<^verbatim>\<open>Close\<close> only the flush loop can move, and it finds nothing to flush.\<close>

lemma closed_step:
  assumes "run_inv r" and "zr_close r = CloseDone res" and "wb_buffers (ztl_buf (zr_ztl r)) = []" and "\<And>xs. set (zord xs) = set xs"
    and "own_step zo zord ops jn r r'"
  shows "zr_ztl r' = zr_ztl r \<and> zr_close r' = CloseDone res"
  using assms(5)
proof (cases rule: own_step.cases)
  case flushing
  then show ?thesis using assms(2) ztl_flushTick_empty [where zord = zord, OF assms(3,4)] by (elim flushLoop_stepE) simp_all
qed (use assms(1,2) in \<open>auto simp: run_inv_def elim!: gcLoop_stepE close_stepE stop_stepE\<close>)

lemma closed_steps:
  assumes "(own_step zo zord ops jn)\<^sup>*\<^sup>* r r'" and "run_inv r" and "zr_close r = CloseDone res" and "wb_buffers (ztl_buf (zr_ztl r)) = []"
    and "\<And>xs. set (zord xs) = set xs"
  shows "run_inv r' \<and> zr_ztl r' = zr_ztl r \<and> zr_close r' = CloseDone res"
  using assms(1)
proof (induction rule: rtranclp_induct)
  case base
  show ?case using assms by simp
next
  case (step y z)
  then show ?case using closed_step [OF _ _ _ assms(5) step(2)] own_step_inv [OF step(2)] assms(4) by auto
qed

lemma own_step_trans: "own_step zo zord ops jn r r1 \<Longrightarrow> \<exists>r'. (own_step zo zord ops jn)\<^sup>*\<^sup>* r1 r' \<and> P r' \<Longrightarrow> \<exists>r'. (own_step zo zord ops jn)\<^sup>*\<^sup>* r r' \<and> P r'"
  by (meson converse_rtranclp_into_rtranclp)

text \<open>\<^verbatim>\<open>Close\<close> is never stuck: what is left of it and of a round of the collector can be run to the end.\<close>

lemma close_flushes: "zr_close r = CloseFlushing \<Longrightarrow> \<exists>r'. (own_step zo zord ops jn)\<^sup>*\<^sup>* r r' \<and> (\<exists>res. zr_close r' = CloseDone res)"
proof (rule own_step_trans [OF closing])
  assume c: "zr_close r = CloseFlushing"
  show "close_step zord ops r (r\<lparr>zr_close := CloseDone (fst (ztl_Close zord ops (zr_ztl r))), zr_ztl := snd (ztl_Close zord ops (zr_ztl r))\<rparr>)"
    by (rule cl_flush) (simp_all add: c)
qed (use rtranclp.rtrancl_refl in \<open>fastforce simp: exI\<close>)

lemma close_waits:
  assumes "zr_close r = CloseStopping" and "run_inv r"
  shows "\<exists>r'. (own_step zo zord ops jn)\<^sup>*\<^sup>* r r' \<and> (\<exists>res. zr_close r' = CloseDone res)"
proof -
  have ended: "\<exists>r'. (own_step zo zord ops jn)\<^sup>*\<^sup>* r r' \<and> (\<exists>res. zr_close r' = CloseDone res)"
    if "zr_close r = CloseStopping" "zr_doneCh r" for r
    by (rule own_step_trans [OF closing [OF cl_stop [OF st_wait [OF that]]] close_flushes]) simp
  have select: "\<exists>r'. (own_step zo zord ops jn)\<^sup>*\<^sup>* r r' \<and> (\<exists>res. zr_close r' = CloseDone res)"
    if "zr_close r = CloseStopping" "zr_gc r = GcSelect" "zr_stopCh r" for r
    by (rule own_step_trans [OF collecting [OF gc_stop [OF that(2,3)]] ended]) (simp_all add: that)
  have s: "zr_stopCh r" using assms by (simp add: run_inv_def)
  show ?thesis
  proof (cases "zr_gc r")
    case GcCycle
    show ?thesis by (rule own_step_trans [OF collecting [OF gc_cycle [OF GcCycle]] select]) (simp_all add: assms s)
  next
    case GcTick
    show ?thesis by (rule own_step_trans [OF collecting [OF gc_check [OF GcTick]] select]) (simp_all add: assms s)
  qed (use assms s select ended in \<open>auto simp: run_inv_def\<close>)
qed

lemma close_returns:
  assumes "run_inv r"
  shows "\<exists>r'. (own_step zo zord ops jn)\<^sup>*\<^sup>* r r' \<and> (\<exists>res. zr_close r' = CloseDone res)"
proof -
  have cancelled: "\<exists>r'. (own_step zo zord ops jn)\<^sup>*\<^sup>* r r' \<and> (\<exists>res. zr_close r' = CloseDone res)"
    if "zr_close r = CloseCancelled" "run_inv r" for r
  proof -
    have st: "own_step zo zord ops jn r (r\<lparr>zr_close := CloseStopping, zr_stopCh := True\<rparr>)" by (rule closing [OF cl_stop [OF st_close [OF that(1)]]])
    show ?thesis by (rule own_step_trans [OF st close_waits]) (simp_all add: own_step_inv [OF st that(2)])
  qed
  show ?thesis
  proof (cases "zr_close r")
    case CloseNotCalled
    have st: "own_step zo zord ops jn r (r\<lparr>zr_close := CloseCancelled, zr_ctxDone := True\<rparr>)" by (rule closing [OF cl_cancel [OF CloseNotCalled]])
    show ?thesis by (rule own_step_trans [OF st cancelled]) (simp_all add: own_step_inv [OF st assms])
  next
    case (CloseDone res)
    then show ?thesis by blast
  qed (use cancelled close_waits close_flushes assms in blast)+
qed

section \<open>Properties\<close>


text \<open>A layer that is closed while its flush loop has a tick in hand: the tick comes late and does nothing.\<close>

definition closed_demo :: "(Emulator, unit) ZtlRun" where
  "closed_demo = (ztl_launch ztl_demo)\<lparr>zr_flush := FlushDue, zr_ctxDone := True, zr_stopCh := True, zr_doneCh := True, zr_gc := GcEnded,
     zr_close := CloseDone (Inr ())\<rparr>"

lemma closed_demo_reach: "run_reach (\<lambda>x. x) (\<lambda>x. x) em_dev None ztl_demo closed_demo"
proof -
  let ?reach = "run_reach (\<lambda>x. x) (\<lambda>x. x) em_dev None ztl_demo"
  let ?r0 = "ztl_launch ztl_demo"
  note launch = ztl_launch_def wb_StartFlushLoop_def gc_Start_def newZtlRun_def
  have c: "ztl_Close (\<lambda>x. x) em_dev ztl_demo = (Inr (), ztl_demo)" by (rule ztl_Close_empty) (simp_all add: ztl_demo_def)
  let ?r1 = "?r0\<lparr>zr_flush := FlushDue\<rparr>"
  let ?r2 = "?r1\<lparr>zr_close := CloseCancelled, zr_ctxDone := True\<rparr>"
  let ?r3 = "?r2\<lparr>zr_close := CloseStopping, zr_stopCh := True\<rparr>"
  let ?r4 = "?r3\<lparr>zr_gc := GcEnded, zr_doneCh := True\<rparr>"
  let ?r5 = "?r4\<lparr>zr_close := CloseFlushing\<rparr>"
  have "?reach ?r1" by (rule stepped [OF launched flushing [OF fl_tick]]) (simp add: launch)
  then have "?reach ?r2" by (rule stepped [OF _ closing [OF cl_cancel]]) (simp add: launch)
  then have "?reach ?r3" by (rule stepped [OF _ closing [OF cl_stop [OF st_close]]]) simp
  then have "?reach ?r4" by (rule stepped [OF _ collecting [OF gc_stop]]) (simp_all add: launch)
  then have "?reach ?r5" by (rule stepped [OF _ closing [OF cl_stop [OF st_wait]]]) simp_all
  then have "?reach (?r5\<lparr>zr_close := CloseDone (Inr ()), zr_ztl := ztl_demo\<rparr>)"
    by (rule stepped [OF _ closing [OF cl_flush]]) (simp_all add: launch c)
  then show ?thesis by (simp add: closed_demo_def launch)
qed


end
