(* ===== verification/Threads.thy ===== *)
theory Threads
  imports System
begin

text \<open>
  The translation layer under concurrent callers, at the granularity of its locks. \<^verbatim>\<open>writeSegment\<close> holds \<^verbatim>\<open>ztl.mu\<close> but releases it around the flush of a full zone;
  \<^verbatim>\<open>Write\<close> as a whole, \<^verbatim>\<open>Read\<close> and \<^verbatim>\<open>Flush\<close> hold no lock of their own; \<^verbatim>\<open>WriteBuffer.Flush\<close> (\<^verbatim>\<open>internal/ztl/buffer.go\<close>) takes the buffer under \<^verbatim>\<open>wb.mu\<close> and then opens the zone, writes and moves the
  write pointer, each under the lock of the component it calls. Here every such section is one step of a thread, and threads interleave by a schedule. Run alone, a thread does what
  the sequential model of \<open>Ztl\<close> and \<open>WriteBuffer\<close> does; the properties say what remains of that when threads meet.
\<close>

section \<open>Flushing a zone\<close>

text \<open>Before \<^verbatim>\<open>wb.mu.Lock()\<close>, before \<^verbatim>\<open>GetOrOpen\<close>, before \<^verbatim>\<open>WriteSectors\<close>, before \<^verbatim>\<open>UpdateWritePointer\<close>, returned.\<close>

datatype flush_job = FlTake u32 | FlOpen u32 zoneBuffer | FlWrite u32 zoneBuffer | FlUpdate u32 zoneBuffer | FlDone "unit result"

fun flush_section :: "'d ZonedDevice \<Rightarrow> ('d, 'j) ZTL \<times> flush_job \<Rightarrow> ('d, 'j) ZTL \<times> flush_job" where
  "flush_section ops (s, FlTake z) =
     (case map_of (wb_buffers (ztl_buf s)) z of
        None \<Rightarrow> (s, FlDone (Inr ()))
      | Some buf \<Rightarrow>
          (s\<lparr>ztl_buf := (ztl_buf s)\<lparr>wb_buffers := AList.delete z (wb_buffers (ztl_buf s))\<rparr>\<rparr>,
           if length (zb_data buf) = 0 then FlDone (Inr ()) else FlOpen z buf))"
| "flush_section ops (s, FlOpen z buf) =
     (case zm_GetOrOpen ops (ztl_device s) (ztl_zm s) z of
        (Inl err, zm, d) \<Rightarrow> (s\<lparr>ztl_zm := zm, ztl_device := d\<rparr>, FlDone (Inl (Wrap ''WriteBuffer.Flush: open zone'' err)))
      | (Inr _, zm, d) \<Rightarrow> (s\<lparr>ztl_zm := zm, ztl_device := d\<rparr>, FlWrite z buf))"
| "flush_section ops (s, FlWrite z buf) =
     (case dev_WriteSectors ops (ztl_device s) (zb_writePointer buf) (zb_data buf) of
        (Inl err, d) \<Rightarrow> (s\<lparr>ztl_device := d\<rparr>, FlDone (Inl (Wrap ''WriteBuffer.Flush: write zone'' err)))
      | (Inr _, d) \<Rightarrow> (s\<lparr>ztl_device := d\<rparr>, FlUpdate z buf))"
| "flush_section ops (s, FlUpdate z buf) =
     (let newWP = zb_writePointer buf + of_nat (length (zb_data buf)) div ucast (wb_sectorSize (ztl_buf s)) in
      (s\<lparr>ztl_zm := zm_UpdateWritePointer (ztl_zm s) z newWP\<rparr>, FlDone (Inr ())))"
| "flush_section ops (s, FlDone r) = (s, FlDone r)"

text \<open>\<^verbatim>\<open>FlushAll\<close> and \<^verbatim>\<open>flushAged\<close>: collect the zones under the lock, flush one after the other; \<open>FNext [] r\<close> has returned.\<close>

datatype flusher_pc = FAll | FAged | FNext "u32 list" "unit result" | FIn "u32 list" "unit result" flush_job

fun flusher_section ::
    "(u32 list \<Rightarrow> u32 list) \<Rightarrow> 'd ZonedDevice \<Rightarrow> int \<Rightarrow> ('d, 'j) ZTL \<times> flusher_pc \<Rightarrow> ('d, 'j) ZTL \<times> flusher_pc" where
  "flusher_section zord ops now (s, FAll) = (s, FNext (zord (map fst (wb_buffers (ztl_buf s)))) (Inr ()))"
| "flusher_section zord ops now (s, FAged) = (s, FNext (wb_aged zord now (ztl_buf s)) (Inr ()))"
| "flusher_section zord ops now (s, FNext [] firstErr) = (s, FNext [] firstErr)"
| "flusher_section zord ops now (s, FNext (z # zs) firstErr) = (s, FIn zs firstErr (FlTake z))"
| "flusher_section zord ops now (s, FIn zs firstErr (FlDone r)) = (s, FNext zs (if firstErr = Inr () then r else firstErr))"
| "flusher_section zord ops now (s, FIn zs firstErr job) = (case flush_section ops (s, job) of (s1, job1) \<Rightarrow> (s1, FIn zs firstErr job1))"

section \<open>Writing\<close>

text \<open>
  \<^verbatim>\<open>writeSegment\<close> up to the point where it releases \<^verbatim>\<open>ztl.mu\<close>: the number of the zone if that is full now. Its calls into the tables, the zone manager and the
  buffer count as one section, since every other write waits for \<^verbatim>\<open>ztl.mu\<close>.
\<close>

definition ztl_placeSegment ::
    "'d ZonedDevice \<Rightarrow> 'j Journal option \<Rightarrow> int \<Rightarrow> ('d, 'j) ZTL \<Rightarrow> SegmentID \<Rightarrow> bytes \<Rightarrow> u32 option result \<times> ('d, 'j) ZTL" where
  "ztl_placeSegment ops jn now s segID data =
     (case ztl_getWriteZone ops jn s of
        (Inl err, s1) \<Rightarrow> (Inl err, s1)
      | (Inr zoneID, s1) \<Rightarrow>
          (case zm_ZoneInfo (ztl_zm s1) zoneID of
             None \<Rightarrow> (Inl (Errorf ''zone not found''), s1)
           | Some zoneInfo \<Rightarrow>
               let currentWP = zm_WritePointer (ztl_zm s1) zoneID;
                   offsetInZone = currentWP - zi_StartLBA zoneInfo;
                   newPhys = EncodePhysAddr zoneID offsetInZone;
                   oldPhys = L2P_Get (ztl_l2p s1) segID in
               case log_l2p jn segID oldPhys newPhys s1 of
                 (Inl err, s2) \<Rightarrow> (Inl (Wrap ''WAL log L2P update'' err), s2)
               | (Inr _, s2) \<Rightarrow>
                   (case L2P_Set (ztl_l2p s2) segID newPhys of
                      (Inl err, _) \<Rightarrow> (Inl (Wrap ''L2P set segment'' err), s2)
                    | (Inr _, l2p) \<Rightarrow>
                        let s3 = ztl_remap segID oldPhys newPhys zoneID (s2\<lparr>ztl_l2p := l2p\<rparr>);
                            newWP = currentWP + of_nat (length data) div 512;
                            s4 = s3\<lparr>ztl_zm := zm_UpdateWritePointer (ztl_zm s3) zoneID newWP\<rparr>
                        in case wb_Add (ztl_buf s4) zoneID data currentWP now of
                             (Inl err, wb) \<Rightarrow> (Inl (Wrap ''write buffer add'' err), s4\<lparr>ztl_buf := wb\<rparr>)
                           | (Inr _, wb) \<Rightarrow>
                               (Inr (if newWP \<ge> zi_StartLBA zoneInfo + zi_SizeSectors zoneInfo then Some zoneID else None),
                                s4\<lparr>ztl_buf := wb\<rparr>))))"

text \<open>The local variables of the loop of \<^verbatim>\<open>Write\<close>, and where a call of \<^verbatim>\<open>Write\<close> is.\<close>

record Writer =
  wt_lba :: u64
  wt_end :: u64
  wt_segs :: "SegmentID list"
  wt_data :: bytes
  wt_off :: nat

datatype write_pc = WStart u64 bytes | WSeg Writer | WFull Writer flush_job | WCommit | WReturned "unit result"

definition wt_count :: "('d, 'j) ZTL \<Rightarrow> Writer \<Rightarrow> SegmentID \<Rightarrow> nat" where
  "wt_count s w segID =
     (let (writeStart, writeEnd) = seg_overlap (ztl_sectorsPerSeg s) (wt_lba w) (wt_end w) segID
      in unat (writeEnd - writeStart) * sectorSize)"

text \<open>
  The sections of \<^verbatim>\<open>Write\<close>. An emergency collection counts as one section; one that never returns leaves the thread where it is.
\<close>

fun write_section ::
    "map_order \<Rightarrow> 'd ZonedDevice \<Rightarrow> 'j Journal option \<Rightarrow> int \<Rightarrow> ('d, 'j) ZTL \<times> write_pc \<Rightarrow> ('d, 'j) ZTL \<times> write_pc" where
  "write_section ord ops jn now (s, WStart lba data) =
     (if length data = 0 then (s, WReturned (Inr ()))
      else if length data mod 512 \<noteq> 0 then (s, WReturned (Inl (Errorf ''write data length not a multiple of sector size'')))
      else
        case (if zm_FreeZoneCount (ztl_zm s) < ztl_emergencyFreeZones s then gc_RunEmergencyGC ord ops jn s
              else Some (Inr (), s)) of
          None \<Rightarrow> (s, WStart lba data)
        | Some (Inl err, s1) \<Rightarrow> (s1, WReturned (Inl (Wrap ''emergency GC'' err)))
        | Some (Inr _, s1) \<Rightarrow>
            let startSeg = LBAToSegmentID lba (ztl_sectorsPerSeg s1);
                endLBA = lba + of_nat (length data) div 512;
                endSeg = LBAToSegmentID (endLBA - 1) (ztl_sectorsPerSeg s1) in
            (s1, WSeg \<lparr>wt_lba = lba, wt_end = endLBA, wt_segs = word_upto startSeg endSeg, wt_data = data, wt_off = 0\<rparr>))"
| "write_section ord ops jn now (s, WSeg w) =
     (case wt_segs w of
        [] \<Rightarrow> (s, WCommit)
      | segID # segs \<Rightarrow>
          let writeCount = wt_count s w segID;
              segData = bslice (wt_off w) (wt_off w + writeCount) (wt_data w);
              w1 = w\<lparr>wt_segs := segs, wt_off := wt_off w + writeCount\<rparr> in
          (case ztl_placeSegment ops jn now s segID segData of
             (Inl err, s1) \<Rightarrow> (s1, WReturned (Inl (Wrap ''writing segment'' err)))
           | (Inr None, s1) \<Rightarrow> (s1, WSeg w1)
           | (Inr (Some z), s1) \<Rightarrow> (s1, WFull w1 (FlTake z))))"
| "write_section ord ops jn now (s, WFull w (FlDone r)) =
     (case r of
        Inl err \<Rightarrow> (s, WReturned (Inl (Wrap ''writing segment'' (Wrap ''flush full zone'' err))))
      | Inr _ \<Rightarrow> (s\<lparr>ztl_currentZoneOpen := False\<rparr>, WSeg w))"
| "write_section ord ops jn now (s, WFull w job) = (case flush_section ops (s, job) of (s1, job1) \<Rightarrow> (s1, WFull w job1))"
| "write_section ord ops jn now (s, WCommit) =
     (case log_call jn_GroupCommit jn s of
        (Inl err, s1) \<Rightarrow> (s1, WReturned (Inl (Wrap ''WAL group commit'' err)))
      | (Inr _, s1) \<Rightarrow> (s1, WReturned (Inr ())))"
| "write_section ord ops jn now (s, WReturned r) = (s, WReturned r)"

section \<open>Reading\<close>

text \<open>\<^verbatim>\<open>Read\<close> looks into the table, the zone manager, the buffer and the device, one after the other.\<close>

record Reader =
  rd_lba :: u64
  rd_end :: u64
  rd_segs :: "SegmentID list"
  rd_result :: bytes
  rd_off :: nat

datatype read_pc =
    RStart u64 u32
  | RSeg Reader
  | RZone Reader PhysAddr u64 u32
  | RBuf Reader u32 u64 u32
  | RDev Reader u64 u32
  | RReturned "bytes result"

fun read_section :: "'d ZonedDevice \<Rightarrow> ('d, 'j) ZTL \<times> read_pc \<Rightarrow> ('d, 'j) ZTL \<times> read_pc" where
  "read_section ops (s, RStart lba count) =
     (s, if count = 0 then RReturned (Inr [])
         else
           let startSeg = LBAToSegmentID lba (ztl_sectorsPerSeg s);
               endLBA = lba + ucast count;
               endSeg = LBAToSegmentID (endLBA - 1) (ztl_sectorsPerSeg s)
           in RSeg \<lparr>rd_lba = lba, rd_end = endLBA, rd_segs = word_upto startSeg endSeg,
                    rd_result = zeros (unat count * sectorSize), rd_off = 0\<rparr>)"
| "read_section ops (s, RSeg r) =
     (s, case rd_segs r of
           [] \<Rightarrow> RReturned (Inr (rd_result r))
         | segID # segs \<Rightarrow>
             let (segStartLBA, segEndLBA) = SegmentToLBARange segID (ztl_sectorsPerSeg s);
                 (readStart, readEnd) = seg_overlap (ztl_sectorsPerSeg s) (rd_lba r) (rd_end r) segID;
                 readCount = ucast (readEnd - readStart) :: u32;
                 physAddr = L2P_Get (ztl_l2p s) segID in
             if IsUnmapped physAddr then RSeg (r\<lparr>rd_segs := segs, rd_off := rd_off r + unat readCount * sectorSize\<rparr>)
             else RZone (r\<lparr>rd_segs := segs\<rparr>) physAddr (readStart - segStartLBA) readCount)"
| "read_section ops (s, RZone r physAddr intraSegOffset readCount) =
     (s, case zm_ZoneInfo (ztl_zm s) (ZoneID physAddr) of
           None \<Rightarrow> RReturned (Inl (Errorf ''zone not found in zone manager''))
         | Some zoneInfo \<Rightarrow> RBuf r (ZoneID physAddr) (zi_StartLBA zoneInfo + OffsetSectors physAddr + intraSegOffset) readCount)"
| "read_section ops (s, RBuf r zoneID physReadLBA readCount) =
     (s, case wb_Lookup (ztl_buf s) zoneID physReadLBA readCount of
           Some bufData \<Rightarrow> RSeg (r\<lparr>rd_result := blit (rd_off r) bufData (rd_result r), rd_off := rd_off r + length bufData\<rparr>)
         | None \<Rightarrow> RDev r physReadLBA readCount)"
| "read_section ops (s, RDev r physReadLBA readCount) =
     (case dev_ReadSectors ops (ztl_device s) physReadLBA readCount of
        (Inl err, d) \<Rightarrow> (s\<lparr>ztl_device := d\<rparr>, RReturned (Inl (Wrap ''reading'' err)))
      | (Inr data, d) \<Rightarrow>
          (s\<lparr>ztl_device := d\<rparr>, RSeg (r\<lparr>rd_result := blit (rd_off r) data (rd_result r), rd_off := rd_off r + length data\<rparr>)))"
| "read_section ops (s, RReturned res) = (s, RReturned res)"

section \<open>Interleaving\<close>

datatype thread = Writing write_pc | Reading read_pc | Flushing flusher_pc

fun thread_section ::
    "map_order \<Rightarrow> (u32 list \<Rightarrow> u32 list) \<Rightarrow> 'd ZonedDevice \<Rightarrow> 'j Journal option \<Rightarrow> int \<Rightarrow> ('d, 'j) ZTL \<Rightarrow> thread \<Rightarrow> ('d, 'j) ZTL \<times> thread" where
  "thread_section ord zord ops jn now s (Writing pc) = map_prod id Writing (write_section ord ops jn now (s, pc))"
| "thread_section ord zord ops jn now s (Reading pc) = map_prod id Reading (read_section ops (s, pc))"
| "thread_section ord zord ops jn now s (Flushing pc) = map_prod id Flushing (flusher_section zord ops now (s, pc))"

text \<open>A schedule names the thread that runs its next section.\<close>

fun interleave ::
    "map_order \<Rightarrow> (u32 list \<Rightarrow> u32 list) \<Rightarrow> 'd ZonedDevice \<Rightarrow> 'j Journal option \<Rightarrow> int \<Rightarrow> nat list \<Rightarrow>
     ('d, 'j) ZTL \<times> thread list \<Rightarrow> ('d, 'j) ZTL \<times> thread list" where
  "interleave ord zord ops jn now [] st = st"
| "interleave ord zord ops jn now (i # is) (s, ts) =
     (if i < length ts
      then case thread_section ord zord ops jn now s (ts ! i) of (s1, t) \<Rightarrow> interleave ord zord ops jn now is (s1, ts[i := t])
      else interleave ord zord ops jn now is (s, ts))"

section \<open>A thread alone\<close>

text \<open>Repeating \<open>f\<close> leads from \<open>x\<close> to \<open>y\<close>.\<close>

definition runs :: "('a \<Rightarrow> 'a) \<Rightarrow> 'a \<Rightarrow> 'a \<Rightarrow> bool" where
  "runs f x y \<longleftrightarrow> (\<exists>n. (f ^^ n) x = y)"

lemma runs_refl [simp]: "runs f x x"
  unfolding runs_def by (rule exI [of _ 0]) simp

lemma runs_step: "runs f (f x) y \<Longrightarrow> runs f x y"
  unfolding runs_def by (metis funpow_swap1 funpow.simps(2) comp_apply)

lemma runs_trans: "runs f x y \<Longrightarrow> runs f y z \<Longrightarrow> runs f x z"
  unfolding runs_def by (metis funpow_add comp_apply add.commute)

lemma flush_job_alone:
  assumes "wb_Flush ops (ztl_buf s) z (ztl_device s) (ztl_zm s) = (r, wb, zm, d)"
  shows "(flush_section ops ^^ 4) (s, FlTake z) = (s\<lparr>ztl_buf := wb, ztl_zm := zm, ztl_device := d\<rparr>, FlDone r)"
  using assms by (auto simp: wb_Flush_def eval_nat_numeral Let_def split: option.splits if_splits prod.splits sum.splits)

lemma flush_done_stays: "(flush_section ops ^^ n) (s, FlDone r) = (s, FlDone r)"
  by (induction n) simp_all

text \<open>A flush inside another call, whose other sections are those of \<open>f\<close>.\<close>

lemma flush_inside:
  assumes f: "\<And>s job. (\<And>r. job \<noteq> FlDone r) \<Longrightarrow> f (s, C job) = map_prod id C (flush_section ops (s, job))"
    and "wb_Flush ops (ztl_buf s) z (ztl_device s) (ztl_zm s) = (r, wb, zm, d)"
  shows "runs f (s, C (FlTake z)) (s\<lparr>ztl_buf := wb, ztl_zm := zm, ztl_device := d\<rparr>, C (FlDone r))"
proof -
  have "runs f (t, C job) (t', C (FlDone r))" if "(flush_section ops ^^ n) (t, job) = (t', FlDone r)" for n t job t'
    using that
  proof (induction n arbitrary: t job)
    case (Suc n)
    show ?case
    proof (cases "\<exists>r. job = FlDone r")
      case True
      then show ?thesis using Suc.prems flush_done_stays [of "Suc n" ops t] by auto
    next
      case False
      obtain t1 job1 where "flush_section ops (t, job) = (t1, job1)" by fastforce
      then show ?thesis using Suc f [of job t] False by - (rule runs_step, simp add: funpow_swap1)
    qed
  qed simp
  then show ?thesis using flush_job_alone [OF assms(2)] by blast
qed

lemma writeSegment_place:
  "ztl_writeSegment ops jn now s segID data =
     (case ztl_placeSegment ops jn now s segID data of
        (Inl err, s1) \<Rightarrow> (Inl err, s1)
      | (Inr None, s1) \<Rightarrow> (Inr (), s1)
      | (Inr (Some z), s1) \<Rightarrow>
          (case wb_Flush ops (ztl_buf s1) z (ztl_device s1) (ztl_zm s1) of
             (r, wb, zm, d) \<Rightarrow>
               let s2 = s1\<lparr>ztl_buf := wb, ztl_zm := zm, ztl_device := d\<rparr> in
               (case r of
                  Inl err \<Rightarrow> (Inl (Wrap ''flush full zone'' err), s2)
                | Inr _ \<Rightarrow> (Inr (), s2\<lparr>ztl_currentZoneOpen := False\<rparr>))))"
  by (simp add: ztl_writeSegment_def ztl_placeSegment_def ztl_flushIfFull_def Let_def split: prod.split sum.split option.split)

text \<open>One iteration of the loop of \<^verbatim>\<open>Write\<close>.\<close>

definition wt_next :: "('d, 'j) ZTL \<Rightarrow> Writer \<Rightarrow> Writer" where
  "wt_next s w = (case wt_segs w of [] \<Rightarrow> w | g # gs \<Rightarrow> w\<lparr>wt_segs := gs, wt_off := wt_off w + wt_count s w g\<rparr>)"

definition wt_segData :: "('d, 'j) ZTL \<Rightarrow> Writer \<Rightarrow> bytes" where
  "wt_segData s w = bslice (wt_off w) (wt_off w + wt_count s w (hd (wt_segs w))) (wt_data w)"

lemma write_iteration:
  assumes "wt_segs w = g # gs" and "ztl_writeSegment ops jn now s g (wt_segData s w) = (r, s')"
  shows "runs (write_section ord ops jn now) (s, WSeg w)
    (s', case r of Inl err \<Rightarrow> WReturned (Inl (Wrap ''writing segment'' err)) | Inr _ \<Rightarrow> WSeg (wt_next s w))"
proof -
  obtain p s1 where p: "ztl_placeSegment ops jn now s g (wt_segData s w) = (p, s1)" by fastforce
  have st: "write_section ord ops jn now (s, WSeg w) = (case p of
      Inl err \<Rightarrow> (s1, WReturned (Inl (Wrap ''writing segment'' err))) | Inr None \<Rightarrow> (s1, WSeg (wt_next s w))
    | Inr (Some z) \<Rightarrow> (s1, WFull (wt_next s w) (FlTake z)))"
    using p assms(1) by (simp add: wt_segData_def wt_next_def Let_def split: sum.split option.split)
  show ?thesis
  proof (cases "\<exists>z. p = Inr (Some z)")
    case True
    then obtain z where z: "p = Inr (Some z)" by blast
    obtain r1 wb zm d where fl: "wb_Flush ops (ztl_buf s1) z (ztl_device s1) (ztl_zm s1) = (r1, wb, zm, d)" by (metis prod_cases4)
    let ?s2 = "s1\<lparr>ztl_buf := wb, ztl_zm := zm, ztl_device := d\<rparr>"
    have c: "write_section ord ops jn now (t, WFull (wt_next s w) job) = map_prod id (WFull (wt_next s w)) (flush_section ops (t, job))"
      if "\<And>r. job \<noteq> FlDone r" for t job
      using that by (cases job) (auto split: prod.split)
    have "runs (write_section ord ops jn now) (s1, WFull (wt_next s w) (FlTake z)) (?s2, WFull (wt_next s w) (FlDone r1))"
      by (rule flush_inside [OF c fl])
    moreover have "runs (write_section ord ops jn now) (?s2, WFull (wt_next s w) (FlDone r1))
        (s', case r of Inl err \<Rightarrow> WReturned (Inl (Wrap ''writing segment'' err)) | Inr _ \<Rightarrow> WSeg (wt_next s w))"
      using assms(2) p z fl by - (rule runs_step, auto simp: writeSegment_place Let_def split: sum.splits)
    ultimately show ?thesis using st z by - (rule runs_step, simp add: runs_trans)
  next
    case False
    then show ?thesis
      using assms(2) p st by - (rule runs_step, auto simp: writeSegment_place split: sum.splits option.splits)
  qed
qed

lemma write_loop_alone:
  assumes "ztl_writeSegs ops jn now s lba e segs data off = (r, s')"
  shows "runs (write_section ord ops jn now) (s, WSeg \<lparr>wt_lba = lba, wt_end = e, wt_segs = segs, wt_data = data, wt_off = off\<rparr>)
    (s', case r of Inl err \<Rightarrow> WReturned (Inl err) | Inr _ \<Rightarrow> WCommit)"
  using assms
proof (induction segs arbitrary: s off)
  case Nil
  then show ?case by - (rule runs_step, auto)
next
  case (Cons g gs)
  let ?w = "\<lparr>wt_lba = lba, wt_end = e, wt_segs = g # gs, wt_data = data, wt_off = off\<rparr>"
  obtain r1 s1 where ws: "ztl_writeSegment ops jn now s g (wt_segData s ?w) = (r1, s1)" by fastforce
  have it: "runs (write_section ord ops jn now) (s, WSeg ?w)
      (s1, case r1 of Inl err \<Rightarrow> WReturned (Inl (Wrap ''writing segment'' err)) | Inr _ \<Rightarrow> WSeg (wt_next s ?w))"
    by (rule write_iteration [OF _ ws]) simp
  show ?case
  proof (cases r1)
    case (Inl err)
    then show ?thesis using it Cons.prems ws by (auto simp: wt_segData_def wt_count_def split: prod.splits)
  next
    case (Inr u)
    then have "ztl_writeSegs ops jn now s1 lba e gs data (off + wt_count s ?w g) = (r, s')"
      using Cons.prems ws by (auto simp: wt_segData_def wt_count_def split: prod.splits)
    from Cons.IH [OF this] show ?thesis using it Inr by (auto simp: wt_next_def intro: runs_trans)
  qed
qed

lemma write_commit:
  "log_call jn_GroupCommit jn s = (r, s') \<Longrightarrow>
     runs (write_section ord ops jn now) (s, WCommit)
       (s', WReturned (case r of Inl err \<Rightarrow> Inl (Wrap ''WAL group commit'' err) | Inr _ \<Rightarrow> Inr ()))"
  by (rule runs_step) (simp split: sum.split)

lemma write_alone:
  assumes "ztl_Write ord ops jn now s lba data = Some (r, s')"
  shows "runs (write_section ord ops jn now) (s, WStart lba data) (s', WReturned r)"
proof (cases "length data = 0 \<or> length data mod 512 \<noteq> 0")
  case True
  then show ?thesis using assms by - (rule runs_step, auto simp: ztl_Write_def)
next
  case False
  let ?f = "write_section ord ops jn now"
  obtain r1 s1 where gc: "(if zm_FreeZoneCount (ztl_zm s) < ztl_emergencyFreeZones s then gc_RunEmergencyGC ord ops jn s else Some (Inr (), s)) = Some (r1, s1)"
    using assms False by (auto simp: ztl_Write_def split: option.splits if_splits)
  show ?thesis
  proof (cases r1)
    case (Inl err)
    then show ?thesis using assms False gc by - (rule runs_step, auto simp: ztl_Write_def)
  next
    case (Inr u)
    define e where "e = lba + of_nat (length data) div 512"
    define segs where "segs = word_upto (LBAToSegmentID lba (ztl_sectorsPerSeg s1)) (LBAToSegmentID (e - 1) (ztl_sectorsPerSeg s1))"
    obtain r2 s2 where ws: "ztl_writeSegs ops jn now s1 lba e segs data 0 = (r2, s2)" by fastforce
    obtain r3 s3 where lc: "log_call jn_GroupCommit jn s2 = (r3, s3)" by fastforce
    have st: "?f (s, WStart lba data) = (s1, WSeg \<lparr>wt_lba = lba, wt_end = e, wt_segs = segs, wt_data = data, wt_off = 0\<rparr>)"
      using False gc Inr by (simp add: e_def segs_def Let_def)
    have "runs ?f (s2, case r2 of Inl err \<Rightarrow> WReturned (Inl err) | Inr _ \<Rightarrow> WCommit) (s', WReturned r)"
      using assms False gc Inr ws lc write_commit [OF lc, of ord ops now]
      by (cases r2; cases r3) (auto simp: ztl_Write_def Let_def simp flip: e_def segs_def)
    then show ?thesis using write_loop_alone [OF ws] st by - (rule runs_step, auto intro: runs_trans)
  qed
qed

lemma read_loop_alone:
  assumes "ztl_readSegs ops s lba e segs result off = (res, s')"
  shows "runs (read_section ops) (s, RSeg \<lparr>rd_lba = lba, rd_end = e, rd_segs = segs, rd_result = result, rd_off = off\<rparr>) (s', RReturned res)"
  using assms
proof (induction segs arbitrary: s result off)
  case Nil
  then show ?case by - (rule runs_step, simp)
next
  case (Cons g gs)
  let ?f = "read_section ops" and ?r = "\<lambda>segs result off. \<lparr>rd_lba = lba, rd_end = e, rd_segs = segs, rd_result = result, rd_off = off\<rparr>"
  obtain a b where ov: "seg_overlap (ztl_sectorsPerSeg s) lba e g = (a, b)" by fastforce
  obtain sa sb where rg: "SegmentToLBARange g (ztl_sectorsPerSeg s) = (sa, sb)" by fastforce
  let ?n = "ucast (b - a) :: u32" and ?p = "L2P_Get (ztl_l2p s) g"
  show ?case
  proof (cases "IsUnmapped ?p")
    case True
    then show ?thesis using Cons ov rg by - (rule runs_step, simp)
  next
    case mapped: False
    then have s1: "?f (s, RSeg (?r (g # gs) result off)) = (s, RZone (?r gs result off) ?p (a - sa) ?n)" using ov rg by simp
    show ?thesis
    proof (cases "zm_ZoneInfo (ztl_zm s) (ZoneID ?p)")
      case None
      then have "runs ?f (s, RZone (?r gs result off) ?p (a - sa) ?n) (s', RReturned res)"
        using Cons.prems mapped ov rg by - (rule runs_step, simp)
      then show ?thesis using s1 by - (rule runs_step, simp)
    next
      case (Some zi)
      let ?lba = "zi_StartLBA zi + OffsetSectors ?p + (a - sa)"
      have "runs ?f (s, RBuf (?r gs result off) (ZoneID ?p) ?lba ?n) (s', RReturned res)"
      proof (cases "wb_Lookup (ztl_buf s) (ZoneID ?p) ?lba ?n")
        case hit: (Some buf)
        then show ?thesis using Cons mapped Some ov rg by - (rule runs_step, simp)
      next
        case miss: None
        obtain rr d where rd: "dev_ReadSectors ops (ztl_device s) ?lba ?n = (rr, d)" by fastforce
        have "runs ?f (s, RDev (?r gs result off) ?lba ?n) (s', RReturned res)"
          using Cons mapped Some ov rg miss rd by (cases rr) (rule runs_step, simp)+
        then show ?thesis using miss by - (rule runs_step, simp)
      qed
      then have "runs ?f (s, RZone (?r gs result off) ?p (a - sa) ?n) (s', RReturned res)" using Some by - (rule runs_step, simp)
      then show ?thesis using s1 by - (rule runs_step, simp)
    qed
  qed
qed

lemma read_alone: "ztl_Read ops s lba count = (res, s') \<Longrightarrow> runs (read_section ops) (s, RStart lba count) (s', RReturned res)"
  using read_loop_alone [of ops s lba] by - (rule runs_step, auto simp: ztl_Read_def Let_def split: if_splits)

lemma flusher_loop_alone:
  assumes "wb_flushEach ops zs err (ztl_buf s) (ztl_zm s) (ztl_device s) = (r, wb, zm, d)"
  shows "runs (flusher_section zord ops now) (s, FNext zs err) (s\<lparr>ztl_buf := wb, ztl_zm := zm, ztl_device := d\<rparr>, FNext [] r)"
  using assms
proof (induction zs arbitrary: s err)
  case (Cons z zs)
  let ?f = "flusher_section zord ops now"
  obtain r1 wb1 zm1 d1 where fl: "wb_Flush ops (ztl_buf s) z (ztl_device s) (ztl_zm s) = (r1, wb1, zm1, d1)" by (metis prod_cases4)
  let ?s1 = "s\<lparr>ztl_buf := wb1, ztl_zm := zm1, ztl_device := d1\<rparr>" and ?err = "if err = Inr () then r1 else err"
  have c: "?f (t, FIn zs err job) = map_prod id (FIn zs err) (flush_section ops (t, job))" if "\<And>r. job \<noteq> FlDone r" for t :: "('a, 'b) ZTL" and job
    using that by (cases job) (auto split: prod.split)
  have "runs ?f (s, FIn zs err (FlTake z)) (?s1, FIn zs err (FlDone r1))" by (rule flush_inside [OF c fl])
  moreover have "runs ?f (?s1, FIn zs err (FlDone r1)) (s\<lparr>ztl_buf := wb, ztl_zm := zm, ztl_device := d\<rparr>, FNext [] r)"
    using Cons.IH [of ?err ?s1] Cons.prems fl by - (rule runs_step, simp)
  ultimately show ?case by - (rule runs_step, simp add: runs_trans)
qed auto

lemma flusher_alone:
  "wb_FlushAll zord ops (ztl_buf s) (ztl_zm s) (ztl_device s) = (r, wb, zm, d) \<Longrightarrow>
     runs (flusher_section zord ops now) (s, FAll) (s\<lparr>ztl_buf := wb, ztl_zm := zm, ztl_device := d\<rparr>, FNext [] r)"
  by (rule runs_step) (simp add: wb_FlushAll_def flusher_loop_alone)

lemma aged_alone: "\<exists>r. runs (flusher_section zord ops now) (s, FAged) (ztl_flushTick zord ops now s, FNext [] r)"
proof -
  obtain r wb zm d where e: "wb_flushEach ops (wb_aged zord now (ztl_buf s)) (Inr ()) (ztl_buf s) (ztl_zm s) (ztl_device s) = (r, wb, zm, d)"
    by (metis prod_cases4)
  have "runs (flusher_section zord ops now) (s, FAged) (s\<lparr>ztl_buf := wb, ztl_zm := zm, ztl_device := d\<rparr>, FNext [] r)"
    by (rule runs_step) (simp add: flusher_loop_alone [OF e])
  then show ?thesis using e by (auto simp: ztl_flushTick_def wb_flushAged_def)
qed

text \<open>In a schedule: the thread runs alone, the others stay where they are.\<close>

lemma interleave_append: "interleave ord zord ops jn now (is @ js) st = interleave ord zord ops jn now js (interleave ord zord ops jn now is st)"
  by (induction "is" arbitrary: st) (auto split: prod.splits)

lemma runs_interleave:
  assumes "runs f (s, pc) (s', pc')" and C: "\<And>s pc. thread_section ord zord ops jn now s (C pc) = map_prod id C (f (s, pc))"
    and i: "i < length ts" "ts ! i = C pc"
  shows "\<exists>n. interleave ord zord ops jn now (replicate n i) (s, ts) = (s', ts[i := C pc'])"
proof -
  obtain n where "(f ^^ n) (s, pc) = (s', pc')" using assms(1) by (auto simp: runs_def)
  then have "interleave ord zord ops jn now (replicate n i) (s, ts) = (s', ts[i := C pc'])"
    using i
  proof (induction n arbitrary: s pc ts)
    case 0
    then show ?case using list_update_id [of ts i] by auto
  next
    case (Suc n)
    obtain s1 pc1 where f: "f (s, pc) = (s1, pc1)" by fastforce
    then have "(f ^^ n) (s1, pc1) = (s', pc')" using Suc.prems(1) by (simp add: funpow_swap1)
    then show ?case using Suc.IH [of s1 pc1 "ts[i := C pc1]"] Suc.prems f by (simp add: C)
  qed
  then show ?thesis by blast
qed

section \<open>Races\<close>

text \<open>A device with two zones of eight sectors, four segments each, zone 0 in use already; nothing has been written through the layer.\<close>

definition em_demo8 :: Emulator where
  "em_demo8 = \<lparr>em_zones = [\<lparr>zs_state = ZoneStateImplicitOpen, zs_writePointer = 1, zs_data = replicate 512 7 @ zeros 3584\<rparr>,
                          \<lparr>zs_state = ZoneStateEmpty, zs_writePointer = 8, zs_data = zeros 4096\<rparr>],
               em_zoneCount = 2, em_zoneSectors = 8, em_maxOpenZones = 1, em_openCount = 1\<rparr>"

definition ztl_demo8 :: "(Emulator, unit) ZTL" where
  "ztl_demo8 = ztl_demo\<lparr>
     ztl_l2p := \<lparr>l2p_entries = [0, 0, 0, 0, 0, 0, 0, 0], l2p_size = 8\<rparr>, ztl_device := em_demo8, ztl_zoneSectors := 8,
     ztl_buf := (ztl_buf ztl_demo)\<lparr>wb_zoneSectors := 8\<rparr>,
     ztl_zm := zm_demo\<lparr>zm_zones := [(zi_demo 0 ZoneStateImplicitOpen 0 0)\<lparr>zi_WritePointer := 1, zi_SizeSectors := 8\<rparr>,
        (zi_demo 1 ZoneStateEmpty 0 0)\<lparr>zi_WritePointer := 8, zi_StartLBA := 8, zi_SizeSectors := 8\<rparr>]\<rparr>\<rparr>"

definition seg_of :: "u8 \<Rightarrow> bytes" where "seg_of b = replicate 1024 b"

lemma replicate_eight: "replicate 8 x = [x, x, x, x, x, x, x, x]"
  by (simp add: eval_nat_numeral)

lemma ztl_demo8_new: "ztl_New ztl_demo_cfg em_dev em_demo8 () = Inr ztl_demo8"
  by (simp add: ztl_new_eval ztl_demo8_def em_demo8_def replicate_eight)

lemma em_demo8_inv: "em_inv em_demo8"
proof -
  have all: "(\<forall>i < 8. P i) \<longleftrightarrow> P 0 \<and> P 1 \<and> P 2 \<and> P 3 \<and> P 4 \<and> P 5 \<and> P 6 \<and> P (7 :: nat)" for P
    by (simp add: eval_nat_numeral All_less_Suc) blast
  have "em_zone_ok 8 0 \<lparr>zs_state = ZoneStateImplicitOpen, zs_writePointer = 1, zs_data = replicate 512 7 @ zeros 3584\<rparr>"
    unfolding em_zone_ok_def all by (simp add: sector_def zeros_def)
  moreover have "em_zone_ok 8 1 \<lparr>zs_state = ZoneStateEmpty, zs_writePointer = 8, zs_data = zeros 4096\<rparr>"
    unfolding em_zone_ok_def all by (simp add: sector_def zeros_def)
  ultimately show ?thesis by (simp add: em_inv_def em_demo8_def All_less_Suc isOpen_def)
qed

lemma ztl_demo8_good: "ztl_good ztl_demo8"
proof -
  have "ztl_inv (em_view em_demo8) ztl_demo8 \<and> ztl_device ztl_demo8 = em_demo8"
    by (rule ztl_New_em_inv [OF em_demo8_inv _ _ _ _ _ _ ztl_demo8_new])
      (simp_all add: em_demo8_def ztl_demo_cfg_def SectorsPerSegment_def DefaultConfig_def)
  moreover have "0 < fill (em_view em_demo8) (ztl_buf ztl_demo8) 0" by (simp add: fill_def em_demo8_def)
  ultimately show ?thesis using em_demo8_inv by (simp add: ztl_good_def)
qed

lemmas race_eval = ztl_placeSegment_def wt_count_def ztl_demo8_def em_demo8_def seg_of_def ztl_eval ztl_eval_read word_le_nat_alt
  em_read_loop.simps [of _ _ 0] em_read_loop.simps [of _ _ 1024]

text \<open>A device with three zones of two segments each; nothing has been written through the layer.\<close>

definition em_demo3 :: Emulator where
  "em_demo3 = em_demo4\<lparr>em_zones := em_zones em_demo4 @ [\<lparr>zs_state = ZoneStateEmpty, zs_writePointer = 8, zs_data = zeros 2048\<rparr>],
     em_zoneCount := 3, em_maxOpenZones := 3\<rparr>"

definition ztl_demo3 :: "(Emulator, unit) ZTL" where
  "ztl_demo3 = ztl_demo4\<lparr>ztl_l2p := \<lparr>l2p_entries = [0, 0, 0, 0, 0, 0], l2p_size = 6\<rparr>, ztl_device := em_demo3,
     ztl_zm := (ztl_zm ztl_demo4)\<lparr>zm_zones := zm_zones (ztl_zm ztl_demo4) @ [(zi_demo 2 ZoneStateEmpty 0 0)\<lparr>zi_WritePointer := 8, zi_StartLBA := 8, zi_SizeSectors := 4\<rparr>],
       zm_freeList := [1, 2], zm_maxOpenZones := 3\<rparr>\<rparr>"

lemma replicate_six: "replicate 6 x = [x, x, x, x, x, x]"
  by (simp add: eval_nat_numeral)

lemma ztl_demo3_new: "ztl_New ztl_demo_cfg em_dev em_demo3 () = Inr ztl_demo3"
  by (simp add: ztl_new_eval ztl_demo3_def em_demo3_def ztl_demo4_def em_demo4_def replicate_six)

text \<open>
  Another race, on \<^verbatim>\<open>currentZoneOpen\<close>: a call that has filled a zone releases \<^verbatim>\<open>ztl.mu\<close> for the flush and afterwards clears the flag, also if another call has allocated the
  next zone meanwhile. That zone is abandoned with room for a segment, and the next write finds no free zone.
\<close>

lemma full_zone_race_abandons:
  "\<exists>is s err. interleave (\<lambda>x. x) (\<lambda>x. x) em_dev None 0 is
      (ztl_demo3, [Writing (WStart 0 (seg_of 1)), Writing (WStart 2 (seg_of 2)), Writing (WStart 4 (seg_of 3)), Writing (WStart 6 (seg_of 4))]) =
      (s, [Writing (WReturned (Inr ())), Writing (WReturned (Inr ())), Writing (WReturned (Inr ())), Writing (WReturned (Inl err))]) \<and>
    zm_WritePointer (ztl_zm s) 1 = 6"
  by (rule exI [of _ "[0, 0, 0, 0, 1, 1, 1, 2, 2, 2, 2, 1, 1, 1, 1, 1, 1, 1, 3, 3, 3, 3]"])
    (simp add: race_eval ztl_demo3_def em_demo3_def ztl_demo4_def em_demo4_def list_Remove_def)

section \<open>Writers only\<close>

text \<open>
  Several calls of \<^verbatim>\<open>Write\<close> at once, in schedules in which the flush of a full zone is not interrupted: a step is one iteration of the loop of one of
  the calls. The trace says which segments have been written with which data.
\<close>

inductive writers_run ::
    "'j Journal option \<Rightarrow> int \<Rightarrow> (Emulator, 'j) ZTL \<times> Writer list \<Rightarrow> (SegmentID \<times> bytes) list \<Rightarrow> (Emulator, 'j) ZTL \<times> Writer list \<Rightarrow> bool"
  for jn now where
  wr_nil: "writers_run jn now st [] st"
| wr_step: "i < length ws \<Longrightarrow> wt_segs (ws ! i) = g # gs \<Longrightarrow>
    ztl_writeSegment em_dev jn now s g (wt_segData s (ws ! i)) = (Inr (), s1) \<Longrightarrow>
    writers_run jn now (s1, ws[i := wt_next s (ws ! i)]) tr st \<Longrightarrow>
    writers_run jn now (s, ws) ((g, wt_segData s (ws ! i)) # tr) st"

text \<open>These are schedules of the threads.\<close>

lemma writers_run_interleave:
  assumes "writers_run jn now st tr st'"
  shows "\<exists>is. interleave ord zord em_dev jn now is (apsnd (map (\<lambda>w. Writing (WSeg w))) st) = apsnd (map (\<lambda>w. Writing (WSeg w))) st'"
  using assms
proof (induction rule: writers_run.induct)
  case (wr_nil st)
  show ?case by (rule exI [of _ "[]"]) simp
next
  case (wr_step i ws g gs s s1 tr st)
  let ?ts = "map (\<lambda>w. Writing (WSeg w)) ws"
  have "runs (write_section ord em_dev jn now) (s, WSeg (ws ! i)) (s1, WSeg (wt_next s (ws ! i)))"
    using write_iteration [OF wr_step.hyps(2,3), of ord] by simp
  from runs_interleave [OF this thread_section.simps(1), of i ?ts zord]
  obtain n where "interleave ord zord em_dev jn now (replicate n i) (s, ?ts) = (s1, ?ts[i := Writing (WSeg (wt_next s (ws ! i)))])"
    using wr_step.hyps(1) by auto
  moreover obtain "is" where "interleave ord zord em_dev jn now is (s1, map (\<lambda>w. Writing (WSeg w)) (ws[i := wt_next s (ws ! i)])) =
      apsnd (map (\<lambda>w. Writing (WSeg w))) st" using wr_step.IH by auto
  ultimately show ?case by (intro exI [of _ "replicate n i @ is"]) (simp add: interleave_append map_update)
qed

text \<open>
  A call that has whole segments to write: what is left are the \<open>m\<close> segments from \<open>G\<close> on, and the rest of the data is theirs.
\<close>

definition writer_ready :: "u64 \<Rightarrow> Writer \<Rightarrow> nat \<Rightarrow> nat \<Rightarrow> bool" where
  "writer_ready sps w G m \<longleftrightarrow> (G + m) * unat sps < 2 ^ 63 \<and> unat (wt_end w) = (G + m) * unat sps \<and> unat (wt_lba w) \<le> G * unat sps \<and>
     wt_segs w = map of_nat [G..<G + m] \<and> (\<exists>k. wt_off w = sectorSize * (unat sps * k) \<and> length (wt_data w) = sectorSize * (unat sps * (k + m)))"

text \<open>The data of its \<open>j\<close>th segment.\<close>

definition wt_slice :: "u64 \<Rightarrow> Writer \<Rightarrow> nat \<Rightarrow> bytes" where
  "wt_slice sps w j = bslice (wt_off w + sectorSize * (unat sps * j)) (wt_off w + sectorSize * (unat sps * j) + unat sps * sectorSize) (wt_data w)"

lemma writer_started:
  assumes "0 < unat sps" and "unat lba = G * unat sps" and "length data = sectorSize * (unat sps * n)" and "0 < n" and "unat lba + unat sps * n < 2 ^ 54"
    and "e = lba + of_nat (length data) div 512"
  shows "writer_ready sps \<lparr>wt_lba = lba, wt_end = e, wt_segs = word_upto (LBAToSegmentID lba sps) (LBAToSegmentID (e - 1) sps), wt_data = data, wt_off = 0\<rparr> G n"
proof -
  note seg = aligned_segments [OF assms(1-5)]
  have "(G + n) * unat sps < 2 ^ 63" using assms(2,5) by (simp add: algebra_simps)
  then show ?thesis using seg(1,3) assms(2,3) unfolding writer_ready_def assms(6) by (auto intro!: exI [of _ 0])
qed

lemma writer_ready_step:
  assumes r: "writer_ready (ztl_sectorsPerSeg s) w G m" and S: "0 < unat (ztl_sectorsPerSeg s)" and g: "wt_segs w = g # gs"
  shows "unat g = G" and "wt_segData s w = wt_slice (ztl_sectorsPerSeg s) w 0"
    and "length (wt_segData s w) = sectorSize * unat (ztl_sectorsPerSeg s)"
    and "writer_ready (ztl_sectorsPerSeg s) (wt_next s w) (Suc G) (m - 1)" and "wt_segs (wt_next s w) = gs"
    and "wt_slice (ztl_sectorsPerSeg s) (wt_next s w) j = wt_slice (ztl_sectorsPerSeg s) w (Suc j)"
proof -
  let ?S = "unat (ztl_sectorsPerSeg s)"
  obtain k where w: "(G + m) * ?S < 2 ^ 63" "unat (wt_end w) = (G + m) * ?S" "unat (wt_lba w) \<le> G * ?S" "wt_segs w = map of_nat [G..<G + m]"
      "wt_off w = sectorSize * (?S * k)" "length (wt_data w) = sectorSize * (?S * (k + m))"
    using r by (auto simp: writer_ready_def)
  have m: "0 < m" using w(4) g by (cases m) auto
  then have hd: "g = of_nat G" "gs = map of_nat [Suc G..<G + m]" using w(4) g by (simp_all add: upt_conv_Cons)
  have "G * 1 \<le> (G + m) * ?S" using S by (intro mult_le_mono) auto
  then show gG: "unat g = G" using w(1) hd(1) by (simp add: unat_u64_of_nat)
  obtain a b where "seg_overlap (ztl_sectorsPerSeg s) (wt_lba w) (wt_end w) g = (a, b)" "unat (b - a) = ?S"
    using em.seg_overlap_whole [of "ztl_sectorsPerSeg s" g m "wt_lba w" "wt_end w"] S w(1-3) m gG by auto
  then have c: "wt_count s w g = ?S * sectorSize" by (simp add: wt_count_def)
  show "wt_segData s w = wt_slice (ztl_sectorsPerSeg s) w 0" using g c by (simp add: wt_segData_def wt_slice_def)
  then show "length (wt_segData s w) = sectorSize * ?S" using w(5,6) m by (cases m) (auto simp: wt_slice_def algebra_simps)
  show "wt_segs (wt_next s w) = gs" using g by (simp add: wt_next_def)
  show "wt_slice (ztl_sectorsPerSeg s) (wt_next s w) j = wt_slice (ztl_sectorsPerSeg s) w (Suc j)"
    using g c by (simp add: wt_next_def wt_slice_def algebra_simps)
  show "writer_ready (ztl_sectorsPerSeg s) (wt_next s w) (Suc G) (m - 1)"
    using w m hd(2) g c by (auto simp: writer_ready_def wt_next_def algebra_simps intro!: exI [of _ "Suc k"])
qed

lemma seg_write_content:
  assumes good: "ztl_good s" and d: "length d = sectorSize * unat (ztl_sectorsPerSeg s)" and w: "ztl_writeSegment em_dev jn now s g d = (Inr (), s')"
  shows "ztl_good s' \<and> ztl_sectorsPerSeg s' = ztl_sectorsPerSeg s \<and>
    (\<forall>a < 2 ^ 63. ztl_content s' a = sectors_write (ztl_content s) (unat g * unat (ztl_sectorsPerSeg s)) d a)"
proof -
  let ?S = "unat (ztl_sectorsPerSeg s)" and ?v = "em_view (ztl_device s)" and ?c = "\<lambda>h i. sector (unat (ztl_sectorsPerSeg s) * (h - unat g) + i) d"
  have i: "em_inv (ztl_device s)" "ztl_inv ?v s" "0 < fill ?v (ztl_buf s) 0" using good by (auto simp: ztl_good_def)
  then have S: "0 < ?S" by (simp add: ztl_inv_def)
  have ok: "em_inv (ztl_device s')" "ztl_inv (em_view (ztl_device s')) s'" "segs_written ?v s (em_view (ztl_device s')) s' (unat g) 1 ?c"
    using em.ztl_writeSegment_written [OF i(1,2) d w, of ?c] by auto
  have "ztl_content s' a = sectors_write (ztl_content s) (unat g * ?S) d a" if "a < 2 ^ 63" for a
    using segs_written_logical [OF ok(3) i(3) S that refl] d by (simp add: ztl_content_def sectors_write_def)
  then show ?thesis using ok i(3) by (auto simp: ztl_good_def segs_written_def)
qed

text \<open>The effect of a trace on an array of sectors.\<close>

definition seg_writes :: "nat \<Rightarrow> (SegmentID \<times> bytes) list \<Rightarrow> (nat \<Rightarrow> bytes) \<Rightarrow> nat \<Rightarrow> bytes" where
  "seg_writes S = fold (\<lambda>(g, d) f. sectors_write f (unat g * S) d)"

lemma seg_writes_cong: "\<forall>a < N. f a = f' a \<Longrightarrow> \<forall>a < N. seg_writes S tr f a = seg_writes S tr f' a"
proof (induction tr arbitrary: f f')
  case (Cons p tr)
  have "\<forall>a < N. (case p of (g, d) \<Rightarrow> sectors_write f (unat g * S) d) a = (case p of (g, d) \<Rightarrow> sectors_write f' (unat g * S) d) a"
    using Cons.prems by (auto simp: sectors_write_def split: prod.split)
  from Cons.IH [OF this] show ?case by (cases p) (simp add: seg_writes_def)
qed (simp add: seg_writes_def)

text \<open>The segments and data that the calls have still to write.\<close>

definition wt_todo :: "u64 \<Rightarrow> Writer list \<Rightarrow> (SegmentID \<times> bytes) set" where
  "wt_todo sps ws = {(wt_segs w ! j, wt_slice sps w j) | w j. w \<in> set ws \<and> j < length (wt_segs w)}"

lemma wt_todo_Cons: "wt_todo sps (w # ws) = (\<lambda>j. (wt_segs w ! j, wt_slice sps w j)) ` {..<length (wt_segs w)} \<union> wt_todo sps ws"
  by (auto simp: wt_todo_def)

lemma wt_todo_step:
  assumes i: "i < length ws" and r: "writer_ready (ztl_sectorsPerSeg s) (ws ! i) G m" and S: "0 < unat (ztl_sectorsPerSeg s)"
    and g: "wt_segs (ws ! i) = g # gs"
  shows "(g, wt_segData s (ws ! i)) \<in> wt_todo (ztl_sectorsPerSeg s) ws"
    and "wt_todo (ztl_sectorsPerSeg s) (ws[i := wt_next s (ws ! i)]) \<subseteq> wt_todo (ztl_sectorsPerSeg s) ws"
    and "wt_todo (ztl_sectorsPerSeg s) ws \<subseteq> insert (g, wt_segData s (ws ! i)) (wt_todo (ztl_sectorsPerSeg s) (ws[i := wt_next s (ws ! i)]))"
proof -
  note st = writer_ready_step [OF r S g]
  show "(g, wt_segData s (ws ! i)) \<in> wt_todo (ztl_sectorsPerSeg s) ws"
    using i g st(2) by (auto simp: wt_todo_def intro!: exI [of _ "ws ! i"] exI [of _ 0])
  show "wt_todo (ztl_sectorsPerSeg s) (ws[i := wt_next s (ws ! i)]) \<subseteq> wt_todo (ztl_sectorsPerSeg s) ws"
  proof
    fix x assume "x \<in> wt_todo (ztl_sectorsPerSeg s) (ws[i := wt_next s (ws ! i)])"
    then obtain w j where x: "x = (wt_segs w ! j, wt_slice (ztl_sectorsPerSeg s) w j)" "j < length (wt_segs w)" "w \<in> set (ws[i := wt_next s (ws ! i)])"
      by (auto simp: wt_todo_def)
    then consider "w \<in> set ws" | "w = wt_next s (ws ! i)" using set_update_subset_insert [of ws i] by blast
    then show "x \<in> wt_todo (ztl_sectorsPerSeg s) ws"
    proof cases
      case 2
      then have "x = (wt_segs (ws ! i) ! Suc j, wt_slice (ztl_sectorsPerSeg s) (ws ! i) (Suc j))" "Suc j < length (wt_segs (ws ! i))"
        using x(1,2) st(5,6) g by simp_all
      then show ?thesis unfolding wt_todo_def using i nth_mem [OF i] by blast
    qed (use x in \<open>auto simp: wt_todo_def\<close>)
  qed
  show "wt_todo (ztl_sectorsPerSeg s) ws \<subseteq> insert (g, wt_segData s (ws ! i)) (wt_todo (ztl_sectorsPerSeg s) (ws[i := wt_next s (ws ! i)]))"
  proof
    fix x assume "x \<in> wt_todo (ztl_sectorsPerSeg s) ws"
    then obtain k j where x: "x = (wt_segs (ws ! k) ! j, wt_slice (ztl_sectorsPerSeg s) (ws ! k) j)" "j < length (wt_segs (ws ! k))" "k < length ws"
      by (auto simp: wt_todo_def in_set_conv_nth)
    let ?ws = "ws[i := wt_next s (ws ! i)]"
    show "x \<in> insert (g, wt_segData s (ws ! i)) (wt_todo (ztl_sectorsPerSeg s) ?ws)"
    proof (cases "k = i")
      case True
      then show ?thesis using x g st(2,5,6) i by (cases j) (auto simp: wt_todo_def set_update_memI)
    next
      case False
      then have "ws ! k \<in> set ?ws" using x(3) by (metis length_list_update nth_list_update_neq nth_mem)
      then show ?thesis using x by (auto simp: wt_todo_def)
    qed
  qed
qed

lemma writers_run_content:
  assumes "writers_run jn now st tr st'" and "st = (s, ws)" and "st' = (s', ws')" and "ztl_good s"
    and "\<forall>w \<in> set ws. \<exists>G m. writer_ready (ztl_sectorsPerSeg s) w G m"
  shows "ztl_good s' \<and> ztl_sectorsPerSeg s' = ztl_sectorsPerSeg s \<and> set tr \<subseteq> wt_todo (ztl_sectorsPerSeg s) ws \<and>
    wt_todo (ztl_sectorsPerSeg s) ws \<subseteq> set tr \<union> wt_todo (ztl_sectorsPerSeg s) ws' \<and>
    (\<forall>a < 2 ^ 63. ztl_content s' a = seg_writes (unat (ztl_sectorsPerSeg s)) tr (ztl_content s) a)"
  using assms
proof (induction arbitrary: s ws rule: writers_run.induct)
  case (wr_nil st)
  then show ?case by (simp add: seg_writes_def)
next
  case (wr_step i ws0 g gs s0 s1 tr st)
  have eq: "s0 = s" "ws0 = ws" using wr_step.prems(1) by simp_all
  let ?S = "unat (ztl_sectorsPerSeg s)" and ?d = "wt_segData s (ws ! i)" and ?ws = "ws[i := wt_next s (ws ! i)]"
  have S: "0 < ?S" using wr_step.prems(3) by (simp add: ztl_good_def ztl_inv_def)
  have i: "i < length ws" and g: "wt_segs (ws ! i) = g # gs" and w: "ztl_writeSegment em_dev jn now s g ?d = (Inr (), s1)"
    using wr_step.hyps(1-3) unfolding eq by simp_all
  obtain G m where r: "writer_ready (ztl_sectorsPerSeg s) (ws ! i) G m" using wr_step.prems(4) i nth_mem by blast
  note st = writer_ready_step [OF r S g] and todo = wt_todo_step [OF i r S g]
  note c = seg_write_content [OF wr_step.prems(3) st(3) w]
  then have sps: "ztl_sectorsPerSeg s1 = ztl_sectorsPerSeg s" by simp
  have "\<forall>w \<in> set ?ws. \<exists>G m. writer_ready (ztl_sectorsPerSeg s1) w G m"
    using wr_step.prems(4) st(4) set_update_subset_insert [of ws i "wt_next s (ws ! i)"] unfolding sps by blast
  then have ih: "ztl_good s' \<and> ztl_sectorsPerSeg s' = ztl_sectorsPerSeg s \<and> set tr \<subseteq> wt_todo (ztl_sectorsPerSeg s) ?ws \<and>
      wt_todo (ztl_sectorsPerSeg s) ?ws \<subseteq> set tr \<union> wt_todo (ztl_sectorsPerSeg s) ws' \<and>
      (\<forall>a < 2 ^ 63. ztl_content s' a = seg_writes ?S tr (ztl_content s1) a)"
    using wr_step.IH [of s1 ?ws] wr_step.prems(2) c unfolding eq sps by blast
  have "\<forall>a < 2 ^ 63. seg_writes ?S tr (ztl_content s1) a = seg_writes ?S tr (sectors_write (ztl_content s) (unat g * ?S) ?d) a"
    using c by (intro seg_writes_cong) blast
  then have "\<forall>a < 2 ^ 63. ztl_content s' a = seg_writes ?S ((g, ?d) # tr) (ztl_content s) a" using ih by (simp add: seg_writes_def)
  then show ?case using ih todo unfolding eq by auto
qed

text \<open>A segment that a trace has written has, in all its sectors, the data of the last entry for it.\<close>

lemma seg_writes_last:
  assumes "0 < S" and "\<forall>(g, d) \<in> set tr. length d = sectorSize * S"
  shows "(\<exists>(g, d) \<in> set tr. unat g = h \<and> (\<forall>i < S. seg_writes S tr f (h * S + i) = sector i d)) \<or>
    ((\<forall>(g, d) \<in> set tr. unat g \<noteq> h) \<and> (\<forall>i < S. seg_writes S tr f (h * S + i) = f (h * S + i)))"
  using assms(2)
proof (induction tr rule: rev_induct)
  case (snoc p tr)
  obtain g d where p: "p = (g, d)" "length d = sectorSize * S" using snoc.prems by (cases p) auto
  have st: "seg_writes S (tr @ [p]) f a = sectors_write (seg_writes S tr f) (unat g * S) d a" for a by (simp add: seg_writes_def p)
  have here: "unat g * S \<le> h * S + i \<and> h * S + i < unat g * S + S \<longleftrightarrow> unat g = h" if "i < S" for i
    using nat_div_eq_iff [OF assms(1), of "h * S + i" "unat g"] that by auto
  show ?case
  proof (cases "unat g = h")
    case True
    then show ?thesis using st here p by (auto simp: sectors_write_def)
  next
    case False
    then have "seg_writes S (tr @ [p]) f (h * S + i) = seg_writes S tr f (h * S + i)" if "i < S" for i
      using st here [OF that] p by (auto simp: sectors_write_def)
    then show ?thesis using snoc False p by auto
  qed
qed (simp add: seg_writes_def)

lemma wt_todo_length:
  assumes "\<forall>w \<in> set ws. \<exists>G m. writer_ready sps w G m" and "(g, d) \<in> wt_todo sps ws"
  shows "length d = sectorSize * unat sps"
proof -
  obtain w j where w: "w \<in> set ws" "j < length (wt_segs w)" "d = wt_slice sps w j" using assms(2) by (auto simp: wt_todo_def)
  obtain G m k where r: "wt_segs w = map of_nat [G..<G + m]" "wt_off w = sectorSize * (unat sps * k)" "length (wt_data w) = sectorSize * (unat sps * (k + m))"
    using assms(1) w(1) unfolding writer_ready_def by blast
  obtain q where "m = Suc (j + q)" using w(2) r(1) less_imp_Suc_add by auto
  then show ?thesis using w(3) r(2,3) by (simp add: wt_slice_def algebra_simps)
qed

section \<open>Properties\<close>


lemma ztl_demo8_write: "\<exists>s'. ztl_Write (\<lambda>x. x) em_dev None 0 ztl_demo8 0 (seg_of 1) = Some (Inr (), s')"
  by (simp add: race_eval)



definition demo_writer :: "u8 \<Rightarrow> Writer" where
  "demo_writer b = \<lparr>wt_lba = 0, wt_end = 2, wt_segs = [0], wt_data = seg_of b, wt_off = 0\<rparr>"

lemma demo_writer_simps:
  "ztl_sectorsPerSeg s = 2 \<Longrightarrow> wt_segData s (demo_writer b) = seg_of b" "wt_segs (demo_writer b) = [0]" "wt_segs (wt_next s (demo_writer b)) = []"
  "writer_ready 2 (demo_writer b) 0 1" "wt_slice 2 (demo_writer b) 0 = seg_of b"
  by (simp_all add: wt_segData_def wt_count_def wt_next_def wt_slice_def demo_writer_def writer_ready_def seg_of_def seg_overlap_def
      SegmentToLBARange_def bslice_def)

lemma demo_writers:
  "\<exists>s1 s2. ztl_writeSegment em_dev None 0 ztl_demo8 0 (seg_of 1) = (Inr (), s1) \<and> ztl_sectorsPerSeg s1 = 2 \<and>
     ztl_writeSegment em_dev None 0 s1 0 (seg_of 2) = (Inr (), s2)"
  by (simp add: race_eval)



text \<open>
  A read that meets a flush returns zeros for data that was written. The flush removes the buffer before it writes to the device; a read in between finds the data in
  neither.
\<close>

theorem read_race_zeros:
  "\<exists>is s t. interleave (\<lambda>x. x) (\<lambda>x. x) em_dev None 0 is
      (ztl_demo8, [Writing (WStart 0 (seg_of 1)), Flushing FAll, Reading (RStart 0 2)]) =
      (s, [Writing (WReturned (Inr ())), t, Reading (RReturned (Inr (zeros 1024)))])"
  by (rule exI [of _ "[0, 0, 0, 0, 1, 1, 1, 2, 2, 2, 2, 2, 2]"]) (simp add: race_eval)

end
