(* ===== verification/Readers.thy ===== *)
theory Readers
  imports Threads
begin

text \<open>
  A \<^verbatim>\<open>Read\<close> among calls of \<^verbatim>\<open>Write\<close>. The reader holds no lock: it looks into the table, the zone manager, the buffer and the device one after the other (the sections of
  \<open>Threads\<close>), and between any two of them other calls may write segments. As long as nothing but a full zone is flushed and nothing is collected, zones only grow, so that an address the
  reader has taken from the table stays good: every sector it returns was the content of that sector at some moment of the call.
\<close>

section \<open>Runs\<close>

text \<open>A step is a section of the reader or an iteration of the loop of one of the writers; the list collects the states on the way.\<close>

inductive rw_run ::
    "'j Journal option \<Rightarrow> int \<Rightarrow> (Emulator, 'j) ZTL \<times> Writer list \<times> read_pc \<Rightarrow> (Emulator, 'j) ZTL list \<Rightarrow>
     (Emulator, 'j) ZTL \<times> Writer list \<times> read_pc \<Rightarrow> bool"
  for jn now where
  rw_nil: "rw_run jn now (s, ws, pc) [s] (s, ws, pc)"
| rw_read: "read_section em_dev (s, pc) = (s1, pc1) \<Longrightarrow> rw_run jn now (s1, ws, pc1) H st \<Longrightarrow> rw_run jn now (s, ws, pc) (s # H) st"
| rw_write: "i < length ws \<Longrightarrow> wt_segs (ws ! i) = g # gs \<Longrightarrow>
    ztl_writeSegment em_dev jn now s g (wt_segData s (ws ! i)) = (Inr (), s1) \<Longrightarrow>
    rw_run jn now (s1, ws[i := wt_next s (ws ! i)], pc) H st \<Longrightarrow> rw_run jn now (s, ws, pc) (s # H) st"

section \<open>What the reader has\<close>

text \<open>The sectors before \<open>p\<close> have been filled in, each with the content of some moment in \<open>X\<close>; the others are zero.\<close>

definition rd_prefix :: "(Emulator, 'j) ZTL set \<Rightarrow> nat \<Rightarrow> nat \<Rightarrow> nat \<Rightarrow> bytes \<Rightarrow> bool" where
  "rd_prefix X L E p result \<longleftrightarrow> L \<le> p \<and> p \<le> E \<and> length result = sectorSize * (E - L) \<and>
     (\<forall>i. p - L \<le> i \<and> i < E - L \<longrightarrow> sector i result = zeros sectorSize) \<and>
     (\<forall>a. L \<le> a \<and> a < p \<longrightarrow> (\<exists>t \<in> X. sector (a - L) result = ztl_content t a))"

lemma rd_prefix_mono: "rd_prefix X L E p result \<Longrightarrow> X \<subseteq> Y \<Longrightarrow> rd_prefix Y L E p result"
  unfolding rd_prefix_def by blast

lemma rd_prefix_zeros:
  assumes "rd_prefix X L E a result" and "a \<le> b" and "b \<le> E" and "\<And>x. a \<le> x \<Longrightarrow> x < b \<Longrightarrow> \<exists>t \<in> X. ztl_content t x = zeros sectorSize"
  shows "rd_prefix X L E b result"
proof -
  have p: "L \<le> a" "length result = sectorSize * (E - L)" "\<And>i. a - L \<le> i \<Longrightarrow> i < E - L \<Longrightarrow> sector i result = zeros sectorSize"
    "\<And>x. L \<le> x \<Longrightarrow> x < a \<Longrightarrow> \<exists>t \<in> X. sector (x - L) result = ztl_content t x" using assms(1) by (auto simp: rd_prefix_def)
  have "\<exists>t \<in> X. sector (x - L) result = ztl_content t x" if "L \<le> x" "x < b" for x
    using p(3) [of "x - L"] p(4) [of x] assms(3) assms(4) [of x] that by (cases "x < a") force+
  then show ?thesis using p assms(2,3) by (auto simp: rd_prefix_def)
qed

lemma rd_prefix_blit:
  assumes "rd_prefix X L E a result" and "a \<le> b" and "b \<le> E" and f: "\<And>x. a \<le> x \<Longrightarrow> x < b \<Longrightarrow> length (f x) = sectorSize \<and> (\<exists>t \<in> X. f x = ztl_content t x)"
  shows "rd_prefix X L E b (blit (sectorSize * (a - L)) (concat (map f [a..<b])) result)"
proof -
  have p: "L \<le> a" "length result = sectorSize * (E - L)" "\<And>i. a - L \<le> i \<Longrightarrow> i < E - L \<Longrightarrow> sector i result = zeros sectorSize"
    "\<And>x. L \<le> x \<Longrightarrow> x < a \<Longrightarrow> \<exists>t \<in> X. sector (x - L) result = ztl_content t x" using assms(1) by (auto simp: rd_prefix_def)
  have len: "length (concat (map f [a..<b])) = sectorSize * (b - a)" using f by (intro length_concat_sectors) simp
  have fits: "sectorSize * (a - L + (b - a)) \<le> length result" using p(1,2) assms(2,3) by simp
  have chunk: "sector i (concat (map f [a..<b])) = f (a + i)" if "i < b - a" for i
    using sector_concat [of "map f [a..<b]" i] f that by auto
  note s = sector_blit [OF len fits]
  have "sector (x - L) (blit (sectorSize * (a - L)) (concat (map f [a..<b])) result) = (if a \<le> x then f x else sector (x - L) result)"
    if "L \<le> x" "x < b" for x
    using s [of "x - L"] chunk [of "x - a"] that p(1) by auto
  then have "\<exists>t \<in> X. sector (x - L) (blit (sectorSize * (a - L)) (concat (map f [a..<b])) result) = ztl_content t x" if "L \<le> x" "x < b" for x
    using that p(4) [of x] f [of x] by (cases "a \<le> x") force+
  moreover have "sector i (blit (sectorSize * (a - L)) (concat (map f [a..<b])) result) = zeros sectorSize" if "b - L \<le> i" "i < E - L" for i
    using s [of i] p(3) [of i] that assms(2) p(1) by auto
  moreover have "length (blit (sectorSize * (a - L)) (concat (map f [a..<b])) result) = sectorSize * (E - L)" using p(1,2) fits by (subst length_blit) auto
  ultimately show ?thesis using p(1) assms(2,3) by (auto simp: rd_prefix_def)
qed

section \<open>Where the reader is\<close>

text \<open>The sectors of segment \<open>g\<close> that the request asks for, and the place of one of them behind the address \<open>p\<close> of the segment.\<close>

definition rd_from :: "u64 \<Rightarrow> u64 \<Rightarrow> SegmentID \<Rightarrow> nat" where
  "rd_from sps lba g = max (unat lba) (unat g * unat sps)"

definition rd_to :: "u64 \<Rightarrow> u64 \<Rightarrow> SegmentID \<Rightarrow> nat" where
  "rd_to sps e g = min (unat e) (unat g * unat sps + unat sps)"

definition rd_place :: "u64 \<Rightarrow> SegmentID \<Rightarrow> PhysAddr \<Rightarrow> nat \<Rightarrow> nat" where
  "rd_place sps g p x = unat (OffsetSectors p) + (x - unat g * unat sps)"

text \<open>The call has done everything before sector \<open>p\<close>.\<close>

definition rd_call :: "(Emulator, 'j) ZTL set \<Rightarrow> u64 \<Rightarrow> u64 \<Rightarrow> Reader \<Rightarrow> nat \<Rightarrow> bool" where
  "rd_call X lba e r p \<longleftrightarrow> rd_lba r = lba \<and> rd_end r = e \<and> rd_off r = sectorSize * (p - unat lba) \<and> rd_prefix X (unat lba) (unat e) p (rd_result r)"

text \<open>At the head of the loop, segments \<open>g\<close> and following are to come.\<close>

definition rd_loop :: "(Emulator, 'j) ZTL set \<Rightarrow> u64 \<Rightarrow> u64 \<Rightarrow> u64 \<Rightarrow> Reader \<Rightarrow> bool" where
  "rd_loop X lba e sps r \<longleftrightarrow> (\<exists>g. unat lba div unat sps \<le> unat g \<and> unat g \<le> Suc ((unat e - 1) div unat sps) \<and>
     rd_segs r = word_upto g (of_nat ((unat e - 1) div unat sps)) \<and> rd_call X lba e r (min (unat e) (rd_from sps lba g)))"

text \<open>Inside the loop with the address \<open>p\<close> of segment \<open>g\<close>: the segment is still there, with the content it had at some moment in \<open>X\<close>.\<close>

definition rd_at :: "(Emulator, 'j) ZTL set \<Rightarrow> u64 \<Rightarrow> u64 \<Rightarrow> (Emulator, 'j) ZTL \<Rightarrow> SegmentID \<Rightarrow> PhysAddr \<Rightarrow> Reader \<Rightarrow> bool" where
  "rd_at X lba e s g p r \<longleftrightarrow>
     (let sps = ztl_sectorsPerSeg s; v = em_view (ztl_device s) in
      unat lba div unat sps \<le> unat g \<and> unat g \<le> (unat e - 1) div unat sps \<and> rd_segs r = word_upto (g + 1) (of_nat ((unat e - 1) div unat sps)) \<and>
      rd_call X lba e r (rd_from sps lba g) \<and> seg_ok v (ztl_buf s) (unat sps) p \<and>
      (\<exists>t \<in> X. \<forall>x. rd_from sps lba g \<le> x \<and> x < rd_to sps e g \<longrightarrow> psector v (ztl_buf s) (ZoneID p) (rd_place sps g p x) = ztl_content t x))"

fun reader_inv :: "(Emulator, 'j) ZTL set \<Rightarrow> u64 \<Rightarrow> u64 \<Rightarrow> (Emulator, 'j) ZTL \<Rightarrow> read_pc \<Rightarrow> bool" where
  "reader_inv X lba e s (RStart l c) \<longleftrightarrow> l = lba \<and> e = lba + ucast c \<and> 0 < unat c \<and> unat lba + unat c \<le> 2 ^ 63"
| "reader_inv X lba e s (RSeg r) \<longleftrightarrow> rd_loop X lba e (ztl_sectorsPerSeg s) r"
| "reader_inv X lba e s (RZone r p i n) \<longleftrightarrow> (\<exists>g. rd_at X lba e s g p r \<and>
     i = of_nat (rd_from (ztl_sectorsPerSeg s) lba g - unat g * unat (ztl_sectorsPerSeg s)) \<and>
     n = of_nat (rd_to (ztl_sectorsPerSeg s) e g - rd_from (ztl_sectorsPerSeg s) lba g))"
| "reader_inv X lba e s (RBuf r z l n) \<longleftrightarrow> (\<exists>g p. rd_at X lba e s g p r \<and> z = ZoneID p \<and>
     l = zone_lba (em_view (ztl_device s)) (unat z) (rd_place (ztl_sectorsPerSeg s) g p (rd_from (ztl_sectorsPerSeg s) lba g)) \<and>
     n = of_nat (rd_to (ztl_sectorsPerSeg s) e g - rd_from (ztl_sectorsPerSeg s) lba g))"
| "reader_inv X lba e s (RDev r l n) \<longleftrightarrow> (\<exists>g p. rd_at X lba e s g p r \<and>
     l = zone_lba (em_view (ztl_device s)) (unat (ZoneID p)) (rd_place (ztl_sectorsPerSeg s) g p (rd_from (ztl_sectorsPerSeg s) lba g)) \<and>
     n = of_nat (rd_to (ztl_sectorsPerSeg s) e g - rd_from (ztl_sectorsPerSeg s) lba g) \<and>
     unat (OffsetSectors p) + unat (ztl_sectorsPerSeg s) \<le> v_wp (em_view (ztl_device s)) (unat (ZoneID p)))"
| "reader_inv X lba e s (RReturned res) \<longleftrightarrow> (\<exists>data. res = Inr data \<and> rd_prefix X (unat lba) (unat e) (unat e) data)"

lemma rd_bounds:
  assumes S: "0 < unat sps" "unat sps < 2 ^ 32" and le: "unat lba < unat e" "unat e \<le> 2 ^ 63"
    and G: "unat lba div unat sps \<le> unat g" "unat g \<le> (unat e - 1) div unat sps"
  shows "unat g * unat sps \<le> rd_from sps lba g" and "unat lba \<le> rd_from sps lba g" and "rd_from sps lba g < rd_to sps e g"
    and "rd_to sps e g \<le> unat g * unat sps + unat sps" and "rd_to sps e g \<le> unat e" and "unat (g + 1) = Suc (unat g)"
    and "rd_to sps e g = min (unat e) (rd_from sps lba (g + 1))" and "min (unat e) (rd_from sps lba g) = rd_from sps lba g"
    and "word_upto g (of_nat ((unat e - 1) div unat sps)) = g # word_upto (g + 1) (of_nat ((unat e - 1) div unat sps))"
proof -
  have "0 < unat e" using le by simp
  note n = em.read_segs_next [OF S(1) this le(2) G]
  show "unat g * unat sps \<le> rd_from sps lba g" "unat lba \<le> rd_from sps lba g" "rd_to sps e g \<le> unat g * unat sps + unat sps" "rd_to sps e g \<le> unat e"
    by (simp_all add: rd_from_def rd_to_def)
  show "rd_from sps lba g < rd_to sps e g" "min (unat e) (rd_from sps lba g) = rd_from sps lba g" using n(1,2) le S by (auto simp: rd_from_def rd_to_def)
  show "rd_to sps e g = min (unat e) (rd_from sps lba (g + 1))" using n(2,3) by (auto simp: rd_from_def rd_to_def)
  show "unat (g + 1) = Suc (unat g)" by (rule n(3))
  show "word_upto g (of_nat ((unat e - 1) div unat sps)) = g # word_upto (g + 1) (of_nat ((unat e - 1) div unat sps))" by (rule n(4))
qed

lemma rd_next:
  assumes "0 < unat sps" "unat sps < 2 ^ 32" "unat lba < unat e" "unat e \<le> 2 ^ 63"
    and G: "unat lba div unat sps \<le> unat g" "unat g \<le> (unat e - 1) div unat sps"
    and "rd_segs r = word_upto (g + 1) (of_nat ((unat e - 1) div unat sps))" and "rd_call X lba e r (rd_to sps e g)"
  shows "rd_loop X lba e sps r"
  using rd_bounds(6,7) [OF assms(1-6)] assms(5-8) unfolding rd_loop_def by (intro exI [of _ "g + 1"]) simp

section \<open>Writers do not disturb the reader\<close>

lemma rd_place_filled:
  assumes "seg_ok v wb (unat sps) p" and "rd_from sps lba g \<le> x" and "x < rd_to sps e g"
  shows "unat (ZoneID p) < v_zones v" and "rd_place sps g p x < fill v wb (ZoneID p)"
  using assms by (auto simp: seg_ok_def rd_place_def rd_from_def rd_to_def)

lemma rd_prefix_call_mono: "rd_call X lba e r p \<Longrightarrow> X \<subseteq> Y \<Longrightarrow> rd_call Y lba e r p"
  unfolding rd_call_def using rd_prefix_mono by blast

lemma rd_at_grow:
  assumes at: "rd_at X lba e s g p r" and gr: "zones_grow (em_view (ztl_device s)) (ztl_buf s) (em_view (ztl_device s1)) (ztl_buf s1)"
    and sps: "ztl_sectorsPerSeg s1 = ztl_sectorsPerSeg s" and "X \<subseteq> Y"
  shows "rd_at Y lba e s1 g p r"
proof -
  let ?v = "em_view (ztl_device s)" and ?v1 = "em_view (ztl_device s1)" and ?S = "ztl_sectorsPerSeg s"
  have ok: "seg_ok ?v (ztl_buf s) (unat ?S) p" using at by (simp add: rd_at_def Let_def)
  have "psector ?v1 (ztl_buf s1) (ZoneID p) (rd_place ?S g p x) = psector ?v (ztl_buf s) (ZoneID p) (rd_place ?S g p x)"
    if "rd_from ?S lba g \<le> x" "x < rd_to ?S e g" for x
    using gr rd_place_filled [OF ok that] by (simp add: zones_grow_def)
  moreover have "seg_ok ?v1 (ztl_buf s1) (unat ?S) p" using ok gr by (simp add: zones_grow_def)
  ultimately show ?thesis using at rd_prefix_call_mono [OF _ assms(4)] assms(4) unfolding rd_at_def Let_def sps by (metis (no_types, lifting) subsetD)
qed

lemma reader_grow:
  assumes "reader_inv X lba e s pc" and gr: "zones_grow (em_view (ztl_device s)) (ztl_buf s) (em_view (ztl_device s1)) (ztl_buf s1)"
    and sps: "ztl_sectorsPerSeg s1 = ztl_sectorsPerSeg s" and X: "X \<subseteq> Y"
  shows "reader_inv Y lba e s1 pc"
proof -
  have lba: "zone_lba (em_view (ztl_device s1)) = zone_lba (em_view (ztl_device s))" using gr by (simp add: zones_grow_def zone_lba_def fun_eq_iff)
  have wp: "v_wp (em_view (ztl_device s)) (unat (z :: u32)) \<le> v_wp (em_view (ztl_device s1)) (unat z)" for z using gr unfolding zones_grow_def by blast
  note at = rd_at_grow [OF _ gr sps X]
  show ?thesis
  proof (cases pc)
    case (RSeg r)
    then show ?thesis using assms(1) rd_prefix_call_mono [OF _ X] by (auto simp: rd_loop_def sps)
  next
    case (RReturned res)
    then show ?thesis using assms(1) rd_prefix_mono [OF _ X] by auto
  next
    case (RDev r l n)
    then obtain g p where g: "rd_at X lba e s g p r" "unat (OffsetSectors p) + unat (ztl_sectorsPerSeg s) \<le> v_wp (em_view (ztl_device s)) (unat (ZoneID p))"
      "l = zone_lba (em_view (ztl_device s)) (unat (ZoneID p)) (rd_place (ztl_sectorsPerSeg s) g p (rd_from (ztl_sectorsPerSeg s) lba g))"
      "n = of_nat (rd_to (ztl_sectorsPerSeg s) e g - rd_from (ztl_sectorsPerSeg s) lba g)" using assms(1) by auto
    then show ?thesis using RDev at [OF g(1)] order_trans [OF g(2) wp] by (auto simp: sps lba)
  next
    case (RZone r p i n)
    then show ?thesis using assms(1) at by (simp add: sps) blast
  next
    case (RBuf r z l n)
    then show ?thesis using assms(1) at by (simp add: sps lba) blast
  qed (use assms(1) in simp)
qed

section \<open>The sections of the reader\<close>

lemma rd_chunk:
  assumes good: "ztl_good s" and le: "unat lba < unat e" "unat e \<le> 2 ^ 63" and at: "rd_at X lba e s g p r"
  defines "k \<equiv> rd_place (ztl_sectorsPerSeg s) g p (rd_from (ztl_sectorsPerSeg s) lba g)"
    and "c \<equiv> rd_to (ztl_sectorsPerSeg s) e g - rd_from (ztl_sectorsPerSeg s) lba g"
  defines "data \<equiv> concat (map (psector (em_view (ztl_device s)) (ztl_buf s) (ZoneID p)) [k..<k + c])"
  shows "reader_inv X lba e s (RSeg (r\<lparr>rd_result := blit (rd_off r) data (rd_result r), rd_off := rd_off r + length data\<rparr>))"
    and "0 < c" and "c < 2 ^ 32" and "k + c \<le> unat (OffsetSectors p) + unat (ztl_sectorsPerSeg s)" and "unat (OffsetSectors p) \<le> k"
proof -
  let ?v = "em_view (ztl_device s)" and ?S = "ztl_sectorsPerSeg s"
  let ?a = "rd_from ?S lba g" and ?b = "rd_to ?S e g"
  let ?f = "\<lambda>x. psector ?v (ztl_buf s) (ZoneID p) (rd_place ?S g p x)"
  have inv: "em_inv (ztl_device s)" "ztl_inv ?v s" using good by (simp_all add: ztl_good_def)
  then have S: "0 < unat ?S" "unat ?S < 2 ^ 32" and ok: "buffered_ok ?v (ztl_zm s) (ztl_buf s)" by (simp_all add: ztl_inv_def)
  have G: "unat lba div unat ?S \<le> unat g" "unat g \<le> (unat e - 1) div unat ?S" "rd_segs r = word_upto (g + 1) (of_nat ((unat e - 1) div unat ?S))"
    and call: "rd_call X lba e r ?a" and seg: "seg_ok ?v (ztl_buf s) (unat ?S) p" using at by (simp_all add: rd_at_def Let_def)
  obtain t where t: "t \<in> X" "\<And>x. ?a \<le> x \<Longrightarrow> x < ?b \<Longrightarrow> ?f x = ztl_content t x" using at by (auto simp: rd_at_def Let_def)
  note b = rd_bounds [OF S le G(1,2)]
  show "0 < c" "c < 2 ^ 32" "k + c \<le> unat (OffsetSectors p) + unat ?S" "unat (OffsetSectors p) \<le> k" using b(1-5) S by (auto simp: c_def k_def rd_place_def)
  have "map (psector ?v (ztl_buf s) (ZoneID p)) [k..<k + c] = map ?f [?a..<?b]"
    using b(1,3) by - (rule nth_equalityI, auto simp: c_def k_def rd_place_def add.assoc)
  then have data: "data = concat (map ?f [?a..<?b])" by (simp add: data_def)
  have len: "length (?f x) = sectorSize" if "?a \<le> x" "x < ?b" for x using em.psector_length [OF inv(1) ok rd_place_filled [OF seg that]] .
  then have "length data = sectorSize * (?b - ?a)" unfolding data by (rule length_concat_sectors)
  then have off: "rd_off r + length data = sectorSize * (?b - unat lba)" using call b(2,3) by (simp add: rd_call_def flip: distrib_left)
  have "rd_prefix X (unat lba) (unat e) ?b (blit (sectorSize * (?a - unat lba)) data (rd_result r))"
    unfolding data using call b(3,5) len t by (intro rd_prefix_blit) (auto simp: rd_call_def)
  then have "rd_call X lba e (r\<lparr>rd_result := blit (rd_off r) data (rd_result r), rd_off := rd_off r + length data\<rparr>) ?b"
    using call off by (simp add: rd_call_def)
  then show "reader_inv X lba e s (RSeg (r\<lparr>rd_result := blit (rd_off r) data (rd_result r), rd_off := rd_off r + length data\<rparr>))"
    using rd_next [OF S le G(1,2), of _ X] G(3) by simp
qed

lemma reader_loop:
  assumes good: "ztl_good s" and le: "unat lba < unat e" "unat e \<le> 2 ^ 63" and inv: "reader_inv X lba e s (RSeg r)" and s: "s \<in> X"
    and rs: "read_section em_dev (s, RSeg r) = (s1, pc)"
  shows "s1 = s \<and> reader_inv X lba e s pc"
proof -
  let ?v = "em_view (ztl_device s)" and ?S = "ztl_sectorsPerSeg s" and ?l = "(unat e - 1) div unat (ztl_sectorsPerSeg s)"
  have zi: "ztl_inv ?v s" and S: "0 < unat ?S" "unat ?S < 2 ^ 32" using good by (auto simp: ztl_good_def ztl_inv_def)
  obtain g where g: "unat lba div unat ?S \<le> unat g" "unat g \<le> Suc ?l" "rd_segs r = word_upto g (of_nat ?l)" "rd_call X lba e r (min (unat e) (rd_from ?S lba g))"
    using inv by (auto simp: rd_loop_def)
  show ?thesis
  proof (cases "unat g \<le> ?l")
    case False
    then have "unat g = Suc ?l" using g(2) by simp
    note last = em.read_segs_end [OF S(1) le(2) this]
    then have "rd_segs r = []" "rd_prefix X (unat lba) (unat e) (unat e) (rd_result r)" using g(3,4) by (auto simp: rd_call_def rd_from_def min_def max_def split: if_splits)
    then show ?thesis using rs by auto
  next
    case True
    note b = rd_bounds [OF S le g(1) True]
    let ?a = "rd_from ?S lba g" and ?b = "rd_to ?S e g" and ?p = "L2P_Get (ztl_l2p s) g"
    have segs: "rd_segs r = g # word_upto (g + 1) (of_nat ?l)" and call: "rd_call X lba e r ?a" using g(3,4) b(8,9) by simp_all
    have fld: "rd_lba r = lba" "rd_end r = e" using call by (simp_all add: rd_call_def)
    obtain ra rb where ov: "seg_overlap ?S lba e g = (ra, rb)" by fastforce
    have "unat g * unat ?S + unat ?S < 2 ^ 64" "unat lba < unat g * unat ?S + unat ?S" "unat g * unat ?S < unat e" using b(1-5) le S by (auto simp: rd_from_def rd_to_def)
    note k = seg_chunk [OF S this le(1) rd_from_def rd_to_def ov]
    have con: "ztl_content s x = seg_sector ?v s g (x - unat g * unat ?S)" if "?a \<le> x" "x < ?b" for x
      using logical_in_seg [OF S(1)] that b(1,4) by (simp add: ztl_content_def)
    show ?thesis
    proof (cases "?p = 0")
      case True
      have "rd_prefix X (unat lba) (unat e) ?b (rd_result r)"
      proof (rule rd_prefix_zeros)
        show "rd_prefix X (unat lba) (unat e) ?a (rd_result r)" using call by (simp add: rd_call_def)
        show "\<exists>t \<in> X. ztl_content t x = zeros sectorSize" if "?a \<le> x" "x < ?b" for x
          using con [OF that] True by (intro bexI [OF _ s]) (simp add: seg_sector_def)
      qed (use b(3,5) in simp_all)
      moreover have "rd_off r + unat (of_nat (?b - ?a) :: u32) * sectorSize = sectorSize * (?b - unat lba)"
        using call b(2,3) k(7) by (simp add: rd_call_def mult.commute [of "?b - ?a" sectorSize] flip: distrib_left)
      ultimately have "rd_call X lba e (r\<lparr>rd_segs := word_upto (g + 1) (of_nat ?l), rd_off := rd_off r + unat (of_nat (?b - ?a) :: u32) * sectorSize\<rparr>) ?b"
        using call by (simp add: rd_call_def)
      then show ?thesis using rs segs ov fld k(6,9) True rd_next [OF S le g(1) \<open>unat g \<le> ?l\<close>, of _ X] by (auto simp: IsUnmapped_def)
    next
      case False
      then have "seg_ok ?v (ztl_buf s) (unat ?S) ?p" using zi by (simp add: ztl_inv_def)
      moreover have "psector ?v (ztl_buf s) (ZoneID ?p) (rd_place ?S g ?p x) = ztl_content s x" if "?a \<le> x" "x < ?b" for x
        using con [OF that] False by (simp add: seg_sector_def rd_place_def Let_def)
      moreover have "rd_call X lba e (r\<lparr>rd_segs := word_upto (g + 1) (of_nat ?l)\<rparr>) ?a" using call by (simp add: rd_call_def)
      ultimately have "rd_at X lba e s g ?p (r\<lparr>rd_segs := word_upto (g + 1) (of_nat ?l)\<rparr>)"
        using g(1) \<open>unat g \<le> ?l\<close> s unfolding rd_at_def Let_def by auto
      then show ?thesis using rs segs ov fld k(6,8,9) False by (auto simp: IsUnmapped_def intro!: exI [of _ g])
    qed
  qed
qed

lemma reader_start:
  assumes le: "unat lba < unat e" and inv: "reader_inv X lba e s (RStart l c)" and rs: "read_section em_dev (s, RStart l c) = (s1, pc)"
  shows "s1 = s \<and> reader_inv X lba e s pc"
proof -
  let ?S = "ztl_sectorsPerSeg s"
  have c: "l = lba" "e = lba + ucast c" "0 < unat c" "unat lba + unat c \<le> 2 ^ 63" using inv by auto
  note q = em.read_request [OF c(4,3,2)]
  have "rd_prefix X (unat lba) (unat e) (unat lba) (zeros (unat c * sectorSize))"
    using q(1) by (auto simp: rd_prefix_def mult.commute [of "unat c"])
  moreover have "min (unat e) (rd_from ?S lba (LBAToSegmentID lba ?S)) = unat lba" using q(1) q(3) [of ?S] le by (simp add: rd_from_def)
  ultimately have "rd_loop X lba e ?S \<lparr>rd_lba = lba, rd_end = e, rd_segs = word_upto (LBAToSegmentID lba ?S) (LBAToSegmentID (e - 1) ?S),
      rd_result = zeros (unat c * sectorSize), rd_off = 0\<rparr>"
    using q(2) [of ?S] q(3) [of ?S] q(4) [of ?S] unfolding rd_loop_def by (intro exI [of _ "LBAToSegmentID lba ?S"]) (simp add: rd_call_def)
  then show ?thesis using rs c by (auto simp: Let_def)
qed

lemma reader_zone:
  assumes good: "ztl_good s" and inv: "reader_inv X lba e s (RZone r p i n)" and rs: "read_section em_dev (s, RZone r p i n) = (s1, pc)"
  shows "s1 = s \<and> reader_inv X lba e s pc"
proof -
  let ?v = "em_view (ztl_device s)" and ?S = "ztl_sectorsPerSeg s"
  obtain g where g: "rd_at X lba e s g p r" "i = of_nat (rd_from ?S lba g - unat g * unat ?S)" "n = of_nat (rd_to ?S e g - rd_from ?S lba g)" using inv by auto
  have z: "unat (ZoneID p) < v_zones ?v" using g(1) by (simp add: rd_at_def Let_def seg_ok_def)
  have ok: "buffered_ok ?v (ztl_zm s) (ztl_buf s)" using good by (simp add: ztl_good_def ztl_inv_def)
  obtain zi where zi: "zm_ZoneInfo (ztl_zm s) (ZoneID p) = Some zi" "zi_StartLBA zi = zone_lba ?v (unat (ZoneID p)) 0" by (rule zm_ZoneInfo_ok [OF ok z])
  have "zi_StartLBA zi + OffsetSectors p + i = zone_lba ?v (unat (ZoneID p)) (rd_place ?S g p (rd_from ?S lba g))"
    using zi(2) g(2) u64_eq_of_nat [of "OffsetSectors p", OF refl] by (simp add: zone_lba_def rd_place_def)
  then have "s1 = s" "pc = RBuf r (ZoneID p) (zone_lba ?v (unat (ZoneID p)) (rd_place ?S g p (rd_from ?S lba g))) n" using rs zi(1) by auto
  then show ?thesis using g(1,3) by (simp only: reader_inv.simps) blast
qed

lemma reader_buf:
  assumes good: "ztl_good s" and le: "unat lba < unat e" "unat e \<le> 2 ^ 63" and inv: "reader_inv X lba e s (RBuf r z l n)"
    and rs: "read_section em_dev (s, RBuf r z l n) = (s1, pc)"
  shows "s1 = s \<and> reader_inv X lba e s pc"
proof -
  let ?v = "em_view (ztl_device s)" and ?S = "ztl_sectorsPerSeg s"
  obtain g p where g: "rd_at X lba e s g p r" "z = ZoneID p" "l = zone_lba ?v (unat z) (rd_place ?S g p (rd_from ?S lba g))"
    "n = of_nat (rd_to ?S e g - rd_from ?S lba g)" using inv by auto
  have d: "em_inv (ztl_device s)" and ok: "buffered_ok ?v (ztl_zm s) (ztl_buf s)" using good by (simp_all add: ztl_good_def ztl_inv_def)
  note ch = rd_chunk [OF good le g(1)]
  have seg: "seg_ok ?v (ztl_buf s) (unat ?S) p" using g(1) by (simp add: rd_at_def Let_def)
  then have "unat (ZoneID p) < v_zones ?v" "rd_place ?S g p (rd_from ?S lba g) + (rd_to ?S e g - rd_from ?S lba g) \<le> fill ?v (ztl_buf s) (ZoneID p)"
    using ch(4) unfolding seg_ok_def by linarith+
  note lk = em.buffered_lookup [OF d ok this(1) ch(2,3) this(2)]
  show ?thesis
  proof (cases "v_wp ?v (unat (ZoneID p)) \<le> rd_place ?S g p (rd_from ?S lba g)")
    case True
    then show ?thesis using rs g(2-4) lk ch(1) by auto
  next
    case False
    then have "unat (OffsetSectors p) + unat ?S \<le> v_wp ?v (unat (ZoneID p))" using seg ch(5) unfolding seg_ok_def by linarith
    moreover have "wb_Lookup (ztl_buf s) z l n = None" using g(2-4) lk False by simp
    then have "s1 = s" "pc = RDev r l n" using rs by auto
    ultimately show ?thesis using g by (simp only: reader_inv.simps) blast
  qed
qed

lemma reader_dev:
  assumes good: "ztl_good s" and le: "unat lba < unat e" "unat e \<le> 2 ^ 63" and inv: "reader_inv X lba e s (RDev r l n)"
    and rs: "read_section em_dev (s, RDev r l n) = (s1, pc)"
  shows "s1 = s \<and> reader_inv X lba e s pc"
proof -
  let ?v = "em_view (ztl_device s)" and ?S = "ztl_sectorsPerSeg s"
  obtain g p where g: "rd_at X lba e s g p r" "l = zone_lba ?v (unat (ZoneID p)) (rd_place ?S g p (rd_from ?S lba g))"
    "n = of_nat (rd_to ?S e g - rd_from ?S lba g)" "unat (OffsetSectors p) + unat ?S \<le> v_wp ?v (unat (ZoneID p))" using inv by auto
  have d: "em_inv (ztl_device s)" using good by (simp add: ztl_good_def)
  note ch = rd_chunk [OF good le g(1)]
  have z: "unat (ZoneID p) < v_zones ?v" using g(1) by (simp add: rd_at_def Let_def seg_ok_def)
  have "rd_place ?S g p (rd_from ?S lba g) + (rd_to ?S e g - rd_from ?S lba g) \<le> v_wp ?v (unat (ZoneID p))" using ch(4) g(4) by linarith
  note rd = em.written_read [OF d z ch(2,3) this, of "ztl_buf s"]
  show ?thesis using rs g(2,3) rd ch(1) by auto
qed

lemma reader_section:
  assumes "ztl_good s" and "unat lba < unat e" "unat e \<le> 2 ^ 63" and "reader_inv X lba e s pc" and "s \<in> X" and "read_section em_dev (s, pc) = (s1, pc1)"
  shows "s1 = s \<and> reader_inv X lba e s pc1"
proof (cases pc)
  case (RReturned res)
  then show ?thesis using assms(4,6) by auto
qed (use assms reader_start reader_loop reader_zone reader_buf reader_dev in metis)+

section \<open>The whole run\<close>

text \<open>A segment written by another call: zones grow.\<close>

lemma seg_write_grows:
  assumes "ztl_good s" and "length d = sectorSize * unat (ztl_sectorsPerSeg s)" and "ztl_writeSegment em_dev jn now s g d = (Inr (), s')"
  shows "zones_grow (em_view (ztl_device s)) (ztl_buf s) (em_view (ztl_device s')) (ztl_buf s')"
  using em.ztl_writeSegment_ok [OF _ _ assms(2,3)] assms(1) by (simp add: ztl_good_def)

lemma rw_run_inv:
  assumes "rw_run jn now st H st'" and "st = (s, ws, pc)" and "st' = (s', ws', pc')" and "ztl_good s"
    and "\<forall>w \<in> set ws. \<exists>G m. writer_ready (ztl_sectorsPerSeg s) w G m" and "unat lba < unat e" "unat e \<le> 2 ^ 63"
    and "reader_inv X lba e s pc" and "s \<in> X"
  shows "ztl_good s' \<and> reader_inv (X \<union> set H) lba e s' pc'"
  using assms
proof (induction arbitrary: s ws pc X rule: rw_run.induct)
  case (rw_nil s0 ws0 pc0)
  then show ?case by (simp add: insert_absorb)
next
  case (rw_read s0 pc0 s1 pc1 ws0 H st)
  then have eq: "s0 = s" "ws0 = ws" "pc0 = pc" by simp_all
  have "s1 = s \<and> reader_inv X lba e s pc1"
    using reader_section [OF rw_read.prems(3,5,6,7,8)] rw_read.hyps(1) unfolding eq by blast
  then show ?case using rw_read.IH [of s ws pc1 X] rw_read.prems unfolding eq by (simp add: insert_absorb)
next
  case (rw_write i ws0 g gs s0 s1 pc0 H st)
  then have eq: "s0 = s" "ws0 = ws" "pc0 = pc" by simp_all
  let ?d = "wt_segData s (ws ! i)" and ?ws = "ws[i := wt_next s (ws ! i)]"
  have S: "0 < unat (ztl_sectorsPerSeg s)" using rw_write.prems(3) by (simp add: ztl_good_def ztl_inv_def)
  have i: "i < length ws" and g: "wt_segs (ws ! i) = g # gs" and w: "ztl_writeSegment em_dev jn now s g ?d = (Inr (), s1)"
    using rw_write.hyps(1-3) unfolding eq by simp_all
  obtain G m where r: "writer_ready (ztl_sectorsPerSeg s) (ws ! i) G m" using rw_write.prems(4) i nth_mem by blast
  note st = writer_ready_step [OF r S g]
  note c = seg_write_content [OF rw_write.prems(3) st(3) w] and gr = seg_write_grows [OF rw_write.prems(3) st(3) w]
  then have sps: "ztl_sectorsPerSeg s1 = ztl_sectorsPerSeg s" by simp
  have "\<forall>w \<in> set ?ws. \<exists>G m. writer_ready (ztl_sectorsPerSeg s1) w G m"
    using rw_write.prems(4) st(4) set_update_subset_insert [of ws i "wt_next s (ws ! i)"] unfolding sps by blast
  moreover have "reader_inv (insert s1 X) lba e s1 pc" by (rule reader_grow [OF rw_write.prems(7) gr sps]) blast
  ultimately have "ztl_good s' \<and> reader_inv (insert s1 X \<union> set H) lba e s' pc'"
    using rw_write.IH [of s1 ?ws pc "insert s1 X"] rw_write.prems(2,5,6) c unfolding eq by blast
  moreover have "s1 \<in> set H" using rw_write.hyps(4) by (cases rule: rw_run.cases) auto
  ultimately show ?case using rw_write.prems(8) unfolding eq by (simp add: insert_absorb)
qed

text \<open>Such a run is a schedule of the threads.\<close>

lemma rw_run_interleave:
  assumes "rw_run jn now st H st'"
  shows "\<exists>is. interleave ord zord em_dev jn now is (fst st, Reading (snd (snd st)) # map (\<lambda>w. Writing (WSeg w)) (fst (snd st))) =
    (fst st', Reading (snd (snd st')) # map (\<lambda>w. Writing (WSeg w)) (fst (snd st')))"
  using assms
proof (induction rule: rw_run.induct)
  case (rw_nil s ws pc)
  show ?case by (rule exI [of _ "[]"]) simp
next
  case (rw_read s pc s1 pc1 ws H st)
  then obtain "is" where "interleave ord zord em_dev jn now is (s1, Reading pc1 # map (\<lambda>w. Writing (WSeg w)) ws) =
      (fst st, Reading (snd (snd st)) # map (\<lambda>w. Writing (WSeg w)) (fst (snd st)))" by auto
  then show ?case using rw_read.hyps(1) by (intro exI [of _ "0 # is"]) simp
next
  case (rw_write i ws g gs s s1 pc H st)
  let ?ts = "Reading pc # map (\<lambda>w. Writing (WSeg w)) ws"
  have "runs (write_section ord em_dev jn now) (s, WSeg (ws ! i)) (s1, WSeg (wt_next s (ws ! i)))"
    using write_iteration [OF rw_write.hyps(2,3), of ord] by simp
  from runs_interleave [OF this thread_section.simps(1), of "Suc i" ?ts zord]
  obtain n where "interleave ord zord em_dev jn now (replicate n (Suc i)) (s, ?ts) = (s1, ?ts[Suc i := Writing (WSeg (wt_next s (ws ! i)))])"
    using rw_write.hyps(1) by auto
  moreover obtain "is" where "interleave ord zord em_dev jn now is (s1, Reading pc # map (\<lambda>w. Writing (WSeg w)) (ws[i := wt_next s (ws ! i)])) =
      (fst st, Reading (snd (snd st)) # map (\<lambda>w. Writing (WSeg w)) (fst (snd st)))" using rw_write.IH by auto
  ultimately show ?case by (intro exI [of _ "replicate n (Suc i) @ is"]) (simp add: interleave_append map_update)
qed

text \<open>The reader needs nobody: each of its sections brings it closer to its return, whatever the others do in between.\<close>

fun rd_rank :: "u64 \<Rightarrow> read_pc \<Rightarrow> nat" where
  "rd_rank sps (RStart lba c) = 4 * length (word_upto (LBAToSegmentID lba sps) (LBAToSegmentID (lba + ucast c - 1) sps)) + 2"
| "rd_rank sps (RSeg r) = 4 * length (rd_segs r) + 1"
| "rd_rank sps (RZone r p i n) = 4 * length (rd_segs r) + 4"
| "rd_rank sps (RBuf r z l n) = 4 * length (rd_segs r) + 3"
| "rd_rank sps (RDev r l n) = 4 * length (rd_segs r) + 2"
| "rd_rank sps (RReturned res) = 0"

lemma read_section_rank:
  assumes "read_section em_dev (s, pc) = (s1, pc1)" and "rd_rank (ztl_sectorsPerSeg s) pc \<noteq> 0"
  shows "s1 = s \<and> rd_rank (ztl_sectorsPerSeg s) pc1 < rd_rank (ztl_sectorsPerSeg s) pc"
  using assms by (cases pc) (auto simp: Let_def em_dev_def split: if_splits list.splits prod.splits option.splits sum.splits)

lemma reader_finishes:
  "\<exists>H res. rw_run jn now (s, ws, pc) H (s, ws, RReturned res) \<and> length H \<le> Suc (rd_rank (ztl_sectorsPerSeg s) pc)"
proof (induction "rd_rank (ztl_sectorsPerSeg s) pc" arbitrary: pc rule: less_induct)
  case less
  show ?case
  proof (cases "rd_rank (ztl_sectorsPerSeg s) pc = 0")
    case True
    then obtain res where "pc = RReturned res" by (cases pc) auto
    then show ?thesis using rw_nil [of jn now s ws pc] by (intro exI [of _ "[s]"]) auto
  next
    case False
    obtain s1 pc1 where r: "read_section em_dev (s, pc) = (s1, pc1)" by fastforce
    note k = read_section_rank [OF r False]
    then obtain H res where "rw_run jn now (s, ws, pc1) H (s, ws, RReturned res)" "length H \<le> Suc (rd_rank (ztl_sectorsPerSeg s) pc1)" using less by blast
    then show ?thesis using k r by (intro exI [of _ "s # H"] exI [of _ res]) (auto intro: rw_read)
  qed
qed

section \<open>Properties\<close>


text \<open>A reader takes the address of segment 0, the segment is overwritten, and the reader still finds what it came for.\<close>

lemma demo_reads:
  "\<exists>s1 s2 pc1 pc2 pc3 pc4. ztl_writeSegment em_dev None 0 ztl_demo8 0 (seg_of 1) = (Inr (), s1) \<and> ztl_sectorsPerSeg s1 = 2 \<and>
     read_section em_dev (s1, RStart 0 2) = (s1, pc1) \<and> read_section em_dev (s1, pc1) = (s1, pc2) \<and>
     ztl_writeSegment em_dev None 0 s1 0 (seg_of 2) = (Inr (), s2) \<and>
     read_section em_dev (s2, pc2) = (s2, pc3) \<and> read_section em_dev (s2, pc3) = (s2, pc4) \<and> read_section em_dev (s2, pc4) = (s2, RReturned (Inr (seg_of 1)))"
  by (simp add: race_eval)


end
