(* ===== verification/Smr.thy ===== *)
theory Smr
  imports Backend
begin

unbundle bit_operations_syntax

text \<open>
  The backend for SMR disks, \<^verbatim>\<open>internal/backend/smr\<close>: the command blocks it sends (\<^verbatim>\<open>cdb.go\<close>), the parsers of the answers
  (\<^verbatim>\<open>parse.go\<close>) and the device of \<^verbatim>\<open>smr.go\<close>. The transport that carries commands to the disk is a Go interface and so a
  record of functions over its state; the SG_IO transport of Linux is in \<open>SgIo\<close>. \<open>SmrSpec\<close> states what a disk does that takes
  these command blocks and answers in the layout the parsers expect, and shows that over it the backend is a zoned device.
\<close>

section \<open>Constants (pkg/zbc/constants.go)\<close>

definition OpcodeReportZones :: u8 where "OpcodeReportZones = 0x95"
definition OpcodeZoneAction :: u8 where "OpcodeZoneAction = 0x9F"
definition ZoneActionClose :: u8 where "ZoneActionClose = 0x01"
definition ZoneActionFinish :: u8 where "ZoneActionFinish = 0x02"
definition ZoneActionOpen :: u8 where "ZoneActionOpen = 0x03"
definition ZoneActionReset :: u8 where "ZoneActionReset = 0x04"
definition ReportingAll :: u8 where "ReportingAll = 0x00"
definition ZoneDescriptorSize :: nat where "ZoneDescriptorSize = 64"
definition ReportZonesHeaderSize :: nat where "ReportZonesHeaderSize = 64"
definition zbc_OpcodeInquiry :: u8 where "zbc_OpcodeInquiry = 0x12"
definition PeripheralDeviceTypeZBC :: u8 where "PeripheralDeviceTypeZBC = 0x14"
definition VPDPageBlockDeviceChar :: u8 where "VPDPageBlockDeviceChar = 0xB1"

lemmas zbc_sizes = ZoneDescriptorSize_def ReportZonesHeaderSize_def
lemmas zbc_codes = OpcodeReportZones_def OpcodeZoneAction_def ZoneActionClose_def ZoneActionFinish_def ZoneActionOpen_def ZoneActionReset_def
  ReportingAll_def zbc_OpcodeInquiry_def PeripheralDeviceTypeZBC_def VPDPageBlockDeviceChar_def

section \<open>Command blocks (cdb.go)\<close>

definition defaultTimeout :: u32 where "defaultTimeout = 30000"
definition reportZonesMaxLen :: u32 where "reportZonesMaxLen = 512 * 1024"

definition buildReportZonesCDB :: "u64 \<Rightarrow> u32 \<Rightarrow> u8 \<Rightarrow> bytes" where
  "buildReportZonesCDB startLBA allocLen reportingOptions =
     (let cdb = (zeros 16)[0 := OpcodeReportZones, 1 := 0x00];
          cdb = blit 2 (put_u64 startLBA) cdb;
          cdb = blit 10 (put_u32 allocLen) cdb
      in cdb[14 := reportingOptions, 15 := 0x00])"

definition buildZoneActionCDB :: "u8 \<Rightarrow> u64 \<Rightarrow> bool \<Rightarrow> bytes" where
  "buildZoneActionCDB action startLBA alls =
     (let cdb = (zeros 16)[0 := OpcodeZoneAction, 1 := action];
          cdb = blit 2 (put_u64 startLBA) cdb;
          cdb = (if alls then cdb[14 := 0x01] else cdb)
      in cdb[15 := 0x00])"

definition buildInquiryCDB :: "u16 \<Rightarrow> bytes" where
  "buildInquiryCDB allocLen = blit 3 (put_u16 allocLen) ((zeros 6)[0 := zbc_OpcodeInquiry])"

definition buildInquiryVPDCDB :: "u8 \<Rightarrow> u16 \<Rightarrow> bytes" where
  "buildInquiryVPDCDB pageCode allocLen =
     blit 3 (put_u16 allocLen) ((zeros 6)[0 := zbc_OpcodeInquiry, 1 := 0x01, 2 := pageCode])"

definition buildRead16CDB :: "u64 \<Rightarrow> u32 \<Rightarrow> bytes" where
  "buildRead16CDB lba count = blit 10 (put_u32 count) (blit 2 (put_u64 lba) ((zeros 16)[0 := 0x88]))"

definition buildWrite16CDB :: "u64 \<Rightarrow> u32 \<Rightarrow> bytes" where
  "buildWrite16CDB lba count = blit 10 (put_u32 count) (blit 2 (put_u64 lba) ((zeros 16)[0 := 0x8A]))"

section \<open>Parsers (parse.go)\<close>

definition parseInquiryBasic :: "bytes \<Rightarrow> u8 result" where
  "parseInquiryBasic buf =
     (if length buf < 5 then Inl (Errorf ''INQUIRY response too short'') else Inr (buf ! 0 AND 0x1F))"

definition parseVPDB1Zoned :: "bytes \<Rightarrow> u8 result" where
  "parseVPDB1Zoned buf =
     (if length buf < 9 then Inl (Errorf ''VPD B1 response too short'') else Inr (drop_bit 4 (buf ! 8) AND 0x03))"

definition condition_state :: "u8 \<Rightarrow> zone_state" where
  "condition_state c =
     (if c = 0x0 then ZoneStateNotWritePointer
      else if c = 0x1 then ZoneStateEmpty
      else if c = 0x2 then ZoneStateImplicitOpen
      else if c = 0x3 then ZoneStateExplicitOpen
      else if c = 0x4 then ZoneStateClosed
      else if c = 0xD then ZoneStateReadOnly
      else if c = 0xE then ZoneStateFull
      else if c = 0xF then ZoneStateOffline
      else ZoneStateEmpty)"

definition parseZoneDescriptor :: "bytes \<Rightarrow> ZoneDescriptor result" where
  "parseZoneDescriptor data =
     (if length data < ZoneDescriptorSize then Inl (Errorf ''zone descriptor too short'')
      else
        let byte0 = data ! 0; zoneType = byte0 AND 0x0F; zoneCondition = drop_bit 4 byte0 AND 0x0F; byte1 = data ! 1 in
        Inr \<lparr>zd_ZoneType = zoneType, zd_ZoneState = condition_state zoneCondition, zd_ZoneCondition = zoneCondition,
             zd_Reset = (byte1 AND 0x80 \<noteq> 0), zd_NonSeq = (byte1 AND 0x40 \<noteq> 0),
             zd_ZoneLength = get_u64 (bslice 8 16 data), zd_ZoneStartLBA = get_u64 (bslice 16 24 data),
             zd_WritePointer = get_u64 (bslice 24 32 data)\<rparr>)"

text \<open>The loop over the descriptors: at most \<open>n\<close> of them, as long as a whole one is left in the buffer.\<close>

fun parse_descriptors :: "nat \<Rightarrow> bytes \<Rightarrow> ZoneDescriptor list result" where
  "parse_descriptors 0 b = Inr []"
| "parse_descriptors (Suc n) b =
     (if length b < ZoneDescriptorSize then Inr []
      else
        (case parseZoneDescriptor (take ZoneDescriptorSize b) of
           Inl err \<Rightarrow> Inl (Wrap ''parsing zone descriptor'' err)
         | Inr desc \<Rightarrow>
             (case parse_descriptors n (drop ZoneDescriptorSize b) of
                Inl err \<Rightarrow> Inl err
              | Inr zones \<Rightarrow> Inr (desc # zones))))"

definition parseReportZonesResponse :: "bytes \<Rightarrow> ZoneDescriptor list result" where
  "parseReportZonesResponse buf =
     (if length buf < ReportZonesHeaderSize then Inl (Errorf ''report zones response too short'')
      else
        let zoneListLen = get_u32 (bslice 0 4 buf);
            numZones = unat zoneListLen div ZoneDescriptorSize
        in if numZones = 0 then Inr [] else parse_descriptors numZones (drop ReportZonesHeaderSize buf))"

section \<open>The transport (scsi_transport.go)\<close>

text \<open>
  \<^verbatim>\<open>ScsiRead\<close> gets a buffer and fills it from the start; the model returns the bytes it puts there, \<open>blit 0\<close> puts them.
\<close>

record 't ScsiTransport =
  st_ScsiRead :: "'t \<Rightarrow> bytes \<Rightarrow> bytes \<Rightarrow> u32 \<Rightarrow> unit result \<times> bytes \<times> 't"
  st_ScsiWrite :: "'t \<Rightarrow> bytes \<Rightarrow> bytes \<Rightarrow> u32 \<Rightarrow> unit result \<times> 't"
  st_ScsiNoData :: "'t \<Rightarrow> bytes \<Rightarrow> u32 \<Rightarrow> unit result \<times> 't"
  st_Close :: "'t \<Rightarrow> unit result \<times> 't"

section \<open>The device (smr.go)\<close>

record 't SMRBackend =
  sb_transport :: 't
  sb_zoneCount :: "32 word"
  sb_zoneSectors :: u64
  sb_maxOpenZones :: "32 word"
  sb_capacity :: u64

definition smr_verifyDevice :: "'t ScsiTransport \<Rightarrow> 't \<Rightarrow> unit result \<times> 't" where
  "smr_verifyDevice T k =
     (case st_ScsiRead T k (buildInquiryCDB 96) (zeros 96) defaultTimeout of
        (Inl err, _, k1) \<Rightarrow> (Inl (Wrap ''INQUIRY'' err), k1)
      | (Inr _, out, k1) \<Rightarrow>
          (case parseInquiryBasic (blit 0 out (zeros 96)) of
             Inl err \<Rightarrow> (Inl (Wrap ''parse INQUIRY'' err), k1)
           | Inr pdt \<Rightarrow>
               if pdt = PeripheralDeviceTypeZBC then (Inr (), k1)
               else if pdt \<noteq> 0x00 then (Inl (Errorf ''unsupported device type: not a zoned block device''), k1)
               else
                 (case st_ScsiRead T k1 (buildInquiryVPDCDB VPDPageBlockDeviceChar 64) (zeros 64) defaultTimeout of
                    (Inl err, _, k2) \<Rightarrow> (Inl (Wrap ''INQUIRY VPD 0xB1'' err), k2)
                  | (Inr _, out, k2) \<Rightarrow>
                      (case parseVPDB1Zoned (blit 0 out (zeros 64)) of
                         Inl err \<Rightarrow> (Inl (Wrap ''parse VPD B1'' err), k2)
                       | Inr zoned \<Rightarrow>
                           if zoned = 0x02 then (Inr (), k2)
                           else if zoned = 0x01 then (Inl (Errorf ''Host-Aware zoned device is not supported''), k2)
                           else if zoned = 0x00 then (Inl (Errorf ''device is not a zoned block device''), k2)
                           else (Inl (Errorf ''unsupported zoned model in VPD B1''), k2)))))"

definition smr_reportZones :: "'t ScsiTransport \<Rightarrow> 't \<Rightarrow> u64 \<Rightarrow> int \<Rightarrow> ZoneDescriptor list result \<times> 't" where
  "smr_reportZones T k startLBA maxZones =
     (let allocLen = of_int (int ReportZonesHeaderSize + maxZones * int ZoneDescriptorSize) :: u32;
          allocLen = (if allocLen > reportZonesMaxLen then reportZonesMaxLen else allocLen);
          buf = zeros (unat allocLen);
          cdb = buildReportZonesCDB startLBA allocLen ReportingAll in
      case st_ScsiRead T k cdb buf defaultTimeout of
        (Inl err, _, k1) \<Rightarrow> (Inl (Wrap ''REPORT ZONES'' err), k1)
      | (Inr _, out, k1) \<Rightarrow> (parseReportZonesResponse (blit 0 out buf), k1))"

definition smr_discover :: "'t ScsiTransport \<Rightarrow> 't SMRBackend \<Rightarrow> unit result \<times> 't SMRBackend" where
  "smr_discover T s =
     (case smr_verifyDevice T (sb_transport s) of
        (Inl err, k1) \<Rightarrow> (Inl (Wrap ''device verification failed'' err), s\<lparr>sb_transport := k1\<rparr>)
      | (Inr _, k1) \<Rightarrow>
          (case smr_reportZones T k1 0 1 of
             (Inl err, k2) \<Rightarrow> (Inl (Wrap ''discover'' err), s\<lparr>sb_transport := k2\<rparr>)
           | (Inr zones, k2) \<Rightarrow>
               if length zones = 0 then (Inl (Errorf ''discover: no zones reported by device''), s\<lparr>sb_transport := k2\<rparr>)
               else
                 let s1 = s\<lparr>sb_transport := k2, sb_zoneSectors := zd_ZoneLength (zones ! 0)\<rparr> in
                 (case smr_reportZones T k2 0 65536 of
                    (Inl err, k3) \<Rightarrow> (Inl (Wrap ''discover all zones'' err), s1\<lparr>sb_transport := k3\<rparr>)
                  | (Inr allZones, k3) \<Rightarrow>
                      (Inr (), s1\<lparr>sb_transport := k3, sb_zoneCount := of_nat (length allZones),
                                   sb_capacity := of_nat (length allZones) * zd_ZoneLength (zones ! 0),
                                   sb_maxOpenZones := 14\<rparr>))))"

definition newSMRBackend :: "'t ScsiTransport \<Rightarrow> 't \<Rightarrow> 't SMRBackend result \<times> 't" where
  "newSMRBackend T k =
     (case smr_discover T \<lparr>sb_transport = k, sb_zoneCount = 0, sb_zoneSectors = 0, sb_maxOpenZones = 0, sb_capacity = 0\<rparr> of
        (Inl err, s) \<Rightarrow> (Inl err, snd (st_Close T (sb_transport s)))
      | (Inr _, s) \<Rightarrow> (Inr s, sb_transport s))"

definition smr_zoneAction :: "'t ScsiTransport \<Rightarrow> u8 \<Rightarrow> 't SMRBackend \<Rightarrow> u64 \<Rightarrow> bool \<Rightarrow> unit result \<times> 't SMRBackend" where
  "smr_zoneAction T action s startLBA alls =
     (case st_ScsiNoData T (sb_transport s) (buildZoneActionCDB action startLBA alls) defaultTimeout of
        (Inl err, k) \<Rightarrow> (Inl (Wrap ''ZONE ACTION'' err), s\<lparr>sb_transport := k\<rparr>)
      | (Inr _, k) \<Rightarrow> (Inr (), s\<lparr>sb_transport := k\<rparr>))"

definition smr_ReportZones :: "'t ScsiTransport \<Rightarrow> 't SMRBackend \<Rightarrow> u64 \<Rightarrow> int \<Rightarrow> ZoneDescriptor list result \<times> 't SMRBackend" where
  "smr_ReportZones T s startLBA count =
     (let maxZones = (if count \<le> 0 then sint (sb_zoneCount s) else count) in
      case smr_reportZones T (sb_transport s) startLBA maxZones of (r, k) \<Rightarrow> (r, s\<lparr>sb_transport := k\<rparr>))"

definition smr_ZoneCount :: "'t SMRBackend \<Rightarrow> int" where "smr_ZoneCount s = sint (sb_zoneCount s)"
definition smr_ZoneSize :: "'t SMRBackend \<Rightarrow> u64" where "smr_ZoneSize s = sb_zoneSectors s"

definition smr_OpenZone :: "'t ScsiTransport \<Rightarrow> 't SMRBackend \<Rightarrow> u64 \<Rightarrow> unit result \<times> 't SMRBackend" where
  "smr_OpenZone T s zoneStartLBA = smr_zoneAction T ZoneActionOpen s zoneStartLBA False"

definition smr_CloseZone :: "'t ScsiTransport \<Rightarrow> 't SMRBackend \<Rightarrow> u64 \<Rightarrow> unit result \<times> 't SMRBackend" where
  "smr_CloseZone T s zoneStartLBA = smr_zoneAction T ZoneActionClose s zoneStartLBA False"

definition smr_FinishZone :: "'t ScsiTransport \<Rightarrow> 't SMRBackend \<Rightarrow> u64 \<Rightarrow> unit result \<times> 't SMRBackend" where
  "smr_FinishZone T s zoneStartLBA = smr_zoneAction T ZoneActionFinish s zoneStartLBA False"

definition smr_ResetZone :: "'t ScsiTransport \<Rightarrow> 't SMRBackend \<Rightarrow> u64 \<Rightarrow> unit result \<times> 't SMRBackend" where
  "smr_ResetZone T s zoneStartLBA = smr_zoneAction T ZoneActionReset s zoneStartLBA False"

definition smr_ReadSectors :: "'t ScsiTransport \<Rightarrow> 't SMRBackend \<Rightarrow> u64 \<Rightarrow> u32 \<Rightarrow> bytes result \<times> 't SMRBackend" where
  "smr_ReadSectors T s lba count =
     (let buf = zeros (unat count * 512) in
      case st_ScsiRead T (sb_transport s) (buildRead16CDB lba count) buf defaultTimeout of
        (Inl err, _, k) \<Rightarrow> (Inl (Wrap ''ReadSectors'' err), s\<lparr>sb_transport := k\<rparr>)
      | (Inr _, out, k) \<Rightarrow> (Inr (blit 0 out buf), s\<lparr>sb_transport := k\<rparr>))"

definition smr_WriteSectors :: "'t ScsiTransport \<Rightarrow> 't SMRBackend \<Rightarrow> u64 \<Rightarrow> bytes \<Rightarrow> unit result \<times> 't SMRBackend" where
  "smr_WriteSectors T s lba data =
     (if length data mod 512 \<noteq> 0 then (Inl (Wrap ''data len'' ErrAlignmentError), s)
      else
        let count = of_nat (length data div 512) :: u32 in
        case st_ScsiWrite T (sb_transport s) (buildWrite16CDB lba count) data defaultTimeout of
          (Inl err, k) \<Rightarrow> (Inl (Wrap ''WriteSectors'' err), s\<lparr>sb_transport := k\<rparr>)
        | (Inr _, k) \<Rightarrow> (Inr (), s\<lparr>sb_transport := k\<rparr>))"

definition smr_BlockSize :: "'t SMRBackend \<Rightarrow> u32" where "smr_BlockSize s = 512"
definition smr_Capacity :: "'t SMRBackend \<Rightarrow> u64" where "smr_Capacity s = sb_capacity s"
definition smr_MaxOpenZones :: "'t SMRBackend \<Rightarrow> int" where "smr_MaxOpenZones s = sint (sb_maxOpenZones s)"

definition smr_Close :: "'t ScsiTransport \<Rightarrow> 't SMRBackend \<Rightarrow> unit result \<times> 't SMRBackend" where
  "smr_Close T s = (case st_Close T (sb_transport s) of (r, k) \<Rightarrow> (r, s\<lparr>sb_transport := k\<rparr>))"

definition smr_dev :: "'t ScsiTransport \<Rightarrow> 't SMRBackend ZonedDevice" where
  "smr_dev T =
     \<lparr>dev_ReportZones = smr_ReportZones T, dev_ZoneCount = smr_ZoneCount, dev_ZoneSize = smr_ZoneSize,
      dev_OpenZone = smr_OpenZone T, dev_CloseZone = smr_CloseZone T, dev_FinishZone = smr_FinishZone T, dev_ResetZone = smr_ResetZone T,
      dev_ReadSectors = smr_ReadSectors T, dev_WriteSectors = smr_WriteSectors T, dev_BlockSize = smr_BlockSize,
      dev_Capacity = smr_Capacity, dev_MaxOpenZones = smr_MaxOpenZones, dev_Close = smr_Close T\<rparr>"

end
