(* ===== verification/SmrSpec.thy ===== *)
theory SmrSpec
  imports Smr ZtlSpec
begin

unbundle bit_operations_syntax

text \<open>
  What a zoned disk does with the commands of \<^verbatim>\<open>internal/backend/smr\<close>, and what the backend promises over such a disk.
\<close>

section \<open>Layouts\<close>

text \<open>The command blocks byte by byte.\<close>

lemma zeros_16: "zeros 16 = [0, 0, 0, 0, 0, 0, 0, 0, 0, 0, 0, 0, 0, 0, 0, 0]"
  by (simp add: zeros_def eval_nat_numeral)

lemma zeros_6: "zeros 6 = [0, 0, 0, 0, 0, 0]"
  by (simp add: zeros_def eval_nat_numeral)

lemma cdb_layout:
  "buildReportZonesCDB lba n opt = [0x95, 0] @ put_u64 lba @ put_u32 n @ [opt, 0]"
  "buildZoneActionCDB a lba alls = [0x9F, a] @ put_u64 lba @ [0, 0, 0, 0, if alls then 1 else 0, 0]"
  "buildInquiryCDB m = [0x12, 0, 0] @ put_u16 m @ [0]"
  "buildInquiryVPDCDB pg m = [0x12, 1, pg] @ put_u16 m @ [0]"
  "buildRead16CDB lba n = [0x88, 0] @ put_u64 lba @ put_u32 n @ [0, 0]"
  "buildWrite16CDB lba n = [0x8A, 0] @ put_u64 lba @ put_u32 n @ [0, 0]"
  by (simp_all add: buildReportZonesCDB_def buildZoneActionCDB_def buildInquiryCDB_def buildInquiryVPDCDB_def buildRead16CDB_def
      buildWrite16CDB_def zeros_16 zeros_6 blit_def zbc_codes list_update_append Let_def)

text \<open>The fields of a command block, as the disk reads them.\<close>

definition cdb_lba :: "bytes \<Rightarrow> u64" where "cdb_lba cdb = get_u64 (bslice 2 10 cdb)"
definition cdb_count :: "bytes \<Rightarrow> u32" where "cdb_count cdb = get_u32 (bslice 10 14 cdb)"

lemma cdb_fields [simp]:
  "cdb_lba (x # y # put_u64 lba @ zs) = lba" "cdb_count (x # y # put_u64 lba @ put_u32 n @ zs) = n"
  by (simp_all add: cdb_lba_def cdb_count_def bslice_def)

text \<open>A zone descriptor and a REPORT ZONES answer, as a disk lays them out.\<close>

definition zone_bytes :: "ZoneDescriptor \<Rightarrow> bytes" where
  "zone_bytes z =
     [zd_ZoneType z OR push_bit 4 (zd_ZoneCondition z), (if zd_Reset z then 0x80 else 0) OR (if zd_NonSeq z then 0x40 else 0)] @
     zeros 6 @ put_u64 (zd_ZoneLength z) @ put_u64 (zd_ZoneStartLBA z) @ put_u64 (zd_WritePointer z) @ zeros 32"

definition report_bytes :: "ZoneDescriptor list \<Rightarrow> bytes" where
  "report_bytes zs = put_u32 (of_nat (64 * length zs)) @ zeros 60 @ concat (map zone_bytes zs)"

text \<open>The descriptors a disk can send: type and condition are nibbles, the state is that of the condition.\<close>

definition zone_wf :: "ZoneDescriptor \<Rightarrow> bool" where
  "zone_wf z \<longleftrightarrow> zd_ZoneType z < 16 \<and> zd_ZoneCondition z < 16 \<and> zd_ZoneState z = condition_state (zd_ZoneCondition z)"

lemma length_zone_bytes [simp]: "length (zone_bytes z) = 64"
  by (simp add: zone_bytes_def)

lemma u8_small: "(x :: u8) < 16 \<Longrightarrow> x \<in> {0, 1, 2, 3, 4, 5, 6, 7, 8, 9, 10, 11, 12, 13, 14, 15}"
proof -
  assume "x < 16"
  then have "unat x < 16" by (simp add: word_less_nat_alt)
  then have "unat x \<in> {0, 1, 2, 3, 4, 5, 6, 7, 8, 9, 10, 11, 12, 13, 14, 15}" by (simp only: insert_iff empty_iff) presburger
  then show ?thesis by (auto simp: word_unat_eq_iff)
qed

lemma nibbles_join:
  fixes t c :: u8
  assumes "t < 16" and "c < 16"
  shows "(t OR push_bit 4 c) AND 0x0F = t" and "(drop_bit 4 t OR drop_bit 4 (push_bit 4 c)) AND 0x0F = c"
  using u8_small [OF assms(1)] u8_small [OF assms(2)] by auto

lemma parse_zone_bytes: "zone_wf z \<Longrightarrow> parseZoneDescriptor (zone_bytes z) = Inr z"
  by (auto simp: parseZoneDescriptor_def zbc_sizes zone_wf_def nibbles_join Let_def zone_bytes_def bslice_def)

lemma parse_descriptors_zones:
  "\<forall>z \<in> set zs. zone_wf z \<Longrightarrow> length zs \<le> n \<Longrightarrow> length rest < 64 \<Longrightarrow> parse_descriptors n (concat (map zone_bytes zs) @ rest) = Inr zs"
proof (induction zs arbitrary: n)
  case Nil
  then show ?case by (cases n) (simp_all add: zbc_sizes)
next
  case (Cons z zs)
  then obtain m where "n = Suc m" by (cases n) auto
  then show ?case using Cons parse_zone_bytes [of z] by (simp add: zbc_sizes)
qed

text \<open>A buffer of \<open>64 + 64 n\<close> bytes holds the header and the first \<open>n\<close> descriptors.\<close>

lemma take_zone_bytes: "take (64 * n) (concat (map zone_bytes zs)) = concat (map zone_bytes (take n zs))"
proof (induction zs arbitrary: n)
  case (Cons z zs)
  then show ?case by (cases n) simp_all
qed simp

lemma length_zones_bytes [simp]: "length (concat (map zone_bytes zs)) = 64 * length zs"
  by (induction zs) simp_all

lemma parse_report:
  assumes wf: "\<forall>z \<in> set zs. zone_wf z" and len: "64 * length zs < 2 ^ 32"
  shows "parseReportZonesResponse (blit 0 (take (64 + 64 * n) (report_bytes zs)) (zeros (64 + 64 * n))) = Inr (take n zs)"
proof -
  let ?k = "min n (length zs)"
  have tk: "take (64 + 64 * n) (report_bytes zs) = put_u32 (of_nat (64 * length zs)) @ zeros 60 @ concat (map zone_bytes (take n zs))"
    by (simp add: report_bytes_def take_zone_bytes)
  then have bl: "blit 0 (take (64 + 64 * n) (report_bytes zs)) (zeros (64 + 64 * n)) =
      put_u32 (of_nat (64 * length zs)) @ zeros 60 @ concat (map zone_bytes (take n zs)) @ zeros (64 * (n - length zs))"
    by (simp add: blit_def zeros_def min_def right_diff_distrib')
  have hd: "unat (of_nat (64 * length zs) :: u32) = 64 * length zs" using len by (simp add: unat_of_nat take_bit_nat_eq_self del: of_nat_mult)
  have pd: "parse_descriptors (length zs) (concat (map zone_bytes (take n zs)) @ zeros (64 * (n - length zs))) = Inr (take n zs)"
  proof (cases "n \<le> length zs")
    case True
    then show ?thesis using parse_descriptors_zones [of "take n zs" "length zs" "[]"] wf by (auto simp: zeros_def dest: in_set_takeD)
  next
    case False
    have "parse_descriptors (length zs) (concat (map zone_bytes zs) @ r) = Inr zs" for r
      using wf by (induction zs) (auto simp: zbc_sizes parse_zone_bytes)
    then show ?thesis using False by simp
  qed
  show ?thesis
    using pd hd unfolding bl parseReportZonesResponse_def
    by (cases zs) (simp_all add: zbc_sizes bslice_def Let_def del: of_nat_mult of_nat_Suc)
qed

text \<open>
  The descriptor in the layout of the ZBC standard: type in the low half of byte 0, condition in the high half of byte 1, the flags in its two lowest
  bits. The parser finds condition 0 in every one of them, so that all zones of a disk with this layout count as zones without a write pointer.
\<close>

definition std_zone_bytes :: "ZoneDescriptor \<Rightarrow> bytes" where
  "std_zone_bytes z =
     [zd_ZoneType z, push_bit 4 (zd_ZoneCondition z) OR (if zd_NonSeq z then 2 else 0) OR (if zd_Reset z then 1 else 0)] @
     zeros 6 @ put_u64 (zd_ZoneLength z) @ put_u64 (zd_ZoneStartLBA z) @ put_u64 (zd_WritePointer z) @ zeros 32"

lemma zone_condition_misread:
  assumes "zd_ZoneType z < 16"
  shows "\<exists>d. parseZoneDescriptor (std_zone_bytes z) = Inr d \<and> zd_ZoneCondition d = 0 \<and> zd_ZoneState d = ZoneStateNotWritePointer \<and>
    zd_ZoneType d = zd_ZoneType z \<and> zd_ZoneLength d = zd_ZoneLength z \<and> zd_WritePointer d = zd_WritePointer z"
proof -
  have "drop_bit 4 (zd_ZoneType z) AND 0x0F = 0" "zd_ZoneType z AND 0x0F = zd_ZoneType z" using u8_small [OF assms] by auto
  then show ?thesis by (simp add: parseZoneDescriptor_def std_zone_bytes_def zbc_sizes bslice_def condition_state_def Let_def)
qed

section \<open>A zoned disk\<close>

text \<open>
  The state \<open>k\<close> of a disk behind the transport \<open>T\<close>: \<open>kview\<close> is what it holds, \<open>kzones\<close> the descriptors of its zones. The laws say what the
  backend relies on: what INQUIRY, REPORT ZONES, READ (16), WRITE (16) and the zone actions do, for every command block with the
  right fields; a WRITE is only accepted with as much data as it announces. The command codes and the layout of a descriptor are those of the
  code. They differ from the published ZBC standard in two places: the standard has the zone actions under the code \<open>0x94\<close> (\<open>0x9F\<close> is the
  ATA command), and a descriptor carries the zone condition in its second byte; \<open>zone_condition_misread\<close> below shows the effect.
\<close>

locale zbc_disk =
  fixes T :: "'t ScsiTransport" and kinv :: "'t \<Rightarrow> bool" and kview :: "'t \<Rightarrow> dev_view" and kzones :: "'t \<Rightarrow> ZoneDescriptor list"
  assumes kgeometry: "kinv k \<Longrightarrow> 0 < v_size (kview k) \<and> 0 < v_zones (kview k) \<and> v_zones (kview k) * v_size (kview k) < 2 ^ 63"
    and kwp_le: "kinv k \<Longrightarrow> z < v_zones (kview k) \<Longrightarrow> v_wp (kview k) z \<le> v_size (kview k)"
    and ksector: "kinv k \<Longrightarrow> z < v_zones (kview k) \<Longrightarrow> j < v_size (kview k) \<Longrightarrow> length (v_sector (kview k) z j) = sectorSize"
    and kdescriptors: "kinv k \<Longrightarrow> length (kzones k) = v_zones (kview k) \<and> (\<forall>z \<in> set (kzones k). zone_wf z \<and> zd_ZoneLength z = of_nat (v_size (kview k)))"
    and kinquiry: "kinv k \<Longrightarrow> length cdb = 6 \<Longrightarrow> cdb ! 0 = 0x12 \<Longrightarrow> cdb ! 1 AND 1 = 0 \<Longrightarrow> buf \<noteq> [] \<Longrightarrow>
            \<exists>x out. st_ScsiRead T k cdb buf t = (Inr (), x # out, k) \<and> x AND 0x1F = 0x14"
    and kreport: "kinv k \<Longrightarrow> length cdb = 16 \<Longrightarrow> cdb ! 0 = 0x95 \<Longrightarrow> cdb ! 14 = 0 \<Longrightarrow> cdb_lba cdb = 0 \<Longrightarrow>
            cdb_count cdb = of_nat (length buf) \<Longrightarrow> length buf < 2 ^ 32 \<Longrightarrow>
            st_ScsiRead T k cdb buf t = (Inr (), take (length buf) (report_bytes (kzones k)), k)"
    and kread: "kinv k \<Longrightarrow> length cdb = 16 \<Longrightarrow> cdb ! 0 = 0x88 \<Longrightarrow> z < v_zones (kview k) \<Longrightarrow> cdb_lba cdb = zone_lba (kview k) z j \<Longrightarrow>
            unat (cdb_count cdb) = c \<Longrightarrow> 0 < c \<Longrightarrow> j + c \<le> v_wp (kview k) z \<Longrightarrow> length buf = sectorSize * c \<Longrightarrow>
            st_ScsiRead T k cdb buf t = (Inr (), concat (map (v_sector (kview k) z) [j..<j + c]), k)"
    and kwrite_error: "kinv k \<Longrightarrow> length cdb = 16 \<Longrightarrow> cdb ! 0 = 0x8A \<Longrightarrow> length data < 2 ^ 63 \<Longrightarrow> st_ScsiWrite T k cdb data t = (Inl e, k') \<Longrightarrow>
            kinv k' \<and> same_data (kview k) (kview k')"
    and kwrite_ok: "kinv k \<Longrightarrow> length cdb = 16 \<Longrightarrow> cdb ! 0 = 0x8A \<Longrightarrow> z < v_zones (kview k) \<Longrightarrow> j < v_size (kview k) \<Longrightarrow>
            cdb_lba cdb = zone_lba (kview k) z j \<Longrightarrow> data \<noteq> [] \<Longrightarrow> length data < 2 ^ 63 \<Longrightarrow> st_ScsiWrite T k cdb data t = (Inr (), k') \<Longrightarrow>
            kinv k' \<and> length data = sectorSize * unat (cdb_count cdb) \<and> j = v_wp (kview k) z \<and>
            j + unat (cdb_count cdb) \<le> v_size (kview k) \<and> written (kview k) z j data (kview k')"
    and kaction: "kinv k \<Longrightarrow> length cdb = 16 \<Longrightarrow> cdb ! 0 = 0x9F \<Longrightarrow> cdb ! 1 \<in> {1, 3} \<Longrightarrow> cdb ! 14 AND 1 = 0 \<Longrightarrow>
            st_ScsiNoData T k cdb t = (r, k') \<Longrightarrow> kinv k' \<and> same_data (kview k) (kview k')"
    and kreset_ok: "kinv k \<Longrightarrow> length cdb = 16 \<Longrightarrow> cdb ! 0 = 0x9F \<Longrightarrow> cdb ! 1 = 4 \<Longrightarrow> cdb ! 14 AND 1 = 0 \<Longrightarrow> z < v_zones (kview k) \<Longrightarrow>
            cdb_lba cdb = zone_lba (kview k) z 0 \<Longrightarrow> st_ScsiNoData T k cdb t = (Inr (), k') \<Longrightarrow>
            kinv k' \<and> was_reset (kview k) z (kview k')"
    and kreset_error: "kinv k \<Longrightarrow> length cdb = 16 \<Longrightarrow> cdb ! 0 = 0x9F \<Longrightarrow> cdb ! 1 = 4 \<Longrightarrow> cdb ! 14 AND 1 = 0 \<Longrightarrow>
            st_ScsiNoData T k cdb t = (Inl e, k') \<Longrightarrow> kinv k' \<and> same_data (kview k) (kview k')"

text \<open>The backend knows the geometry of the disk behind it.\<close>

definition smr_inv :: "('t \<Rightarrow> bool) \<Rightarrow> ('t \<Rightarrow> dev_view) \<Rightarrow> 't SMRBackend \<Rightarrow> bool" where
  "smr_inv kinv kview s \<longleftrightarrow> kinv (sb_transport s) \<and> sb_zoneSectors s = of_nat (v_size (kview (sb_transport s))) \<and>
     sb_capacity s = of_nat (v_zones (kview (sb_transport s)) * v_size (kview (sb_transport s)))"

definition smr_view :: "('t \<Rightarrow> dev_view) \<Rightarrow> 't SMRBackend \<Rightarrow> dev_view" where
  "smr_view kview s = kview (sb_transport s)"

lemma smr_inv_kept:
  "smr_inv kinv kview s \<Longrightarrow> kinv k \<Longrightarrow> v_size (kview k) = v_size (kview (sb_transport s)) \<Longrightarrow> v_zones (kview k) = v_zones (kview (sb_transport s)) \<Longrightarrow>
   smr_inv kinv kview (s\<lparr>sb_transport := k\<rparr>)"
  by (simp add: smr_inv_def)

lemmas smr_ops = smr_dev_def smr_OpenZone_def smr_CloseZone_def smr_ResetZone_def smr_ReadSectors_def smr_WriteSectors_def
  smr_zoneAction_def smr_ZoneSize_def smr_Capacity_def cdb_layout zbc_codes smr_view_def

lemma written_geometry: "written v z j data w \<Longrightarrow> v_zones w = v_zones v \<and> v_size w = v_size v"
  by (simp add: written_def)

context zbc_disk
begin

lemma smr_action_data:
  assumes "smr_inv kinv kview s" and "a \<in> {1, 3}" and "smr_zoneAction T a s lba False = (r, s')"
  shows "smr_inv kinv kview s' \<and> same_data (smr_view kview s) (smr_view kview s')"
proof -
  obtain r1 k where n: "st_ScsiNoData T (sb_transport s) (buildZoneActionCDB a lba False) defaultTimeout = (r1, k)" by fastforce
  have "kinv k \<and> same_data (kview (sb_transport s)) (kview k)"
    by (rule kaction [OF _ _ _ _ _ n]) (use assms in \<open>simp_all add: smr_inv_def cdb_layout nth_append\<close>)
  then show ?thesis using assms(1,3) n
    by (auto simp: smr_zoneAction_def smr_view_def same_data_def intro: smr_inv_kept split: sum.splits)
qed

lemma smr_reset_data:
  assumes "smr_inv kinv kview s" and "smr_zoneAction T 4 s lba False = (r, s')"
  shows "r = Inl e \<Longrightarrow> smr_inv kinv kview s' \<and> same_data (smr_view kview s) (smr_view kview s')"
    and "r = Inr () \<Longrightarrow> z < v_zones (smr_view kview s) \<Longrightarrow> lba = zone_lba (smr_view kview s) z 0 \<Longrightarrow>
      smr_inv kinv kview s' \<and> was_reset (smr_view kview s) z (smr_view kview s')"
proof -
  obtain r1 k where n: "st_ScsiNoData T (sb_transport s) (buildZoneActionCDB 4 lba False) defaultTimeout = (r1, k)" by fastforce
  note laws = kreset_error [of "sb_transport s" "buildZoneActionCDB 4 lba False" defaultTimeout _ k]
    kreset_ok [of "sb_transport s" "buildZoneActionCDB 4 lba False" z defaultTimeout k]
  show "r = Inl e \<Longrightarrow> smr_inv kinv kview s' \<and> same_data (smr_view kview s) (smr_view kview s')"
    using assms n laws(1)
    by (auto simp: smr_inv_def smr_zoneAction_def smr_view_def same_data_def cdb_layout nth_append split: sum.splits)
  show "r = Inr () \<Longrightarrow> z < v_zones (smr_view kview s) \<Longrightarrow> lba = zone_lba (smr_view kview s) z 0 \<Longrightarrow>
      smr_inv kinv kview s' \<and> was_reset (smr_view kview s) z (smr_view kview s')"
    using assms n laws(2)
    by (auto simp: smr_inv_def smr_zoneAction_def smr_view_def was_reset_def cdb_layout nth_append split: sum.splits)
qed

lemma smr_write_data:
  assumes "smr_inv kinv kview s" and "length data < 2 ^ 63" and "smr_WriteSectors T s lba data = (r, s')"
  shows "r = Inl e \<Longrightarrow> smr_inv kinv kview s' \<and> same_data (smr_view kview s) (smr_view kview s')"
    and "r = Inr () \<Longrightarrow> z < v_zones (smr_view kview s) \<Longrightarrow> j < v_size (smr_view kview s) \<Longrightarrow> data \<noteq> [] \<Longrightarrow> lba = zone_lba (smr_view kview s) z j \<Longrightarrow>
      smr_inv kinv kview s' \<and> j = v_wp (smr_view kview s) z \<and> length data mod sectorSize = 0 \<and>
      j + length data div sectorSize \<le> v_size (smr_view kview s) \<and> written (smr_view kview s) z j data (smr_view kview s')"
proof -
  let ?cdb = "buildWrite16CDB lba (of_nat (length data div 512))"
  obtain r1 k where n: "st_ScsiWrite T (sb_transport s) ?cdb data defaultTimeout = (r1, k)" by fastforce
  note laws = kwrite_error [of "sb_transport s" ?cdb data defaultTimeout _ k] kwrite_ok [of "sb_transport s" ?cdb z j data defaultTimeout k]
  show "r = Inl e \<Longrightarrow> smr_inv kinv kview s' \<and> same_data (smr_view kview s) (smr_view kview s')"
    using assms n laws(1)
    by (auto simp: smr_inv_def smr_WriteSectors_def smr_view_def same_data_def cdb_layout Let_def split: sum.splits if_splits)
  show "r = Inr () \<Longrightarrow> z < v_zones (smr_view kview s) \<Longrightarrow> j < v_size (smr_view kview s) \<Longrightarrow> data \<noteq> [] \<Longrightarrow> lba = zone_lba (smr_view kview s) z j \<Longrightarrow>
      smr_inv kinv kview s' \<and> j = v_wp (smr_view kview s) z \<and> length data mod sectorSize = 0 \<and>
      j + length data div sectorSize \<le> v_size (smr_view kview s) \<and> written (smr_view kview s) z j data (smr_view kview s')"
    using assms n laws(2)
    by (auto simp: smr_inv_def smr_WriteSectors_def smr_view_def cdb_layout Let_def dest: written_geometry split: sum.splits if_splits)
qed

lemma smr_read_data:
  assumes "smr_inv kinv kview s" and "z < v_zones (smr_view kview s)" and "0 < c" and "c < 2 ^ 32" and "j + c \<le> v_wp (smr_view kview s) z"
  shows "smr_ReadSectors T s (zone_lba (smr_view kview s) z j) (of_nat c) = (Inr (concat (map (v_sector (smr_view kview s) z) [j..<j + c])), s)"
proof -
  let ?k = "sb_transport s"
  have k: "kinv ?k" using assms(1) by (simp add: smr_inv_def)
  have c: "unat (of_nat c :: u32) = c" using assms(4) by (simp add: unat_of_nat take_bit_nat_eq_self)
  have "st_ScsiRead T ?k (buildRead16CDB (zone_lba (kview ?k) z j) (of_nat c)) (zeros (c * 512)) defaultTimeout =
      (Inr (), concat (map (v_sector (kview ?k) z) [j..<j + c]), ?k)"
    by (rule kread [OF k]) (use assms c in \<open>simp_all add: cdb_layout smr_view_def\<close>)
  moreover have "length (concat (map (v_sector (kview ?k) z) [j..<j + c])) = sectorSize * c"
    using kwp_le [OF k, of z] ksector [OF k, of z] assms(2,5) by (subst length_concat_sectors) (auto simp: smr_view_def)
  ultimately show ?thesis using c by (simp add: smr_ReadSectors_def smr_view_def blit_def Let_def)
qed

end

sublocale zbc_disk < smr: zoned_device "smr_dev T" "smr_inv kinv kview" "smr_view kview"
proof (unfold_locales, goal_cases)
  case (1 d)
  then show ?case using kgeometry [of "sb_transport d"] by (simp add: smr_inv_def smr_ops)
next
  case (2 d z)
  then show ?case using kwp_le [of "sb_transport d" z] by (simp add: smr_inv_def smr_view_def)
next
  case (3 d z k)
  then show ?case using ksector [of "sb_transport d" z k] by (simp add: smr_inv_def smr_view_def)
next
  case (4 d lba r d')
  then show ?case using smr_action_data [of d 3 lba r d'] by (simp add: smr_dev_def smr_OpenZone_def zbc_codes)
next
  case (5 d lba r d')
  then show ?case using smr_action_data [of d 1 lba r d'] by (simp add: smr_dev_def smr_CloseZone_def zbc_codes)
next
  case (6 d data lba e d')
  then show ?case using smr_write_data(1) [of d data lba "Inl e" d'] by (simp add: smr_dev_def)
next
  case (7 d z k data d')
  then show ?case using smr_write_data(2) [of d data _ "Inr ()" d'] by (simp add: smr_dev_def)
next
  case (8 d z c k)
  then show ?case using smr_read_data [of d z c k] by (simp add: smr_dev_def)
next
  case (9 d z d')
  then show ?case using smr_reset_data(2) [of d _ "Inr ()" d' z] by (simp add: smr_dev_def smr_ResetZone_def zbc_codes)
next
  case (10 d lba e d')
  then show ?case using smr_reset_data(1) [of d lba "Inl e" d'] by (simp add: smr_dev_def smr_ResetZone_def zbc_codes)
qed

section \<open>Opening the disk\<close>

context zbc_disk
begin

lemma smr_verify: "kinv k \<Longrightarrow> smr_verifyDevice T k = (Inr (), k)"
proof -
  assume k: "kinv k"
  obtain x out where r: "st_ScsiRead T k (buildInquiryCDB 96) (zeros 96) defaultTimeout = (Inr (), x # out, k)" "x AND 0x1F = 0x14"
    using kinquiry [OF k, of "buildInquiryCDB 96" "zeros 96" defaultTimeout] by (auto simp: cdb_layout zeros_def)
  then show ?thesis by (simp add: smr_verifyDevice_def parseInquiryBasic_def blit_def zbc_codes)
qed

lemma smr_report:
  assumes k: "kinv k" and zs: "v_zones (kview k) < 2 ^ 26" and n: "0 \<le> m" "m < 2 ^ 25"
  shows "smr_reportZones T k 0 m = (Inr (take (min (nat m) 8191) (kzones k)), k)"
proof -
  let ?n = "min (nat m) 8191" and ?len = "of_int (int ReportZonesHeaderSize + m * int ZoneDescriptorSize) :: u32"
  have "?len = of_nat (64 + 64 * nat m)" using n(1) by (simp add: zbc_sizes)
  moreover have "unat (of_nat (64 + 64 * nat m) :: u32) = 64 + 64 * nat m"
  proof -
    have "nat m < 2 ^ 25" using n by (simp add: nat_less_iff)
    then have "64 + 64 * nat m < 2 ^ 32" by simp
    then show ?thesis by (simp add: unat_of_nat take_bit_nat_eq_self del: of_nat_add of_nat_mult)
  qed
  ultimately have len: "unat ?len = 64 + 64 * nat m" by simp
  then have al: "unat (if ?len > reportZonesMaxLen then reportZonesMaxLen else ?len) = 64 + 64 * ?n"
    by (simp add: word_less_nat_alt reportZonesMaxLen_def min_def)
  define a where "a = (if ?len > reportZonesMaxLen then reportZonesMaxLen else ?len)"
  have buf: "unat a = 64 + 64 * ?n" using al unfolding a_def .
  have "st_ScsiRead T k (buildReportZonesCDB 0 a ReportingAll) (zeros (unat a)) defaultTimeout =
      (Inr (), take (length (zeros (unat a))) (report_bytes (kzones k)), k)"
    by (rule kreport [OF k]) (use unsigned_less [of a, where ?'a = nat] in \<open>simp_all add: cdb_layout nth_append zbc_codes\<close>)
  then have "smr_reportZones T k 0 m = (parseReportZonesResponse (blit 0 (take (unat a) (report_bytes (kzones k))) (zeros (unat a))), k)"
    unfolding smr_reportZones_def Let_def a_def [symmetric] by simp
  then show ?thesis using parse_report [of "kzones k" ?n] kdescriptors [OF k] zs by (simp add: buf)
qed

lemma smr_new:
  assumes k: "kinv k" and zs: "v_zones (kview k) < 2 ^ 26"
  shows "newSMRBackend T k =
    (Inr \<lparr>sb_transport = k, sb_zoneCount = of_nat (min (v_zones (kview k)) 8191), sb_zoneSectors = of_nat (v_size (kview k)),
          sb_maxOpenZones = 14, sb_capacity = of_nat (min (v_zones (kview k)) 8191) * of_nat (v_size (kview k))\<rparr>, k)"
proof -
  obtain z zs' where kz: "kzones k = z # zs'" using kdescriptors [OF k] kgeometry [OF k] by (cases "kzones k") auto
  have r: "smr_reportZones T k 0 1 = (Inr [z], k)" "smr_reportZones T k 0 65536 = (Inr (take 8191 (kzones k)), k)"
    using smr_report [OF k zs, of 1] smr_report [OF k zs, of 65536] kz by simp_all
  have "zd_ZoneLength z = of_nat (v_size (kview k))" using kdescriptors [OF k] kz by simp
  moreover have "length (take 8191 (kzones k)) = min (v_zones (kview k)) 8191" using kdescriptors [OF k] by simp
  ultimately show ?thesis using smr_verify [OF k] r by (simp add: newSMRBackend_def smr_discover_def Let_def)
qed

end

section \<open>The emulator behind SCSI commands\<close>

text \<open>A disk that keeps the contract: the emulator, driven by command blocks.\<close>

definition em_disk_zones :: "Emulator \<Rightarrow> ZoneDescriptor list" where
  "em_disk_zones e = (case em_ReportZones e 0 0 of Inl _ \<Rightarrow> [] | Inr zs \<Rightarrow> map (\<lambda>z. z\<lparr>zd_ZoneCondition := zone_state_code (zd_ZoneState z)\<rparr>) zs)"

definition em_disk :: "Emulator ScsiTransport" where
  "em_disk =
     \<lparr>st_ScsiRead = (\<lambda>e cdb buf t.
        if cdb ! 0 = 0x12 then (Inr (), [0x14], e)
        else if cdb ! 0 = 0x95 \<and> cdb_lba cdb = 0 then (Inr (), take (length buf) (report_bytes (em_disk_zones e)), e)
        else if cdb ! 0 = 0x88 then
          (case em_ReadSectors e (cdb_lba cdb) (cdb_count cdb) of Inl err \<Rightarrow> (Inl err, [], e) | Inr data \<Rightarrow> (Inr (), data, e))
        else (Inl (Errorf ''INVALID COMMAND OPERATION CODE''), [], e)),
      st_ScsiWrite = (\<lambda>e cdb data t.
        if cdb ! 0 = 0x8A \<and> length data = sectorSize * unat (cdb_count cdb) then em_WriteSectors e (cdb_lba cdb) data
        else (Inl (Errorf ''INVALID FIELD IN CDB''), e)),
      st_ScsiNoData = (\<lambda>e cdb t.
        if cdb ! 0 \<noteq> 0x9F then (Inl (Errorf ''INVALID COMMAND OPERATION CODE''), e)
        else if cdb ! 1 = 1 then em_CloseZone e (cdb_lba cdb)
        else if cdb ! 1 = 2 then em_FinishZone e (cdb_lba cdb)
        else if cdb ! 1 = 3 then em_OpenZone e (cdb_lba cdb)
        else if cdb ! 1 = 4 then em_ResetZone e (cdb_lba cdb)
        else (Inl (Errorf ''INVALID FIELD IN CDB''), e)),
      st_Close = (\<lambda>e. (Inr (), e))\<rparr>"

lemma condition_state_code [simp]: "condition_state (zone_state_code s) = s" "zone_state_code s < 16"
  by (cases s; simp add: condition_state_def)+

interpretation kd: zbc_disk em_disk "\<lambda>e. em_inv e \<and> em_zones e \<noteq> []" em_view em_disk_zones
proof (unfold_locales, goal_cases)
  case (1 k)
  then show ?case using em.geometry [of k] by auto
next
  case (2 k z)
  then show ?case using em.wp_le [of k z] by simp
next
  case (3 k z j)
  then show ?case using em.sector_length [of k z j] by simp
next
  case (4 k)
  then have "0 < em_zoneCount k" "nat (em_zoneCount k) = length (em_zones k)" by (auto simp: em_inv_def)
  then show ?case by (auto simp: em_disk_zones_def em_ReportZones_def Let_def zone_wf_def ZoneTypeSequentialWrite_def)
next
  case (5 k cdb buf t)
  then show ?case by (simp add: em_disk_def)
next
  case (6 k cdb buf t)
  then show ?case by (simp add: em_disk_def)
next
  case (7 k cdb z j c buf t)
  have "c < 2 ^ 32" using 7(6) unsigned_less [of "cdb_count cdb", where ?'a = nat] by simp
  moreover have "cdb_count cdb = of_nat c" using 7(6) by auto
  ultimately show ?case using 7 em.ReadSectors_written [of k z c j] by (auto simp: em_disk_def em_dev_def split: sum.splits)
next
  case (8 k cdb data t e k')
  then show ?case using em.WriteSectors_error [of k data "cdb_lba cdb" e k'] by (auto simp: em_disk_def em_dev_def same_data_def split: if_splits)
next
  case (9 k cdb z j data t k')
  then show ?case using em.WriteSectors_ok [of k z j data k'] by (auto simp: em_disk_def em_dev_def written_def split: if_splits)
next
  case (10 k cdb t r k')
  then show ?case using em.OpenZone_data [of k "cdb_lba cdb" r k'] em.CloseZone_data [of k "cdb_lba cdb" r k']
    by (auto simp: em_disk_def em_dev_def same_data_def)
next
  case (11 k cdb z t k')
  then show ?case using em.ResetZone_ok [of k z k'] by (auto simp: em_disk_def em_dev_def was_reset_def)
next
  case (12 k cdb t e k')
  then show ?case using em.ResetZone_error [of k "cdb_lba cdb" e k'] by (auto simp: em_disk_def em_dev_def same_data_def)
qed

section \<open>Properties\<close>

text \<open>What the contract of a disk gives, for the properties below.\<close>

context zbc_disk
begin

lemmas smr_device = smr.zoned_device_axioms

lemma smr_store:
  assumes "smr_inv kinv kview (ztl_device s)" and "ztl_inv (smr_view kview (ztl_device s)) s" and "0 < fill (smr_view kview (ztl_device s)) (ztl_buf s) 0"
    and "ztl_writable s lba data" and "ztl_Write ord (smr_dev T) jn now s lba data = Some (Inr (), s')"
  shows "ztl_inv (smr_view kview (ztl_device s')) s' \<and> smr_inv kinv kview (ztl_device s') \<and>
    (unat c = length data div sectorSize \<longrightarrow> ztl_Read (smr_dev T) s' lba c = (Inr data, s')) \<and>
    (unat a + unat n \<le> 2 ^ 63 \<and> (unat a + unat n \<le> unat lba \<or> unat lba + length data div sectorSize \<le> unat a) \<longrightarrow>
       fst (ztl_Read (smr_dev T) s' a n) = fst (ztl_Read (smr_dev T) s a n))"
proof -
  have g: "smr.dev_good s" "smr.dev_wrote ord jn now s lba data s'" using assms by (simp_all add: smr.dev_good_def smr.dev_wrote_def)
  then show ?thesis
    using smr.dev_wrote_ok [OF g] smr.store.read_after_write [OF g] smr.store.read_elsewhere [OF g] by (auto simp: smr.dev_good_def)
qed

lemma smr_new_inv:
  assumes "kinv k" and "v_zones (kview k) \<le> 8191" and "newSMRBackend T k = (r, k')"
  shows "\<exists>s. r = Inr s \<and> smr_inv kinv kview s \<and> sb_transport s = k"
  using smr_new [OF assms(1)] assms by (auto simp: smr_inv_def)

end




text \<open>The small translation layer of \<open>ZtlSpec\<close> on the emulator behind SCSI commands.\<close>

definition smr_demo :: "Emulator SMRBackend" where
  "smr_demo = \<lparr>sb_transport = em_demo, sb_zoneCount = 2, sb_zoneSectors = 2, sb_maxOpenZones = 14, sb_capacity = 4\<rparr>"

definition ztl_sdemo :: "(Emulator SMRBackend, unit) ZTL" where
  "ztl_sdemo =
     \<lparr>ztl_l2p = ztl_l2p ztl_demo, ztl_p2l = ztl_p2l ztl_demo, ztl_buf = ztl_buf ztl_demo, ztl_zm = ztl_zm ztl_demo,
      ztl_gcStats = ztl_gcStats ztl_demo, ztl_device = smr_demo, ztl_journal = (), ztl_sectorsPerSeg = ztl_sectorsPerSeg ztl_demo,
      ztl_zoneSectors = ztl_zoneSectors ztl_demo, ztl_emergencyFreeZones = ztl_emergencyFreeZones ztl_demo,
      ztl_freeTriggerRatio = ztl_freeTriggerRatio ztl_demo, ztl_triggerCh = ztl_triggerCh ztl_demo,
      ztl_currentWriteZone = ztl_currentWriteZone ztl_demo, ztl_currentZoneOpen = ztl_currentZoneOpen ztl_demo\<rparr>"

lemma ztl_sdemo_write: "\<exists>s'. ztl_Write (\<lambda>x. x) (smr_dev em_disk) None 0 ztl_sdemo 0 (replicate 1024 9) = Some (Inr (), s')"
  by (simp add: ztl_eval ztl_sdemo_def smr_demo_def smr_ops em_disk_def)

lemma smr_demo_new: "newSMRBackend em_disk em_demo = (Inr smr_demo, em_demo)"
proof -
  have "em_inv em_demo \<and> em_zones em_demo \<noteq> []" "v_zones (em_view em_demo) < 2 ^ 26" using em_demo_inv by (simp_all add: em_demo_def)
  from kd.smr_new [OF this] show ?thesis by (simp add: smr_demo_def em_demo_def)
qed




text \<open>
  Only host-managed zoned disks are opened, whatever is behind the transport: if the backend comes up, the INQUIRY data named device type
  \<open>0x14\<close>, or type 0 with a zoned field of 2 in VPD page \<open>0xB1\<close>; and a backend that does not come up has closed the transport.
\<close>

theorem smr_open_gate:
  assumes "newSMRBackend T k = (r, k')"
  shows "case r of
      Inl e \<Rightarrow> \<exists>k1. k' = snd (st_Close T k1)
    | Inr s \<Rightarrow> \<exists>out k1. st_ScsiRead T k (buildInquiryCDB 96) (zeros 96) defaultTimeout = (Inr (), out, k1) \<and>
        (blit 0 out (zeros 96) ! 0 AND 0x1F = 0x14 \<or>
         blit 0 out (zeros 96) ! 0 AND 0x1F = 0 \<and>
         (\<exists>out2 k2. st_ScsiRead T k1 (buildInquiryVPDCDB 0xB1 64) (zeros 64) defaultTimeout = (Inr (), out2, k2) \<and>
            drop_bit 4 (blit 0 out2 (zeros 64) ! 8) AND 3 = 2))"
proof (cases r)
  case (Inl e)
  then show ?thesis using assms by (auto simp: newSMRBackend_def split: prod.splits sum.splits)
next
  case (Inr s)
  then obtain k1 where v: "smr_verifyDevice T k = (Inr (), k1)"
    using assms by (auto simp: newSMRBackend_def smr_discover_def split: prod.splits sum.splits)
  then show ?thesis unfolding Inr
    by (auto simp: smr_verifyDevice_def parseInquiryBasic_def parseVPDB1Zoned_def zbc_codes split: prod.splits sum.splits if_splits)
qed

theorem smr_open_gate_witness:
  "\<exists>s. newSMRBackend em_disk em_demo = (Inr s, em_demo) \<and>
     blit 0 (fst (snd (st_ScsiRead em_disk em_demo (buildInquiryCDB 96) (zeros 96) defaultTimeout))) (zeros 96) ! 0 AND 0x1F = (0x14 :: u8)"
  using smr_open_gate [OF smr_demo_new] smr_demo_new by (auto simp: em_disk_def cdb_layout blit_def)

end
