(* ===== verification/SgIo.thy ===== *)
theory SgIo
  imports SmrSpec
begin

unbundle bit_operations_syntax

text \<open>
  The transport of Linux, \<^verbatim>\<open>internal/backend/smr/sgioctl.go\<close>, \<^verbatim>\<open>transport_linux.go\<close> and \<^verbatim>\<open>smr_linux.go\<close>: SCSI commands by the
  ioctl SG_IO. The kernel is a parameter. A pointer of the header is the memory it points at (\<open>None\<close> for a nil pointer), which
  the ioctl reads and changes. Every command block has 6 or 16 bytes, so taking the address of its first byte does not panic.
\<close>

section \<open>The ioctl (sgioctl.go)\<close>

definition sgIOIoctl :: u64 where "sgIOIoctl = 0x2285"

definition sgDxferNone :: "32 word" where "sgDxferNone = - 1"
definition sgDxferToDev :: "32 word" where "sgDxferToDev = - 2"
definition sgDxferFromDev :: "32 word" where "sgDxferFromDev = - 3"
definition sgDxferToFromDev :: "32 word" where "sgDxferToFromDev = - 4"

lemmas sgDxfer_defs = sgDxferNone_def sgDxferToDev_def sgDxferFromDev_def sgDxferToFromDev_def

record sgIOHdr =
  sg_interfaceID :: "32 word"
  sg_dxferDirection :: "32 word"
  sg_cmdLen :: u8
  sg_mxSbLen :: u8
  sg_iovecCount :: u16
  sg_dxferLen :: u32
  sg_dxferp :: "bytes option"
  sg_cmdp :: "bytes option"
  sg_sbp :: "bytes option"
  sg_timeout :: u32
  sg_flags :: u32
  sg_packID :: "32 word"
  sg_status :: u8
  sg_maskedStatus :: u8
  sg_msgStatus :: u8
  sg_sbLenWr :: u8
  sg_hostStatus :: u16
  sg_driverStatus :: u16
  sg_resid :: "32 word"
  sg_duration :: u32
  sg_info :: u32

text \<open>What the transport asks of the kernel; \<open>k_ioctl\<close> returns the error number, the header and the state it leaves.\<close>

record 'k Kernel =
  k_open :: "'k \<Rightarrow> string \<Rightarrow> int result \<times> 'k"
  k_close :: "'k \<Rightarrow> int \<Rightarrow> unit result \<times> 'k"
  k_ioctl :: "'k \<Rightarrow> int \<Rightarrow> u64 \<Rightarrow> sgIOHdr \<Rightarrow> u64 \<times> sgIOHdr \<times> 'k"

definition sgio :: "'k Kernel \<Rightarrow> int \<Rightarrow> sgIOHdr \<Rightarrow> 'k \<Rightarrow> unit result \<times> sgIOHdr \<times> 'k" where
  "sgio K fd hdr k =
     (case k_ioctl K k fd sgIOIoctl hdr of
        (errno, hdr', k') \<Rightarrow>
          if errno \<noteq> 0 then (Inl (Errorf ''SG_IO ioctl''), hdr', k')
          else if sg_status hdr' \<noteq> 0 then (Inl (Errorf ''SCSI status, host_status, driver_status''), hdr', k')
          else (Inr (), hdr', k'))"

definition sgZeroHdr :: sgIOHdr where
  "sgZeroHdr =
     \<lparr>sg_interfaceID = 0, sg_dxferDirection = 0, sg_cmdLen = 0, sg_mxSbLen = 0, sg_iovecCount = 0, sg_dxferLen = 0,
      sg_dxferp = None, sg_cmdp = None, sg_sbp = None, sg_timeout = 0, sg_flags = 0, sg_packID = 0, sg_status = 0,
      sg_maskedStatus = 0, sg_msgStatus = 0, sg_sbLenWr = 0, sg_hostStatus = 0, sg_driverStatus = 0, sg_resid = 0,
      sg_duration = 0, sg_info = 0\<rparr>"

text \<open>The header of the three kinds of command; \<^verbatim>\<open>'S'\<close> is \<open>0x53\<close> and the sense buffer has 32 bytes.\<close>

definition sgReadHdr :: "bytes \<Rightarrow> bytes \<Rightarrow> u32 \<Rightarrow> sgIOHdr" where
  "sgReadHdr cdb buf timeoutMs = sgZeroHdr
     \<lparr>sg_interfaceID := 0x53, sg_dxferDirection := sgDxferFromDev, sg_cmdLen := of_nat (length cdb), sg_mxSbLen := 32,
      sg_dxferLen := of_nat (length buf), sg_dxferp := Some buf, sg_cmdp := Some cdb, sg_sbp := Some (zeros 32),
      sg_timeout := timeoutMs\<rparr>"

definition sgWriteHdr :: "bytes \<Rightarrow> bytes \<Rightarrow> u32 \<Rightarrow> sgIOHdr" where
  "sgWriteHdr cdb buf timeoutMs = sgZeroHdr
     \<lparr>sg_interfaceID := 0x53, sg_dxferDirection := sgDxferToDev, sg_cmdLen := of_nat (length cdb), sg_mxSbLen := 32,
      sg_dxferLen := of_nat (length buf), sg_dxferp := Some buf, sg_cmdp := Some cdb, sg_sbp := Some (zeros 32),
      sg_timeout := timeoutMs\<rparr>"

definition sgNoDataHdr :: "bytes \<Rightarrow> u32 \<Rightarrow> sgIOHdr" where
  "sgNoDataHdr cdb timeoutMs = sgZeroHdr
     \<lparr>sg_interfaceID := 0x53, sg_dxferDirection := sgDxferNone, sg_cmdLen := of_nat (length cdb), sg_mxSbLen := 32,
      sg_dxferLen := 0, sg_cmdp := Some cdb, sg_sbp := Some (zeros 32), sg_timeout := timeoutMs\<rparr>"

text \<open>\<^verbatim>\<open>sgRead\<close> returns the new content of the buffer as well.\<close>

definition sgRead :: "'k Kernel \<Rightarrow> int \<Rightarrow> bytes \<Rightarrow> bytes \<Rightarrow> u32 \<Rightarrow> 'k \<Rightarrow> unit result \<times> bytes \<times> 'k" where
  "sgRead K fd cdb buf timeoutMs k =
     (if length buf = 0 then (Inr (), buf, k)
      else
        case sgio K fd (sgReadHdr cdb buf timeoutMs) k of
          (r, hdr, k') \<Rightarrow> (r, (case sg_dxferp hdr of Some b \<Rightarrow> b | None \<Rightarrow> buf), k'))"

definition sgWrite :: "'k Kernel \<Rightarrow> int \<Rightarrow> bytes \<Rightarrow> bytes \<Rightarrow> u32 \<Rightarrow> 'k \<Rightarrow> unit result \<times> 'k" where
  "sgWrite K fd cdb buf timeoutMs k =
     (if length buf = 0 then (Inr (), k)
      else case sgio K fd (sgWriteHdr cdb buf timeoutMs) k of (r, _, k') \<Rightarrow> (r, k'))"

definition sgNoData :: "'k Kernel \<Rightarrow> int \<Rightarrow> bytes \<Rightarrow> u32 \<Rightarrow> 'k \<Rightarrow> unit result \<times> 'k" where
  "sgNoData K fd cdb timeoutMs k = (case sgio K fd (sgNoDataHdr cdb timeoutMs) k of (r, _, k') \<Rightarrow> (r, k'))"

section \<open>The transport (transport_linux.go, smr_linux.go)\<close>

record 'k linuxTransport =
  lt_fd :: int
  lt_kernel :: 'k

definition newLinuxTransport :: "'k Kernel \<Rightarrow> string \<Rightarrow> 'k \<Rightarrow> 'k linuxTransport result \<times> 'k" where
  "newLinuxTransport K devicePath k =
     (case k_open K k devicePath of
        (Inl err, k') \<Rightarrow> (Inl err, k')
      | (Inr fd, k') \<Rightarrow> (Inr \<lparr>lt_fd = fd, lt_kernel = k'\<rparr>, k'))"

definition lt_ScsiRead :: "'k Kernel \<Rightarrow> 'k linuxTransport \<Rightarrow> bytes \<Rightarrow> bytes \<Rightarrow> u32 \<Rightarrow> unit result \<times> bytes \<times> 'k linuxTransport" where
  "lt_ScsiRead K t cdb buf timeoutMs =
     (case sgRead K (lt_fd t) cdb buf timeoutMs (lt_kernel t) of (r, out, k) \<Rightarrow> (r, out, t\<lparr>lt_kernel := k\<rparr>))"

definition lt_ScsiWrite :: "'k Kernel \<Rightarrow> 'k linuxTransport \<Rightarrow> bytes \<Rightarrow> bytes \<Rightarrow> u32 \<Rightarrow> unit result \<times> 'k linuxTransport" where
  "lt_ScsiWrite K t cdb buf timeoutMs =
     (case sgWrite K (lt_fd t) cdb buf timeoutMs (lt_kernel t) of (r, k) \<Rightarrow> (r, t\<lparr>lt_kernel := k\<rparr>))"

definition lt_ScsiNoData :: "'k Kernel \<Rightarrow> 'k linuxTransport \<Rightarrow> bytes \<Rightarrow> u32 \<Rightarrow> unit result \<times> 'k linuxTransport" where
  "lt_ScsiNoData K t cdb timeoutMs =
     (case sgNoData K (lt_fd t) cdb timeoutMs (lt_kernel t) of (r, k) \<Rightarrow> (r, t\<lparr>lt_kernel := k\<rparr>))"

definition lt_Close :: "'k Kernel \<Rightarrow> 'k linuxTransport \<Rightarrow> unit result \<times> 'k linuxTransport" where
  "lt_Close K t = (case k_close K (lt_kernel t) (lt_fd t) of (r, k) \<Rightarrow> (r, t\<lparr>lt_kernel := k\<rparr>))"

definition linux_transport :: "'k Kernel \<Rightarrow> 'k linuxTransport ScsiTransport" where
  "linux_transport K =
     \<lparr>st_ScsiRead = lt_ScsiRead K, st_ScsiWrite = lt_ScsiWrite K, st_ScsiNoData = lt_ScsiNoData K, st_Close = lt_Close K\<rparr>"

definition smr_Open :: "'k Kernel \<Rightarrow> string \<Rightarrow> 'k \<Rightarrow> 'k linuxTransport SMRBackend result \<times> 'k" where
  "smr_Open K devicePath k =
     (case newLinuxTransport K devicePath k of
        (Inl err, k') \<Rightarrow> (Inl (Wrap ''opening SMR device'' err), k')
      | (Inr transport, k') \<Rightarrow> (case newSMRBackend (linux_transport K) transport of (r, t) \<Rightarrow> (r, lt_kernel t)))"

section \<open>A kernel that executes the commands\<close>

text \<open>
  \<open>sg_kernel K T fd\<close>: behind the descriptor \<open>fd\<close> the SG driver hands every well-formed command to the disk \<open>T\<close>. The driver copies as many
  bytes as the header announces, and a command that fails is reported by the error number or by the SCSI status.
\<close>

definition sg_command :: "sgIOHdr \<Rightarrow> bytes \<Rightarrow> bool" where
  "sg_command hdr cdb \<longleftrightarrow> sg_interfaceID hdr = 0x53 \<and> sg_cmdp hdr = Some cdb \<and> cdb \<noteq> [] \<and> unat (sg_cmdLen hdr) = length cdb \<and>
     sg_iovecCount hdr = 0 \<and> sg_flags hdr = 0"

definition sg_outcome :: "unit result \<Rightarrow> u64 \<Rightarrow> sgIOHdr \<Rightarrow> bool" where
  "sg_outcome r errno hdr \<longleftrightarrow> ((\<exists>u. r = Inr u) \<longleftrightarrow> errno = 0 \<and> sg_status hdr = 0)"

locale sg_kernel =
  fixes K :: "'k Kernel" and T :: "'k ScsiTransport" and fd :: int
  assumes ioctl_read: "sg_command hdr cdb \<Longrightarrow> sg_dxferDirection hdr = - 3 \<Longrightarrow> sg_dxferp hdr = Some buf \<Longrightarrow> unat (sg_dxferLen hdr) = length buf \<Longrightarrow>
            st_ScsiRead T k cdb buf (sg_timeout hdr) = (r, out, k') \<Longrightarrow>
            \<exists>errno hdr'. k_ioctl K k fd 0x2285 hdr = (errno, hdr', k') \<and> sg_outcome r errno hdr' \<and> sg_dxferp hdr' = Some (blit 0 out buf)"
    and ioctl_write: "sg_command hdr cdb \<Longrightarrow> sg_dxferDirection hdr = - 2 \<Longrightarrow> sg_dxferp hdr = Some buf \<Longrightarrow> unat (sg_dxferLen hdr) = length buf \<Longrightarrow>
            st_ScsiWrite T k cdb buf (sg_timeout hdr) = (r, k') \<Longrightarrow>
            \<exists>errno hdr'. k_ioctl K k fd 0x2285 hdr = (errno, hdr', k') \<and> sg_outcome r errno hdr'"
    and ioctl_none: "sg_command hdr cdb \<Longrightarrow> sg_dxferDirection hdr = - 1 \<Longrightarrow> st_ScsiNoData T k cdb (sg_timeout hdr) = (r, k') \<Longrightarrow>
            \<exists>errno hdr'. k_ioctl K k fd 0x2285 hdr = (errno, hdr', k') \<and> sg_outcome r errno hdr'"

text \<open>Two results with the same success.\<close>

definition same_outcome :: "unit result \<Rightarrow> unit result \<Rightarrow> bool" where
  "same_outcome r r' \<longleftrightarrow> ((\<exists>u. r = Inr u) \<longleftrightarrow> (\<exists>u. r' = Inr u))"

lemma sgio_outcome:
  assumes "k_ioctl K k fd 0x2285 hdr = (errno, hdr', k')" and "sg_outcome r errno hdr'"
  shows "\<exists>r'. sgio K fd hdr k = (r', hdr', k') \<and> same_outcome r r'"
  using assms by (auto simp: sgio_def sgIOIoctl_def sg_outcome_def same_outcome_def)

lemma sg_headers:
  assumes "cdb \<noteq> []" and "length cdb < 256"
  shows "sg_command (sgReadHdr cdb buf t) cdb" and "sg_command (sgWriteHdr cdb buf t) cdb" and "sg_command (sgNoDataHdr cdb t) cdb"
  using assms by (simp_all add: sg_command_def sgReadHdr_def sgWriteHdr_def sgNoDataHdr_def sgZeroHdr_def unat_of_nat take_bit_nat_eq_self)

lemma sg_fields [simp]:
  "sg_dxferDirection (sgReadHdr cdb buf t) = - 3" "sg_dxferDirection (sgWriteHdr cdb buf t) = - 2" "sg_dxferDirection (sgNoDataHdr cdb t) = - 1"
  "sg_dxferp (sgReadHdr cdb buf t) = Some buf" "sg_dxferp (sgWriteHdr cdb buf t) = Some buf"
  "sg_timeout (sgReadHdr cdb buf t) = t" "sg_timeout (sgWriteHdr cdb buf t) = t" "sg_timeout (sgNoDataHdr cdb t) = t"
  "length buf < 2 ^ 32 \<Longrightarrow> unat (sg_dxferLen (sgReadHdr cdb buf t)) = length buf"
  "length buf < 2 ^ 32 \<Longrightarrow> unat (sg_dxferLen (sgWriteHdr cdb buf t)) = length buf"
  by (simp_all add: sgReadHdr_def sgWriteHdr_def sgNoDataHdr_def sgDxfer_defs unat_of_nat take_bit_nat_eq_self)

context sg_kernel
begin

lemma lt_read:
  assumes "cdb \<noteq> []" "length cdb < 256" and "buf \<noteq> []" "length buf < 2 ^ 32" and "st_ScsiRead T k cdb buf t = (r, out, k')"
  shows "\<exists>r'. st_ScsiRead (linux_transport K) \<lparr>lt_fd = fd, lt_kernel = k\<rparr> cdb buf t = (r', blit 0 out buf, \<lparr>lt_fd = fd, lt_kernel = k'\<rparr>) \<and> same_outcome r r'"
proof -
  obtain errno hdr' where i: "k_ioctl K k fd 0x2285 (sgReadHdr cdb buf t) = (errno, hdr', k')" "sg_outcome r errno hdr'" "sg_dxferp hdr' = Some (blit 0 out buf)"
    using ioctl_read [OF sg_headers(1) [OF assms(1,2), of buf t], of buf k r out k'] assms(4,5) by auto
  then show ?thesis using sgio_outcome [OF i(1,2)] assms(3) by (auto simp: linux_transport_def lt_ScsiRead_def sgRead_def)
qed

lemma lt_write:
  assumes "cdb \<noteq> []" "length cdb < 256" and "buf \<noteq> []" "length buf < 2 ^ 32" and "st_ScsiWrite T k cdb buf t = (r, k')"
  shows "\<exists>r'. st_ScsiWrite (linux_transport K) \<lparr>lt_fd = fd, lt_kernel = k\<rparr> cdb buf t = (r', \<lparr>lt_fd = fd, lt_kernel = k'\<rparr>) \<and> same_outcome r r'"
proof -
  obtain errno hdr' where i: "k_ioctl K k fd 0x2285 (sgWriteHdr cdb buf t) = (errno, hdr', k')" "sg_outcome r errno hdr'"
    using ioctl_write [OF sg_headers(2) [OF assms(1,2), of buf t], of buf k r k'] assms(4,5) by auto
  then show ?thesis using sgio_outcome [OF i] assms(3) by (auto simp: linux_transport_def lt_ScsiWrite_def sgWrite_def)
qed

lemma lt_nodata:
  assumes "cdb \<noteq> []" "length cdb < 256" and "st_ScsiNoData T k cdb t = (r, k')"
  shows "\<exists>r'. st_ScsiNoData (linux_transport K) \<lparr>lt_fd = fd, lt_kernel = k\<rparr> cdb t = (r', \<lparr>lt_fd = fd, lt_kernel = k'\<rparr>) \<and> same_outcome r r'"
proof -
  obtain errno hdr' where i: "k_ioctl K k fd 0x2285 (sgNoDataHdr cdb t) = (errno, hdr', k')" "sg_outcome r errno hdr'"
    using ioctl_none [OF sg_headers(3) [OF assms(1,2), of t], of k r k'] assms(3) by auto
  then show ?thesis using sgio_outcome [OF i] by (auto simp: linux_transport_def lt_ScsiNoData_def sgNoData_def)
qed

end

text \<open>Such a kernel with the emulator as its disk.\<close>

definition em_ioctl :: "Emulator \<Rightarrow> int \<Rightarrow> u64 \<Rightarrow> sgIOHdr \<Rightarrow> u64 \<times> sgIOHdr \<times> Emulator" where
  "em_ioctl e fd req hdr =
     (case sg_cmdp hdr of None \<Rightarrow> (22, hdr, e)
      | Some cdb \<Rightarrow>
          if sg_dxferDirection hdr = - 3 then
            (case st_ScsiRead em_disk e cdb (the (sg_dxferp hdr)) (sg_timeout hdr) of (r, out, e') \<Rightarrow>
               (0, hdr\<lparr>sg_dxferp := Some (blit 0 out (the (sg_dxferp hdr))), sg_status := (case r of Inl _ \<Rightarrow> 2 | Inr _ \<Rightarrow> 0)\<rparr>, e'))
          else
            (case (if sg_dxferDirection hdr = - 2 then st_ScsiWrite em_disk e cdb (the (sg_dxferp hdr)) (sg_timeout hdr)
                   else st_ScsiNoData em_disk e cdb (sg_timeout hdr)) of (r, e') \<Rightarrow>
               (0, hdr\<lparr>sg_status := (case r of Inl _ \<Rightarrow> 2 | Inr _ \<Rightarrow> 0)\<rparr>, e')))"

definition em_kernel :: "Emulator Kernel" where
  "em_kernel = \<lparr>k_open = \<lambda>e path. (Inr 3, e), k_close = \<lambda>e fd. (Inr (), e), k_ioctl = em_ioctl\<rparr>"

interpretation sk: sg_kernel em_kernel em_disk 3
  by unfold_locales (auto simp: em_kernel_def em_ioctl_def sg_command_def sg_outcome_def split: sum.splits)

section \<open>Properties\<close>

text \<open>
  The SG_IO transport hands commands through. Over a kernel whose SG driver executes well-formed requests, a command block of up to 255
  bytes with a buffer of one byte to 4 GiB has the effect the disk gives it: the same data in the buffer, the same state of the disk, and success
  exactly when the disk succeeds.
\<close>

theorem sg_transport_faithful:
  assumes "sg_kernel K T fd" and "cdb \<noteq> []" and "length cdb < 256" and "buf \<noteq> []" and "length buf < 2 ^ 32"
    and "st_ScsiRead T k cdb buf t = (r1, out, k1)" and "st_ScsiWrite T k cdb buf t = (r2, k2)" and "st_ScsiNoData T k cdb t = (r3, k3)"
  shows "(\<exists>r. st_ScsiRead (linux_transport K) \<lparr>lt_fd = fd, lt_kernel = k\<rparr> cdb buf t = (r, blit 0 out buf, \<lparr>lt_fd = fd, lt_kernel = k1\<rparr>) \<and> same_outcome r1 r) \<and>
    (\<exists>r. st_ScsiWrite (linux_transport K) \<lparr>lt_fd = fd, lt_kernel = k\<rparr> cdb buf t = (r, \<lparr>lt_fd = fd, lt_kernel = k2\<rparr>) \<and> same_outcome r2 r) \<and>
    (\<exists>r. st_ScsiNoData (linux_transport K) \<lparr>lt_fd = fd, lt_kernel = k\<rparr> cdb t = (r, \<lparr>lt_fd = fd, lt_kernel = k3\<rparr>) \<and> same_outcome r3 r)"
  using sg_kernel.lt_read [OF assms(1-5)] sg_kernel.lt_write [OF assms(1-5)] sg_kernel.lt_nodata [OF assms(1-3)] assms(6-8) by blast

theorem sg_transport_faithful_witness:
  "\<exists>out. st_ScsiRead (linux_transport em_kernel) \<lparr>lt_fd = 3, lt_kernel = em_demo\<rparr> (buildInquiryCDB 96) (zeros 96) 30000 =
     (Inr (), out, \<lparr>lt_fd = 3, lt_kernel = em_demo\<rparr>) \<and> out ! 0 = (0x14 :: u8)"
proof -
  have r: "st_ScsiRead em_disk em_demo (buildInquiryCDB 96) (zeros 96) 30000 = (Inr (), [0x14], em_demo)" by (simp add: em_disk_def cdb_layout)
  obtain r2 k2 r3 k3 where w: "st_ScsiWrite em_disk em_demo (buildInquiryCDB 96) (zeros 96) 30000 = (r2, k2)"
    "st_ScsiNoData em_disk em_demo (buildInquiryCDB 96) 30000 = (r3, k3)" by fastforce
  have "buildInquiryCDB 96 \<noteq> []" "length (buildInquiryCDB 96) < 256" "zeros 96 \<noteq> ([] :: bytes)" "length (zeros 96) < 2 ^ 32"
    by (simp_all add: cdb_layout zeros_def)
  from sg_transport_faithful [OF sk.sg_kernel_axioms this r w] show ?thesis by (auto simp: same_outcome_def blit_def)
qed

text \<open>
  Only the SCSI status is looked at: a command that never reached the disk (\<^verbatim>\<open>host_status\<close> 1, no connection) is reported as done when
  the ioctl itself returned 0, and a read then returns the zeros of the fresh buffer.
\<close>

lemma sg_host_error_ignored:
  assumes "\<And>k fd req hdr. k_ioctl K k fd req hdr = (0, hdr\<lparr>sg_status := 0, sg_hostStatus := 1\<rparr>, k)" and "0 < c"
  shows "smr_ReadSectors (linux_transport K) s lba c = (Inr (zeros (unat c * 512)), s)"
proof -
  have "unat c \<noteq> 0" using assms(2) by (simp add: word_less_nat_alt)
  then show ?thesis using assms(1)
    by (simp add: smr_ReadSectors_def linux_transport_def lt_ScsiRead_def sgRead_def sgio_def sgReadHdr_def blit_def zeros_def)
qed

end
