(* ===== verification/Spti.thy ===== *)
theory Spti
  imports SgIo
begin

text \<open>
  The transport of Windows, \<^verbatim>\<open>internal/backend/smr/spti.go\<close>, \<^verbatim>\<open>transport_windows.go\<close> and \<^verbatim>\<open>smr_windows.go\<close>: SCSI commands by the control code
  IOCTL_SCSI_PASS_THROUGH_DIRECT. The system calls are a parameter; the pointer to the data buffer is the memory it points at. Sizes and offsets of the
  structures are those of a 64-bit build.
\<close>

section \<open>The request (spti.go)\<close>

definition ioctlScsiPassThroughDirect :: u32 where "ioctlScsiPassThroughDirect = 0x4D014"
definition scsiIoctlDataOut :: u8 where "scsiIoctlDataOut = 0"
definition scsiIoctlDataIn :: u8 where "scsiIoctlDataIn = 1"
definition scsiIoctlDataUnspec :: u8 where "scsiIoctlDataUnspec = 2"

lemmas scsiIoctl_defs = scsiIoctlDataOut_def scsiIoctlDataIn_def scsiIoctlDataUnspec_def

record scsiPassThroughDirect =
  pt_Length :: u16
  pt_ScsiStatus :: u8
  pt_PathId :: u8
  pt_TargetId :: u8
  pt_Lun :: u8
  pt_CdbLength :: u8
  pt_SenseInfoLength :: u8
  pt_DataIn :: u8
  pt_DataTransferLength :: u32
  pt_TimeOutValue :: u32
  pt_DataBuffer :: "bytes option"
  pt_SenseInfoOffset :: u32
  pt_Cdb :: bytes

record scsiPassThroughDirectWithSense =
  pts_Sptd :: scsiPassThroughDirect
  pts_SenseBuf :: bytes

text \<open>
  \<^verbatim>\<open>unsafe.Sizeof\<close> of the header: 9 bytes and one of padding, two more before the 4-byte fields, four before the pointer, and four at the end to keep the alignment of
  8; the sense buffer follows.
\<close>

definition sizeof_sptd :: nat where "sizeof_sptd = 56"
definition offsetof_SenseBuf :: nat where "offsetof_SenseBuf = 56"
definition sizeof_sptdws :: nat where "sizeof_sptdws = 88"

record 'k WinSystem =
  w_CreateFile :: "'k \<Rightarrow> string \<Rightarrow> int result \<times> 'k"
  w_CloseHandle :: "'k \<Rightarrow> int \<Rightarrow> unit result \<times> 'k"
  w_DeviceIoControl :: "'k \<Rightarrow> int \<Rightarrow> u32 \<Rightarrow> scsiPassThroughDirectWithSense \<Rightarrow> nat \<Rightarrow> unit result \<times> scsiPassThroughDirectWithSense \<times> 'k"
  w_UTF16 :: "string \<Rightarrow> unit result"

section \<open>The transport (transport_windows.go)\<close>

record 'k windowsTransport =
  wt_handle :: int
  wt_system :: 'k

definition newWindowsTransport :: "'k WinSystem \<Rightarrow> string \<Rightarrow> 'k \<Rightarrow> 'k windowsTransport result \<times> 'k" where
  "newWindowsTransport W devicePath k =
     (case w_UTF16 W devicePath of
        Inl err \<Rightarrow> (Inl (Wrap ''invalid device path'' err), k)
      | Inr _ \<Rightarrow>
          (case w_CreateFile W k devicePath of
             (Inl err, k') \<Rightarrow> (Inl (Wrap ''opening device (run as Administrator)'' err), k')
           | (Inr h, k') \<Rightarrow> (Inr \<lparr>wt_handle = h, wt_system = k'\<rparr>, k')))"

definition sptRequest :: "bytes \<Rightarrow> bytes \<Rightarrow> u8 \<Rightarrow> u32 \<Rightarrow> scsiPassThroughDirectWithSense" where
  "sptRequest cdb buf direction timeoutMs =
     \<lparr>pts_Sptd =
        \<lparr>pt_Length = of_nat sizeof_sptd, pt_ScsiStatus = 0, pt_PathId = 0, pt_TargetId = 0, pt_Lun = 0,
         pt_CdbLength = of_nat (length cdb), pt_SenseInfoLength = 32, pt_DataIn = direction,
         pt_DataTransferLength = of_nat (length buf), pt_TimeOutValue = (timeoutMs + 999) div 1000,
         pt_DataBuffer = (if length buf > 0 then Some buf else None), pt_SenseInfoOffset = of_nat offsetof_SenseBuf,
         pt_Cdb = blit 0 (take 16 cdb) (zeros 16)\<rparr>,
      pts_SenseBuf = zeros 32\<rparr>"

text \<open>\<^verbatim>\<open>execute\<close> returns the new content of the buffer as well.\<close>

definition wt_execute :: "'k WinSystem \<Rightarrow> 'k windowsTransport \<Rightarrow> bytes \<Rightarrow> bytes \<Rightarrow> u8 \<Rightarrow> u32 \<Rightarrow> unit result \<times> bytes \<times> 'k windowsTransport" where
  "wt_execute W t cdb buf direction timeoutMs =
     (case w_DeviceIoControl W (wt_system t) (wt_handle t) ioctlScsiPassThroughDirect (sptRequest cdb buf direction timeoutMs) sizeof_sptdws of
        (r, sptdws, k) \<Rightarrow>
          let t' = t\<lparr>wt_system := k\<rparr>;
              out = (case pt_DataBuffer (pts_Sptd sptdws) of Some b \<Rightarrow> b | None \<Rightarrow> buf) in
          case r of
            Inl err \<Rightarrow> (Inl (Wrap ''IOCTL_SCSI_PASS_THROUGH_DIRECT (run as Administrator)'' err), out, t')
          | Inr _ \<Rightarrow> if pt_ScsiStatus (pts_Sptd sptdws) \<noteq> 0 then (Inl (Errorf ''SCSI status''), out, t') else (Inr (), out, t'))"

definition wt_ScsiRead :: "'k WinSystem \<Rightarrow> 'k windowsTransport \<Rightarrow> bytes \<Rightarrow> bytes \<Rightarrow> u32 \<Rightarrow> unit result \<times> bytes \<times> 'k windowsTransport" where
  "wt_ScsiRead W t cdb buf timeoutMs = wt_execute W t cdb buf scsiIoctlDataIn timeoutMs"

definition wt_ScsiWrite :: "'k WinSystem \<Rightarrow> 'k windowsTransport \<Rightarrow> bytes \<Rightarrow> bytes \<Rightarrow> u32 \<Rightarrow> unit result \<times> 'k windowsTransport" where
  "wt_ScsiWrite W t cdb buf timeoutMs = (case wt_execute W t cdb buf scsiIoctlDataOut timeoutMs of (r, _, t') \<Rightarrow> (r, t'))"

definition wt_ScsiNoData :: "'k WinSystem \<Rightarrow> 'k windowsTransport \<Rightarrow> bytes \<Rightarrow> u32 \<Rightarrow> unit result \<times> 'k windowsTransport" where
  "wt_ScsiNoData W t cdb timeoutMs = (case wt_execute W t cdb [] scsiIoctlDataUnspec timeoutMs of (r, _, t') \<Rightarrow> (r, t'))"

definition wt_Close :: "'k WinSystem \<Rightarrow> 'k windowsTransport \<Rightarrow> unit result \<times> 'k windowsTransport" where
  "wt_Close W t = (case w_CloseHandle W (wt_system t) (wt_handle t) of (r, k) \<Rightarrow> (r, t\<lparr>wt_system := k\<rparr>))"

definition windows_transport :: "'k WinSystem \<Rightarrow> 'k windowsTransport ScsiTransport" where
  "windows_transport W =
     \<lparr>st_ScsiRead = wt_ScsiRead W, st_ScsiWrite = wt_ScsiWrite W, st_ScsiNoData = wt_ScsiNoData W, st_Close = wt_Close W\<rparr>"

definition smr_OpenWindows :: "'k WinSystem \<Rightarrow> string \<Rightarrow> 'k \<Rightarrow> 'k windowsTransport SMRBackend result \<times> 'k" where
  "smr_OpenWindows W devicePath k =
     (case newWindowsTransport W devicePath k of
        (Inl err, k') \<Rightarrow> (Inl (Wrap ''opening SMR device'' err), k')
      | (Inr transport, k') \<Rightarrow> (case newSMRBackend (windows_transport W) transport of (r, t) \<Rightarrow> (r, wt_system t)))"

section \<open>A system that executes the requests\<close>

definition spt_command :: "scsiPassThroughDirectWithSense \<Rightarrow> bytes \<Rightarrow> bool" where
  "spt_command q cdb \<longleftrightarrow> pt_Length (pts_Sptd q) = 56 \<and> cdb \<noteq> [] \<and> length cdb \<le> 16 \<and> unat (pt_CdbLength (pts_Sptd q)) = length cdb \<and>
     take (length cdb) (pt_Cdb (pts_Sptd q)) = cdb \<and> pt_SenseInfoOffset (pts_Sptd q) = 56"

definition spt_outcome :: "unit result \<Rightarrow> unit result \<Rightarrow> scsiPassThroughDirectWithSense \<Rightarrow> bool" where
  "spt_outcome r r' q \<longleftrightarrow> ((\<exists>u. r = Inr u) \<longleftrightarrow> (\<exists>u. r' = Inr u) \<and> pt_ScsiStatus (pts_Sptd q) = 0)"

text \<open>
  \<open>spti_system W T h\<close>: requests on the handle \<open>h\<close> that are laid out as documented are executed by the disk \<open>T\<close>, with the time limit in seconds.
\<close>

locale spti_system =
  fixes W :: "'k WinSystem" and T :: "'k ScsiTransport" and h :: int
  assumes control_in: "spt_command q cdb \<Longrightarrow> pt_DataIn (pts_Sptd q) = 1 \<Longrightarrow> pt_DataBuffer (pts_Sptd q) = Some buf \<Longrightarrow>
            unat (pt_DataTransferLength (pts_Sptd q)) = length buf \<Longrightarrow> st_ScsiRead T k cdb buf (pt_TimeOutValue (pts_Sptd q) * 1000) = (r, out, k') \<Longrightarrow>
            \<exists>r' q'. w_DeviceIoControl W k h 0x4D014 q 88 = (r', q', k') \<and> spt_outcome r r' q' \<and> pt_DataBuffer (pts_Sptd q') = Some (blit 0 out buf)"
    and control_out: "spt_command q cdb \<Longrightarrow> pt_DataIn (pts_Sptd q) = 0 \<Longrightarrow> pt_DataBuffer (pts_Sptd q) = Some buf \<Longrightarrow>
            unat (pt_DataTransferLength (pts_Sptd q)) = length buf \<Longrightarrow> st_ScsiWrite T k cdb buf (pt_TimeOutValue (pts_Sptd q) * 1000) = (r, k') \<Longrightarrow>
            \<exists>r' q'. w_DeviceIoControl W k h 0x4D014 q 88 = (r', q', k') \<and> spt_outcome r r' q'"
    and control_none: "spt_command q cdb \<Longrightarrow> pt_DataIn (pts_Sptd q) = 2 \<Longrightarrow> pt_DataTransferLength (pts_Sptd q) = 0 \<Longrightarrow>
            st_ScsiNoData T k cdb (pt_TimeOutValue (pts_Sptd q) * 1000) = (r, k') \<Longrightarrow>
            \<exists>r' q'. w_DeviceIoControl W k h 0x4D014 q 88 = (r', q', k') \<and> spt_outcome r r' q'"

lemma sptRequest_command: "cdb \<noteq> [] \<Longrightarrow> length cdb \<le> 16 \<Longrightarrow> spt_command (sptRequest cdb buf d t) cdb"
  by (simp add: spt_command_def sptRequest_def sizeof_sptd_def offsetof_SenseBuf_def blit_def unat_of_nat take_bit_nat_eq_self)

lemma wt_execute_outcome:
  assumes "w_DeviceIoControl W k h 0x4D014 (sptRequest cdb buf d t) 88 = (r', q', k')" and "spt_outcome r r' q'"
  shows "\<exists>r2. wt_execute W \<lparr>wt_handle = h, wt_system = k\<rparr> cdb buf d t =
      (r2, case pt_DataBuffer (pts_Sptd q') of Some b \<Rightarrow> b | None \<Rightarrow> buf, \<lparr>wt_handle = h, wt_system = k'\<rparr>) \<and> same_outcome r r2"
  using assms by (cases r') (auto simp: wt_execute_def spt_outcome_def same_outcome_def ioctlScsiPassThroughDirect_def sizeof_sptdws_def)

lemma sptRequest_fields [simp]:
  "pt_DataIn (pts_Sptd (sptRequest cdb buf d t)) = d" "pt_TimeOutValue (pts_Sptd (sptRequest cdb buf d t)) = (t + 999) div 1000"
  "buf \<noteq> [] \<Longrightarrow> pt_DataBuffer (pts_Sptd (sptRequest cdb buf d t)) = Some buf" "pt_DataTransferLength (pts_Sptd (sptRequest cdb [] d t)) = 0"
  "length buf < 2 ^ 32 \<Longrightarrow> unat (pt_DataTransferLength (pts_Sptd (sptRequest cdb buf d t))) = length buf"
  by (simp_all add: sptRequest_def unat_of_nat take_bit_nat_eq_self)

context spti_system
begin

lemma wt_read:
  assumes "cdb \<noteq> []" "length cdb \<le> 16" and "buf \<noteq> []" "length buf < 2 ^ 32" and "st_ScsiRead T k cdb buf ((t + 999) div 1000 * 1000) = (r, out, k')"
  shows "\<exists>r2. st_ScsiRead (windows_transport W) \<lparr>wt_handle = h, wt_system = k\<rparr> cdb buf t =
      (r2, blit 0 out buf, \<lparr>wt_handle = h, wt_system = k'\<rparr>) \<and> same_outcome r r2"
proof -
  obtain r' q' where c: "w_DeviceIoControl W k h 0x4D014 (sptRequest cdb buf 1 t) 88 = (r', q', k')" "spt_outcome r r' q'"
    "pt_DataBuffer (pts_Sptd q') = Some (blit 0 out buf)"
    using control_in [OF sptRequest_command [OF assms(1,2), of buf 1 t], of buf k r out k'] assms(3-5) by auto
  from wt_execute_outcome [OF c(1,2)] show ?thesis using c(3) by (auto simp: windows_transport_def wt_ScsiRead_def scsiIoctl_defs)
qed

lemma wt_write:
  assumes "cdb \<noteq> []" "length cdb \<le> 16" and "buf \<noteq> []" "length buf < 2 ^ 32" and "st_ScsiWrite T k cdb buf ((t + 999) div 1000 * 1000) = (r, k')"
  shows "\<exists>r2. st_ScsiWrite (windows_transport W) \<lparr>wt_handle = h, wt_system = k\<rparr> cdb buf t = (r2, \<lparr>wt_handle = h, wt_system = k'\<rparr>) \<and> same_outcome r r2"
proof -
  obtain r' q' where c: "w_DeviceIoControl W k h 0x4D014 (sptRequest cdb buf 0 t) 88 = (r', q', k')" "spt_outcome r r' q'"
    using control_out [OF sptRequest_command [OF assms(1,2), of buf 0 t], of buf k r k'] assms(3-5) by auto
  from wt_execute_outcome [OF c] show ?thesis by (auto simp: windows_transport_def wt_ScsiWrite_def scsiIoctl_defs)
qed

lemma wt_nodata:
  assumes "cdb \<noteq> []" "length cdb \<le> 16" and "st_ScsiNoData T k cdb ((t + 999) div 1000 * 1000) = (r, k')"
  shows "\<exists>r2. st_ScsiNoData (windows_transport W) \<lparr>wt_handle = h, wt_system = k\<rparr> cdb t = (r2, \<lparr>wt_handle = h, wt_system = k'\<rparr>) \<and> same_outcome r r2"
proof -
  obtain r' q' where c: "w_DeviceIoControl W k h 0x4D014 (sptRequest cdb [] 2 t) 88 = (r', q', k')" "spt_outcome r r' q'"
    using control_none [OF sptRequest_command [OF assms(1,2), of "[]" 2 t], of k r k'] assms(3) by auto
  from wt_execute_outcome [OF c] show ?thesis by (auto simp: windows_transport_def wt_ScsiNoData_def scsiIoctl_defs)
qed

end

text \<open>Such a system with the emulator as its disk.\<close>

definition em_control :: "Emulator \<Rightarrow> int \<Rightarrow> u32 \<Rightarrow> scsiPassThroughDirectWithSense \<Rightarrow> nat \<Rightarrow> unit result \<times> scsiPassThroughDirectWithSense \<times> Emulator" where
  "em_control e h code q n =
     (let p = pts_Sptd q; cdb = take (unat (pt_CdbLength p)) (pt_Cdb p); t = pt_TimeOutValue p * 1000;
          st = (\<lambda>r. case r of Inl _ \<Rightarrow> 2 | Inr _ \<Rightarrow> 0) in
      if pt_DataIn p = 1 then
        (case st_ScsiRead em_disk e cdb (the (pt_DataBuffer p)) t of (r, out, e') \<Rightarrow>
           (Inr (), q\<lparr>pts_Sptd := p\<lparr>pt_DataBuffer := Some (blit 0 out (the (pt_DataBuffer p))), pt_ScsiStatus := st r\<rparr>\<rparr>, e'))
      else
        (case (if pt_DataIn p = 0 then st_ScsiWrite em_disk e cdb (the (pt_DataBuffer p)) t else st_ScsiNoData em_disk e cdb t) of (r, e') \<Rightarrow>
           (Inr (), q\<lparr>pts_Sptd := p\<lparr>pt_ScsiStatus := st r\<rparr>\<rparr>, e')))"

definition em_windows :: "Emulator WinSystem" where
  "em_windows = \<lparr>w_CreateFile = \<lambda>e path. (Inr 4, e), w_CloseHandle = \<lambda>e h. (Inr (), e), w_DeviceIoControl = em_control, w_UTF16 = \<lambda>s. Inr ()\<rparr>"

interpretation sw: spti_system em_windows em_disk 4
  by unfold_locales (auto simp: em_windows_def em_control_def spt_command_def spt_outcome_def Let_def split: sum.splits)

section \<open>The two builds agree\<close>

text \<open>
  The backend is the same on both systems. Over kernels that execute their requests on the same disk, a READ of up to \<open>2\<^sup>2\<^sup>3 - 1\<close> sectors through SG_IO and through SPTI
  succeeds in the same cases, returns the same bytes and leaves the disk in the same state.
\<close>

theorem smr_read_builds_agree:
  assumes "sg_kernel K T fd" and "spti_system W T h" and "0 < c" and "unat c < 2 ^ 23"
  shows "(\<forall>data. (\<exists>s. smr_ReadSectors (linux_transport K) (a\<lparr>sb_transport := \<lparr>lt_fd = fd, lt_kernel = k\<rparr>\<rparr>) lba c = (Inr data, s)) \<longleftrightarrow>
      (\<exists>s. smr_ReadSectors (windows_transport W) (b\<lparr>sb_transport := \<lparr>wt_handle = h, wt_system = k\<rparr>\<rparr>) lba c = (Inr data, s))) \<and>
    lt_kernel (sb_transport (snd (smr_ReadSectors (linux_transport K) (a\<lparr>sb_transport := \<lparr>lt_fd = fd, lt_kernel = k\<rparr>\<rparr>) lba c))) =
      wt_system (sb_transport (snd (smr_ReadSectors (windows_transport W) (b\<lparr>sb_transport := \<lparr>wt_handle = h, wt_system = k\<rparr>\<rparr>) lba c)))"
proof -
  let ?cdb = "buildRead16CDB lba c" and ?buf = "zeros (unat c * 512)"
  obtain r out k' where T: "st_ScsiRead T k ?cdb ?buf defaultTimeout = (r, out, k')" by (metis prod_cases3)
  have pre: "?cdb \<noteq> []" "length ?cdb < 256" "length ?cdb \<le> 16" "?buf \<noteq> []" "length ?buf < 2 ^ 32"
    using assms(3,4) by (simp_all add: cdb_layout zeros_def word_less_nat_alt)
  have t: "(defaultTimeout + 999) div 1000 * 1000 = defaultTimeout" by (simp add: defaultTimeout_def)
  obtain r1 where l: "st_ScsiRead (linux_transport K) \<lparr>lt_fd = fd, lt_kernel = k\<rparr> ?cdb ?buf defaultTimeout =
      (r1, blit 0 out ?buf, \<lparr>lt_fd = fd, lt_kernel = k'\<rparr>)" "same_outcome r r1"
    using sg_kernel.lt_read [OF assms(1) pre(1,2,4,5) T] by blast
  obtain r2 where w: "st_ScsiRead (windows_transport W) \<lparr>wt_handle = h, wt_system = k\<rparr> ?cdb ?buf defaultTimeout =
      (r2, blit 0 out ?buf, \<lparr>wt_handle = h, wt_system = k'\<rparr>)" "same_outcome r r2"
    using spti_system.wt_read [OF assms(2) pre(1,3,4,5), of k defaultTimeout r out k'] T t by auto
  show ?thesis using l w by (cases r1; cases r2) (auto simp: smr_ReadSectors_def same_outcome_def Let_def)
qed

theorem smr_read_builds_agree_witness:
  "lt_kernel (sb_transport (snd (smr_ReadSectors (linux_transport em_kernel)
     \<lparr>sb_transport = \<lparr>lt_fd = 3, lt_kernel = em_demo\<rparr>, sb_zoneCount = 2, sb_zoneSectors = 2, sb_maxOpenZones = 14, sb_capacity = 4\<rparr> 0 1))) =
   wt_system (sb_transport (snd (smr_ReadSectors (windows_transport em_windows)
     \<lparr>sb_transport = \<lparr>wt_handle = 4, wt_system = em_demo\<rparr>, sb_zoneCount = 2, sb_zoneSectors = 2, sb_maxOpenZones = 14, sb_capacity = 4\<rparr> 0 1)))"
  using smr_read_builds_agree [OF sk.sg_kernel_axioms sw.spti_system_axioms, where c = 1 and k = em_demo and lba = 0 and
      a = "\<lparr>sb_transport = \<lparr>lt_fd = 3, lt_kernel = em_demo\<rparr>, sb_zoneCount = 2, sb_zoneSectors = 2, sb_maxOpenZones = 14, sb_capacity = 4\<rparr>" and
      b = "\<lparr>sb_transport = \<lparr>wt_handle = 4, wt_system = em_demo\<rparr>, sb_zoneCount = 2, sb_zoneSectors = 2, sb_maxOpenZones = 14, sb_capacity = 4\<rparr>"]
  by simp

end
