(* ===== verification/JournalRecord.thy ===== *)
theory JournalRecord
  imports Segment
begin

unbundle bit_operations_syntax

text \<open>
  The records of the write-ahead journal, \<^verbatim>\<open>internal/journal/record.go\<close>: the CRC-32C of
  \<^verbatim>\<open>hash/crc32\<close>, the fixed-size record and the checkpoint record with its table snapshot.
\<close>

section \<open>CRC-32C (hash/crc32 with the Castagnoli table)\<close>

text \<open>
  The polynomial in reversed bit order, one bit step, the table entry of a byte, the table-driven update and
  the checksum with its initial and final inversion, as \<^verbatim>\<open>crc32.Checksum\<close> computes them.
\<close>

definition castagnoli :: u32 where "castagnoli = 0x82F63B78"

definition crc_bit :: "u32 \<Rightarrow> u32" where
  "crc_bit c = (if bit c 0 then drop_bit 1 c XOR castagnoli else drop_bit 1 c)"

definition crc32cTable :: "u8 \<Rightarrow> u32" where
  "crc32cTable i = (crc_bit ^^ 8) (ucast i)"

definition crc_update :: "u32 \<Rightarrow> u8 \<Rightarrow> u32" where
  "crc_update c b = crc32cTable (ucast c XOR b) XOR drop_bit 8 c"

definition crc32_Checksum :: "bytes \<Rightarrow> u32" where
  "crc32_Checksum data = NOT (foldl crc_update (NOT 0) data)"

section \<open>Records\<close>

definition RecordMagic :: u32 where "RecordMagic = 0xADA50001"

definition RecordTypeL2PUpdate :: u8 where "RecordTypeL2PUpdate = 0x01"
definition RecordTypeZoneOpen :: u8 where "RecordTypeZoneOpen = 0x02"
definition RecordTypeZoneClose :: u8 where "RecordTypeZoneClose = 0x03"
definition RecordTypeZoneReset :: u8 where "RecordTypeZoneReset = 0x04"
definition RecordTypeCheckpoint :: u8 where "RecordTypeCheckpoint = 0xFF"

abbreviation baseRecordSize :: nat where "baseRecordSize \<equiv> 49"

text \<open>\<open>rec_Timestamp\<close> holds the bits of the signed Unix time.\<close>

record Record =
  rec_Type :: u8
  rec_LSN :: u64
  rec_SegmentID :: u64
  rec_OldPhysAddr :: PhysAddr
  rec_NewPhysAddr :: PhysAddr
  rec_Timestamp :: u64

definition rec_body :: "Record \<Rightarrow> bytes" where
  "rec_body r = rec_Type r # put_u64 (rec_LSN r) @ put_u64 (rec_SegmentID r) @ put_u64 (rec_OldPhysAddr r) @
     put_u64 (rec_NewPhysAddr r) @ put_u64 (rec_Timestamp r)"

definition Record_MarshalBinary :: "Record \<Rightarrow> bytes" where
  "Record_MarshalBinary r = put_u32 RecordMagic @ put_u32 (crc32_Checksum (rec_body r)) @ rec_body r"

definition Record_UnmarshalBinary :: "bytes \<Rightarrow> Record result" where
  "Record_UnmarshalBinary data =
     (if length data < baseRecordSize then Inl (Errorf ''record too short'')
      else if get_u32 (bslice 0 4 data) \<noteq> RecordMagic then Inl (Errorf ''invalid magic'')
      else
        let storedCRC = get_u32 (bslice 4 8 data);
            computedCRC = crc32_Checksum (bslice 8 baseRecordSize data) in
        if storedCRC \<noteq> computedCRC then Inl (Errorf ''CRC32C mismatch'')
        else Inr \<lparr>rec_Type = data ! 8, rec_LSN = get_u64 (bslice 9 17 data),
                  rec_SegmentID = get_u64 (bslice 17 25 data), rec_OldPhysAddr = get_u64 (bslice 25 33 data),
                  rec_NewPhysAddr = get_u64 (bslice 33 41 data), rec_Timestamp = get_u64 (bslice 41 49 data)\<rparr>)"

definition newRecord :: "u8 \<Rightarrow> u64 \<Rightarrow> int \<Rightarrow> Record" where
  "newRecord recordType lsn now =
     \<lparr>rec_Type = recordType, rec_LSN = lsn, rec_SegmentID = 0, rec_OldPhysAddr = 0, rec_NewPhysAddr = 0,
      rec_Timestamp = of_int now\<rparr>"

section \<open>Checkpoint records\<close>

record CheckpointRecord =
  cp_Record :: Record
  cp_L2PTableLen :: u64
  cp_L2PEntries :: "PhysAddr list"

definition Checkpoint_MarshalBinary :: "CheckpointRecord \<Rightarrow> bytes" where
  "Checkpoint_MarshalBinary c =
     Record_MarshalBinary ((cp_Record c)\<lparr>rec_SegmentID := cp_L2PTableLen c\<rparr>) @ concat (map put_u64 (cp_L2PEntries c))"

text \<open>
  \<open>None\<close> is the panic of \<^verbatim>\<open>make\<close> on a length beyond the address space (\<open>2\<^sup>4\<^sup>8\<close> bytes): the length field is
  trusted, and \<^verbatim>\<open>int(c.L2PTableLen)*8\<close> wraps around.
\<close>

definition Checkpoint_UnmarshalBinary :: "bytes \<Rightarrow> CheckpointRecord result option" where
  "Checkpoint_UnmarshalBinary data =
     (case Record_UnmarshalBinary data of
        Inl err \<Rightarrow> Some (Inl err)
      | Inr r \<Rightarrow>
          let tableLen = rec_SegmentID r;
              expectedLen = sint (of_nat baseRecordSize + tableLen * 8) in
          if int (length data) < expectedLen then Some (Inl (Errorf ''checkpoint record too short''))
          else if unat tableLen * 8 > 2 ^ 48 then None
          else Some (Inr \<lparr>cp_Record = r, cp_L2PTableLen = tableLen,
                 cp_L2PEntries = map (\<lambda>i. get_u64 (bslice (baseRecordSize + 8 * i) (baseRecordSize + 8 * i + 8) data))
                                   [0..<unat tableLen]\<rparr>))"

section \<open>CRC-32C detects every change of one byte\<close>

lemma xor_right_cancel: "(a :: 'a::len word) XOR c = b XOR c \<longleftrightarrow> a = b"
proof
  assume "a XOR c = b XOR c"
  then have "(a XOR c) XOR c = (b XOR c) XOR c" by simp
  then show "a = b" by (simp add: xor.assoc)
qed simp

lemma bit_castagnoli_31: "bit castagnoli 31"
  by (simp add: castagnoli_def bit_numeral_rec)

lemma bit_crc_bit_31: "bit (crc_bit c) 31 \<longleftrightarrow> bit c 0"
  using bit_castagnoli_31 bit_imp_le_length [of c 32] by (auto simp: crc_bit_def bit_simps)

lemma inj_crc_bit: "inj crc_bit"
proof (rule injI)
  fix c d assume eq: "crc_bit c = crc_bit d"
  then have b0: "bit c 0 = bit d 0" using bit_crc_bit_31 by metis
  then have "drop_bit 1 c = drop_bit 1 d"
    using eq by (auto simp: crc_bit_def xor_right_cancel split: if_splits)
  then have "bit c (Suc n) = bit d (Suc n)" for n
    by (metis bit_drop_bit_eq comp_apply plus_1_eq_Suc)
  then show "c = d" using b0 by (intro bit_word_eqI) (metis not0_implies_Suc)
qed

lemma inj_crc_bits: "inj (crc_bit ^^ n)"
  by (induction n) (auto simp: inj_def inj_eq [OF inj_crc_bit])

lemma crc_bit_xor: "crc_bit (c XOR d) = crc_bit c XOR crc_bit d"
  by (rule bit_word_eqI) (auto simp: crc_bit_def bit_simps)

lemma crc_bits_xor: "(crc_bit ^^ n) (c XOR d) = (crc_bit ^^ n) c XOR (crc_bit ^^ n) d"
  by (induction n) (simp_all add: crc_bit_xor)

lemma crc_bits_shift: "(\<And>i. i < n \<Longrightarrow> \<not> bit c i) \<Longrightarrow> (crc_bit ^^ n) c = drop_bit n c"
proof (induction n arbitrary: c)
  case (Suc n)
  have "crc_bit c = drop_bit 1 c" using Suc.prems [of 0] by (simp add: crc_bit_def)
  moreover have "\<not> bit (drop_bit 1 c) i" if "i < n" for i using Suc.prems [of "Suc i"] that by (simp add: bit_simps)
  ultimately show ?case using Suc.IH [of "drop_bit 1 c"] by (simp add: funpow_swap1 drop_bit_drop_bit)
qed simp

text \<open>The table-driven update is eight bit steps.\<close>

lemma crc_update_bits: "crc_update c b = (crc_bit ^^ 8) (c XOR ucast b)"
proof -
  have "c XOR ucast b = ucast (ucast c XOR b) XOR push_bit 8 (drop_bit 8 c)"
  proof (rule bit_word_eqI)
    fix i assume "i < LENGTH(32)"
    then show "bit (c XOR ucast b) i = bit (ucast (ucast c XOR b :: u8) XOR push_bit 8 (drop_bit 8 c)) i"
      using bit_imp_le_length [of b i] by (cases "i < 8") (auto simp: bit_simps)
  qed
  moreover have "(crc_bit ^^ 8) (push_bit 8 (drop_bit 8 c)) = drop_bit 8 (push_bit 8 (drop_bit 8 c))"
    by (rule crc_bits_shift) (simp add: bit_simps)
  moreover have "drop_bit 8 (push_bit 8 (drop_bit 8 c)) = drop_bit 8 c"
    by (rule bit_word_eqI) (auto simp: bit_simps dest: bit_imp_le_length)
  ultimately show ?thesis by (simp add: crc_update_def crc32cTable_def crc_bits_xor)
qed

lemma crc_update_inj_crc: "crc_update c b = crc_update d b \<longleftrightarrow> c = d"
  by (simp add: crc_update_bits inj_eq [OF inj_crc_bits] xor_right_cancel)

lemma crc_update_inj_byte: "crc_update c a = crc_update c b \<longleftrightarrow> a = b"
proof -
  have "unat (ucast x :: u32) = unat x" for x :: u8
    using unsigned_less [of x, where ?'a = nat] by (simp add: unsigned_ucast_eq take_bit_nat_eq_self)
  then have "ucast a = (ucast b :: u32) \<longleftrightarrow> a = b" by (metis unat_inj)
  then show ?thesis by (simp add: crc_update_bits inj_eq [OF inj_crc_bits] xor.commute [of c] xor_right_cancel)
qed

lemma foldl_crc_inj: "foldl crc_update c bs = foldl crc_update d bs \<longleftrightarrow> c = d"
  by (induction bs arbitrary: c d) (simp_all add: crc_update_inj_crc)

lemma crc_one_byte:
  assumes "i < length bs" and "b \<noteq> bs ! i"
  shows "crc32_Checksum (bs[i := b]) \<noteq> crc32_Checksum bs"
proof
  assume eq: "crc32_Checksum (bs[i := b]) = crc32_Checksum bs"
  let ?p = "foldl crc_update (NOT 0) (take i bs)" and ?q = "drop (Suc i) bs"
  have "bs = take i bs @ bs ! i # ?q" "bs[i := b] = take i bs @ b # ?q"
    using assms(1) by (simp_all add: id_take_nth_drop [symmetric] upd_conv_take_nth_drop)
  then have "crc32_Checksum bs = NOT (foldl crc_update (crc_update ?p (bs ! i)) ?q)"
    "crc32_Checksum (bs[i := b]) = NOT (foldl crc_update (crc_update ?p b) ?q)"
    unfolding crc32_Checksum_def by (metis foldl_Cons foldl_append)+
  then have "foldl crc_update (crc_update ?p b) ?q = foldl crc_update (crc_update ?p (bs ! i)) ?q"
    using eq by (metis bit.double_compl)
  then show False using assms(2) by (simp add: foldl_crc_inj crc_update_inj_byte)
qed

section \<open>Round trips\<close>

lemma length_rec_body [simp]: "length (rec_body r) = 41"
  by (simp add: rec_body_def)

lemma length_Record_MarshalBinary [simp]: "length (Record_MarshalBinary r) = baseRecordSize"
  by (simp add: Record_MarshalBinary_def)

text \<open>Slices of a concatenation, at the offsets of the record layout.\<close>

lemma bslice_append_left: "j \<le> length xs \<Longrightarrow> bslice i j (xs @ ys) = bslice i j xs"
  by (simp add: bslice_def)

lemma bslice_append_right:
  "length xs \<le> i \<Longrightarrow> bslice i j (xs @ ys) = bslice (i - length xs) (j - length xs) ys"
  by (simp add: bslice_def)

lemma bslice_all: "i = 0 \<Longrightarrow> j = length xs \<Longrightarrow> bslice i j xs = xs"
  by (simp add: bslice_def)

lemma bslice_Cons: "0 < i \<Longrightarrow> bslice i j (x # xs) = bslice (i - 1) (j - 1) xs"
  by (cases i; cases j) (simp_all add: bslice_def)

lemmas bslice_layout = bslice_append_left bslice_append_right bslice_all bslice_Cons

lemma bslice_marshal:
  "bslice 0 4 (Record_MarshalBinary r @ rest) = put_u32 RecordMagic"
  "bslice 4 8 (Record_MarshalBinary r @ rest) = put_u32 (crc32_Checksum (rec_body r))"
  "bslice 8 49 (Record_MarshalBinary r @ rest) = rec_body r"
  "(Record_MarshalBinary r @ rest) ! 8 = rec_Type r"
  "bslice 9 17 (Record_MarshalBinary r @ rest) = put_u64 (rec_LSN r)"
  "bslice 17 25 (Record_MarshalBinary r @ rest) = put_u64 (rec_SegmentID r)"
  "bslice 25 33 (Record_MarshalBinary r @ rest) = put_u64 (rec_OldPhysAddr r)"
  "bslice 33 41 (Record_MarshalBinary r @ rest) = put_u64 (rec_NewPhysAddr r)"
  "bslice 41 49 (Record_MarshalBinary r @ rest) = put_u64 (rec_Timestamp r)"
proof -
  show "bslice 8 49 (Record_MarshalBinary r @ rest) = rec_body r"
    by (simp add: Record_MarshalBinary_def bslice_layout)
qed (simp_all add: Record_MarshalBinary_def rec_body_def bslice_layout nth_append)

lemma record_decodes: "Record_UnmarshalBinary (Record_MarshalBinary r @ rest) = Inr r"
  by (simp add: Record_UnmarshalBinary_def bslice_marshal)

lemma Record_UnmarshalBinary_ok:
  assumes "Record_UnmarshalBinary data = Inr r"
  shows "baseRecordSize \<le> length data" and "rec_Type r = data ! 8"
    and "get_u32 (bslice 4 8 data) = crc32_Checksum (bslice 8 49 data)"
  using assms by (auto simp: Record_UnmarshalBinary_def Let_def split: if_splits)

lemma bslice_update_in:
  assumes "i \<le> k" and "k < j" and "j \<le> length xs"
  shows "bslice i j (xs[k := b]) = (bslice i j xs)[k - i := b]"
  using assms by (intro nth_equalityI) (auto simp: bslice_def nth_list_update)

lemma bslice_update_out: "k < i \<or> j \<le> k \<Longrightarrow> bslice i j (xs[k := b]) = bslice i j xs"
  by (intro nth_equalityI) (auto simp: bslice_def nth_list_update)

text \<open>A record with one byte changed, wherever it is, does not decode.\<close>

lemma record_one_byte:
  assumes i: "i < baseRecordSize" and b: "b \<noteq> Record_MarshalBinary r ! i"
  shows "\<exists>err. Record_UnmarshalBinary ((Record_MarshalBinary r)[i := b]) = Inl err"
proof -
  let ?m = "Record_MarshalBinary r"
  note sl = bslice_marshal(1-3) [where r = r and rest = "[]", simplified]
  have changed: "bslice j k (?m[i := b]) \<noteq> bslice j k ?m" if "j \<le> i" "i < k" "k \<le> 49" for j k
  proof -
    have "bslice j k (?m[i := b]) ! (i - j) = b" using that by (simp add: bslice_update_in bslice_def)
    moreover have "bslice j k ?m ! (i - j) = ?m ! i" using that by (simp add: bslice_def)
    ultimately show ?thesis using b by metis
  qed
  consider "i < 4" | "4 \<le> i" "i < 8" | "8 \<le> i" by linarith
  then show ?thesis
  proof cases
    case 1
    then have "get_u32 (bslice 0 4 (?m[i := b])) \<noteq> get_u32 (bslice 0 4 ?m)"
      using changed [of 0 4] by (subst be_get_inject) simp_all
    then show ?thesis by (simp add: Record_UnmarshalBinary_def sl)
  next
    case 2
    then have "get_u32 (bslice 4 8 (?m[i := b])) \<noteq> get_u32 (bslice 4 8 ?m)"
      using changed [of 4 8] by (subst be_get_inject) simp_all
    then show ?thesis using 2 by (simp add: Record_UnmarshalBinary_def sl bslice_update_out Let_def)
  next
    case 3
    have "bslice 8 49 (?m[i := b]) = (rec_body r)[i - 8 := b]" using 3 i by (simp add: bslice_update_in sl)
    moreover have "crc32_Checksum ((rec_body r)[i - 8 := b]) \<noteq> crc32_Checksum (rec_body r)"
    proof (rule crc_one_byte)
      have "rec_body r ! (i - 8) = ?m ! i" using 3 i by (simp add: sl(3) [symmetric] bslice_def)
      then show "b \<noteq> rec_body r ! (i - 8)" using b by simp
    qed (use 3 i in simp)
    ultimately show ?thesis
      using 3 by (simp add: Record_UnmarshalBinary_def sl bslice_update_out Let_def)
  qed
qed

lemma length_concat_put_u64 [simp]: "length (concat (map put_u64 xs)) = 8 * length xs"
  by (induction xs) simp_all

lemma bslice_concat_put_u64:
  "i < length xs \<Longrightarrow> bslice (8 * i) (8 * i + 8) (concat (map put_u64 xs)) = put_u64 (xs ! i)"
proof (induction xs arbitrary: i)
  case (Cons x xs)
  then show ?case by (cases i) (simp_all add: bslice_layout add.commute)
qed simp

lemma checkpoint_decodes:
  assumes "length es < 2 ^ 40" and "cp_L2PTableLen c = of_nat (length es)" and "cp_L2PEntries c = es"
  shows "Checkpoint_UnmarshalBinary (Checkpoint_MarshalBinary c) =
    Some (Inr (c\<lparr>cp_Record := (cp_Record c)\<lparr>rec_SegmentID := cp_L2PTableLen c\<rparr>\<rparr>))"
proof -
  let ?r = "(cp_Record c)\<lparr>rec_SegmentID := cp_L2PTableLen c\<rparr>"
  have len: "unat (cp_L2PTableLen c) = length es" using assms by (simp add: unat_u64_of_nat)
  have exp: "sint (of_nat baseRecordSize + cp_L2PTableLen c * 8 :: u64) = int (baseRecordSize + length es * 8)"
  proof -
    have "of_nat baseRecordSize + cp_L2PTableLen c * 8 = (of_nat (baseRecordSize + length es * 8) :: u64)"
      using assms(2) by simp
    moreover have "baseRecordSize + length es * 8 < 2 ^ 63" using assms(1) by simp
    ultimately show ?thesis by (simp add: signed_of_nat signed_take_bit_int_eq_self del: of_nat_add of_nat_mult)
  qed
  have "map (\<lambda>i. get_u64 (bslice (49 + 8 * i) (49 + 8 * i + 8) (Checkpoint_MarshalBinary c))) [0..<length es] = es"
  proof (rule nth_equalityI)
    fix i assume "i < length (map (\<lambda>i. get_u64 (bslice (49 + 8 * i) (49 + 8 * i + 8) (Checkpoint_MarshalBinary c))) [0..<length es])"
    then have i: "i < length es" by simp
    then have "bslice (49 + 8 * i) (49 + 8 * i + 8) (Checkpoint_MarshalBinary c) = put_u64 (es ! i)"
      using bslice_concat_put_u64 [OF i] assms(3) by (simp add: Checkpoint_MarshalBinary_def bslice_append_right add.commute)
    then show "map (\<lambda>i. get_u64 (bslice (49 + 8 * i) (49 + 8 * i + 8) (Checkpoint_MarshalBinary c))) [0..<length es] ! i = es ! i"
      using i by simp
  qed simp
  moreover have "length (Checkpoint_MarshalBinary c) = baseRecordSize + length es * 8"
    using assms(3) by (simp add: Checkpoint_MarshalBinary_def)
  ultimately show ?thesis
    using exp len assms
    by (simp add: Checkpoint_UnmarshalBinary_def Checkpoint_MarshalBinary_def record_decodes Let_def)
qed

section \<open>Properties\<close>

text \<open>
  Decoding an encoded record returns the record, whatever bytes follow it.
\<close>

theorem record_roundtrip: "Record_UnmarshalBinary (Record_MarshalBinary r @ rest) = Inr r"
  by (rule record_decodes)

text \<open>
  C37: a record with any one byte changed, in the magic number, in the stored checksum or in the body, is
  refused: CRC-32C detects every corruption confined to a byte.
\<close>

theorem record_detects_byte:
  assumes "i < baseRecordSize" and "b \<noteq> Record_MarshalBinary r ! i"
  shows "\<exists>err. Record_UnmarshalBinary ((Record_MarshalBinary r)[i := b]) = Inl err"
  using assms by (rule record_one_byte)

theorem record_detects_byte_witness:
  "\<exists>err. Record_UnmarshalBinary ((Record_MarshalBinary (newRecord RecordTypeZoneOpen 7 0))[8 := 0x05]) = Inl err"
proof (rule record_detects_byte)
  show "0x05 \<noteq> Record_MarshalBinary (newRecord RecordTypeZoneOpen 7 0) ! 8"
    using bslice_marshal(4) [of "newRecord RecordTypeZoneOpen 7 0" "[]"] by (simp add: newRecord_def RecordTypeZoneOpen_def)
qed simp

text \<open>
  A checkpoint record of up to \<open>2\<^sup>4\<^sup>0\<close> entries decodes to the same table, with the table length in the
  segment field of its header.
\<close>

theorem checkpoint_roundtrip:
  assumes "length (cp_L2PEntries c) < 2 ^ 40" and "cp_L2PTableLen c = of_nat (length (cp_L2PEntries c))"
  shows "Checkpoint_UnmarshalBinary (Checkpoint_MarshalBinary c) =
    Some (Inr (c\<lparr>cp_Record := (cp_Record c)\<lparr>rec_SegmentID := cp_L2PTableLen c\<rparr>\<rparr>))"
  using assms by (rule checkpoint_decodes [OF _ _ refl])

theorem checkpoint_roundtrip_witness:
  "map_option (map_sum id cp_L2PEntries) (Checkpoint_UnmarshalBinary (Checkpoint_MarshalBinary
     \<lparr>cp_Record = newRecord RecordTypeCheckpoint 9 0, cp_L2PTableLen = 3, cp_L2PEntries = [5, 0, 7]\<rparr>)) = Some (Inr [5, 0, 7])"
  using checkpoint_roundtrip [of "\<lparr>cp_Record = newRecord RecordTypeCheckpoint 9 0, cp_L2PTableLen = 3, cp_L2PEntries = [5, 0, 7]\<rparr>"]
  by simp

text \<open>
  The checksum of a checkpoint record covers its 49-byte header only, not \<^verbatim>\<open>bytes 8..end of record\<close>: any change
  of the table entries is accepted.
\<close>

theorem checkpoint_entries_unprotected:
  assumes "length es < 2 ^ 40" and "length es' = length es"
    and "c = \<lparr>cp_Record = r, cp_L2PTableLen = of_nat (length es), cp_L2PEntries = es\<rparr>"
  shows "\<exists>c'. Checkpoint_UnmarshalBinary (take baseRecordSize (Checkpoint_MarshalBinary c) @ concat (map put_u64 es')) = Some (Inr c') \<and>
    cp_L2PEntries c' = es'"
proof -
  let ?c' = "\<lparr>cp_Record = r, cp_L2PTableLen = of_nat (length es'), cp_L2PEntries = es'\<rparr>"
  have "take baseRecordSize (Checkpoint_MarshalBinary c) @ concat (map put_u64 es') = Checkpoint_MarshalBinary ?c'"
    using assms(2,3) by (simp add: Checkpoint_MarshalBinary_def)
  then show ?thesis using checkpoint_decodes [of es' ?c'] assms(1,2) by simp
qed

theorem checkpoint_entries_unprotected_witness:
  "\<exists>c'. Checkpoint_UnmarshalBinary (take baseRecordSize (Checkpoint_MarshalBinary
     \<lparr>cp_Record = newRecord RecordTypeCheckpoint 9 0, cp_L2PTableLen = 1, cp_L2PEntries = [5]\<rparr>) @ concat (map put_u64 [6])) =
     Some (Inr c') \<and> cp_L2PEntries c' = [6]"
  by (rule checkpoint_entries_unprotected [of "[5]" "[6]" _ "newRecord RecordTypeCheckpoint 9 0"]) simp_all

end
