(* ===== verification/Wal.thy ===== *)
theory Wal
  imports JournalRecord L2P
begin

text \<open>
  The write-ahead journal, \<^verbatim>\<open>internal/journal/journal.go\<close> and \<^verbatim>\<open>checkpoint.go\<close>: records framed by a
  length, pending frames, group commit through a \<^verbatim>\<open>bufio.Writer\<close>, and the scans that read the file back.

  The file is its content together with a script of faults: each system call takes one entry of the script,
  \<open>None\<close> (or the end of the script) for success, or an error with the number of bytes a failing write still stored.
  Reads deliver the content and then end, or fail with \<open>f_readErr\<close>.
\<close>

section \<open>Files and buffered writing (os, bufio, io)\<close>

record os_file =
  f_content :: bytes
  f_script :: "(nat \<times> go_error) option list"
  f_readErr :: "go_error option"

definition os_call :: "os_file \<Rightarrow> unit result \<times> os_file" where
  "os_call f =
     (case f_script f of
        [] \<Rightarrow> (Inr (), f)
      | None # s \<Rightarrow> (Inr (), f\<lparr>f_script := s\<rparr>)
      | Some (k, err) # s \<Rightarrow> (Inl err, f\<lparr>f_script := s\<rparr>))"

text \<open>A write to a file opened with \<^verbatim>\<open>O_APPEND\<close>.\<close>

definition os_Write :: "os_file \<Rightarrow> bytes \<Rightarrow> unit result \<times> os_file" where
  "os_Write f p =
     (case f_script f of
        [] \<Rightarrow> (Inr (), f\<lparr>f_content := f_content f @ p\<rparr>)
      | None # s \<Rightarrow> (Inr (), f\<lparr>f_content := f_content f @ p, f_script := s\<rparr>)
      | Some (k, err) # s \<Rightarrow> (Inl err, f\<lparr>f_content := f_content f @ take k p, f_script := s\<rparr>))"

text \<open>
  \<^verbatim>\<open>bufio.Writer\<close>. After an error the writer only repeats the error, so what a failed flush leaves in the
  buffer is never used again.
\<close>

record bufWriter =
  bw_buf :: bytes
  bw_size :: nat
  bw_err :: "go_error option"

definition bw_Flush :: "bufWriter \<Rightarrow> os_file \<Rightarrow> unit result \<times> bufWriter \<times> os_file" where
  "bw_Flush b f =
     (case bw_err b of
        Some err \<Rightarrow> (Inl err, b, f)
      | None \<Rightarrow>
          if bw_buf b = [] then (Inr (), b, f)
          else
            (case os_Write f (bw_buf b) of
               (Inl err, f') \<Rightarrow> (Inl err, b\<lparr>bw_err := Some err\<rparr>, f')
             | (Inr _, f') \<Rightarrow> (Inr (), b\<lparr>bw_buf := []\<rparr>, f')))"

function bw_Write :: "bufWriter \<Rightarrow> os_file \<Rightarrow> bytes \<Rightarrow> unit result \<times> bufWriter \<times> os_file" where
  "bw_Write b f p =
     (case bw_err b of
        Some err \<Rightarrow> (Inl err, b, f)
      | None \<Rightarrow>
          if length p \<le> bw_size b - length (bw_buf b) then (Inr (), b\<lparr>bw_buf := bw_buf b @ p\<rparr>, f)
          else if bw_buf b = [] then
            (case os_Write f p of
               (Inl err, f') \<Rightarrow> (Inl err, b\<lparr>bw_err := Some err\<rparr>, f')
             | (Inr _, f') \<Rightarrow> (Inr (), b, f'))
          else
            let n = bw_size b - length (bw_buf b) in
            (case bw_Flush (b\<lparr>bw_buf := bw_buf b @ take n p\<rparr>) f of
               (Inl err, b', f') \<Rightarrow> (Inl err, b', f')
             | (Inr _, b', f') \<Rightarrow> bw_Write b' f' (drop n p)))"
  by pat_completeness auto
termination
  by (relation "measure (\<lambda>(b, f, p). if bw_buf b = [] then 0 else 1)")
    (auto simp: bw_Flush_def split: option.splits if_splits prod.splits sum.splits)

text \<open>
  A reader is what is left of a file and how it ends. \<^verbatim>\<open>io.ReadFull\<close> of \<open>n > 0\<close> bytes either succeeds or
  returns \<open>None\<close> for \<^verbatim>\<open>io.EOF\<close> and \<^verbatim>\<open>io.ErrUnexpectedEOF\<close>, or the reader's own error.
\<close>

type_synonym reader = "bytes \<times> go_error option"

definition io_ReadFull :: "reader \<Rightarrow> nat \<Rightarrow> go_error option + bytes \<times> reader" where
  "io_ReadFull r n =
     (if n \<le> length (fst r) then Inr (take n (fst r), (drop n (fst r), snd r)) else Inl (snd r))"

definition file_reader :: "os_file \<Rightarrow> reader" where
  "file_reader f = (f_content f, f_readErr f)"

section \<open>State\<close>

record Wal =
  wal_file :: os_file
  wal_writer :: bufWriter
  wal_lsn :: u64
  wal_pending :: "bytes list"
  wal_path :: string

section \<open>Scanning\<close>

function wal_scanMaxLSN :: "reader \<Rightarrow> u64 \<Rightarrow> u64 result" where
  "wal_scanMaxLSN r maxLSN =
     (case io_ReadFull r 4 of
        Inl None \<Rightarrow> Inr maxLSN
      | Inl (Some err) \<Rightarrow> Inl err
      | Inr (lenBuf, r1) \<Rightarrow>
          let len = get_u32 lenBuf in
          if unat len < baseRecordSize then Inr maxLSN
          else
            (case io_ReadFull r1 (unat len) of
               Inl _ \<Rightarrow> Inr maxLSN
             | Inr (recBuf, r2) \<Rightarrow>
                 (case Record_UnmarshalBinary recBuf of
                    Inl _ \<Rightarrow> wal_scanMaxLSN r2 maxLSN
                  | Inr rec \<Rightarrow> wal_scanMaxLSN r2 (if rec_LSN rec > maxLSN then rec_LSN rec else maxLSN))))"
  by pat_completeness auto
termination
  by (relation "measure (\<lambda>(r, m). length (fst r))") (auto simp: io_ReadFull_def split: if_splits)

function wal_readRecords :: "reader \<Rightarrow> u64 \<Rightarrow> Record list result" where
  "wal_readRecords r afterLSN =
     (case io_ReadFull r 4 of
        Inl None \<Rightarrow> Inr []
      | Inl (Some err) \<Rightarrow> Inl err
      | Inr (lenBuf, r1) \<Rightarrow>
          let len = get_u32 lenBuf in
          if unat len < baseRecordSize \<or> unat len > 100 * 1024 * 1024 then Inr []
          else
            (case io_ReadFull r1 (unat len) of
               Inl _ \<Rightarrow> Inr []
             | Inr (recBuf, r2) \<Rightarrow>
                 (case Record_UnmarshalBinary recBuf of
                    Inl _ \<Rightarrow> Inr []
                  | Inr rec \<Rightarrow>
                      (case wal_readRecords r2 afterLSN of
                         Inl err \<Rightarrow> Inl err
                       | Inr records \<Rightarrow> Inr (if rec_LSN rec > afterLSN then rec # records else records)))))"
  by pat_completeness auto
termination
  by (relation "measure (\<lambda>(r, m). length (fst r))") (auto simp: io_ReadFull_def split: if_splits)

text \<open>
  The loop of \<^verbatim>\<open>ReadLatestCheckpoint\<close>; \<open>None\<close> is a panic while a checkpoint is decoded.
\<close>

function wal_latestCheckpoint :: "reader \<Rightarrow> CheckpointRecord option \<Rightarrow> CheckpointRecord option result option" where
  "wal_latestCheckpoint r latest =
     (case io_ReadFull r 4 of
        Inl None \<Rightarrow> Some (Inr latest)
      | Inl (Some err) \<Rightarrow> Some (Inl (Wrap ''reading record length'' err))
      | Inr (lenBuf, r1) \<Rightarrow>
          let len = get_u32 lenBuf in
          if unat len < baseRecordSize \<or> unat len > 1024 * 1024 * 1024 then Some (Inr latest)
          else
            (case io_ReadFull r1 (unat len) of
               Inl _ \<Rightarrow> Some (Inr latest)
             | Inr (recBuf, r2) \<Rightarrow>
                 if length recBuf \<ge> 9 \<and> recBuf ! 8 = RecordTypeCheckpoint then
                   (case Checkpoint_UnmarshalBinary recBuf of
                      None \<Rightarrow> None
                    | Some (Inl _) \<Rightarrow> wal_latestCheckpoint r2 latest
                    | Some (Inr cpRec) \<Rightarrow>
                        wal_latestCheckpoint r2
                          (case latest of
                             None \<Rightarrow> Some cpRec
                           | Some l \<Rightarrow> if rec_LSN (cp_Record cpRec) > rec_LSN (cp_Record l) then Some cpRec else latest))
                 else wal_latestCheckpoint r2 latest))"
  by pat_completeness auto
termination
  by (relation "measure (\<lambda>(r, m). length (fst r))") (auto simp: io_ReadFull_def split: if_splits)

declare bw_Write.simps [simp del] wal_scanMaxLSN.simps [simp del] wal_readRecords.simps [simp del]
  wal_latestCheckpoint.simps [simp del]

text \<open>\<open>opened\<close> is the outcome of \<^verbatim>\<open>os.Open(path)\<close>: \<open>Inr None\<close> when the file does not exist.\<close>

definition ReadLatestCheckpoint :: "os_file option result \<Rightarrow> (PhysAddr list option \<times> u64) result option" where
  "ReadLatestCheckpoint opened =
     (case opened of
        Inl err \<Rightarrow> Some (Inl (Wrap ''opening journal for checkpoint scan'' err))
      | Inr None \<Rightarrow> Some (Inr (None, 0))
      | Inr (Some f) \<Rightarrow>
          (case wal_latestCheckpoint (file_reader f) None of
             None \<Rightarrow> None
           | Some (Inl err) \<Rightarrow> Some (Inl err)
           | Some (Inr None) \<Rightarrow> Some (Inr (None, 0))
           | Some (Inr (Some c)) \<Rightarrow> Some (Inr (Some (cp_L2PEntries c), rec_LSN (cp_Record c)))))"

section \<open>Operations\<close>

definition wal_Open :: "(string \<Rightarrow> os_file result) \<Rightarrow> string \<Rightarrow> Wal result" where
  "wal_Open openFile path =
     (case openFile path of
        Inl err \<Rightarrow> Inl (Wrap ''opening journal'' err)
      | Inr f \<Rightarrow>
          (case os_call f of
             (Inl err, _) \<Rightarrow> Inl (Wrap ''scanning journal LSN'' err)
           | (Inr _, f1) \<Rightarrow>
               (case wal_scanMaxLSN (file_reader f1) 0 of
                  Inl err \<Rightarrow> Inl (Wrap ''scanning journal LSN'' err)
                | Inr lsn \<Rightarrow>
                    (case os_call f1 of
                       (Inl err, _) \<Rightarrow> Inl (Wrap ''seeking to end of journal'' err)
                     | (Inr _, f2) \<Rightarrow>
                         Inr \<lparr>wal_file = f2, wal_writer = \<lparr>bw_buf = [], bw_size = 64 * 1024, bw_err = None\<rparr>,
                              wal_lsn = lsn, wal_pending = [], wal_path = path\<rparr>))))"

definition wal_nextLSN :: "Wal \<Rightarrow> u64 \<times> Wal" where
  "wal_nextLSN w = (wal_lsn w + 1, w\<lparr>wal_lsn := wal_lsn w + 1\<rparr>)"

definition wal_CurrentLSN :: "Wal \<Rightarrow> u64" where
  "wal_CurrentLSN w = wal_lsn w"

text \<open>The length prefix and the record, as \<^verbatim>\<open>appendRecord\<close> and \<^verbatim>\<open>WriteCheckpoint\<close> build the payload.\<close>

definition wal_frame :: "bytes \<Rightarrow> bytes" where
  "wal_frame data = put_u32 (of_nat (length data)) @ data"

definition wal_appendRecord :: "Wal \<Rightarrow> Record \<Rightarrow> Wal" where
  "wal_appendRecord w rec = w\<lparr>wal_pending := wal_pending w @ [wal_frame (Record_MarshalBinary rec)]\<rparr>"

definition wal_LogL2PUpdate :: "int \<Rightarrow> Wal \<Rightarrow> SegmentID \<Rightarrow> PhysAddr \<Rightarrow> PhysAddr \<Rightarrow> u64 result \<times> Wal" where
  "wal_LogL2PUpdate now w segID oldPhys newPhys =
     (case wal_nextLSN w of
        (lsn, w1) \<Rightarrow>
          (Inr lsn, wal_appendRecord w1
             \<lparr>rec_Type = RecordTypeL2PUpdate, rec_LSN = lsn, rec_SegmentID = segID, rec_OldPhysAddr = oldPhys,
              rec_NewPhysAddr = newPhys, rec_Timestamp = of_int now\<rparr>))"

definition wal_logZoneAction :: "int \<Rightarrow> u8 \<Rightarrow> Wal \<Rightarrow> u64 \<Rightarrow> unit result \<times> Wal" where
  "wal_logZoneAction now recType w zoneID =
     (case wal_nextLSN w of
        (lsn, w1) \<Rightarrow>
          (Inr (), wal_appendRecord w1
             \<lparr>rec_Type = recType, rec_LSN = lsn, rec_SegmentID = zoneID, rec_OldPhysAddr = 0, rec_NewPhysAddr = 0,
              rec_Timestamp = of_int now\<rparr>))"

definition wal_LogZoneOpen :: "int \<Rightarrow> Wal \<Rightarrow> u32 \<Rightarrow> unit result \<times> Wal" where
  "wal_LogZoneOpen now w zoneID = wal_logZoneAction now RecordTypeZoneOpen w (ucast zoneID)"

definition wal_LogZoneClose :: "int \<Rightarrow> Wal \<Rightarrow> u32 \<Rightarrow> unit result \<times> Wal" where
  "wal_LogZoneClose now w zoneID = wal_logZoneAction now RecordTypeZoneClose w (ucast zoneID)"

definition wal_LogZoneReset :: "int \<Rightarrow> Wal \<Rightarrow> u32 \<Rightarrow> unit result \<times> Wal" where
  "wal_LogZoneReset now w zoneID = wal_logZoneAction now RecordTypeZoneReset w (ucast zoneID)"

fun wal_writeAll :: "bytes list \<Rightarrow> bufWriter \<Rightarrow> os_file \<Rightarrow> unit result \<times> bufWriter \<times> os_file" where
  "wal_writeAll [] b f = (Inr (), b, f)"
| "wal_writeAll (payload # ps) b f =
     (case bw_Write b f payload of
        (Inl err, b', f') \<Rightarrow> (Inl (Wrap ''writing WAL record'' err), b', f')
      | (Inr _, b', f') \<Rightarrow> wal_writeAll ps b' f')"

definition wal_GroupCommit :: "Wal \<Rightarrow> unit result \<times> Wal" where
  "wal_GroupCommit w =
     (if wal_pending w = [] then (Inr (), w)
      else
        case wal_writeAll (wal_pending w) (wal_writer w) (wal_file w) of
          (Inl err, b, f) \<Rightarrow> (Inl err, w\<lparr>wal_writer := b, wal_file := f\<rparr>)
        | (Inr _, b, f) \<Rightarrow>
            let w1 = w\<lparr>wal_pending := []\<rparr> in
            (case bw_Flush b f of
               (Inl err, b', f') \<Rightarrow> (Inl (Wrap ''flushing WAL writer'' err), w1\<lparr>wal_writer := b', wal_file := f'\<rparr>)
             | (Inr _, b', f') \<Rightarrow>
                 (case os_call f' of
                    (Inl err, f'') \<Rightarrow> (Inl (Wrap ''syncing WAL'' err), w1\<lparr>wal_writer := b', wal_file := f''\<rparr>)
                  | (Inr _, f'') \<Rightarrow> (Inr (), w1\<lparr>wal_writer := b', wal_file := f''\<rparr>))))"

definition wal_ReadAllRecords :: "Wal \<Rightarrow> u64 \<Rightarrow> Record list result \<times> Wal" where
  "wal_ReadAllRecords w afterLSN =
     (case bw_Flush (wal_writer w) (wal_file w) of
        (Inl err, b, f) \<Rightarrow> (Inl err, w\<lparr>wal_writer := b, wal_file := f\<rparr>)
      | (Inr _, b, f) \<Rightarrow>
          (case os_call f of
             (Inl err, f') \<Rightarrow> (Inl (Wrap ''opening journal for read'' err), w\<lparr>wal_writer := b, wal_file := f'\<rparr>)
           | (Inr _, f') \<Rightarrow> (wal_readRecords (file_reader f') afterLSN, w\<lparr>wal_writer := b, wal_file := f'\<rparr>)))"

definition wal_Close :: "Wal \<Rightarrow> unit result \<times> Wal" where
  "wal_Close w =
     (case wal_GroupCommit w of
        (Inl err, w1) \<Rightarrow> (Inl err, w1)
      | (Inr _, w1) \<Rightarrow> (case os_call (wal_file w1) of (r, f) \<Rightarrow> (r, w1\<lparr>wal_file := f\<rparr>)))"

definition WriteCheckpoint :: "int \<Rightarrow> Wal \<Rightarrow> L2PTable \<Rightarrow> unit result \<times> Wal" where
  "WriteCheckpoint now w l2p =
     (case wal_nextLSN w of
        (lsn, w1) \<Rightarrow>
          let entries = L2P_Snapshot l2p;
              cpRec = \<lparr>cp_Record = \<lparr>rec_Type = RecordTypeCheckpoint, rec_LSN = lsn, rec_SegmentID = 0,
                                     rec_OldPhysAddr = 0, rec_NewPhysAddr = 0, rec_Timestamp = of_int now\<rparr>,
                       cp_L2PTableLen = of_nat (length entries), cp_L2PEntries = entries\<rparr>
          in wal_GroupCommit (w1\<lparr>wal_pending := wal_pending w1 @ [wal_frame (Checkpoint_MarshalBinary cpRec)]\<rparr>))"

section \<open>What reaches the file\<close>

text \<open>
  A successful sequence of writes appends to the file and the buffer together; a failing one leaves a
  prefix of it in the file.
\<close>

definition torn :: "bytes \<Rightarrow> os_file \<Rightarrow> os_file \<Rightarrow> bool" where
  "torn p f f' \<longleftrightarrow> f_readErr f' = f_readErr f \<and> (\<exists>k. f_content f' = f_content f @ take k p)"

definition appended :: "bufWriter \<Rightarrow> os_file \<Rightarrow> bytes \<Rightarrow> bufWriter \<Rightarrow> os_file \<Rightarrow> bool" where
  "appended b f p b' f' \<longleftrightarrow> bw_err b' = None \<and> bw_size b' = bw_size b \<and> torn (bw_buf b @ p) f f' \<and>
     f_content f' @ bw_buf b' = f_content f @ bw_buf b @ p"

lemma tornI: "f_readErr f' = f_readErr f \<Longrightarrow> f_content f' = f_content f @ take k p \<Longrightarrow> torn p f f'"
  by (auto simp: torn_def)

lemma torn_all: "f_readErr f' = f_readErr f \<Longrightarrow> f_content f' = f_content f @ p \<Longrightarrow> torn p f f'"
  by (rule tornI [where k = "length p"]) simp_all

lemma torn_none: "f_readErr f' = f_readErr f \<Longrightarrow> f_content f' = f_content f \<Longrightarrow> torn p f f'"
  by (rule tornI [where k = 0]) simp_all

lemma torn_more: "torn p f f' \<Longrightarrow> torn (p @ q) f f'"
proof -
  assume "torn p f f'"
  then obtain k where "f_readErr f' = f_readErr f" "f_content f' = f_content f @ take k p" by (auto simp: torn_def)
  moreover have "take k p = take (min k (length p)) (p @ q)" by (simp add: min_def)
  ultimately show ?thesis by (metis tornI)
qed

lemma appended_torn:
  assumes "appended b f p b' f'" and "torn (bw_buf b' @ q) f' f''"
  shows "torn (bw_buf b @ p @ q) f f''"
proof -
  obtain k where k: "f_content f'' = f_content f' @ take k (bw_buf b' @ q)" "f_readErr f'' = f_readErr f'"
    using assms(2) by (auto simp: torn_def)
  have c: "f_content f' @ bw_buf b' = f_content f @ bw_buf b @ p" and t: "torn (bw_buf b @ p) f f'"
    using assms(1) by (auto simp: appended_def)
  let ?n = "length (f_content f')" and ?m = "length (f_content f)"
  have "f_content f'' = take (?n + k) (f_content f @ bw_buf b @ p @ q)"
    using k(1) arg_cong [OF c, of "\<lambda>l. take (?n + k) (l @ q)"] by simp
  moreover have "?m \<le> ?n" using t by (auto simp: torn_def)
  ultimately have "f_content f'' = f_content f @ take (?n + k - ?m) (bw_buf b @ p @ q)" by simp
  then show ?thesis using k(2) t by (intro tornI) (auto simp: torn_def)
qed

lemma appended_trans: "appended b f p b1 f1 \<Longrightarrow> appended b1 f1 q b2 f2 \<Longrightarrow> appended b f (p @ q) b2 f2"
  using appended_torn [of b f p b1 f1 q f2] by (auto simp: appended_def)

lemma os_call_content: "os_call f = (r, f') \<Longrightarrow> f_content f' = f_content f \<and> f_readErr f' = f_readErr f"
  by (auto simp: os_call_def split: list.splits option.splits)

lemma os_Write_cases:
  assumes "os_Write f p = (r, f')"
  shows "torn p f f'" and "r = Inr () \<Longrightarrow> f_content f' = f_content f @ p"
  using assms
  by (auto simp: os_Write_def intro: torn_all tornI split: list.splits option.splits prod.splits)

lemma bw_Flush_cases:
  assumes "bw_Flush b f = (r, b', f')"
  shows "torn (bw_buf b) f f'" and "r = Inr () \<Longrightarrow> bw_buf b' = [] \<and> appended b f [] b' f'"
    and "r = Inl err \<Longrightarrow> bw_err b' = Some err"
  using assms os_Write_cases [of f "bw_buf b"]
  by (auto simp: bw_Flush_def appended_def intro: torn_none split: option.splits if_splits prod.splits sum.splits)

lemma bw_Write_cases:
  assumes "bw_Write b f p = (r, b', f')"
  shows "torn (bw_buf b @ p) f f' \<and> (r = Inr () \<longrightarrow> appended b f p b' f') \<and> (\<forall>err. r = Inl err \<longrightarrow> bw_err b' = Some err)"
  using assms
proof (induction b f p arbitrary: r b' f' rule: bw_Write.induct)
  case (1 b f p)
  let ?n = "bw_size b - length (bw_buf b)" and ?b1 = "b\<lparr>bw_buf := bw_buf b @ take (bw_size b - length (bw_buf b)) p\<rparr>"
  note w = "1.prems" [unfolded bw_Write.simps [of b f p]]
  consider (err) err where "bw_err b = Some err" | (fits) "bw_err b = None" "length p \<le> ?n"
    | (direct) "bw_err b = None" "\<not> length p \<le> ?n" "bw_buf b = []"
    | (fill) "bw_err b = None" "\<not> length p \<le> ?n" "bw_buf b \<noteq> []" by (cases "bw_err b") blast+
  then show ?case
  proof cases
    case err
    then show ?thesis using w by (auto intro: torn_none)
  next
    case fits
    then show ?thesis using w by (auto simp: appended_def intro: torn_none)
  next
    case direct
    obtain r1 f1 where o: "os_Write f p = (r1, f1)" by fastforce
    then show ?thesis
      using direct w os_Write_cases [OF o] by (auto simp: appended_def split: sum.splits)
  next
    case fill
    obtain r1 b1 f1 where fl: "bw_Flush ?b1 f = (r1, b1, f1)" by (metis prod_cases3)
    note fc = bw_Flush_cases [OF fl]
    show ?thesis
    proof (cases r1)
      case (Inl err)
      have "torn ((bw_buf b @ take ?n p) @ drop ?n p) f f1" by (rule torn_more) (use fc(1) in simp)
      then show ?thesis using Inl fill w fl fc(3) by (auto simp: Let_def)
    next
      case (Inr u)
      have ap: "appended b f (take ?n p) b1 f1" using fc(2) Inr by (auto simp: appended_def)
      have rec: "bw_Write b1 f1 (drop ?n p) = (r, b', f')" using w fill fl Inr by (simp add: Let_def)
      have eq: "(Inr u, b1, f1) = bw_Flush ?b1 f" "(b1, f1) = (b1, f1)" using fl Inr by simp_all
      have "torn (bw_buf b1 @ drop ?n p) f1 f' \<and> (r = Inr () \<longrightarrow> appended b1 f1 (drop ?n p) b' f') \<and>
          (\<forall>err. r = Inl err \<longrightarrow> bw_err b' = Some err)"
        using "1.IH" [OF fill(1,2,3) refl eq(1) refl refl rec] .
      then show ?thesis
        using appended_torn [OF ap] appended_trans [OF ap] by (metis append_take_drop_id)
    qed
  qed
qed

lemma wal_writeAll_cases:
  assumes "wal_writeAll ps b f = (r, b', f')"
  shows "torn (bw_buf b @ concat ps) f f' \<and> (r = Inr () \<longrightarrow> bw_err b = None \<longrightarrow> appended b f (concat ps) b' f')"
  using assms
proof (induction ps arbitrary: b f)
  case Nil
  then show ?case by (auto simp: appended_def intro: torn_none)
next
  case (Cons p ps)
  obtain r1 b1 f1 where w: "bw_Write b f p = (r1, b1, f1)" by (metis prod_cases3)
  note c = bw_Write_cases [OF w]
  show ?case
  proof (cases r1)
    case (Inl err)
    have "torn ((bw_buf b @ p) @ concat ps) f f1" by (rule torn_more) (use c in simp)
    then show ?thesis using Inl Cons.prems w by auto
  next
    case (Inr u)
    then have ap: "appended b f p b1 f1" using c by simp
    have "wal_writeAll ps b1 f1 = (r, b', f')" using Cons.prems w Inr by simp
    from Cons.IH [OF this] show ?thesis
      using appended_torn [OF ap] appended_trans [OF ap] ap by (auto simp: appended_def)
  qed
qed

text \<open>When the file system does not fail, nothing does.\<close>

definition faultless :: "bufWriter \<Rightarrow> os_file \<Rightarrow> bool" where
  "faultless b f \<longleftrightarrow> f_script f = [] \<and> bw_err b = None"

lemma bw_Flush_faultless: "faultless b f \<Longrightarrow> \<exists>b' f'. bw_Flush b f = (Inr (), b', f') \<and> faultless b' f'"
  by (simp add: faultless_def bw_Flush_def os_Write_def)

lemma bw_Write_faultless: "faultless b f \<Longrightarrow> \<exists>b' f'. bw_Write b f p = (Inr (), b', f') \<and> faultless b' f'"
proof (induction b f p rule: bw_Write.induct)
  case (1 b f p)
  let ?n = "bw_size b - length (bw_buf b)" and ?b1 = "b\<lparr>bw_buf := bw_buf b @ take (bw_size b - length (bw_buf b)) p\<rparr>"
  have e: "bw_err b = None" "f_script f = []" using "1.prems" by (auto simp: faultless_def)
  show ?case
  proof (cases "length p \<le> ?n \<or> bw_buf b = []")
    case True
    then show ?thesis using e by (subst bw_Write.simps) (auto simp: os_Write_def faultless_def)
  next
    case False
    have "faultless ?b1 f" using "1.prems" by (simp add: faultless_def)
    then obtain b1 f1 where fl: "bw_Flush ?b1 f = (Inr (), b1, f1)" "faultless b1 f1" using bw_Flush_faultless by blast
    have "\<exists>b' f'. bw_Write b1 f1 (drop ?n p) = (Inr (), b', f') \<and> faultless b' f'"
      using "1.IH" [OF e(1) _ _ refl fl(1) [symmetric] refl refl fl(2)] False by simp
    then show ?thesis using False e fl(1) by (subst bw_Write.simps) (auto simp: Let_def)
  qed
qed

lemma wal_writeAll_faultless: "faultless b f \<Longrightarrow> \<exists>b' f'. wal_writeAll ps b f = (Inr (), b', f') \<and> faultless b' f'"
proof (induction ps arbitrary: b f)
  case (Cons p ps)
  obtain b1 f1 where "bw_Write b f p = (Inr (), b1, f1)" "faultless b1 f1" using bw_Write_faultless [OF Cons.prems] by blast
  then show ?case using Cons.IH by simp
qed simp

lemma wal_GroupCommit_faultless:
  assumes "faultless (wal_writer w) (wal_file w)"
  shows "\<exists>w'. wal_GroupCommit w = (Inr (), w') \<and> faultless (wal_writer w') (wal_file w')"
proof -
  obtain b f where w: "wal_writeAll (wal_pending w) (wal_writer w) (wal_file w) = (Inr (), b, f)" "faultless b f"
    using wal_writeAll_faultless [OF assms] by blast
  obtain b1 f1 where fl: "bw_Flush b f = (Inr (), b1, f1)" "faultless b1 f1" using bw_Flush_faultless [OF w(2)] by blast
  then show ?thesis using w assms by (auto simp: wal_GroupCommit_def os_call_def faultless_def)
qed

section \<open>The file as a list of entries\<close>

datatype log_entry = Plain Record | Check CheckpointRecord

fun entry_bytes :: "log_entry \<Rightarrow> bytes" where
  "entry_bytes (Plain r) = Record_MarshalBinary r"
| "entry_bytes (Check c) = Checkpoint_MarshalBinary c"

text \<open>The header that every scan sees.\<close>

fun entry_rec :: "log_entry \<Rightarrow> Record" where
  "entry_rec (Plain r) = r"
| "entry_rec (Check c) = (cp_Record c)\<lparr>rec_SegmentID := cp_L2PTableLen c\<rparr>"

text \<open>Entries the journal writes, up to the 100 MiB that the record scan accepts.\<close>

fun entry_ok :: "log_entry \<Rightarrow> bool" where
  "entry_ok (Plain r) \<longleftrightarrow> rec_Type r \<noteq> RecordTypeCheckpoint"
| "entry_ok (Check c) \<longleftrightarrow> rec_Type (cp_Record c) = RecordTypeCheckpoint \<and>
     cp_L2PTableLen c = of_nat (length (cp_L2PEntries c)) \<and>
     baseRecordSize + 8 * length (cp_L2PEntries c) \<le> 100 * 1024 * 1024"

definition log_bytes :: "log_entry list \<Rightarrow> bytes" where
  "log_bytes es = concat (map (\<lambda>e. wal_frame (entry_bytes e)) es)"

lemma log_bytes_simps [simp]:
  "log_bytes [] = []" "log_bytes (e # es) = wal_frame (entry_bytes e) @ log_bytes es"
  "log_bytes (es @ fs) = log_bytes es @ log_bytes fs"
  by (simp_all add: log_bytes_def)

lemma entry_decodes: "Record_UnmarshalBinary (entry_bytes e) = Inr (entry_rec e)"
  using record_decodes [where rest = "[]"]
  by (cases e) (simp_all add: Checkpoint_MarshalBinary_def record_decodes)

lemma length_entry_bytes:
  "baseRecordSize \<le> length (entry_bytes e)" "entry_ok e \<Longrightarrow> length (entry_bytes e) \<le> 100 * 1024 * 1024"
  by (cases e; simp add: Checkpoint_MarshalBinary_def)+

lemma length_wal_frame [simp]: "length (wal_frame data) = 4 + length data"
  by (simp add: wal_frame_def)

text \<open>The first frame of a file as the scans take it apart.\<close>

lemma ReadFull_frame:
  assumes "length data < 2 ^ 32"
  shows "io_ReadFull (wal_frame data @ rest, t) 4 = Inr (put_u32 (of_nat (length data)), (data @ rest, t))"
    and "io_ReadFull (data @ rest, t) (length data) = Inr (data, (rest, t))"
    and "unat (get_u32 (put_u32 (of_nat (length data)))) = length data"
  using assms by (simp_all add: io_ReadFull_def wal_frame_def unat_of_nat)

lemma ReadFull_torn:
  assumes "k < 4 + length data" and "length data < 2 ^ 32"
  shows "(k < 4 \<and> io_ReadFull (take k (wal_frame data), t) 4 = Inl t) \<or>
    (io_ReadFull (take k (wal_frame data), t) 4 = Inr (put_u32 (of_nat (length data)), (take (k - 4) data, t)) \<and>
     io_ReadFull (take (k - 4) data, t) (length data) = Inl t)"
  using assms by (auto simp: io_ReadFull_def wal_frame_def min_def)

lemma readRecords_entry:
  assumes "entry_ok e"
  shows "wal_readRecords (wal_frame (entry_bytes e) @ rest, t) a =
    map_sum id (\<lambda>rs. if rec_LSN (entry_rec e) > a then entry_rec e # rs else rs) (wal_readRecords (rest, t) a)"
proof -
  have l: "length (entry_bytes e) < 2 ^ 32" "baseRecordSize \<le> length (entry_bytes e)" "length (entry_bytes e) \<le> 100 * 1024 * 1024"
    using length_entry_bytes [of e] assms by simp_all
  show ?thesis
    by (subst wal_readRecords.simps)
      (use l in \<open>simp add: ReadFull_frame [OF l(1)] Let_def entry_decodes del: be_get_put split: sum.splits\<close>)
qed

lemma readRecords_torn:
  assumes "entry_ok e" and "k < 4 + length (entry_bytes e)"
  shows "wal_readRecords (take k (wal_frame (entry_bytes e)), None) a = Inr []"
proof -
  have l: "length (entry_bytes e) < 2 ^ 32" using length_entry_bytes(2) [OF assms(1)] by simp
  show ?thesis
    using ReadFull_torn [OF assms(2) l, of None]
    by (subst wal_readRecords.simps) (auto simp: ReadFull_frame(3) [OF l] Let_def simp del: be_get_put)
qed

lemma readRecords_log:
  "list_all entry_ok es \<Longrightarrow> wal_readRecords (log_bytes es @ rest, t) a =
     map_sum id ((@) (filter (\<lambda>r. rec_LSN r > a) (map entry_rec es))) (wal_readRecords (rest, t) a)"
proof (induction es)
  case Nil
  then show ?case by (cases "wal_readRecords (rest, t) a") simp_all
next
  case (Cons e es)
  then show ?case
    by (cases "wal_readRecords (rest, t) a") (simp_all add: readRecords_entry)
qed

text \<open>Any prefix of a log is a shorter log followed by a torn frame.\<close>

lemma log_prefix:
  "\<exists>n j. take k (log_bytes es) = log_bytes (take n es) @ take j (log_bytes (take 1 (drop n es))) \<and> n \<le> length es \<and>
     (n < length es \<longrightarrow> j < 4 + length (entry_bytes (es ! n)))"
proof (induction es arbitrary: k)
  case (Cons e es)
  show ?case
  proof (cases "k < 4 + length (entry_bytes e)")
    case True
    then show ?thesis by (intro exI [of _ 0] exI [of _ k]) simp
  next
    case False
    obtain n j where "take (k - (4 + length (entry_bytes e))) (log_bytes es) =
        log_bytes (take n es) @ take j (log_bytes (take 1 (drop n es)))"
      "n \<le> length es" "n < length es \<longrightarrow> j < 4 + length (entry_bytes (es ! n))" using Cons.IH by blast
    then show ?thesis using False by (intro exI [of _ "Suc n"] exI [of _ j]) simp
  qed
qed simp

lemma readRecords_prefix:
  assumes "list_all entry_ok es"
  shows "\<exists>n \<le> length es. wal_readRecords (take k (log_bytes es), None) a =
    Inr (filter (\<lambda>r. rec_LSN r > a) (map entry_rec (take n es)))"
proof -
  obtain n j where n: "take k (log_bytes es) = log_bytes (take n es) @ take j (log_bytes (take 1 (drop n es)))"
    "n \<le> length es" "n < length es \<longrightarrow> j < 4 + length (entry_bytes (es ! n))" using log_prefix by blast
  have ok: "list_all entry_ok (take n es)" using assms by (metis append_take_drop_id list_all_append)
  have "wal_readRecords (take j (log_bytes (take 1 (drop n es))), None) a = Inr []"
  proof (cases "n < length es")
    case True
    then have "take 1 (drop n es) = [es ! n]" by (metis Cons_nth_drop_Suc One_nat_def take_Suc_Cons take_0)
    then show ?thesis using readRecords_torn n(3) True assms by (simp add: list_all_length)
  next
    case False
    then show ?thesis by (subst wal_readRecords.simps) (simp add: io_ReadFull_def)
  qed
  then show ?thesis using n readRecords_log [OF ok] by (intro exI [of _ n]) simp
qed

text \<open>The scan for the highest LSN.\<close>

lemma scanMaxLSN_entry:
  assumes "entry_ok e"
  shows "wal_scanMaxLSN (wal_frame (entry_bytes e) @ rest, t) m = wal_scanMaxLSN (rest, t) (max m (rec_LSN (entry_rec e)))"
proof -
  have l: "length (entry_bytes e) < 2 ^ 32" "baseRecordSize \<le> length (entry_bytes e)"
    using length_entry_bytes [of e] assms by simp_all
  show ?thesis
    by (subst wal_scanMaxLSN.simps)
      (use l in \<open>auto simp: ReadFull_frame [OF l(1)] Let_def entry_decodes max_def simp del: be_get_put\<close>)
qed

lemma scanMaxLSN_torn:
  assumes "entry_ok e" and "k < 4 + length (entry_bytes e)"
  shows "wal_scanMaxLSN (take k (wal_frame (entry_bytes e)), None) m = Inr m"
proof -
  have l: "length (entry_bytes e) < 2 ^ 32" using length_entry_bytes(2) [OF assms(1)] by simp
  show ?thesis
    using ReadFull_torn [OF assms(2) l, of None]
    by (subst wal_scanMaxLSN.simps) (auto simp: ReadFull_frame(3) [OF l] Let_def simp del: be_get_put)
qed

lemma scanMaxLSN_log:
  "list_all entry_ok es \<Longrightarrow> wal_scanMaxLSN (log_bytes es @ rest, t) m =
     wal_scanMaxLSN (rest, t) (fold (\<lambda>e. max (rec_LSN (entry_rec e))) es m)"
  by (induction es arbitrary: m) (simp_all add: scanMaxLSN_entry max.commute)

text \<open>The scan for the latest checkpoint.\<close>

definition later :: "CheckpointRecord option \<Rightarrow> CheckpointRecord \<Rightarrow> CheckpointRecord option" where
  "later latest c =
     (case latest of None \<Rightarrow> Some c | Some l \<Rightarrow> if rec_LSN (cp_Record c) > rec_LSN (cp_Record l) then Some c else latest)"

fun latest_entry :: "log_entry list \<Rightarrow> CheckpointRecord option \<Rightarrow> CheckpointRecord option" where
  "latest_entry [] l = l"
| "latest_entry (Plain r # es) l = latest_entry es l"
| "latest_entry (Check c # es) l = latest_entry es (later l (c\<lparr>cp_Record := (cp_Record c)\<lparr>rec_SegmentID := cp_L2PTableLen c\<rparr>\<rparr>))"

lemma entry_bytes_8: "entry_bytes e ! 8 = rec_Type (entry_rec e)"
  using Record_UnmarshalBinary_ok(2) [OF entry_decodes] by simp

lemma latestCheckpoint_entry:
  assumes "entry_ok e"
  shows "wal_latestCheckpoint (wal_frame (entry_bytes e) @ rest, t) l = wal_latestCheckpoint (rest, t) (latest_entry [e] l)"
proof -
  have l: "length (entry_bytes e) < 2 ^ 32" "baseRecordSize \<le> length (entry_bytes e)" "length (entry_bytes e) \<le> 100 * 1024 * 1024"
    using length_entry_bytes [of e] assms by simp_all
  show ?thesis
  proof (cases e)
    case (Plain r)
    then have "entry_bytes e ! 8 \<noteq> RecordTypeCheckpoint" "latest_entry [e] l = l"
      using assms entry_bytes_8 [of e] by simp_all
    then show ?thesis
      by (subst wal_latestCheckpoint.simps) (use l in \<open>simp add: ReadFull_frame [OF l(1)] Let_def del: be_get_put\<close>)
  next
    case (Check c)
    let ?c = "c\<lparr>cp_Record := (cp_Record c)\<lparr>rec_SegmentID := cp_L2PTableLen c\<rparr>\<rparr>"
    have "Checkpoint_UnmarshalBinary (entry_bytes e) = Some (Inr ?c)" "entry_bytes e ! 8 = RecordTypeCheckpoint"
      "latest_entry [e] l = later l ?c"
      using Check assms entry_bytes_8 [of e] checkpoint_decodes [of "cp_L2PEntries c" c] by simp_all
    then show ?thesis
      by (subst wal_latestCheckpoint.simps)
        (use l in \<open>simp add: ReadFull_frame [OF l(1)] Let_def later_def del: be_get_put\<close>)
  qed
qed

lemma latestCheckpoint_log:
  "list_all entry_ok es \<Longrightarrow> wal_latestCheckpoint (log_bytes es @ rest, t) l = wal_latestCheckpoint (rest, t) (latest_entry es l)"
proof (induction es arbitrary: l)
  case (Cons e es)
  then show ?case by (cases e) (simp_all add: latestCheckpoint_entry del: entry_bytes.simps)
qed simp

lemma latestCheckpoint_torn:
  assumes "entry_ok e" and "k < 4 + length (entry_bytes e)"
  shows "wal_latestCheckpoint (take k (wal_frame (entry_bytes e)), None) m = Some (Inr m)"
proof -
  have l: "length (entry_bytes e) < 2 ^ 32" using length_entry_bytes(2) [OF assms(1)] by simp
  show ?thesis
    using ReadFull_torn [OF assms(2) l, of None]
    by (subst wal_latestCheckpoint.simps) (auto simp: ReadFull_frame(3) [OF l] Let_def simp del: be_get_put)
qed

lemma scans_at_end:
  "wal_readRecords ([], None) a = Inr []" "wal_scanMaxLSN ([], None) m = Inr m" "wal_latestCheckpoint ([], None) l = Some (Inr l)"
  by (simp_all add: wal_readRecords.simps wal_scanMaxLSN.simps wal_latestCheckpoint.simps io_ReadFull_def)

section \<open>The state as committed and pending entries\<close>

text \<open>\<open>es\<close> are in the file, \<open>ps\<close> are pending; their LSNs increase and the journal's counter has reached them all.\<close>

definition wal_rep :: "Wal \<Rightarrow> log_entry list \<Rightarrow> log_entry list \<Rightarrow> bool" where
  "wal_rep w es ps \<longleftrightarrow>
     f_content (wal_file w) = log_bytes es \<and> f_readErr (wal_file w) = None \<and>
     bw_buf (wal_writer w) = [] \<and> bw_err (wal_writer w) = None \<and>
     wal_pending w = map (\<lambda>e. wal_frame (entry_bytes e)) ps \<and> list_all entry_ok (es @ ps) \<and>
     sorted_wrt (<) (map (\<lambda>e. rec_LSN (entry_rec e)) (es @ ps)) \<and>
     list_all (\<lambda>e. 0 < rec_LSN (entry_rec e) \<and> rec_LSN (entry_rec e) \<le> wal_lsn w) (es @ ps)"

lemma wal_rep_add:
  assumes "wal_rep w es ps" and "entry_ok e" and "rec_LSN (entry_rec e) = wal_lsn w + 1" and "wal_lsn w \<noteq> - 1"
  shows "wal_rep (w\<lparr>wal_lsn := wal_lsn w + 1, wal_pending := wal_pending w @ [wal_frame (entry_bytes e)]\<rparr>) es (ps @ [e])"
proof -
  have lt: "wal_lsn w < wal_lsn w + 1" using assms(4) by (simp add: word_less_nat_alt unat_inc)
  have "l < wal_lsn w + 1" if "l \<le> wal_lsn w" for l using that lt by (rule le_less_trans)
  moreover have "0 < wal_lsn w + 1" using lt by (metis word_coorder.not_eq_extremum word_not_simps(1))
  ultimately have "\<And>l. l \<le> wal_lsn w \<Longrightarrow> l < wal_lsn w + 1" "0 < wal_lsn w + 1" by auto
  then show ?thesis
    using assms by (auto simp: wal_rep_def list_all_iff sorted_wrt_append less_imp_le)
qed

text \<open>Every logging call appends one entry with the next LSN.\<close>

lemma wal_log_rep:
  assumes "wal_rep w es ps" and "wal_lsn w \<noteq> - 1"
  shows "\<exists>w'. wal_LogL2PUpdate now w g old new = (Inr (wal_lsn w + 1), w') \<and>
      wal_rep w' es (ps @ [Plain \<lparr>rec_Type = RecordTypeL2PUpdate, rec_LSN = wal_lsn w + 1, rec_SegmentID = g,
        rec_OldPhysAddr = old, rec_NewPhysAddr = new, rec_Timestamp = of_int now\<rparr>])"
    and "t \<noteq> RecordTypeCheckpoint \<Longrightarrow> \<exists>w'. wal_logZoneAction now t w z = (Inr (), w') \<and>
      wal_rep w' es (ps @ [Plain \<lparr>rec_Type = t, rec_LSN = wal_lsn w + 1, rec_SegmentID = z,
        rec_OldPhysAddr = 0, rec_NewPhysAddr = 0, rec_Timestamp = of_int now\<rparr>])"
  using wal_rep_add [OF assms(1) _ _ assms(2), of "Plain r" for r]
  by (simp_all add: wal_LogL2PUpdate_def wal_logZoneAction_def wal_nextLSN_def wal_appendRecord_def
      RecordTypeL2PUpdate_def RecordTypeCheckpoint_def)

lemma concat_log: "concat (map (\<lambda>e. wal_frame (entry_bytes e)) es) = log_bytes es"
  by (simp add: log_bytes_def)

lemma wal_GroupCommit_file:
  assumes rep: "wal_rep w es ps" and c: "wal_GroupCommit w = (r, w')"
  shows "torn (log_bytes ps) (wal_file w) (wal_file w') \<and> (r = Inr () \<longrightarrow> wal_rep w' (es @ ps) [])"
proof (cases "ps = []")
  case True
  then have "w' = w" using rep c by (auto simp: wal_GroupCommit_def wal_rep_def)
  then show ?thesis using rep True by (auto intro: torn_none)
next
  case False
  obtain r1 b f where w: "wal_writeAll (wal_pending w) (wal_writer w) (wal_file w) = (r1, b, f)" by (metis prod_cases3)
  note wc = wal_writeAll_cases [OF w]
  have p: "concat (wal_pending w) = log_bytes ps" "wal_pending w \<noteq> []" "bw_buf (wal_writer w) = []" "bw_err (wal_writer w) = None"
    using rep False by (auto simp: wal_rep_def concat_log)
  show ?thesis
  proof (cases r1)
    case (Inl err)
    then show ?thesis using c w wc p by (auto simp: wal_GroupCommit_def)
  next
    case (Inr u)
    then have ap: "appended (wal_writer w) (wal_file w) (log_bytes ps) b f" using wc p by simp
    obtain r2 b2 f2 where fl: "bw_Flush b f = (r2, b2, f2)" by (metis prod_cases3)
    obtain r3 f3 where sy: "os_call f2 = (r3, f3)" by fastforce
    note f3 = os_call_content [OF sy]
    have t: "torn (log_bytes ps) (wal_file w) f2"
      using appended_torn [OF ap, of "[]" f2] bw_Flush_cases(1) [OF fl] p by simp
    have "appended (wal_writer w) (wal_file w) (log_bytes ps) b2 f2 \<and> bw_buf b2 = []" if "r2 = Inr ()"
      using appended_trans [OF ap, of "[]" b2 f2] bw_Flush_cases(2) [OF fl that] by simp
    then have "wal_rep (w\<lparr>wal_pending := [], wal_writer := b2, wal_file := f3\<rparr>) (es @ ps) []" if "r2 = Inr ()"
      using that rep p f3 by (auto simp: wal_rep_def appended_def torn_def)
    then show ?thesis
      using c w Inr p fl sy t f3
      by (cases r2; cases r3) (auto simp: wal_GroupCommit_def Let_def torn_def)
  qed
qed

section \<open>Properties\<close>

text \<open>
  A successful \<^verbatim>\<open>GroupCommit\<close> makes every pending entry durable, after the ones already in the file and in order:
  the file then reads back as exactly the logged records, whether or not they passed through the buffered writer.
\<close>

theorem wal_commit_durable:
  assumes "wal_rep w es ps" and "wal_GroupCommit w = (Inr (), w')"
  shows "wal_rep w' (es @ ps) [] \<and>
    wal_readRecords (file_reader (wal_file w')) a = Inr (filter (\<lambda>r. rec_LSN r > a) (map entry_rec (es @ ps)))"
proof -
  have rep: "wal_rep w' (es @ ps) []" using wal_GroupCommit_file [OF assms] by simp
  then show ?thesis
    using readRecords_log [of "es @ ps" "[]" None a] by (simp add: wal_rep_def file_reader_def scans_at_end)
qed

text \<open>A journal on an empty file, and the same with one record pending.\<close>

definition wal_demo :: Wal where
  "wal_demo = \<lparr>wal_file = \<lparr>f_content = [], f_script = [], f_readErr = None\<rparr>,
     wal_writer = \<lparr>bw_buf = [], bw_size = 64 * 1024, bw_err = None\<rparr>, wal_lsn = 0, wal_pending = [], wal_path = ''wal''\<rparr>"

lemma wal_demo_rep: "wal_rep wal_demo [] []"
  by (simp add: wal_rep_def wal_demo_def)

theorem wal_commit_durable_witness:
  "\<exists>w' r. wal_GroupCommit (snd (wal_LogL2PUpdate 0 wal_demo 3 0 9)) = (Inr (), w') \<and>
     wal_readRecords (file_reader (wal_file w')) 0 = Inr [r] \<and> rec_NewPhysAddr r = 9"
proof -
  let ?w = "snd (wal_LogL2PUpdate 0 wal_demo 3 0 9)"
  obtain r where rep: "wal_rep ?w [] [Plain r]" "rec_LSN r = 1" "rec_NewPhysAddr r = 9"
    using wal_log_rep(1) [OF wal_demo_rep, of 0 3 0 9] by (auto simp: wal_demo_def)
  obtain w' where c: "wal_GroupCommit ?w = (Inr (), w')"
    using wal_GroupCommit_faultless [of ?w]
    by (auto simp: wal_LogL2PUpdate_def wal_nextLSN_def wal_appendRecord_def wal_demo_def faultless_def)
  show ?thesis using c wal_commit_durable [OF rep(1) c, of 0] rep by auto
qed

text \<open>
  C17: whatever the file system does during a \<^verbatim>\<open>GroupCommit\<close> (writes cut short, failed syncs, a crash in between), what
  can be read back afterwards is everything committed before and a prefix of the pending entries: no gap, nothing
  torn, nothing reordered.
\<close>

theorem wal_crash_prefix:
  assumes "wal_rep w es ps" and "wal_GroupCommit w = (r, w')"
  shows "\<exists>n \<le> length ps. wal_readRecords (file_reader (wal_file w')) a =
    Inr (filter (\<lambda>r. rec_LSN r > a) (map entry_rec (es @ take n ps)))"
proof -
  obtain k where k: "f_content (wal_file w') = log_bytes es @ take k (log_bytes ps)" "f_readErr (wal_file w') = None"
    using wal_GroupCommit_file [OF assms] assms(1) by (auto simp: torn_def wal_rep_def)
  have ok: "list_all entry_ok es" "list_all entry_ok ps" using assms(1) by (auto simp: wal_rep_def)
  obtain n where "n \<le> length ps" "wal_readRecords (take k (log_bytes ps), None) a =
      Inr (filter (\<lambda>r. rec_LSN r > a) (map entry_rec (take n ps)))"
    using readRecords_prefix [OF ok(2)] by blast
  then show ?thesis
    using k readRecords_log [OF ok(1)] by (intro exI [of _ n]) (simp add: file_reader_def)
qed

theorem wal_crash_prefix_witness:
  "\<exists>n \<le> 1. \<exists>r. wal_readRecords (file_reader (wal_file (snd (wal_GroupCommit (snd (wal_LogL2PUpdate 0
     (wal_demo\<lparr>wal_file := \<lparr>f_content = [], f_script = [Some (20, Errorf ''no space'')], f_readErr = None\<rparr>\<rparr>) 3 0 9)))))) 0 =
     Inr (take n [r])"
proof -
  let ?d = "wal_demo\<lparr>wal_file := \<lparr>f_content = [], f_script = [Some (20, Errorf ''no space'')], f_readErr = None\<rparr>\<rparr>"
  have "wal_rep ?d [] []" by (simp add: wal_rep_def wal_demo_def)
  then obtain r where rep: "wal_rep (snd (wal_LogL2PUpdate 0 ?d 3 0 9)) [] [Plain r]" "rec_LSN r = 1"
    using wal_log_rep(1) [of ?d "[]" "[]" 0 3 0 9] by (auto simp: wal_demo_def)
  show ?thesis
    using wal_crash_prefix [OF rep(1) prod.collapse [symmetric], of 0] rep(2)
    by (auto simp: take_map filter_True take_Cons' intro!: exI [of _ r] split: if_splits)
qed

text \<open>
  On a file system that does not fail, \<^verbatim>\<open>GroupCommit\<close> returns success and leaves nothing pending.
\<close>

theorem wal_commit_succeeds:
  assumes "wal_rep w es ps" and "f_script (wal_file w) = []"
  shows "\<exists>w'. wal_GroupCommit w = (Inr (), w') \<and> wal_rep w' (es @ ps) [] \<and> f_script (wal_file w') = []"
proof -
  have "faultless (wal_writer w) (wal_file w)" using assms by (simp add: faultless_def wal_rep_def)
  then obtain w' where c: "wal_GroupCommit w = (Inr (), w')" "f_script (wal_file w') = []"
    using wal_GroupCommit_faultless by (auto simp: faultless_def)
  then show ?thesis using wal_GroupCommit_file [OF assms(1) c(1)] by auto
qed

theorem wal_commit_succeeds_witness: "\<exists>w'. wal_GroupCommit wal_demo = (Inr (), w') \<and> wal_rep w' [] []"
proof -
  have "f_script (wal_file wal_demo) = []" by (simp add: wal_demo_def)
  from wal_commit_succeeds [OF wal_demo_rep this] show ?thesis by auto
qed

lemma fold_max_ge: "list_all (\<lambda>e. rec_LSN (entry_rec e) \<le> fold (\<lambda>e. max (rec_LSN (entry_rec e))) es m) es"
proof -
  have m: "m \<le> fold (\<lambda>e. max (rec_LSN (entry_rec e))) es m" for es m
  proof (induction es arbitrary: m)
    case (Cons e es)
    from Cons [of "max (rec_LSN (entry_rec e)) m"] show ?case by (auto intro: order_trans)
  qed simp
  show ?thesis
  proof (induction es arbitrary: m)
    case (Cons e es)
    show ?case using Cons.IH [of "max (rec_LSN (entry_rec e)) m"] m [of "max (rec_LSN (entry_rec e)) m" es] by simp
  qed simp
qed

text \<open>
  Opening a journal after a crash, its last frame torn at any point, finds an LSN that no readable record exceeds:
  the LSNs handed out next are new and larger.
\<close>

theorem wal_open_fresh:
  assumes "list_all entry_ok (es @ [e])" and "k < length (wal_frame (entry_bytes e))"
    and "openFile path = Inr \<lparr>f_content = log_bytes es @ take k (wal_frame (entry_bytes e)), f_script = [], f_readErr = None\<rparr>"
  shows "\<exists>w. wal_Open openFile path = Inr w \<and> wal_pending w = [] \<and>
    list_all (\<lambda>x. rec_LSN (entry_rec x) \<le> wal_lsn w) es \<and>
    (wal_lsn w \<noteq> - 1 \<longrightarrow> list_all (\<lambda>x. rec_LSN (entry_rec x) < fst (wal_nextLSN w)) es)"
proof -
  let ?m = "fold (\<lambda>e. max (rec_LSN (entry_rec e))) es 0"
  have "wal_scanMaxLSN (log_bytes es @ take k (wal_frame (entry_bytes e)), None) 0 = Inr ?m"
    using assms(1,2) scanMaxLSN_log [of es] scanMaxLSN_torn [of e k] by simp
  then obtain w where w: "wal_Open openFile path = Inr w" "wal_pending w = []" "wal_lsn w = ?m"
    using assms(3) by (simp add: wal_Open_def os_call_def file_reader_def)
  have ge: "list_all (\<lambda>x. rec_LSN (entry_rec x) \<le> ?m) es" by (rule fold_max_ge)
  moreover have "?m < ?m + 1" if "?m \<noteq> - 1" using that by (simp add: word_less_nat_alt unat_inc)
  ultimately have "list_all (\<lambda>x. rec_LSN (entry_rec x) < ?m + 1) es" if "?m \<noteq> - 1"
    using that by (auto simp: list_all_iff intro: le_less_trans)
  then show ?thesis using w ge by (auto simp: wal_nextLSN_def)
qed

theorem wal_open_fresh_witness:
  "\<exists>w. wal_Open (\<lambda>p. Inr \<lparr>f_content = log_bytes [Plain (newRecord RecordTypeZoneOpen 7 0)] @
       take 30 (wal_frame (entry_bytes (Plain (newRecord RecordTypeZoneOpen 8 0)))), f_script = [], f_readErr = None\<rparr>) ''wal'' = Inr w \<and>
     7 \<le> wal_lsn w"
  using wal_open_fresh [of "[Plain (newRecord RecordTypeZoneOpen 7 0)]" "Plain (newRecord RecordTypeZoneOpen 8 0)" 30
      "\<lambda>p. Inr \<lparr>f_content = log_bytes [Plain (newRecord RecordTypeZoneOpen 7 0)] @
       take 30 (wal_frame (entry_bytes (Plain (newRecord RecordTypeZoneOpen 8 0)))), f_script = [], f_readErr = None\<rparr>" "''wal''"]
  by (auto simp: newRecord_def RecordTypeZoneOpen_def RecordTypeCheckpoint_def)

text \<open>
  The record scan gives up at the first frame longer than 100 MiB, while the checkpoint scan accepts frames
  up to 1 GiB: once a checkpoint of a table with more than about 13 million segments is in the file, no
  record behind it is replayed any more.
\<close>

theorem wal_big_checkpoint_hides:
  assumes "100 * 1024 * 1024 < length data" and "length data < 2 ^ 32"
  shows "wal_readRecords (wal_frame data @ rest, t) a = Inr []"
  by (subst wal_readRecords.simps)
    (use assms in \<open>simp add: ReadFull_frame [OF assms(2)] Let_def del: be_get_put\<close>)

theorem wal_big_checkpoint_hides_witness:
  "wal_readRecords (wal_frame (replicate 104857601 0) @ wal_frame (entry_bytes (Plain (newRecord RecordTypeZoneOpen 8 0))), None) 0 = Inr []"
  by (rule wal_big_checkpoint_hides) simp_all

text \<open>
  \<^verbatim>\<open>Open\<close> does not cut a torn frame off the file, and \<^verbatim>\<open>GroupCommit\<close> appends behind it. When a crash left one to three bytes
  of a frame, the scan reads them with the first bytes of the next frame as a length of 0 and stops: no record
  committed after the restart is ever read back.
\<close>

theorem wal_torn_tail_hides:
  assumes "list_all entry_ok es" and "0 < k" and "k < 4"
  shows "wal_readRecords (log_bytes es @ take k (wal_frame (Record_MarshalBinary r)) @ wal_frame (Record_MarshalBinary r') @ rest, t) a =
    Inr (filter (\<lambda>r. rec_LSN r > a) (map entry_rec es))"
proof -
  have p: "put_u32 49 = [0, 0, 0, 49]" by code_simp
  have f: "wal_frame (Record_MarshalBinary x) = [0, 0, 0, 49] @ Record_MarshalBinary x" for x
    by (simp add: wal_frame_def p)
  consider "k = 1" | "k = 2" | "k = 3" using assms(2,3) by linarith
  then have "\<exists>more. take k (wal_frame (Record_MarshalBinary r)) @ wal_frame (Record_MarshalBinary r') @ rest = [0, 0, 0, 0] @ more"
    by cases (simp_all add: f)
  then obtain more where m: "take k (wal_frame (Record_MarshalBinary r)) @ wal_frame (Record_MarshalBinary r') @ rest = [0, 0, 0, 0] @ more" ..
  have "get_u32 [0, 0, 0, 0] = 0" by code_simp
  then have "wal_readRecords ([0, 0, 0, 0] @ more, t) a = Inr []"
    by (subst wal_readRecords.simps) (simp add: io_ReadFull_def)
  then show ?thesis unfolding m readRecords_log [OF assms(1)] by simp
qed

theorem wal_torn_tail_hides_witness:
  "wal_readRecords (log_bytes [] @ take 2 (wal_frame (Record_MarshalBinary (newRecord RecordTypeZoneOpen 8 0))) @
     wal_frame (Record_MarshalBinary (newRecord RecordTypeZoneOpen 9 0)) @ [], None) 0 = Inr []"
  using wal_torn_tail_hides [of "[]" 2 "newRecord RecordTypeZoneOpen 8 0" "newRecord RecordTypeZoneOpen 9 0" "[]" None 0] by simp

end
