(* ===== verification/Recovery.thy ===== *)
theory Recovery
  imports Wal ZoneManager
begin

text \<open>
  Crash recovery, \<^verbatim>\<open>internal/journal/recovery.go\<close>: load the latest checkpoint, replay the records after it and take
  the zone states from the device. The interface \<^verbatim>\<open>ZoneManagerForRecovery\<close> is the zone manager itself.
\<close>

section \<open>Operations\<close>

text \<open>The loop over the replayed records.\<close>

fun recover_replay :: "Record list \<Rightarrow> L2PTable \<Rightarrow> ZoneManager \<Rightarrow> unit result \<times> L2PTable \<times> ZoneManager" where
  "recover_replay [] l2p zm = (Inr (), l2p, zm)"
| "recover_replay (rec # records) l2p zm =
     (if rec_Type rec = RecordTypeL2PUpdate then
        (case L2P_Set l2p (rec_SegmentID rec) (rec_NewPhysAddr rec) of
           (Inl err, l2p') \<Rightarrow> (Inl (Wrap ''recovery: replaying L2P update'' err), l2p', zm)
         | (Inr _, l2p') \<Rightarrow> recover_replay records l2p' zm)
      else if rec_Type rec = RecordTypeZoneReset then
        (case zm_MarkEmpty zm (ucast (rec_SegmentID rec)) of
           (Inl err, zm') \<Rightarrow> (Inl (Wrap ''recovery: marking zone empty after reset'' err), l2p, zm')
         | (Inr _, zm') \<Rightarrow> recover_replay records l2p zm')
      else recover_replay records l2p zm)"

definition recover_load :: "PhysAddr list option \<Rightarrow> L2PTable \<Rightarrow> unit result \<times> L2PTable" where
  "recover_load snap l2p =
     (case snap of
        None \<Rightarrow> (Inr (), l2p)
      | Some s \<Rightarrow>
          (case L2P_LoadSnapshot l2p s of
             (Inl err, l2p') \<Rightarrow> (Inl (Wrap ''recovery: loading L2P snapshot'' err), l2p')
           | (Inr _, l2p') \<Rightarrow> (Inr (), l2p')))"

text \<open>\<open>None\<close> is a panic while a checkpoint is decoded.\<close>

definition Recover ::
    "'d ZonedDevice \<Rightarrow> Wal \<Rightarrow> L2PTable \<Rightarrow> ZoneManager \<Rightarrow> 'd \<Rightarrow> (unit result \<times> Wal \<times> L2PTable \<times> ZoneManager \<times> 'd) option" where
  "Recover ops w l2p zm d =
     (case os_call (wal_file w) of
        (opened, f) \<Rightarrow>
          let w1 = w\<lparr>wal_file := f\<rparr> in
          (case ReadLatestCheckpoint (map_sum id (\<lambda>_. Some f) opened) of
             None \<Rightarrow> None
           | Some (Inl err) \<Rightarrow> Some (Inl (Wrap ''recovery: reading checkpoint'' err), w1, l2p, zm, d)
           | Some (Inr (snap, checkpointLSN)) \<Rightarrow>
               Some (case recover_load snap l2p of
                  (Inl err, l2p1) \<Rightarrow> (Inl err, w1, l2p1, zm, d)
                | (Inr _, l2p1) \<Rightarrow>
                    (case wal_ReadAllRecords w1 checkpointLSN of
                       (Inl err, w2) \<Rightarrow> (Inl (Wrap ''recovery: reading WAL records'' err), w2, l2p1, zm, d)
                     | (Inr records, w2) \<Rightarrow>
                         (case recover_replay records l2p1 zm of
                            (Inl err, l2p2, zm2) \<Rightarrow> (Inl err, w2, l2p2, zm2, d)
                          | (Inr _, l2p2, zm2) \<Rightarrow>
                              (case zm_ReconcileFromDevice ops d zm2 of
                                 (Inl err, zm3, d3) \<Rightarrow> (Inl (Wrap ''recovery: reconciling from device'' err), w2, l2p2, zm3, d3)
                               | (Inr _, zm3, d3) \<Rightarrow> (Inr (), w2, l2p2, zm3, d3)))))))"

section \<open>The table a log stands for\<close>

text \<open>Each update changes one entry, each checkpoint replaces the table.\<close>

fun entry_table :: "log_entry \<Rightarrow> (SegmentID \<Rightarrow> PhysAddr) \<Rightarrow> SegmentID \<Rightarrow> PhysAddr" where
  "entry_table (Plain r) m = (if rec_Type r = RecordTypeL2PUpdate then m(rec_SegmentID r := rec_NewPhysAddr r) else m)"
| "entry_table (Check c) m = (\<lambda>g. if unat g < length (cp_L2PEntries c) then cp_L2PEntries c ! unat g else 0)"

definition log_table :: "log_entry list \<Rightarrow> SegmentID \<Rightarrow> PhysAddr" where
  "log_table es = fold entry_table es (\<lambda>g. 0)"

text \<open>Entries that fit a table of \<open>n\<close> segments and a zone manager of \<open>z\<close> zones.\<close>

fun entry_fits :: "u64 \<Rightarrow> nat \<Rightarrow> log_entry \<Rightarrow> bool" where
  "entry_fits n z (Plain r) \<longleftrightarrow>
     (rec_Type r = RecordTypeL2PUpdate \<longrightarrow> rec_SegmentID r < n) \<and>
     (rec_Type r = RecordTypeZoneReset \<longrightarrow> unat (ucast (rec_SegmentID r) :: u32) < z)"
| "entry_fits n z (Check c) \<longleftrightarrow> length (cp_L2PEntries c) = unat n"

lemma zm_geoms_reconcile: "map (\<lambda>z. (zi_StartLBA z, zi_SizeSectors z)) (zm_reconcile zs ds) = map (\<lambda>z. (zi_StartLBA z, zi_SizeSectors z)) zs"
  by (induction zs ds rule: zm_reconcile.induct) simp_all

lemma recover_replay_ok:
  assumes "list_all (entry_fits (l2p_size l2p) (length (zm_zones zm))) es" and "l2p_inv l2p"
    and "list_all (\<lambda>e. \<not> (\<exists>c. e = Check c)) es"
  shows "\<exists>l2p' zm'. recover_replay (map entry_rec es) l2p zm = (Inr (), l2p', zm') \<and> l2p_inv l2p' \<and>
    l2p_size l2p' = l2p_size l2p \<and> L2P_Get l2p' = fold entry_table es (L2P_Get l2p) \<and> zm_geoms zm' = zm_geoms zm"
  using assms
proof (induction es arbitrary: l2p zm)
  case (Cons e es)
  obtain r where e: "e = Plain r" using Cons.prems(3) by (cases e) auto
  show ?case
  proof (cases "rec_Type r = RecordTypeL2PUpdate")
    case True
    then obtain l1 where s: "L2P_Set l2p (rec_SegmentID r) (rec_NewPhysAddr r) = (Inr (), l1)"
      using Cons.prems(1) e by (simp add: L2P_Set_def not_le)
    note l = L2P_Set_ok [OF s Cons.prems(2)]
    then show ?thesis using Cons.IH [of l1 zm] Cons.prems True s e by (simp add: fun_upd_def)
  next
    case False
    show ?thesis
    proof (cases "rec_Type r = RecordTypeZoneReset")
      case True
      then obtain zm1 where m: "zm_MarkEmpty zm (ucast (rec_SegmentID r)) = (Inr (), zm1)"
        and len: "length (zm_zones zm1) = length (zm_zones zm)" "zm_geoms zm1 = zm_geoms zm"
        using Cons.prems(1) e zm_MarkEmpty_geoms
        by (auto simp: zm_MarkEmpty_def Let_def zm_dropOpen_def zm_modify_def split: option.splits)
      then show ?thesis using Cons.IH [of l2p zm1] Cons.prems True False e by simp
    next
      case reset: False
      then show ?thesis using Cons.IH [of l2p zm] Cons.prems False e by simp
    qed
  qed
qed simp

text \<open>The latest checkpoint of a log is its last one, and the records after it are the entries behind it.\<close>

definition is_check :: "log_entry \<Rightarrow> bool" where
  "is_check e \<longleftrightarrow> (\<exists>c. e = Check c)"

lemma is_check_simps [simp]: "is_check (Check c)" "\<not> is_check (Plain r)"
  by (simp_all add: is_check_def)

lemma latest_entry_append: "latest_entry (es @ fs) l = latest_entry fs (latest_entry es l)"
proof (induction es arbitrary: l)
  case (Cons e es)
  then show ?case by (cases e) simp_all
qed simp

lemma latest_entry_none: "list_all (\<lambda>e. \<not> is_check e) es \<Longrightarrow> latest_entry es l = l"
proof (induction es)
  case (Cons e es)
  then show ?case by (cases e) simp_all
qed simp

lemma latest_entry_in:
  "latest_entry es l = Some c \<Longrightarrow> l = Some c \<or> rec_LSN (cp_Record c) \<in> (\<lambda>e. rec_LSN (entry_rec e)) ` set es"
proof (induction es arbitrary: l)
  case (Cons e es)
  show ?case
  proof (cases e)
    case (Plain r)
    then show ?thesis using Cons by auto
  next
    case (Check d)
    let ?d = "d\<lparr>cp_Record := (cp_Record d)\<lparr>rec_SegmentID := cp_L2PTableLen d\<rparr>\<rparr>"
    have "later l ?d = Some c \<or> rec_LSN (cp_Record c) \<in> (\<lambda>e. rec_LSN (entry_rec e)) ` set es"
      using Cons.IH Cons.prems Check by simp
    then show ?thesis using Check by (auto simp: later_def split: option.splits if_splits)
  qed
qed simp

lemma latest_checkpoint_split:
  assumes sorted: "sorted_wrt (<) (map (\<lambda>e. rec_LSN (entry_rec e)) (pre @ Check c # post))"
    and post: "list_all (\<lambda>e. \<not> is_check e) post"
  shows "latest_entry (pre @ Check c # post) None = Some (c\<lparr>cp_Record := (cp_Record c)\<lparr>rec_SegmentID := cp_L2PTableLen c\<rparr>\<rparr>)"
    and "filter (\<lambda>r. rec_LSN r > rec_LSN (cp_Record c)) (map entry_rec (pre @ Check c # post)) = map entry_rec post"
proof -
  have lt: "rec_LSN (entry_rec e) < rec_LSN (cp_Record c)" if "e \<in> set pre" for e
    using sorted that by (auto simp: sorted_wrt_append)
  have gt: "rec_LSN (cp_Record c) < rec_LSN (entry_rec e)" if "e \<in> set post" for e
    using sorted that by (auto simp: sorted_wrt_append)
  show "latest_entry (pre @ Check c # post) None = Some (c\<lparr>cp_Record := (cp_Record c)\<lparr>rec_SegmentID := cp_L2PTableLen c\<rparr>\<rparr>)"
  proof (cases "latest_entry pre None")
    case None
    then show ?thesis using post by (simp add: latest_entry_append latest_entry_none later_def)
  next
    case (Some d)
    then have "rec_LSN (cp_Record d) < rec_LSN (cp_Record c)" using latest_entry_in [OF Some] lt by auto
    then show ?thesis using Some post by (simp add: latest_entry_append latest_entry_none later_def)
  qed
  have "filter (\<lambda>r. rec_LSN r > rec_LSN (cp_Record c)) (map entry_rec pre) = []"
    using lt by (auto simp: filter_empty_conv dest: less_asym)
  moreover have "filter (\<lambda>r. rec_LSN r > rec_LSN (cp_Record c)) (map entry_rec post) = map entry_rec post"
    using gt by (auto simp: filter_id_conv)
  ultimately show "filter (\<lambda>r. rec_LSN r > rec_LSN (cp_Record c)) (map entry_rec (pre @ Check c # post)) = map entry_rec post"
    by simp
qed

text \<open>\<open>Recover\<close> in two parts: what it starts from, and what it replays.\<close>

lemma Recover_parts:
  assumes rep: "wal_rep w es []" "f_script (wal_file w) = []"
    and cp: "(case latest_entry es None of None \<Rightarrow> (None, 0) | Some c \<Rightarrow> (Some (cp_L2PEntries c), rec_LSN (cp_Record c))) = (snap, lsn)"
    and load: "recover_load snap l2p = (Inr (), l2p1)"
    and rp: "recover_replay (filter (\<lambda>r. rec_LSN r > lsn) (map entry_rec es)) l2p1 zm = (Inr (), l2p2, zm2)"
    and rc: "zm_ReconcileFromDevice ops d zm2 = (Inr (), zm3, d3)"
  shows "Recover ops w l2p zm d = Some (Inr (), w, l2p2, zm3, d3)"
proof -
  have ok: "list_all entry_ok es" "file_reader (wal_file w) = (log_bytes es @ [], None)"
    using rep(1) by (simp_all add: wal_rep_def file_reader_def)
  have rlc: "ReadLatestCheckpoint (Inr (Some (wal_file w))) = Some (Inr (snap, lsn))"
    using latestCheckpoint_log [OF ok(1), of "[]" None None] ok(2) cp
    by (simp add: ReadLatestCheckpoint_def scans_at_end split: option.splits)
  have oc: "os_call (wal_file w) = (Inr (), wal_file w)" using rep(2) by (simp add: os_call_def)
  have "wal_ReadAllRecords w lsn = (Inr (filter (\<lambda>r. rec_LSN r > lsn) (map entry_rec es)), w)"
    using rep readRecords_log [OF ok(1), of "[]" None lsn] ok(2) oc
    by (simp add: wal_ReadAllRecords_def bw_Flush_def wal_rep_def scans_at_end)
  then show ?thesis using oc rlc load rp rc by (simp add: Recover_def)
qed

lemma recover_load_ok:
  assumes "l2p_inv l2p" and "length es = unat (l2p_size l2p)"
  shows "\<exists>l2p'. recover_load (Some es) l2p = (Inr (), l2p') \<and> l2p_inv l2p' \<and> l2p_size l2p' = l2p_size l2p \<and>
    L2P_Get l2p' = (\<lambda>g. if unat g < length es then es ! unat g else 0)"
proof -
  have lt: "length es < 2 ^ 64" using assms(2) unat_u64_lt by simp
  obtain l2p' where l: "L2P_LoadSnapshot l2p es = (Inr (), l2p')" using assms(2) by (simp add: L2P_LoadSnapshot_def)
  note ok = L2P_LoadSnapshot_ok [OF l assms(1) lt]
  then have "L2P_Get l2p' = (\<lambda>g. if unat g < length es then es ! unat g else 0)"
    using assms(2) by (auto simp: L2P_Get_def word_le_nat_alt not_le fun_eq_iff)
  then show ?thesis using l ok by (simp add: recover_load_def)
qed

lemma recover_log_table:
  assumes rep: "wal_rep w es []" and script: "f_script (wal_file w) = []"
    and fits: "list_all (entry_fits n (length (zm_zones zm))) es"
    and dev: "dev_ReportZones ops d 0 0 = (Inr descs, d')"
  shows "\<exists>l2p' zm'. Recover ops w (NewL2PTable n) zm d = Some (Inr (), w, l2p', zm', d') \<and> L2P_Get l2p' = log_table es \<and>
    zm_geoms zm' = zm_geoms zm"
proof -
  let ?l = "NewL2PTable n"
  have new: "L2P_Get ?l = (\<lambda>g. 0)" by (simp add: fun_eq_iff)
  have rc: "\<exists>zm3. zm_ReconcileFromDevice ops d zm2 = (Inr (), zm3, d') \<and> zm_geoms zm3 = zm_geoms zm2" for zm2
    using dev by (simp add: zm_ReconcileFromDevice_def zm_geoms_def zm_geoms_reconcile)
  have pos: "list_all (\<lambda>e. 0 < rec_LSN (entry_rec e)) es" and sorted: "sorted_wrt (<) (map (\<lambda>e. rec_LSN (entry_rec e)) es)"
    using rep by (auto simp: wal_rep_def list_all_iff)
  show ?thesis
  proof (cases "\<exists>e \<in> set es. is_check e")
    case False
    then have no: "list_all (\<lambda>e. \<not> is_check e) es" by (auto simp: list_all_iff)
    have "filter (\<lambda>r. rec_LSN r > 0) (map entry_rec es) = map entry_rec es"
      using pos by (auto simp: filter_id_conv list_all_iff)
    moreover obtain l2p' zm2 where "recover_replay (map entry_rec es) ?l zm = (Inr (), l2p', zm2)"
      "L2P_Get l2p' = fold entry_table es (L2P_Get ?l)" "zm_geoms zm2 = zm_geoms zm"
      using recover_replay_ok [of ?l zm es] fits no by (auto simp: is_check_def)
    moreover obtain zm3 where "zm_ReconcileFromDevice ops d zm2 = (Inr (), zm3, d')" "zm_geoms zm3 = zm_geoms zm2" using rc by blast
    ultimately show ?thesis
      using Recover_parts [OF rep script, of None 0 ?l ?l zm l2p' zm2 ops d zm3 d'] latest_entry_none [OF no]
      by (auto simp: recover_load_def log_table_def new)
  next
    case True
    then obtain pre c post where es: "es = pre @ Check c # post" and post: "list_all (\<lambda>e. \<not> is_check e) post"
      using split_list_last_prop [OF True] by (auto simp: is_check_def list_all_iff)
    note sp = latest_checkpoint_split [OF sorted [unfolded es] post]
    have len: "length (cp_L2PEntries c) = unat (l2p_size ?l)" using fits es by simp
    obtain l1 where l1: "recover_load (Some (cp_L2PEntries c)) ?l = (Inr (), l1)" "l2p_inv l1" "l2p_size l1 = n"
      "L2P_Get l1 = entry_table (Check c) m" for m
      using recover_load_ok [OF _ len] by auto
    have fp: "list_all (entry_fits (l2p_size l1) (length (zm_zones zm))) post" using fits es l1(3) by simp
    obtain l2p' zm2 where rp: "recover_replay (map entry_rec post) l1 zm = (Inr (), l2p', zm2)"
      "L2P_Get l2p' = fold entry_table post (L2P_Get l1)" "zm_geoms zm2 = zm_geoms zm"
      using recover_replay_ok [OF fp l1(2)] post by (auto simp: is_check_def)
    obtain zm3 where z3: "zm_ReconcileFromDevice ops d zm2 = (Inr (), zm3, d')" "zm_geoms zm3 = zm_geoms zm2" using rc by blast
    have "Recover ops w ?l zm d = Some (Inr (), w, l2p', zm3, d')"
      by (rule Recover_parts [OF rep script _ l1(1) _ z3(1), where lsn = "rec_LSN (cp_Record c)"])
        (use sp rp(1) es in simp_all)
    then show ?thesis using rp(2,3) z3(2) l1(4) es by (simp add: log_table_def)
  qed
qed

section \<open>Properties\<close>

text \<open>
  C12: recovery from a committed journal returns, and the mapping table it rebuilds, starting from an empty one, is
  the one the logged entries stand for: the table of the last checkpoint with the updates behind it applied in order, or all
  updates when there is no checkpoint.
\<close>

theorem recover_table:
  assumes rep: "wal_rep w es []" and script: "f_script (wal_file w) = []"
    and fits: "list_all (entry_fits n (length (zm_zones zm))) es"
    and dev: "dev_ReportZones ops d 0 0 = (Inr descs, d')"
  shows "\<exists>l2p' zm'. Recover ops w (NewL2PTable n) zm d = Some (Inr (), w, l2p', zm', d') \<and> L2P_Get l2p' = log_table es"
  using recover_log_table [OF assms] by blast

text \<open>A journal with one update committed, over the emulator of two zones.\<close>

definition wal_demo1 :: Wal where
  "wal_demo1 = snd (wal_GroupCommit (snd (wal_LogL2PUpdate 0 wal_demo 1 0 9)))"

abbreviation rec_demo :: Record where
  "rec_demo \<equiv> \<lparr>rec_Type = RecordTypeL2PUpdate, rec_LSN = 1, rec_SegmentID = 1, rec_OldPhysAddr = 0,
     rec_NewPhysAddr = 9, rec_Timestamp = 0\<rparr>"

lemma wal_demo1_rep: "wal_rep wal_demo1 [Plain rec_demo] []" "f_script (wal_file wal_demo1) = []"
proof -
  obtain w1 where w1: "wal_LogL2PUpdate 0 wal_demo 1 0 9 = (Inr 1, w1)" "wal_rep w1 [] [Plain rec_demo]"
    using wal_log_rep(1) [OF wal_demo_rep, of 0 1 0 9] by (auto simp: wal_demo_def)
  have fl: "faultless (wal_writer w1) (wal_file w1)"
    using w1(1) by (auto simp: wal_LogL2PUpdate_def wal_nextLSN_def wal_appendRecord_def wal_demo_def faultless_def)
  obtain w2 where w2: "wal_GroupCommit w1 = (Inr (), w2)" "faultless (wal_writer w2) (wal_file w2)"
    using wal_GroupCommit_faultless [OF fl] by blast
  have "wal_demo1 = w2" using w1(1) w2(1) by (simp add: wal_demo1_def)
  then show "wal_rep wal_demo1 [Plain rec_demo] []" "f_script (wal_file wal_demo1) = []"
    using wal_GroupCommit_file [OF w1(2) w2(1)] w2(2) by (simp_all add: faultless_def)
qed

lemma em_demo_report: "\<exists>descs. dev_ReportZones em_dev em_demo 0 0 = (Inr descs, em_demo)"
  by (simp add: em_dev_def em_ReportZones_def em_demo_def Let_def)

theorem recover_table_witness:
  "\<exists>l2p' zm'. Recover em_dev wal_demo1 (NewL2PTable 2) zm_full_demo em_demo = Some (Inr (), wal_demo1, l2p', zm', em_demo) \<and>
     L2P_Get l2p' 1 = 9"
proof -
  obtain descs where d: "dev_ReportZones em_dev em_demo 0 0 = (Inr descs, em_demo)" using em_demo_report by blast
  have "list_all (entry_fits 2 (length (zm_zones zm_full_demo))) [Plain rec_demo]"
    by (simp add: RecordTypeL2PUpdate_def RecordTypeZoneReset_def)
  from recover_table [OF wal_demo1_rep this d] show ?thesis by (auto simp: log_table_def)
qed

lemma recover_replay_free:
  "recover_replay rs l2p zm = (Inr (), l2p', zm') \<Longrightarrow>
     zm_freeList zm' = zm_freeList zm @ map (\<lambda>r. ucast (rec_SegmentID r)) (filter (\<lambda>r. rec_Type r = RecordTypeZoneReset) rs)"
proof (induction rs arbitrary: l2p zm)
  case (Cons r rs)
  have ne: "RecordTypeL2PUpdate \<noteq> RecordTypeZoneReset" by (simp add: RecordTypeL2PUpdate_def RecordTypeZoneReset_def)
  show ?case
  proof (cases "rec_Type r = RecordTypeZoneReset")
    case True
    then obtain zm1 where m: "zm_MarkEmpty zm (ucast (rec_SegmentID r)) = (Inr (), zm1)"
      and rp: "recover_replay rs l2p zm1 = (Inr (), l2p', zm')"
      using Cons.prems ne by (auto split: prod.splits sum.splits)
    have "zm_freeList zm1 = zm_freeList zm @ [ucast (rec_SegmentID r)]"
      using m by (auto simp: zm_MarkEmpty_def Let_def zm_dropOpen_def zm_modify_def split: if_splits option.splits)
    then show ?thesis using Cons.IH [OF rp] True by simp
  next
    case False
    then obtain l1 where "recover_replay rs l1 zm = (Inr (), l2p', zm')"
      using Cons.prems by (auto split: if_splits prod.splits sum.splits)
    from Cons.IH [OF this] show ?thesis using False by simp
  qed
qed simp

lemma recover_replay_out_of_range:
  "list_ex (\<lambda>r. rec_Type r = RecordTypeL2PUpdate \<and> l2p_size l2p \<le> rec_SegmentID r) rs \<Longrightarrow>
     \<exists>err l2p' zm'. recover_replay rs l2p zm = (Inl err, l2p', zm')"
proof (induction rs arbitrary: l2p zm)
  case (Cons r rs)
  show ?case
  proof (cases "rec_Type r = RecordTypeL2PUpdate")
    case True
    obtain x l1 where set: "L2P_Set l2p (rec_SegmentID r) (rec_NewPhysAddr r) = (x, l1)" by fastforce
    show ?thesis
    proof (cases x)
      case (Inl err)
      then show ?thesis using True set by simp
    next
      case (Inr u)
      then have "l2p_size l1 = l2p_size l2p" "rec_SegmentID r < l2p_size l2p"
        using set by (auto simp: L2P_Set_def not_le split: if_splits)
      then show ?thesis using Cons.IH [of l1 zm] Cons.prems True set Inr by auto
    qed
  next
    case False
    obtain x zm1 where m: "zm_MarkEmpty zm (ucast (rec_SegmentID r)) = (x, zm1)" by fastforce
    show ?thesis using Cons.IH [of l2p zm1] Cons.IH [of l2p zm] Cons.prems False m by (cases x) auto
  qed
qed simp

text \<open>
  Replaying a ZONE_RESET record puts the zone on the free list without looking at what it is now: after recovery
  the free list is the one of the device scan followed by every zone with a reset in the replayed log. A zone
  that was empty is on it twice, and one that has been written since its reset is on it with its data.
\<close>

theorem recover_free_list:
  assumes "wal_rep w es []" and "f_script (wal_file w) = []" and "list_all (\<lambda>e. \<not> is_check e) es"
    and "list_all (entry_fits n (length (zm_zones zm))) es" and "dev_ReportZones ops d 0 0 = (Inr descs, d')"
  shows "\<exists>l2p' zm'. Recover ops w (NewL2PTable n) zm d = Some (Inr (), w, l2p', zm', d') \<and>
    zm_freeList zm' = zm_freeList zm @
      map (\<lambda>r. ucast (rec_SegmentID r)) (filter (\<lambda>r. rec_Type r = RecordTypeZoneReset) (map entry_rec es))"
proof -
  let ?l = "NewL2PTable n"
  have "filter (\<lambda>r. rec_LSN r > 0) (map entry_rec es) = map entry_rec es"
    using assms(1) by (auto simp: filter_id_conv list_all_iff wal_rep_def)
  moreover obtain l2p' zm2 where rp: "recover_replay (map entry_rec es) ?l zm = (Inr (), l2p', zm2)"
    using recover_replay_ok [of ?l zm es] assms(3,4) by (auto simp: is_check_def)
  moreover obtain zm3 where "zm_ReconcileFromDevice ops d zm2 = (Inr (), zm3, d')" "zm_freeList zm3 = zm_freeList zm2"
    using assms(5) by (simp add: zm_ReconcileFromDevice_def)
  ultimately show ?thesis
    using Recover_parts [OF assms(1,2), of None 0 ?l ?l zm l2p' zm2 ops d zm3 d'] latest_entry_none [OF assms(3)] recover_replay_free [OF rp]
    by (auto simp: recover_load_def)
qed

theorem recover_free_list_witness:
  "\<exists>l2p' zm'. Recover em_dev wal_demo1 (NewL2PTable 2) zm_full_demo em_demo = Some (Inr (), wal_demo1, l2p', zm', em_demo) \<and>
     zm_freeList zm' = [1]"
proof -
  obtain descs where d: "dev_ReportZones em_dev em_demo 0 0 = (Inr descs, em_demo)" using em_demo_report by blast
  have "list_all (entry_fits 2 (length (zm_zones zm_full_demo))) [Plain rec_demo]"
    by (simp add: RecordTypeL2PUpdate_def RecordTypeZoneReset_def)
  from recover_free_list [OF wal_demo1_rep _ this d] show ?thesis
    by (simp add: RecordTypeL2PUpdate_def RecordTypeZoneReset_def zm_full_demo_def)
qed

text \<open>
  One logged update of a segment outside the table makes every recovery fail: the replay stops with
  an error. (\<^verbatim>\<open>writeSegment\<close> logs an update before it checks the segment number.)
\<close>

theorem recover_out_of_range:
  assumes "wal_rep w es []" and "f_script (wal_file w) = []" and "list_all (\<lambda>e. \<not> is_check e) es"
    and "list_ex (\<lambda>e. rec_Type (entry_rec e) = RecordTypeL2PUpdate \<and> n \<le> rec_SegmentID (entry_rec e)) es"
  shows "\<exists>err rest. Recover ops w (NewL2PTable n) zm d = Some (Inl err, rest)"
proof -
  let ?l = "NewL2PTable n"
  have ok: "list_all entry_ok es" "file_reader (wal_file w) = (log_bytes es @ [], None)"
    using assms(1) by (simp_all add: wal_rep_def file_reader_def)
  have "filter (\<lambda>r. rec_LSN r > 0) (map entry_rec es) = map entry_rec es"
    using assms(1) by (auto simp: filter_id_conv list_all_iff wal_rep_def)
  then have rd: "wal_ReadAllRecords w 0 = (Inr (map entry_rec es), w)"
    using assms(1,2) readRecords_log [OF ok(1), of "[]" None 0] ok(2)
    by (simp add: wal_ReadAllRecords_def bw_Flush_def wal_rep_def os_call_def scans_at_end)
  have rlc: "ReadLatestCheckpoint (Inr (Some (wal_file w))) = Some (Inr (None, 0))"
    using latestCheckpoint_log [OF ok(1), of "[]" None None] ok(2) latest_entry_none [OF assms(3)]
    by (simp add: ReadLatestCheckpoint_def scans_at_end)
  have "list_ex (\<lambda>r. rec_Type r = RecordTypeL2PUpdate \<and> l2p_size ?l \<le> rec_SegmentID r) (map entry_rec es)"
    using assms(4) by (simp add: list_ex_iff)
  then obtain err l2p' zm' where "recover_replay (map entry_rec es) ?l zm = (Inl err, l2p', zm')"
    using recover_replay_out_of_range by blast
  then show ?thesis using rd rlc assms(2) by (simp add: Recover_def os_call_def recover_load_def)
qed

theorem recover_out_of_range_witness:
  "\<exists>err rest. Recover em_dev wal_demo1 (NewL2PTable 1) zm_full_demo em_demo = Some (Inl err, rest)"
  by (rule recover_out_of_range [OF wal_demo1_rep]) simp_all

end
