(* ===== verification/Durability.thy ===== *)
theory Durability
  imports Recovery ZtlSpec
begin

text \<open>
  The translation layer with its write-ahead journal, across a crash. \<^verbatim>\<open>main.go\<close> hands the journal of \<^verbatim>\<open>internal/journal\<close> to
  \<^verbatim>\<open>ztl.New\<close>; the translation layer logs every change of its table before it makes it, and commits at the end of a write and of
  a flush. What a restart finds is the device and the journal file.
\<close>

section \<open>The journal as the translation layer sees it\<close>

definition wal_journal :: "int \<Rightarrow> Wal Journal" where
  "wal_journal now =
     \<lparr>jn_LogL2PUpdate = wal_LogL2PUpdate now, jn_LogZoneOpen = wal_LogZoneOpen now, jn_LogZoneClose = wal_LogZoneClose now,
      jn_LogZoneReset = wal_LogZoneReset now, jn_GroupCommit = wal_GroupCommit\<rparr>"

section \<open>What the translation layer relies on\<close>

text \<open>
  The table and the log agree, with room for \<open>n\<close> more records; \<open>stands\<close> tells which table a journal stands for.
\<close>

definition in_sync :: "u64 \<Rightarrow> (nat \<Rightarrow> 'j \<Rightarrow> (SegmentID \<Rightarrow> PhysAddr) \<Rightarrow> bool) \<Rightarrow> nat \<Rightarrow> ('d, 'j) ZTL \<Rightarrow> bool" where
  "in_sync segments stands n s \<longleftrightarrow>
     l2p_inv (ztl_l2p s) \<and> l2p_size (ztl_l2p s) = segments \<and> stands n (ztl_journal s) (L2P_Get (ztl_l2p s))"

text \<open>
  \<open>stands n j m\<close>: the log in \<open>j\<close>, committed or not, stands for the table \<open>m\<close>, and there is room for \<open>n\<close> more records; \<open>saved j m\<close>:
  what is committed stands for \<open>m\<close>. \<open>segments\<close> is the number of segments.
\<close>

locale write_ahead =
  fixes J :: "'j Journal" and segments :: u64
    and stands :: "nat \<Rightarrow> 'j \<Rightarrow> (SegmentID \<Rightarrow> PhysAddr) \<Rightarrow> bool" and saved :: "'j \<Rightarrow> (SegmentID \<Rightarrow> PhysAddr) \<Rightarrow> bool"
  assumes stands_less: "stands (n + k) j m \<Longrightarrow> stands n j m"
    and log_update: "stands (Suc n) j m \<Longrightarrow> g < segments \<Longrightarrow> jn_LogL2PUpdate J j g old new = (Inr lsn, j') \<Longrightarrow> stands n j' (m(g := new))"
    and log_open: "stands (Suc n) j m \<Longrightarrow> jn_LogZoneOpen J j z = (r, j') \<Longrightarrow> stands n j' m"
    and commit: "stands n j m \<Longrightarrow> jn_GroupCommit J j = (Inr (), j') \<Longrightarrow> stands n j' m \<and> saved j' m"
begin

lemma in_sync_less: "in_sync segments stands (n + k) s \<Longrightarrow> in_sync segments stands n s"
  using stands_less by (auto simp: in_sync_def)

lemma getWriteZone_sync:
  assumes "in_sync segments stands (Suc n) s" and "ztl_getWriteZone ops (Some J) s = (r, s')"
  shows "in_sync segments stands n s' \<and> ztl_l2p s' = ztl_l2p s"
proof -
  have less: "stands n (ztl_journal s) (L2P_Get (ztl_l2p s))" using assms(1) stands_less [of n 1] by (simp add: in_sync_def)
  have open_ok: "stands n j' (L2P_Get (ztl_l2p s))" if "jn_LogZoneOpen J (ztl_journal s) z = (r, j')" for z r j'
    using that assms(1) log_open by (auto simp: in_sync_def)
  show ?thesis using assms less
    by (auto simp: ztl_getWriteZone_def log_call_def in_sync_def Let_def split: if_splits sum.splits prod.splits dest: open_ok)
qed

lemma log_l2p_sync:
  assumes "in_sync segments stands (Suc n) s" and "g < segments" and "log_l2p (Some J) g old new s = (Inr (), s1)"
  shows "stands n (ztl_journal s1) ((L2P_Get (ztl_l2p s))(g := new)) \<and> ztl_l2p s1 = ztl_l2p s"
  using assms log_update by (auto simp: log_l2p_def in_sync_def split: sum.splits prod.splits)

lemma writeSegment_sync:
  assumes "in_sync segments stands (n + 2) s" and "ztl_writeSegment ops (Some J) now s g data = (Inr (), s')"
  shows "in_sync segments stands n s'"
proof -
  obtain r1 s1 where g: "ztl_getWriteZone ops (Some J) s = (r1, s1)" by fastforce
  have s1: "in_sync segments stands (Suc n) s1" using getWriteZone_sync [OF _ g, of "Suc n"] assms(1) by simp
  obtain z zi s2 l2p wb where st: "r1 = Inr z" "zm_ZoneInfo (ztl_zm s1) z = Some zi"
    "log_l2p (Some J) g (L2P_Get (ztl_l2p s1) g) (EncodePhysAddr z (zm_WritePointer (ztl_zm s1) z - zi_StartLBA zi)) s1 = (Inr (), s2)"
    "L2P_Set (ztl_l2p s2) g (EncodePhysAddr z (zm_WritePointer (ztl_zm s1) z - zi_StartLBA zi)) = (Inr (), l2p)"
    and fin: "ztl_l2p s' = l2p" "ztl_journal s' = ztl_journal s2"
    using assms(2) g
    by (auto simp: ztl_writeSegment_def ztl_flushIfFull_def ztl_remap_def Let_def
        split: sum.splits prod.splits option.splits if_splits)
  have "ztl_l2p s2 = ztl_l2p s1" using st(3) by (auto simp: log_l2p_def split: sum.splits prod.splits)
  then have "g < segments" "l2p_inv (ztl_l2p s2)" using L2P_Set_ok(4) [OF st(4)] s1 by (auto simp: in_sync_def)
  then show ?thesis
    using log_l2p_sync [OF s1 _ st(3)] L2P_Set_ok [OF st(4)] s1 fin by (auto simp: in_sync_def)
qed

lemma writeSegs_sync:
  "in_sync segments stands (n + 2 * length segs) s \<Longrightarrow> ztl_writeSegs ops (Some J) now s lba e segs data off = (Inr (), s') \<Longrightarrow> in_sync segments stands n s'"
proof (induction segs arbitrary: s off)
  case (Cons g segs)
  then obtain d k s1 where w: "ztl_writeSegment ops (Some J) now s g d = (Inr (), s1)"
    "ztl_writeSegs ops (Some J) now s1 lba e segs data k = (Inr (), s')"
    by (auto simp: Let_def split: prod.splits sum.splits)
  have "in_sync segments stands (n + 2 * length segs) s1" using writeSegment_sync [OF _ w(1), of "n + 2 * length segs"] Cons.prems(1) by (simp add: ac_simps)
  then show ?case using Cons.IH w(2) by blast
qed simp

lemma commit_sync:
  assumes "in_sync segments stands n s" and "log_call jn_GroupCommit (Some J) s = (Inr (), s')"
  shows "in_sync segments stands n s' \<and> saved (ztl_journal s') (L2P_Get (ztl_l2p s'))"
  using assms commit by (auto simp: log_call_def in_sync_def split: prod.splits)

lemma Write_sync:
  assumes "in_sync segments stands (n + 2 * length (word_upto (LBAToSegmentID lba (ztl_sectorsPerSeg s))
        (LBAToSegmentID (lba + of_nat (length data) div 512 - 1) (ztl_sectorsPerSeg s)))) s"
    and "ztl_emergencyFreeZones s \<le> zm_FreeZoneCount (ztl_zm s)" and "data \<noteq> []"
    and "ztl_Write ord ops (Some J) now s lba data = Some (Inr (), s')"
  shows "in_sync segments stands n s' \<and> saved (ztl_journal s') (L2P_Get (ztl_l2p s'))"
proof -
  obtain s1 where w: "ztl_writeSegs ops (Some J) now s lba (lba + of_nat (length data) div 512)
      (word_upto (LBAToSegmentID lba (ztl_sectorsPerSeg s))
        (LBAToSegmentID (lba + of_nat (length data) div 512 - 1) (ztl_sectorsPerSeg s))) data 0 = (Inr (), s1)"
    "log_call jn_GroupCommit (Some J) s1 = (Inr (), s')"
    using assms(2-4) by (auto simp: ztl_Write_def Let_def split: if_splits prod.splits sum.splits)
  show ?thesis by (rule commit_sync [OF writeSegs_sync [OF assms(1) w(1)] w(2)])
qed

lemma unmapSegs_sync:
  "in_sync segments stands (n + length segs) s \<Longrightarrow> ztl_unmapSegs (Some J) segs s = (Inr (), s') \<Longrightarrow> in_sync segments stands n s'"
proof (induction segs arbitrary: s)
  case (Cons g segs)
  show ?case
  proof (cases "IsUnmapped (L2P_Get (ztl_l2p s) g)")
    case True
    then show ?thesis using Cons.IH [of s] Cons.prems in_sync_less [of "n + length segs" 1 s] by simp
  next
    case False
    then obtain s1 l2p where st: "log_l2p (Some J) g (L2P_Get (ztl_l2p s) g) 0 s = (Inr (), s1)" "L2P_Set (ztl_l2p s1) g 0 = (Inr (), l2p)"
      "ztl_unmapSegs (Some J) segs (s1\<lparr>ztl_l2p := l2p, ztl_p2l := P2L_Delete (ztl_p2l s1) (L2P_Get (ztl_l2p s) g),
         ztl_zm := zm_DecrementValidSegs (ztl_zm s1) (ZoneID (L2P_Get (ztl_l2p s) g))\<rparr>) = (Inr (), s')"
      using Cons.prems(2) by (auto simp: Let_def split: sum.splits prod.splits)
    have "ztl_l2p s1 = ztl_l2p s" using st(1) by (auto simp: log_l2p_def split: sum.splits prod.splits)
    moreover have s: "in_sync segments stands (Suc (n + length segs)) s" using Cons.prems(1) by simp
    ultimately have "g < segments" "l2p_inv (ztl_l2p s1)" using L2P_Set_ok(4) [OF st(2)] by (auto simp: in_sync_def)
    then show ?thesis
      using Cons.IH [OF _ st(3)] log_l2p_sync [OF s _ st(1)] L2P_Set_ok [OF st(2)] s by (auto simp: in_sync_def)
  qed
qed simp

lemma Flush_sync:
  assumes "in_sync segments stands n s" and "ztl_Flush zord ops (Some J) s = (Inr (), s')"
  shows "in_sync segments stands n s' \<and> saved (ztl_journal s') (L2P_Get (ztl_l2p s')) \<and> ztl_l2p s' = ztl_l2p s"
proof -
  obtain s1 where f: "ztl_flushBuf zord ops s = (Inr (), s1)" "log_call jn_GroupCommit (Some J) s1 = (Inr (), s')"
    using assms(2) by (auto simp: ztl_Flush_def split: prod.splits sum.splits)
  have "ztl_journal s1 = ztl_journal s" "ztl_l2p s1 = ztl_l2p s" using f(1) by (auto simp: ztl_flushBuf_def split: prod.splits)
  moreover have "ztl_l2p s' = ztl_l2p s1" using f(2) by (auto simp: log_call_def split: prod.splits)
  ultimately show ?thesis using commit_sync [OF _ f(2), of n] assms(1) by (simp add: in_sync_def)
qed

end

section \<open>The journal keeps the promise\<close>

text \<open>\<open>segments\<close> and \<open>zones\<close> bound what the records may name.\<close>

definition wal_stands :: "u64 \<Rightarrow> nat \<Rightarrow> nat \<Rightarrow> Wal \<Rightarrow> (SegmentID \<Rightarrow> PhysAddr) \<Rightarrow> bool" where
  "wal_stands segments zones n w m \<longleftrightarrow> unat (wal_lsn w) + n < 2 ^ 64 \<and>
     (\<exists>es ps. wal_rep w es ps \<and> list_all (entry_fits segments zones) (es @ ps) \<and> log_table (es @ ps) = m)"

definition wal_saved :: "u64 \<Rightarrow> nat \<Rightarrow> Wal \<Rightarrow> (SegmentID \<Rightarrow> PhysAddr) \<Rightarrow> bool" where
  "wal_saved segments zones w m \<longleftrightarrow> (\<exists>es. wal_rep w es [] \<and> list_all (entry_fits segments zones) es \<and> log_table es = m)"

lemma wal_stands_add:
  assumes "wal_stands segments zones (Suc n) w m" and "entry_ok (Plain r)" and "entry_fits segments zones (Plain r)"
    and "rec_LSN r = wal_lsn w + 1"
  shows "wal_stands segments zones n (w\<lparr>wal_lsn := wal_lsn w + 1, wal_pending := wal_pending w @ [wal_frame (entry_bytes (Plain r))]\<rparr>)
    (entry_table (Plain r) m)"
proof -
  obtain es ps where rep: "wal_rep w es ps" "list_all (entry_fits segments zones) (es @ ps)" "log_table (es @ ps) = m"
    and lsn: "unat (wal_lsn w) + Suc n < 2 ^ 64" using assms(1) by (auto simp: wal_stands_def)
  have ne: "wal_lsn w \<noteq> - 1"
  proof
    assume "wal_lsn w = - 1"
    then have "unat (wal_lsn w) = 2 ^ 64 - 1" by (simp add: unsigned_minus_1_eq_mask mask_eq_exp_minus_1)
    then show False using lsn by simp
  qed
  have "unat (wal_lsn w + 1) = unat (wal_lsn w) + 1" using unat_inc [OF ne] by simp
  moreover have "log_table (es @ ps @ [Plain r]) = entry_table (Plain r) m"
    unfolding append_assoc [symmetric] using rep(3) by (simp add: log_table_def)
  ultimately show ?thesis
    using wal_rep_add [OF rep(1) assms(2) _ ne] assms(3,4) rep(2) lsn
    unfolding wal_stands_def by (intro conjI exI [of _ es] exI [of _ "ps @ [Plain r]"]) simp_all
qed

lemma wal_GroupCommit_lsn: "wal_GroupCommit w = (r, w') \<Longrightarrow> wal_lsn w' = wal_lsn w"
  by (auto simp: wal_GroupCommit_def Let_def split: if_splits prod.splits sum.splits)

interpretation wj: write_ahead "wal_journal now" segments "wal_stands segments zones" "wal_saved segments zones" for now segments zones
proof
  fix n k j m
  show "wal_stands segments zones (n + k) j m \<Longrightarrow> wal_stands segments zones n j m" by (auto simp: wal_stands_def)
next
  fix n j m g old new lsn j'
  assume "wal_stands segments zones (Suc n) j m" "g < segments" "jn_LogL2PUpdate (wal_journal now) j g old new = (Inr lsn, j')"
  then show "wal_stands segments zones n j' (m(g := new))"
    using wal_stands_add [of segments zones n j m "\<lparr>rec_Type = RecordTypeL2PUpdate, rec_LSN = wal_lsn j + 1, rec_SegmentID = g,
        rec_OldPhysAddr = old, rec_NewPhysAddr = new, rec_Timestamp = of_int now\<rparr>"]
    by (auto simp: wal_journal_def wal_LogL2PUpdate_def wal_nextLSN_def wal_appendRecord_def RecordTypeL2PUpdate_def
        RecordTypeCheckpoint_def RecordTypeZoneReset_def)
next
  fix n j m z r j'
  assume "wal_stands segments zones (Suc n) j m" "jn_LogZoneOpen (wal_journal now) j z = (r, j')"
  then show "wal_stands segments zones n j' m"
    using wal_stands_add [of segments zones n j m "\<lparr>rec_Type = RecordTypeZoneOpen, rec_LSN = wal_lsn j + 1, rec_SegmentID = ucast z,
        rec_OldPhysAddr = 0, rec_NewPhysAddr = 0, rec_Timestamp = of_int now\<rparr>"]
    by (auto simp: wal_journal_def wal_LogZoneOpen_def wal_logZoneAction_def wal_nextLSN_def wal_appendRecord_def RecordTypeL2PUpdate_def
        RecordTypeCheckpoint_def RecordTypeZoneOpen_def RecordTypeZoneReset_def)
next
  fix n j m j'
  assume a: "wal_stands segments zones n j m" "jn_GroupCommit (wal_journal now) j = (Inr (), j')"
  then obtain es ps where rep: "wal_rep j es ps" "list_all (entry_fits segments zones) (es @ ps)" "log_table (es @ ps) = m"
    by (auto simp: wal_stands_def)
  have c: "wal_GroupCommit j = (Inr (), j')" using a(2) by (simp add: wal_journal_def)
  then have "wal_rep j' (es @ ps) []" using wal_GroupCommit_file [OF rep(1)] by simp
  then show "wal_stands segments zones n j' m \<and> wal_saved segments zones j' m"
    using rep a(1) wal_GroupCommit_lsn [OF c] unfolding wal_stands_def wal_saved_def by (metis append_Nil2)
qed

section \<open>Starting the daemon\<close>

text \<open>
  Steps 5 to 7 of \<^verbatim>\<open>main\<close>: open the journal, build the translation layer over the device, recover. \<open>openFile\<close> opens the journal
  file; \<open>None\<close> is a panic in recovery.
\<close>

definition runRecovery :: "'d ZonedDevice \<Rightarrow> ('d, Wal) ZTL \<Rightarrow> (unit result \<times> ('d, Wal) ZTL) option" where
  "runRecovery ops z =
     (case Recover ops (ztl_journal z) (ztl_l2p z) (ztl_zm z) (ztl_device z) of
        None \<Rightarrow> None
      | Some (r, w, l2p, zm, d) \<Rightarrow>
          let z1 = z\<lparr>ztl_journal := w, ztl_l2p := l2p, ztl_zm := zm, ztl_device := d\<rparr> in
          Some (case r of Inl err \<Rightarrow> (Inl (Wrap ''crash recovery'' err), z1) | Inr _ \<Rightarrow> (Inr (), z1)))"

definition startup :: "Config \<Rightarrow> (string \<Rightarrow> os_file result) \<Rightarrow> 'd ZonedDevice \<Rightarrow> 'd \<Rightarrow> ('d, Wal) ZTL result option" where
  "startup cfg openFile ops dev =
     (case wal_Open openFile (jc_Path (cfg_Journal cfg)) of
        Inl err \<Rightarrow> Some (Inl err)
      | Inr j \<Rightarrow>
          (case ztl_New cfg ops dev j of
             Inl err \<Rightarrow> Some (Inl err)
           | Inr z \<Rightarrow>
               (case runRecovery ops z of
                  None \<Rightarrow> None
                | Some (Inl err, z1) \<Rightarrow> Some (Inl err)
                | Some (Inr _, z1) \<Rightarrow> Some (Inr z1))))"

section \<open>Reading depends on little\<close>

text \<open>States that agree in what \<^verbatim>\<open>Read\<close> looks at: table, zone addresses, device; and nothing is buffered.\<close>

definition reads_alike :: "('d, 'j) ZTL \<Rightarrow> ('d, 'k) ZTL \<Rightarrow> bool" where
  "reads_alike s t \<longleftrightarrow> ztl_sectorsPerSeg t = ztl_sectorsPerSeg s \<and> L2P_Get (ztl_l2p t) = L2P_Get (ztl_l2p s) \<and>
     ztl_device t = ztl_device s \<and> zm_geoms (ztl_zm t) = zm_geoms (ztl_zm s) \<and>
     (\<forall>z. map_of (wb_buffers (ztl_buf s)) z = None) \<and> (\<forall>z. map_of (wb_buffers (ztl_buf t)) z = None)"

lemma zm_ZoneInfo_alike:
  "zm_geoms b = zm_geoms a \<Longrightarrow> map_option zi_StartLBA (zm_ZoneInfo b z) = map_option zi_StartLBA (zm_ZoneInfo a z)"
proof -
  assume g: "zm_geoms b = zm_geoms a"
  then have "length (zm_zones b) = length (zm_zones a)" by (metis length_zm_geoms)
  moreover have "zi_StartLBA (zm_zones b ! i) = zi_StartLBA (zm_zones a ! i)" if "i < length (zm_zones a)" for i
    using arg_cong [OF g, of "\<lambda>xs. fst (xs ! i)"] that calculation by (simp add: zm_geoms_def)
  ultimately show ?thesis by (simp add: zm_ZoneInfo_def)
qed

lemma readSegs_alike:
  "reads_alike s t \<Longrightarrow> ztl_readSegs ops t lba e segs res off =
     (case ztl_readSegs ops s lba e segs res off of (r, s') \<Rightarrow> (r, t\<lparr>ztl_device := ztl_device s'\<rparr>))"
proof (induction segs arbitrary: s t res off)
  case Nil
  then show ?case by (simp add: reads_alike_def)
next
  case (Cons g segs)
  note al = Cons.prems [unfolded reads_alike_def]
  let ?p = "L2P_Get (ztl_l2p s) g"
  have step: "reads_alike (s\<lparr>ztl_device := d\<rparr>) (t\<lparr>ztl_device := d\<rparr>)" for d using al by (simp add: reads_alike_def)
  have look: "wb_Lookup (ztl_buf s) z l c = None" "wb_Lookup (ztl_buf t) z l c = None" for z l c using al by (simp_all add: wb_Lookup_def)
  note zi = zm_ZoneInfo_alike [of "ztl_zm t" "ztl_zm s" "ZoneID ?p"]
  show ?case
    using al zi look Cons.IH [OF Cons.prems] Cons.IH [OF step]
    by (auto simp: Let_def split: option.splits sum.splits prod.splits)
qed

lemma Read_alike: "reads_alike s t \<Longrightarrow> fst (ztl_Read ops t lba c) = fst (ztl_Read ops s lba c)"
proof -
  assume al: "reads_alike s t"
  then have "ztl_sectorsPerSeg t = ztl_sectorsPerSeg s" by (simp add: reads_alike_def)
  then show ?thesis by (simp add: ztl_Read_def Let_def readSegs_alike [OF al] split: prod.splits)
qed

section \<open>A journal opened again\<close>

lemma wal_reopen:
  assumes "wal_rep w es []" and "openFile path = Inr \<lparr>f_content = f_content (wal_file w), f_script = [], f_readErr = None\<rparr>"
  shows "\<exists>w'. wal_Open openFile path = Inr w' \<and> wal_rep w' es [] \<and> f_script (wal_file w') = []"
proof -
  let ?m = "fold (\<lambda>e. max (rec_LSN (entry_rec e))) es 0"
  have ok: "list_all entry_ok es" "f_content (wal_file w) = log_bytes es" using assms(1) by (simp_all add: wal_rep_def)
  have "wal_scanMaxLSN (log_bytes es @ [], None) 0 = Inr ?m" using ok(1) scanMaxLSN_log [of es "[]" None 0] by (simp add: scans_at_end)
  moreover have "list_all (\<lambda>e. rec_LSN (entry_rec e) \<le> ?m) es" by (rule fold_max_ge)
  ultimately show ?thesis
    using assms ok by (auto simp: wal_Open_def os_call_def file_reader_def wal_rep_def list_all_iff)
qed

text \<open>
  A start over a device and a committed journal file succeeds; the table is the one the journal stands for, the device is left
  alone, nothing is buffered and the zone manager knows where the zones are.
\<close>

lemma startup_table:
  assumes dev: "em_inv d" "em_zones d \<noteq> []" "length (em_zones d) \<le> 2 ^ 24" "unat (em_zoneSectors d) < 2 ^ 40" "0 < em_maxOpenZones d"
    and seg: "0 < unat (SectorsPerSegment cfg)" "unat (SectorsPerSegment cfg) < 2 ^ 32" "unat (SectorsPerSegment cfg) \<le> unat (em_zoneSectors d)"
      "em_Capacity d div SectorsPerSegment cfg = segments" "0 < segments"
    and w: "wal_saved segments (length (em_zones d)) w m"
      "openFile (jc_Path (cfg_Journal cfg)) = Inr \<lparr>f_content = f_content (wal_file w), f_script = [], f_readErr = None\<rparr>"
  shows "\<exists>t. startup cfg openFile em_dev d = Some (Inr t) \<and> L2P_Get (ztl_l2p t) = m \<and> ztl_device t = d \<and>
    ztl_sectorsPerSeg t = SectorsPerSegment cfg \<and> wb_buffers (ztl_buf t) = [] \<and> zm_geoms (ztl_zm t) = zone_geoms (em_view d)"
proof -
  obtain es where es: "wal_rep w es []" "list_all (entry_fits segments (length (em_zones d))) es" "log_table es = m"
    using w(1) by (auto simp: wal_saved_def)
  obtain w2 where w2: "wal_Open openFile (jc_Path (cfg_Journal cfg)) = Inr w2" "wal_rep w2 es []" "f_script (wal_file w2) = []"
    using wal_reopen [OF es(1), of openFile "jc_Path (cfg_Journal cfg)"] w(2) by blast
  note rep = em_report_all [OF dev(1,2)]
  have nz: "SectorsPerSegment cfg \<noteq> 0" "em_zoneSectors d \<noteq> 0" "em_Capacity d div SectorsPerSegment cfg \<noteq> 0"
    using seg by auto
  obtain t where t: "ztl_New cfg em_dev d w2 = Inr t"
    using rep nz by (auto simp: ztl_New_def em_dev_def zm_Initialize_def Let_def split: sum.splits)
  have tf: "ztl_journal t = w2" "ztl_l2p t = NewL2PTable segments" "ztl_sectorsPerSeg t = SectorsPerSegment cfg" "wb_buffers (ztl_buf t) = []"
    using t seg(4) by (auto simp: ztl_New_def em_dev_def Let_def NewWriteBuffer_def split: if_splits sum.splits prod.splits)
  have tinv: "ztl_inv (em_view d) t" "ztl_device t = d" using ztl_New_em_inv [OF dev seg(2,3) t] by auto
  then have geo: "zm_geoms (ztl_zm t) = zone_geoms (em_view d)" by (simp add: ztl_inv_def buffered_ok_def)
  have "length (zm_zones (ztl_zm t)) = length (em_zones d)"
    using zone_geoms_length [of "em_view d" "ztl_zm t" "ztl_buf t"] tinv(1) by (simp add: ztl_inv_def em_view_def)
  then obtain l2p' zm' where r: "Recover em_dev w2 (NewL2PTable segments) (ztl_zm t) d = Some (Inr (), w2, l2p', zm', d)"
    "L2P_Get l2p' = log_table es" "zm_geoms zm' = zm_geoms (ztl_zm t)"
    using recover_log_table [OF w2(2,3) _ rep, of segments "ztl_zm t"] es(2) by auto
  have "startup cfg openFile em_dev d = Some (Inr (t\<lparr>ztl_journal := w2, ztl_l2p := l2p', ztl_zm := zm', ztl_device := d\<rparr>))"
    using w2(1) t r(1) tf(1,2) tinv(2) by (simp add: startup_def runRecovery_def)
  then show ?thesis using r(2,3) es(3) tf geo by auto
qed

section \<open>Properties\<close>

text \<open>The number of segments a request of \<open>k\<close> sectors at \<open>lba\<close> touches.\<close>

definition touched :: "('d, 'j) ZTL \<Rightarrow> u64 \<Rightarrow> u64 \<Rightarrow> nat" where
  "touched s lba k = length (word_upto (LBAToSegmentID lba (ztl_sectorsPerSeg s)) (LBAToSegmentID (lba + k - 1) (ztl_sectorsPerSeg s)))"

text \<open>
  C13: write-ahead logging. As long as table and log agree, a \<^verbatim>\<open>Write\<close> that reports success (and needed no emergency collection)
  leaves them in agreement, with everything committed: the journal file alone determines the whole mapping table. At most two
  records are written per segment, which is what the counter of sequence numbers needs room for.
\<close>

theorem journal_keeps_up:
  assumes "in_sync segments (wal_stands segments zones) (n + 2 * touched s lba (of_nat (length data) div 512)) s"
    and "ztl_emergencyFreeZones s \<le> zm_FreeZoneCount (ztl_zm s)" and "data \<noteq> []"
    and "ztl_Write ord ops (Some (wal_journal now)) now s lba data = Some (Inr (), s')"
  shows "in_sync segments (wal_stands segments zones) n s' \<and> wal_saved segments zones (ztl_journal s') (L2P_Get (ztl_l2p s'))"
  using wj.Write_sync [OF _ assms(2-4)] assms(1) by (simp add: touched_def)

text \<open>The small translation layer of \<open>ZtlSpec\<close>, with a journal on an empty file.\<close>

definition ztl_wdemo :: "(Emulator, Wal) ZTL" where
  "ztl_wdemo =
     \<lparr>ztl_l2p = ztl_l2p ztl_demo, ztl_p2l = ztl_p2l ztl_demo, ztl_buf = ztl_buf ztl_demo, ztl_zm = ztl_zm ztl_demo,
      ztl_gcStats = ztl_gcStats ztl_demo, ztl_device = em_demo, ztl_journal = wal_demo, ztl_sectorsPerSeg = 2, ztl_zoneSectors = 2,
      ztl_emergencyFreeZones = 0, ztl_freeTriggerRatio = 1 / 5, ztl_triggerCh = False,
      ztl_currentWriteZone = 0, ztl_currentZoneOpen = False\<rparr>"

lemma ztl_wdemo_good: "ztl_good ztl_wdemo"
  using ztl_demo_good by (simp add: ztl_good_def ztl_inv_def ztl_wdemo_def ztl_demo_def)

lemma ztl_wdemo_sync: "k < 2 ^ 64 \<Longrightarrow> in_sync 2 (wal_stands 2 2) k ztl_wdemo"
proof -
  assume "k < 2 ^ 64"
  have "L2P_Get (ztl_l2p ztl_wdemo) = log_table ([] @ [])"
    by (auto simp: fun_eq_iff log_table_def ztl_wdemo_def ztl_demo_def L2P_Get_def word_le_nat_alt nth_Cons')
  moreover have "wal_rep wal_demo [] []" by (rule wal_demo_rep)
  ultimately show ?thesis using \<open>k < 2 ^ 64\<close>
    unfolding in_sync_def wal_stands_def
    by (intro conjI exI [of _ "[]"]) (simp_all add: ztl_wdemo_def ztl_demo_def l2p_inv_def wal_demo_def)
qed

lemmas wal_eval = wal_journal_def wal_LogL2PUpdate_def wal_LogZoneOpen_def wal_logZoneAction_def wal_nextLSN_def wal_appendRecord_def

lemma wal_demo_commit:
  "fst (wal_GroupCommit (wal_demo\<lparr>wal_lsn := l, wal_pending := ps\<rparr>)) = Inr () \<and>
   wal_pending (snd (wal_GroupCommit (wal_demo\<lparr>wal_lsn := l, wal_pending := ps\<rparr>))) = []"
proof -
  have "faultless (wal_writer (wal_demo\<lparr>wal_lsn := l, wal_pending := ps\<rparr>)) (wal_file (wal_demo\<lparr>wal_lsn := l, wal_pending := ps\<rparr>))"
    by (simp add: faultless_def wal_demo_def)
  then obtain w' where w': "wal_GroupCommit (wal_demo\<lparr>wal_lsn := l, wal_pending := ps\<rparr>) = (Inr (), w')"
    using wal_GroupCommit_faultless by blast
  moreover have "wal_pending w' = []"
    using w' by (auto simp: wal_GroupCommit_def Let_def split: if_splits prod.splits sum.splits)
  ultimately show ?thesis by simp
qed

lemma ztl_wdemo_write:
  "\<exists>s'. ztl_Write (\<lambda>x. x) em_dev (Some (wal_journal 0)) 0 ztl_wdemo 0 (replicate 1024 9) = Some (Inr (), s') \<and>
     wb_buffers (ztl_buf s') = [] \<and> wal_pending (ztl_journal s') = [] \<and> ztl_sectorsPerSeg s' = 2 \<and>
     length (em_zones (ztl_device s')) = 2 \<and> em_zoneSectors (ztl_device s') = 2 \<and> em_maxOpenZones (ztl_device s') = 1 \<and>
     em_Capacity (ztl_device s') = 4"
  by (simp add: ztl_eval ztl_wdemo_def wal_eval em_Capacity_def) (simp add: case_prod_unfold wal_demo_commit)

theorem journal_keeps_up_witness:
  "\<exists>s'. ztl_Write (\<lambda>x. x) em_dev (Some (wal_journal 0)) 0 ztl_wdemo 0 (replicate 1024 9) = Some (Inr (), s') \<and>
     wal_saved 2 2 (ztl_journal s') (L2P_Get (ztl_l2p s'))"
proof -
  obtain s' where w: "ztl_Write (\<lambda>x. x) em_dev (Some (wal_journal 0)) 0 ztl_wdemo 0 (replicate 1024 9) = Some (Inr (), s')"
    using ztl_wdemo_write by blast
  have "in_sync 2 (wal_stands 2 2) (0 + 2 * touched ztl_wdemo 0 (of_nat (length (replicate 1024 (9 :: u8))) div 512)) ztl_wdemo"
    by (rule ztl_wdemo_sync) (simp add: touched_def ztl_wdemo_def LBAToSegmentID_def word_upto_def)
  from journal_keeps_up [OF this _ _ w] show ?thesis
    using w by (auto simp: ztl_wdemo_def ztl_demo_def zm_FreeZoneCount_def zm_demo_def)
qed

lemma ztl_wdemo_written:
  "\<exists>s1. ztl_Write (\<lambda>x. x) em_dev (Some (wal_journal 0)) 0 ztl_wdemo 0 (replicate 1024 9) = Some (Inr (), s1) \<and>
     wb_buffers (ztl_buf s1) = [] \<and> wal_pending (ztl_journal s1) = [] \<and> ztl_sectorsPerSeg s1 = 2 \<and>
     length (em_zones (ztl_device s1)) = 2 \<and> em_zoneSectors (ztl_device s1) = 2 \<and> em_maxOpenZones (ztl_device s1) = 1 \<and>
     em_Capacity (ztl_device s1) = 4 \<and> ztl_good s1 \<and> in_sync 2 (wal_stands 2 2) 0 s1 \<and> ztl_Read em_dev s1 0 2 = (Inr (replicate 1024 9), s1)"
proof -
  obtain s1 where w: "ztl_Write (\<lambda>x. x) em_dev (Some (wal_journal 0)) 0 ztl_wdemo 0 (replicate 1024 9) = Some (Inr (), s1)"
    "wb_buffers (ztl_buf s1) = []" "wal_pending (ztl_journal s1) = []" "ztl_sectorsPerSeg s1 = 2"
    "length (em_zones (ztl_device s1)) = 2" "em_zoneSectors (ztl_device s1) = 2" "em_maxOpenZones (ztl_device s1) = 1"
    "em_Capacity (ztl_device s1) = 4"
    using ztl_wdemo_write by blast
  have wr: "ztl_wrote (\<lambda>x. x) (Some (wal_journal 0)) 0 ztl_wdemo 0 (replicate 1024 9) s1"
    using w(1) by (simp add: ztl_wrote_def ztl_wdemo_def ztl_demo_def zm_FreeZoneCount_def)
  have "in_sync 2 (wal_stands 2 2) (0 + 2 * length (word_upto (LBAToSegmentID 0 (ztl_sectorsPerSeg ztl_wdemo))
      (LBAToSegmentID (0 + of_nat (length (replicate 1024 (9 :: u8))) div 512 - 1) (ztl_sectorsPerSeg ztl_wdemo)))) ztl_wdemo"
    by (rule ztl_wdemo_sync) (simp add: ztl_wdemo_def LBAToSegmentID_def word_upto_def)
  from wj.Write_sync [OF this _ _ w(1)] have sync: "in_sync 2 (wal_stands 2 2) 0 s1"
    by (simp add: ztl_wdemo_def ztl_demo_def zm_FreeZoneCount_def)
  show ?thesis
    using w sync zs.wrote_good [OF ztl_wdemo_good wr] zs.read_after_write [OF ztl_wdemo_good wr, of 2] by simp
qed

lemma ztl_demo_cfg_seg: "SectorsPerSegment ztl_demo_cfg = 2"
  by (simp add: ztl_demo_cfg_def SectorsPerSegment_def DefaultConfig_def)

text \<open>A start after a flush reads what was there before it.\<close>

lemma flush_restart:
  assumes "em_inv (ztl_device s)" and "ztl_inv (em_view (ztl_device s)) s" and "\<And>xs. set (zord xs) = set xs"
    and "in_sync segments (wal_stands segments (length (em_zones (ztl_device s')))) n s"
    and "ztl_Flush zord em_dev (Some (wal_journal now)) s = (Inr (), s')"
    and "openFile (jc_Path (cfg_Journal cfg)) = Inr \<lparr>f_content = f_content (wal_file (ztl_journal s')), f_script = [], f_readErr = None\<rparr>"
    and "SectorsPerSegment cfg = ztl_sectorsPerSeg s" and "em_Capacity (ztl_device s') div SectorsPerSegment cfg = segments" and "0 < segments"
    and "em_zones (ztl_device s') \<noteq> []" and "length (em_zones (ztl_device s')) \<le> 2 ^ 24" and "unat (em_zoneSectors (ztl_device s')) < 2 ^ 40"
    and "0 < em_maxOpenZones (ztl_device s')" and "unat (ztl_sectorsPerSeg s) \<le> unat (em_zoneSectors (ztl_device s'))"
  shows "\<exists>t. startup cfg openFile em_dev (ztl_device s') = Some (Inr t) \<and>
    (\<forall>lba c. unat lba + unat c \<le> 2 ^ 63 \<longrightarrow> fst (ztl_Read em_dev t lba c) = fst (ztl_Read em_dev s lba c))"
proof -
  let ?d = "ztl_device s'"
  obtain s1 j where f: "ztl_flushBuf zord em_dev s = (Inr (), s1)" and s': "s' = s1\<lparr>ztl_journal := j\<rparr>"
    using assms(5) log_call_state [of jn_GroupCommit "Some (wal_journal now)"] by (auto simp: ztl_Flush_def split: prod.splits sum.splits)
  note w = em.ztl_flushBuf_ok [OF assms(1-3) f]
  have inv': "em_inv ?d" "ztl_inv (em_view ?d) s'" "ztl_sectorsPerSeg s' = ztl_sectorsPerSeg s" "logical (em_view ?d) s' = logical (em_view (ztl_device s)) s"
    using w by (simp_all add: s')
  have S: "0 < unat (ztl_sectorsPerSeg s)" "unat (ztl_sectorsPerSeg s) < 2 ^ 32" using assms(2) by (auto simp: ztl_inv_def)
  have sv: "wal_saved segments (length (em_zones ?d)) (ztl_journal s') (L2P_Get (ztl_l2p s))" "ztl_l2p s' = ztl_l2p s"
    using wj.Flush_sync [OF assms(4,5)] by auto
  obtain t where t: "startup cfg openFile em_dev ?d = Some (Inr t)" "L2P_Get (ztl_l2p t) = L2P_Get (ztl_l2p s)" "ztl_device t = ?d"
    "ztl_sectorsPerSeg t = SectorsPerSegment cfg" "wb_buffers (ztl_buf t) = []" "zm_geoms (ztl_zm t) = zone_geoms (em_view ?d)"
    using startup_table [OF inv'(1) assms(10-13) _ _ _ assms(8,9) sv(1), of openFile] S assms(6,7,14) by auto
  have "reads_alike s' t"
    using t assms(7) sv(2) inv'(2,3) w by (simp add: reads_alike_def s' ztl_inv_def buffered_ok_def)
  then have "fst (ztl_Read em_dev t lba c) = fst (ztl_Read em_dev s' lba c)" for lba c by (rule Read_alike)
  moreover have "fst (ztl_Read em_dev s' lba c) = fst (ztl_Read em_dev s lba c)" if "unat lba + unat c \<le> 2 ^ 63" for lba c
    using em.ztl_Read_logical [OF assms(1,2) that] em.ztl_Read_logical [OF inv'(1,2) that] inv'(4) by simp
  ultimately show ?thesis using t(1) by auto
qed



end
