(* ===== verification/Scsi.thy ===== *)
theory Scsi
  imports ZtlSpec
begin

unbundle bit_operations_syntax

text \<open>
  The SCSI command layer, \<^verbatim>\<open>internal/scsi\<close>: sense data (\<^verbatim>\<open>sense.go\<close>), READ and WRITE in their 6, 10 and 16 byte
  forms (\<^verbatim>\<open>read.go\<close>, \<^verbatim>\<open>write.go\<close>), SYNCHRONIZE CACHE (\<^verbatim>\<open>sync.go\<close>), INQUIRY (\<^verbatim>\<open>inquiry.go\<close>), READ CAPACITY
  (\<^verbatim>\<open>readcap.go\<close>), UNMAP and the short answers (\<^verbatim>\<open>stubs.go\<close>), and the dispatcher (\<^verbatim>\<open>handler.go\<close>).

  A Go method on the block device is a function on the device's state. A call that never returns is \<open>None\<close>
  (only \<^verbatim>\<open>Write\<close> can do that, through the emergency garbage collection). A \<^verbatim>\<open>nil\<close> byte slice is the empty list,
  except where the code distinguishes it (the answer of \<^verbatim>\<open>handleInquiry\<close>).
\<close>

section \<open>The block device (block\_device.go)\<close>

record 'b BlockDevice =
  bd_Read :: "'b \<Rightarrow> u64 \<Rightarrow> u32 \<Rightarrow> bytes result \<times> 'b"
  bd_Write :: "'b \<Rightarrow> u64 \<Rightarrow> bytes \<Rightarrow> (unit result \<times> 'b) option"
  bd_Flush :: "'b \<Rightarrow> unit result \<times> 'b"
  bd_Unmap :: "'b \<Rightarrow> u64 \<Rightarrow> u32 \<Rightarrow> unit result \<times> 'b"
  bd_BlockSize :: "'b \<Rightarrow> u32"
  bd_Capacity :: "'b \<Rightarrow> u64"

text \<open>The translation layer as a block device.\<close>

definition ztl_blockDevice ::
    "map_order \<Rightarrow> (u32 list \<Rightarrow> u32 list) \<Rightarrow> 'd ZonedDevice \<Rightarrow> 'j Journal option \<Rightarrow> int \<Rightarrow> ('d, 'j) ZTL BlockDevice" where
  "ztl_blockDevice ord zord ops jn now =
     \<lparr>bd_Read = ztl_Read ops, bd_Write = ztl_Write ord ops jn now, bd_Flush = ztl_Flush zord ops jn,
      bd_Unmap = ztl_Unmap jn, bd_BlockSize = ztl_BlockSize ops, bd_Capacity = ztl_Capacity ops\<rparr>"

section \<open>Status and sense (sense.go)\<close>

definition StatusGood :: u8 where "StatusGood = 0x00"
definition StatusCheckCondition :: u8 where "StatusCheckCondition = 0x02"

definition SenseKeyNoSense :: u8 where "SenseKeyNoSense = 0x00"
definition SenseKeyMediumError :: u8 where "SenseKeyMediumError = 0x03"
definition SenseKeyIllegalRequest :: u8 where "SenseKeyIllegalRequest = 0x05"

definition ASCInvalidCommandOpCode :: u8 where "ASCInvalidCommandOpCode = 0x20"
definition ASCInvalidFieldInCDB :: u8 where "ASCInvalidFieldInCDB = 0x24"
definition ASCNoAdditionalSenseInfo :: u8 where "ASCNoAdditionalSenseInfo = 0x00"
definition ASCUnrecoveredReadError :: u8 where "ASCUnrecoveredReadError = 0x11"

definition BuildSense :: "u8 \<Rightarrow> u8 \<Rightarrow> u8 \<Rightarrow> bytes" where
  "BuildSense key asc ascq =
     [0x70, 0x00, key AND 0x0F, 0x00, 0x00, 0x00, 0x00, 0x0A, 0x00, 0x00, 0x00, 0x00, asc, ascq, 0x00, 0x00, 0x00, 0x00]"

definition SenseIllegalRequest :: bytes where
  "SenseIllegalRequest = BuildSense SenseKeyIllegalRequest ASCInvalidCommandOpCode 0x00"

definition SenseIllegalRequestInvalidField :: bytes where
  "SenseIllegalRequestInvalidField = BuildSense SenseKeyIllegalRequest ASCInvalidFieldInCDB 0x00"

definition SenseMediumError :: bytes where
  "SenseMediumError = BuildSense SenseKeyMediumError ASCUnrecoveredReadError 0x00"

definition buildSenseFromError :: "go_error \<Rightarrow> bytes" where
  "buildSenseFromError err = BuildSense SenseKeyMediumError ASCUnrecoveredReadError 0x00"

section \<open>READ (read.go)\<close>

definition OpcodeRead6 :: u8 where "OpcodeRead6 = 0x08"
definition OpcodeRead10 :: u8 where "OpcodeRead10 = 0x28"
definition OpcodeRead16 :: u8 where "OpcodeRead16 = 0x88"

text \<open>The address of a six-byte CDB: the low five bits of byte 1 and bytes 2 and 3.\<close>

definition cdb6_lba :: "bytes \<Rightarrow> u64" where
  "cdb6_lba cdb = push_bit 16 (ucast (cdb ! 1 AND 0x1F)) OR push_bit 8 (ucast (cdb ! 2)) OR ucast (cdb ! 3)"

definition handleRead6 :: "'b BlockDevice \<Rightarrow> bytes \<Rightarrow> 'b \<Rightarrow> bytes result \<times> 'b" where
  "handleRead6 dev cdb b =
     (if length cdb < 6 then (Inl (Errorf ''READ(6) CDB too short''), b)
      else
        let lba = cdb6_lba cdb;
            count = (ucast (cdb ! 4) :: u32)
        in bd_Read dev b lba (if count = 0 then 256 else count))"

definition handleRead10 :: "'b BlockDevice \<Rightarrow> bytes \<Rightarrow> 'b \<Rightarrow> bytes result \<times> 'b" where
  "handleRead10 dev cdb b =
     (if length cdb < 10 then (Inl (Errorf ''READ(10) CDB too short''), b)
      else
        let lba = (ucast (get_u32 (bslice 2 6 cdb)) :: u64);
            count = (ucast (get_u16 (bslice 7 9 cdb)) :: u32)
        in if count = 0 then (Inr [], b) else bd_Read dev b lba count)"

definition handleRead16 :: "'b BlockDevice \<Rightarrow> bytes \<Rightarrow> 'b \<Rightarrow> bytes result \<times> 'b" where
  "handleRead16 dev cdb b =
     (if length cdb < 16 then (Inl (Errorf ''READ(16) CDB too short''), b)
      else
        let lba = get_u64 (bslice 2 10 cdb);
            count = get_u32 (bslice 10 14 cdb)
        in if count = 0 then (Inr [], b) else bd_Read dev b lba count)"

section \<open>WRITE (write.go)\<close>

definition OpcodeWrite6 :: u8 where "OpcodeWrite6 = 0x0A"
definition OpcodeWrite10 :: u8 where "OpcodeWrite10 = 0x2A"
definition OpcodeWrite16 :: u8 where "OpcodeWrite16 = 0x8A"

definition handleWrite6 :: "'b BlockDevice \<Rightarrow> bytes \<Rightarrow> bytes \<Rightarrow> 'b \<Rightarrow> (unit result \<times> 'b) option" where
  "handleWrite6 dev cdb data b =
     (if length cdb < 6 then Some (Inl (Errorf ''WRITE(6) CDB too short''), b)
      else
        let lba = cdb6_lba cdb;
            count = (let c = (ucast (cdb ! 4) :: u32) in if c = 0 then 256 else c);
            expectedLen = unat count * 512
        in if length data < expectedLen then Some (Inl (Errorf ''WRITE(6) data too short''), b)
           else bd_Write dev b lba (take expectedLen data))"

definition handleWrite10 :: "'b BlockDevice \<Rightarrow> bytes \<Rightarrow> bytes \<Rightarrow> 'b \<Rightarrow> (unit result \<times> 'b) option" where
  "handleWrite10 dev cdb data b =
     (if length cdb < 10 then Some (Inl (Errorf ''WRITE(10) CDB too short''), b)
      else
        let lba = (ucast (get_u32 (bslice 2 6 cdb)) :: u64);
            count = (ucast (get_u16 (bslice 7 9 cdb)) :: u32);
            expectedLen = unat count * 512
        in if count = 0 then Some (Inr (), b)
           else if length data < expectedLen then Some (Inl (Errorf ''WRITE(10) data too short''), b)
           else bd_Write dev b lba (take expectedLen data))"

definition handleWrite16 :: "'b BlockDevice \<Rightarrow> bytes \<Rightarrow> bytes \<Rightarrow> 'b \<Rightarrow> (unit result \<times> 'b) option" where
  "handleWrite16 dev cdb data b =
     (if length cdb < 16 then Some (Inl (Errorf ''WRITE(16) CDB too short''), b)
      else
        let lba = get_u64 (bslice 2 10 cdb);
            count = get_u32 (bslice 10 14 cdb);
            expectedLen = unat count * 512
        in if count = 0 then Some (Inr (), b)
           else if length data < expectedLen then Some (Inl (Errorf ''WRITE(16) data too short''), b)
           else bd_Write dev b lba (take expectedLen data))"

section \<open>SYNCHRONIZE CACHE (sync.go)\<close>

definition OpcodeSyncCache10 :: u8 where "OpcodeSyncCache10 = 0x35"
definition OpcodeSyncCache16 :: u8 where "OpcodeSyncCache16 = 0x91"

definition handleSyncCache10 :: "'b BlockDevice \<Rightarrow> bytes \<Rightarrow> 'b \<Rightarrow> unit result \<times> 'b" where
  "handleSyncCache10 dev cdb b =
     (if length cdb < 10 then (Inl (Errorf ''SYNCHRONIZE CACHE(10) CDB too short''), b) else bd_Flush dev b)"

definition handleSyncCache16 :: "'b BlockDevice \<Rightarrow> bytes \<Rightarrow> 'b \<Rightarrow> unit result \<times> 'b" where
  "handleSyncCache16 dev cdb b =
     (if length cdb < 16 then (Inl (Errorf ''SYNCHRONIZE CACHE(16) CDB too short''), b) else bd_Flush dev b)"

section \<open>INQUIRY (inquiry.go)\<close>

definition OpcodeInquiry :: u8 where "OpcodeInquiry = 0x12"
definition VPDPageSupportedPages :: u8 where "VPDPageSupportedPages = 0x00"
definition VPDPageUnitSerialNumber :: u8 where "VPDPageUnitSerialNumber = 0x80"
definition VPDPageDeviceIdentifiers :: u8 where "VPDPageDeviceIdentifiers = 0x83"

definition buildStandardInquiry :: bytes where
  "buildStandardInquiry =
     (let buf = zeros 36;
          buf = buf[0 := 0x00, 1 := 0x00, 2 := 0x05, 3 := 0x12, 4 := 0x1F, 5 := 0x00, 6 := 0x00, 7 := 0x00];
          buf = blit 8 (str_bytes ''ZNS     '') buf;
          buf = blit 16 (str_bytes ''iSCSI ZNS Target'') buf
      in blit 32 (str_bytes ''1.00'') buf)"

definition buildVPDPage00 :: bytes where
  "buildVPDPage00 =
     (let supported = [VPDPageSupportedPages, VPDPageUnitSerialNumber, VPDPageDeviceIdentifiers];
          buf = (zeros (4 + length supported))[0 := 0x00, 1 := VPDPageSupportedPages, 2 := 0x00, 3 := of_nat (length supported)]
      in blit 4 supported buf)"

definition buildVPDPage80 :: "string \<Rightarrow> bytes" where
  "buildVPDPage80 serialNumber =
     (let sn = str_bytes serialNumber;
          buf = (zeros (4 + length sn))[0 := 0x00, 1 := VPDPageUnitSerialNumber, 2 := 0x00, 3 := of_nat (length sn)]
      in blit 4 sn buf)"

text \<open>The loop over the nibbles of the identifier, for \<open>i\<close> from 1 to 15.\<close>

definition vpd83_shift :: "bytes \<Rightarrow> bytes \<Rightarrow> bytes" where
  "vpd83_shift devID descriptor =
     fold (\<lambda>i d. d[3 + i := push_bit 4 (devID ! (i - 1)) OR drop_bit 4 (devID ! i)]) [1..<16] descriptor"

definition buildVPDPage83 :: "bytes \<Rightarrow> bytes" where
  "buildVPDPage83 devID =
     (let descLen = 16;
          descriptor = (zeros (4 + descLen))[0 := 0x01, 1 := 0x03, 2 := 0x00, 3 := of_nat descLen,
                         4 := push_bit 4 0x06 OR drop_bit 4 (devID ! 0)];
          descriptor = vpd83_shift devID descriptor;
          descriptor = blit 4 devID descriptor;
          descriptor = descriptor[4 := (descriptor ! 4 AND 0x0F) OR 0x60];
          pageLen = length descriptor;
          buf = (zeros (4 + pageLen))[0 := 0x00, 1 := VPDPageDeviceIdentifiers];
          buf = blit 2 (put_u16 (of_nat pageLen)) buf
      in blit 4 descriptor buf)"

text \<open>\<open>None\<close> is the nil slice that the caller turns into ILLEGAL REQUEST.\<close>

definition buildVPDPage :: "u8 \<Rightarrow> string \<Rightarrow> bytes \<Rightarrow> bytes option" where
  "buildVPDPage pageCode serialNumber devID =
     (if pageCode = VPDPageSupportedPages then Some buildVPDPage00
      else if pageCode = VPDPageUnitSerialNumber then Some (buildVPDPage80 serialNumber)
      else if pageCode = VPDPageDeviceIdentifiers then Some (buildVPDPage83 devID)
      else None)"

definition handleInquiry :: "bytes \<Rightarrow> string \<Rightarrow> bytes \<Rightarrow> bytes option" where
  "handleInquiry cdb serialNumber devID =
     (if length cdb < 6 then None
      else if cdb ! 1 AND 0x01 \<noteq> 0 then buildVPDPage (cdb ! 2) serialNumber devID
      else Some buildStandardInquiry)"

section \<open>READ CAPACITY (readcap.go)\<close>

definition OpcodeReadCapacity10 :: u8 where "OpcodeReadCapacity10 = 0x25"
definition OpcodeReadCapacity16 :: u8 where "OpcodeReadCapacity16 = 0x9E"
definition ServiceActionReadCap16 :: u8 where "ServiceActionReadCap16 = 0x10"

definition handleReadCapacity10 :: "u64 \<Rightarrow> u32 \<Rightarrow> bytes" where
  "handleReadCapacity10 capacity blockSize =
     (let lastLBA = capacity - 1;
          lastLBA = (if lastLBA > 0xFFFFFFFF then 0xFFFFFFFF else lastLBA)
      in put_u32 (ucast lastLBA) @ put_u32 blockSize)"

definition handleReadCapacity16 :: "u64 \<Rightarrow> u32 \<Rightarrow> bytes" where
  "handleReadCapacity16 capacity blockSize =
     (let lastLBA = capacity - 1
      in put_u64 lastLBA @ put_u32 blockSize @ zeros 20)"

section \<open>Short answers and UNMAP (stubs.go)\<close>

definition OpcodeTestUnitReady :: u8 where "OpcodeTestUnitReady = 0x00"
definition OpcodeReportLUNs :: u8 where "OpcodeReportLUNs = 0xA0"
definition OpcodeModeSense10 :: u8 where "OpcodeModeSense10 = 0x5A"
definition OpcodeModeSense6 :: u8 where "OpcodeModeSense6 = 0x1A"
definition OpcodePersistentReserveIn :: u8 where "OpcodePersistentReserveIn = 0x5E"
definition OpcodePersistentReserveOut :: u8 where "OpcodePersistentReserveOut = 0x5F"
definition OpcodeUnmap :: u8 where "OpcodeUnmap = 0x42"
definition OpcodeRequestSense :: u8 where "OpcodeRequestSense = 0x03"
definition OpcodeStartStopUnit :: u8 where "OpcodeStartStopUnit = 0x1B"

definition handleTestUnitReady :: "bytes \<times> u8 \<times> bytes" where
  "handleTestUnitReady = ([], StatusGood, [])"

definition handleReportLUNs :: bytes where
  "handleReportLUNs = blit 0 (put_u32 8) (zeros 16)"

definition handleModeSense10 :: bytes where
  "handleModeSense10 =
     (let buf = zeros 8;
          buf = blit 0 (put_u16 (of_nat (length buf) - 2)) buf;
          buf = buf[2 := 0x00, 3 := 0x00, 4 := 0x00, 5 := 0x00]
      in blit 6 (put_u16 0) buf)"

definition handleModeSense6 :: bytes where
  "handleModeSense6 = (let buf = zeros 4 in buf[0 := of_nat (length buf) - 1, 1 := 0x00, 2 := 0x00, 3 := 0x00])"

definition handlePersistentReserveIn :: "bytes \<times> u8 \<times> bytes" where
  "handlePersistentReserveIn = ([], StatusCheckCondition, SenseIllegalRequest)"

definition handlePersistentReserveOut :: "bytes \<times> u8 \<times> bytes" where
  "handlePersistentReserveOut = ([], StatusCheckCondition, SenseIllegalRequest)"

text \<open>The loop of \<^verbatim>\<open>handleUnmap\<close> over the block descriptors.\<close>

fun unmap_descs :: "'b BlockDevice \<Rightarrow> bytes \<Rightarrow> 'b \<Rightarrow> unit result \<times> 'b" where
  "unmap_descs dev descs b =
     (if length descs \<ge> 16 then
        let lba = get_u64 (bslice 0 8 descs);
            count = get_u32 (bslice 8 12 descs) in
        if count > 0 then
          (case bd_Unmap dev b lba count of
             (Inl err, b1) \<Rightarrow> (Inl err, b1)
           | (Inr _, b1) \<Rightarrow> unmap_descs dev (drop 16 descs) b1)
        else unmap_descs dev (drop 16 descs) b
      else (Inr (), b))"

declare unmap_descs.simps [simp del]

definition handleUnmap :: "'b BlockDevice \<Rightarrow> bytes \<Rightarrow> bytes \<Rightarrow> 'b \<Rightarrow> unit result \<times> 'b" where
  "handleUnmap dev cdb dataOut b =
     (if length dataOut < 8 then (Inr (), b)
      else
        let descDataLen = unat (get_u16 (bslice 2 4 dataOut)) in
        if descDataLen = 0 \<or> length dataOut < 8 then (Inr (), b)
        else unmap_descs dev (drop 8 dataOut) b)"

definition handleRequestSense :: bytes where
  "handleRequestSense = BuildSense SenseKeyNoSense ASCNoAdditionalSenseInfo 0x00"

definition handleStartStopUnit :: "bytes \<times> u8 \<times> bytes" where
  "handleStartStopUnit = ([], StatusGood, [])"

section \<open>The dispatcher (handler.go)\<close>

record 'b Handler =
  h_dev :: "'b BlockDevice"
  h_serialNumber :: string
  h_devID :: bytes

definition NewHandler :: "'b BlockDevice \<Rightarrow> string \<Rightarrow> bytes \<Rightarrow> 'b Handler" where
  "NewHandler dev serialNumber devID = \<lparr>h_dev = dev, h_serialNumber = serialNumber, h_devID = devID\<rparr>"

text \<open>The four results of \<^verbatim>\<open>Execute\<close>: data for the initiator, status, sense data and the fatal error.\<close>

type_synonym scsi_answer = "bytes \<times> u8 \<times> bytes \<times> go_error option"

definition scsi_good :: "bytes \<Rightarrow> scsi_answer" where
  "scsi_good data = (data, StatusGood, [], None)"

definition scsi_check :: "bytes \<Rightarrow> scsi_answer" where
  "scsi_check sense = ([], StatusCheckCondition, sense, None)"

definition scsi_triple :: "bytes \<times> u8 \<times> bytes \<Rightarrow> scsi_answer" where
  "scsi_triple t = (case t of (data, st, sense) \<Rightarrow> (data, st, sense, None))"

text \<open>How \<^verbatim>\<open>Execute\<close> turns the result of a reading or a writing handler into an answer.\<close>

definition answer_read :: "bytes result \<times> 'b \<Rightarrow> scsi_answer \<times> 'b" where
  "answer_read r = (case r of
      (Inl e, b) \<Rightarrow> (scsi_check (buildSenseFromError e), b)
    | (Inr data, b) \<Rightarrow> (scsi_good data, b))"

definition answer_write :: "unit result \<times> 'b \<Rightarrow> scsi_answer \<times> 'b" where
  "answer_write r = (case r of
      (Inl e, b) \<Rightarrow> (scsi_check (buildSenseFromError e), b)
    | (Inr _, b) \<Rightarrow> (scsi_good [], b))"

definition Execute :: "'b Handler \<Rightarrow> bytes \<Rightarrow> bytes \<Rightarrow> 'b \<Rightarrow> (scsi_answer \<times> 'b) option" where
  "Execute h cdb dataOut b =
     (if length cdb = 0 then Some (scsi_check SenseIllegalRequest, b)
      else
        let opcode = cdb ! 0; dev = h_dev h in
        if opcode = OpcodeTestUnitReady then Some (scsi_triple handleTestUnitReady, b)
        else if opcode = OpcodeInquiry then
          (case handleInquiry cdb (h_serialNumber h) (h_devID h) of
             None \<Rightarrow> Some (scsi_check SenseIllegalRequestInvalidField, b)
           | Some data \<Rightarrow> Some (scsi_good data, b))
        else if opcode = OpcodeRequestSense then Some (scsi_good handleRequestSense, b)
        else if opcode = OpcodeStartStopUnit then Some (scsi_triple handleStartStopUnit, b)
        else if opcode = OpcodeReadCapacity10 then
          Some (scsi_good (handleReadCapacity10 (bd_Capacity dev b) (bd_BlockSize dev b)), b)
        else if opcode = OpcodeReadCapacity16 then
          (if length cdb < 2 \<or> (cdb ! 1 AND 0x1F) \<noteq> ServiceActionReadCap16
           then Some (scsi_check SenseIllegalRequest, b)
           else Some (scsi_good (handleReadCapacity16 (bd_Capacity dev b) (bd_BlockSize dev b)), b))
        else if opcode = OpcodeRead6 then Some (answer_read (handleRead6 dev cdb b))
        else if opcode = OpcodeRead10 then Some (answer_read (handleRead10 dev cdb b))
        else if opcode = OpcodeRead16 then Some (answer_read (handleRead16 dev cdb b))
        else if opcode = OpcodeWrite6 then map_option answer_write (handleWrite6 dev cdb dataOut b)
        else if opcode = OpcodeWrite10 then map_option answer_write (handleWrite10 dev cdb dataOut b)
        else if opcode = OpcodeWrite16 then map_option answer_write (handleWrite16 dev cdb dataOut b)
        else if opcode = OpcodeSyncCache10 then Some (answer_write (handleSyncCache10 dev cdb b))
        else if opcode = OpcodeSyncCache16 then Some (answer_write (handleSyncCache16 dev cdb b))
        else if opcode = OpcodeReportLUNs then Some (scsi_good handleReportLUNs, b)
        else if opcode = OpcodeModeSense10 then Some (scsi_good handleModeSense10, b)
        else if opcode = OpcodeModeSense6 then Some (scsi_good handleModeSense6, b)
        else if opcode = OpcodePersistentReserveIn then Some (scsi_triple handlePersistentReserveIn, b)
        else if opcode = OpcodePersistentReserveOut then Some (scsi_triple handlePersistentReserveOut, b)
        else if opcode = OpcodeUnmap then Some (answer_write (handleUnmap dev cdb dataOut b))
        else Some (scsi_check (BuildSense SenseKeyIllegalRequest ASCInvalidCommandOpCode 0x00), b))"

lemmas scsi_opcodes =
  OpcodeTestUnitReady_def OpcodeInquiry_def OpcodeRequestSense_def OpcodeStartStopUnit_def OpcodeReadCapacity10_def
  OpcodeReadCapacity16_def OpcodeRead6_def OpcodeRead10_def OpcodeRead16_def OpcodeWrite6_def OpcodeWrite10_def
  OpcodeWrite16_def OpcodeSyncCache10_def OpcodeSyncCache16_def OpcodeReportLUNs_def OpcodeModeSense10_def
  OpcodeModeSense6_def OpcodePersistentReserveIn_def OpcodePersistentReserveOut_def OpcodeUnmap_def

section \<open>Building the CDBs of READ and WRITE\<close>

text \<open>
  The command blocks as an initiator builds them, after the layouts of SBC-3: any flags, group number, control
  byte and padding behind the block (the PDU carries sixteen bytes whatever the command). The six-byte form writes
  256 sectors as 0.
\<close>

datatype cdb_form = Six | Ten | Sixteen

fun rw_fits :: "cdb_form \<Rightarrow> u64 \<Rightarrow> u32 \<Rightarrow> bool" where
  "rw_fits Six lba n \<longleftrightarrow> unat lba < 2 ^ 21 \<and> 0 < unat n \<and> unat n \<le> 256"
| "rw_fits Ten lba n \<longleftrightarrow> unat lba < 2 ^ 32 \<and> 0 < unat n \<and> unat n < 2 ^ 16"
| "rw_fits Sixteen lba n \<longleftrightarrow> 0 < unat n"

fun rw_opcode :: "cdb_form \<Rightarrow> bool \<Rightarrow> u8" where
  "rw_opcode Six w = (if w then 0x0A else 0x08)"
| "rw_opcode Ten w = (if w then 0x2A else 0x28)"
| "rw_opcode Sixteen w = (if w then 0x8A else 0x88)"

fun rw_cdb :: "cdb_form \<Rightarrow> bool \<Rightarrow> u8 \<Rightarrow> u8 \<Rightarrow> u8 \<Rightarrow> u64 \<Rightarrow> u32 \<Rightarrow> bytes" where
  "rw_cdb Six w fl grp ctl lba n =
     [rw_opcode Six w] @ drop 5 (put_u64 lba) @ [ucast n, ctl]"
| "rw_cdb Ten w fl grp ctl lba n =
     [rw_opcode Ten w, fl] @ put_u32 (ucast lba) @ [grp] @ put_u16 (ucast n) @ [ctl]"
| "rw_cdb Sixteen w fl grp ctl lba n =
     [rw_opcode Sixteen w, fl] @ put_u64 lba @ put_u32 n @ [grp, ctl]"

lemma length_rw_cdb [simp]: "length (rw_cdb Six w fl grp ctl lba n) = 6"
  "length (rw_cdb Ten w fl grp ctl lba n) = 10" "length (rw_cdb Sixteen w fl grp ctl lba n) = 16"
  by simp_all

lemma small_ucast: "unat (x :: 'a::len word) < 2 ^ LENGTH('b::len) \<Longrightarrow> LENGTH('b) \<le> LENGTH('a) \<Longrightarrow>
    (ucast (ucast x :: 'b word) :: 'a word) = x"
  by (rule unat_inj [THEN iffD1]) (simp add: unsigned_ucast_eq unsigned_take_bit_eq take_bit_nat_eq_self)

lemma put_u64_low: "drop 5 (put_u64 x) = [ucast (drop_bit 16 x), ucast (drop_bit 8 x), ucast x]"
  by (simp add: be_put_def upt_rec)


lemma cdb6_lba_cdb:
  assumes "unat lba < 2 ^ 21"
  shows "cdb6_lba (rw_cdb Six w fl grp ctl lba n @ pad) = lba"
proof (rule bit_word_eqI)
  fix i assume i: "i < LENGTH(64)"
  have "take_bit 21 lba = lba" using assms
    by (intro unat_inj [THEN iffD1]) (simp add: unsigned_take_bit_eq take_bit_nat_eq_self)
  then have hi: "bit lba i \<Longrightarrow> i < 21" by (metis bit_take_bit_iff)
  have m: "bit (0x1F :: u8) j \<longleftrightarrow> j < 5" "bit (0x1F :: int) j \<longleftrightarrow> j < 5" "bit (0x1F :: nat) j \<longleftrightarrow> j < 5" for j
    using bit_mask_iff [of 5 j, where ?'a = "8 word"] bit_mask_iff [of 5 j, where ?'a = int]
      bit_mask_iff [of 5 j, where ?'a = nat]
    by (auto simp: mask_eq_exp_minus_1)
  show "bit (cdb6_lba (rw_cdb Six w fl grp ctl lba n @ pad)) i \<longleftrightarrow> bit lba i"
    using i hi by (auto simp: cdb6_lba_def put_u64_low bit_simps m nth_append)
qed

lemma rw_count6: "0 < unat (n :: u32) \<Longrightarrow> unat n \<le> 256 \<Longrightarrow>
    (let c = ucast (ucast n :: u8) :: u32 in if c = 0 then 256 else c) = n"
proof -
  assume n: "0 < unat n" "unat n \<le> 256"
  show ?thesis
  proof (cases "unat n = 256")
    case True
    then have "n = 256" by (intro unat_inj [THEN iffD1]) simp
    then show ?thesis by simp
  next
    case False
    then have "(ucast (ucast n :: u8) :: u32) = n" using n by (intro small_ucast) auto
    moreover have "n \<noteq> 0" using n by auto
    ultimately show ?thesis by simp
  qed
qed

text \<open>What the dispatcher does with such a block: one call of the device with the address and the length it names.\<close>

lemma execute_read:
  assumes "rw_fits f lba n"
  shows "Execute h (rw_cdb f False fl grp ctl lba n @ pad) out b = Some (answer_read (bd_Read (h_dev h) b lba n))"
proof (cases f)
  case Six
  then show ?thesis
    using assms cdb6_lba_cdb [of lba False fl grp ctl n pad] rw_count6 [of n]
    by (simp add: Execute_def scsi_opcodes handleRead6_def Let_def nth_append put_u64_low)
next
  case Ten
  have "(ucast (ucast lba :: u32) :: u64) = lba" "(ucast (ucast n :: u16) :: u32) = n" "n \<noteq> 0"
    using assms Ten by (auto intro: small_ucast)
  then show ?thesis using Ten
    by (simp add: Execute_def scsi_opcodes handleRead10_def Let_def bslice_def)
next
  case Sixteen
  have "n \<noteq> 0" using assms Sixteen by auto
  then show ?thesis using Sixteen
    by (simp add: Execute_def scsi_opcodes handleRead16_def Let_def bslice_def)
qed

lemma execute_write:
  assumes "rw_fits f lba n"
  shows "Execute h (rw_cdb f True fl grp ctl lba n @ pad) out b =
     (if length out < sectorSize * unat n then Some (scsi_check SenseMediumError, b)
      else map_option answer_write (bd_Write (h_dev h) b lba (take (sectorSize * unat n) out)))"
proof (cases f)
  case Six
  then show ?thesis
    using assms cdb6_lba_cdb [of lba True fl grp ctl n pad] rw_count6 [of n]
    by (simp add: Execute_def scsi_opcodes handleWrite6_def Let_def nth_append put_u64_low answer_write_def
        buildSenseFromError_def SenseMediumError_def mult.commute)
next
  case Ten
  have "(ucast (ucast lba :: u32) :: u64) = lba" "(ucast (ucast n :: u16) :: u32) = n" "n \<noteq> 0"
    using assms Ten by (auto intro: small_ucast)
  then show ?thesis using Ten
    by (simp add: Execute_def scsi_opcodes handleWrite10_def Let_def bslice_def answer_write_def
        buildSenseFromError_def SenseMediumError_def mult.commute)
next
  case Sixteen
  have "n \<noteq> 0" using assms Sixteen by auto
  then show ?thesis using Sixteen
    by (simp add: Execute_def scsi_opcodes handleWrite16_def Let_def bslice_def answer_write_def
        buildSenseFromError_def SenseMediumError_def mult.commute)
qed

lemma answer_write_good: "answer_write r = (scsi_good d, s) \<longleftrightarrow> d = [] \<and> r = (Inr (), s)"
  by (cases r, cases "fst r") (auto simp: answer_write_def scsi_good_def scsi_check_def StatusGood_def StatusCheckCondition_def)

lemma u64_bytes: "LENGTH(64) = 8 * 8" and u32_bytes: "LENGTH(32) = 8 * 4"
  by simp_all

section \<open>Clients of the block device\<close>

text \<open>
  What the command layer relies on: the device is a sector store, and a write it accepts and completes has stored
  the data. \<open>writable\<close> are the writes for which the device promises that.
\<close>

locale block_device = sector_store good content "bd_Read dev" wrote
  for dev :: "'b BlockDevice" and good content wrote +
  fixes writable :: "'b \<Rightarrow> u64 \<Rightarrow> bytes \<Rightarrow> bool"
  assumes Write_wrote: "good s \<Longrightarrow> writable s lba data \<Longrightarrow> bd_Write dev s lba data = Some (Inr (), s') \<Longrightarrow>
            wrote s lba data s'"
begin

lemma execute_read_content:
  assumes "good s" and "rw_fits f lba n" and "unat lba + unat n \<le> 2 ^ 63"
  shows "Execute (NewHandler dev sn did) (rw_cdb f False fl grp ctl lba n @ pad) out s =
     Some (scsi_good (concat (map (content s) [unat lba..<unat lba + unat n])), s)"
  using execute_read [OF assms(2), of "NewHandler dev sn did"] read_content [OF assms(1,3)]
  by (simp add: NewHandler_def answer_read_def)

lemma execute_write_read:
  assumes "good s" and f: "rw_fits f lba n" "rw_fits g lba n" and len: "sectorSize * unat n \<le> length out"
    and "writable s lba (take (sectorSize * unat n) out)"
    and w: "Execute (NewHandler dev sn did) (rw_cdb f True fl grp ctl lba n @ pad) out s = Some (scsi_good [], s')"
  shows "good s' \<and>
    Execute (NewHandler dev sn did) (rw_cdb g False fl' grp' ctl' lba n @ pad') out' s' =
      Some (scsi_good (take (sectorSize * unat n) out), s')"
proof -
  let ?data = "take (sectorSize * unat n) out"
  have "map_option answer_write (bd_Write dev s lba ?data) = Some (scsi_good [], s')"
    using w len execute_write [OF f(1), of "NewHandler dev sn did" fl grp ctl pad out s] by (simp add: NewHandler_def)
  then have "bd_Write dev s lba ?data = Some (Inr (), s')" by (auto simp: answer_write_good)
  then have wr: "wrote s lba ?data s'" by (rule Write_wrote [OF assms(1,5)])
  have "unat n = length ?data div sectorSize" using len by simp
  then have "bd_Read dev s' lba n = (Inr ?data, s')" by (rule read_after_write [OF assms(1) wr])
  then show ?thesis
    using wrote_good [OF assms(1) wr] execute_read [OF f(2), of "NewHandler dev sn did"]
    by (simp add: NewHandler_def answer_read_def)
qed

end

text \<open>The translation layer is such a device for writes of whole segments that need no emergency collection.\<close>

lemma ztl_bd_Read:
  "ztl_good s \<Longrightarrow> unat lba + unat c \<le> 2 ^ 63 \<Longrightarrow>
     bd_Read (ztl_blockDevice ord zord em_dev jn now) s lba c = (Inr (concat (map (ztl_content s) [unat lba..<unat lba + unat c])), s)"
  by (simp add: ztl_blockDevice_def zs.read_content)

lemma ztl_bd_Write:
  "ztl_good s \<Longrightarrow> ztl_writable s lba data \<Longrightarrow>
     bd_Write (ztl_blockDevice ord zord em_dev jn now) s lba data = Some (Inr (), s') \<Longrightarrow> ztl_wrote ord jn now s lba data s'"
  by (simp add: ztl_wrote_def ztl_writable_def ztl_blockDevice_def)

interpretation zb: block_device "ztl_blockDevice ord zord em_dev jn now" ztl_good ztl_content "ztl_wrote ord jn now" ztl_writable
  for ord zord jn now
  by unfold_locales (rule ztl_bd_Read ztl_bd_Write zs.wrote_good zs.wrote_content zs.wrote_range, assumption+)+

text \<open>A list of UNMAP block descriptors, as bytes, and its effect on a logical device with segments of \<open>S\<close> sectors.\<close>

definition unmap_desc :: "u64 \<times> u32 \<Rightarrow> bytes" where
  "unmap_desc d = put_u64 (fst d) @ put_u32 (snd d) @ zeros 4"

definition unmap_touches :: "nat \<Rightarrow> nat \<Rightarrow> u64 \<times> u32 \<Rightarrow> bool" where
  "unmap_touches S a d \<longleftrightarrow> 0 < unat (snd d) \<and> unat (fst d) div S \<le> a div S \<and>
     a div S \<le> (unat (fst d) + unat (snd d) - 1) div S"

lemma unmap_descs_Cons:
  "unmap_descs dev (unmap_desc (lba, n) @ rest) b =
     (if n > 0 then
        (case bd_Unmap dev b lba n of
           (Inl err, b1) \<Rightarrow> (Inl err, b1)
         | (Inr _, b1) \<Rightarrow> unmap_descs dev rest b1)
      else unmap_descs dev rest b)"
proof -
  have "drop 16 (unmap_desc (lba, n) @ rest) = rest" "16 \<le> length (unmap_desc (lba, n) @ rest)"
    "bslice 0 8 (unmap_desc (lba, n) @ rest) = put_u64 lba" "bslice 8 12 (unmap_desc (lba, n) @ rest) = put_u32 n"
    by (simp_all add: unmap_desc_def bslice_def)
  then show ?thesis by (subst unmap_descs.simps) (simp only: Let_def if_True be_get_put [OF u64_bytes] be_get_put [OF u32_bytes])
qed


text \<open>The descriptors are handled in order; each clears the segments it touches.\<close>

lemma ztl_unmap_descs:
  assumes "ztl_inv (em_view (ztl_device s)) s" and "\<forall>d \<in> set ds. unat (fst d) + unat (snd d) \<le> 2 ^ 63" and "a < 2 ^ 63"
    and "length rest < 16"
    and "unmap_descs (ztl_blockDevice ord zord em_dev jn now) (concat (map unmap_desc ds) @ rest) s = (Inr (), s')"
  shows "ztl_inv (em_view (ztl_device s')) s' \<and> ztl_device s' = ztl_device s \<and>
    ztl_content s' a =
      (if \<exists>d \<in> set ds. unmap_touches (unat (ztl_sectorsPerSeg s)) a d then zeros sectorSize else ztl_content s a)"
  using assms
proof (induction ds arbitrary: s)
  case Nil
  then show ?case by (simp add: unmap_descs.simps)
next
  case (Cons d ds)
  obtain lba n where d: "d = (lba, n)" by (cases d)
  show ?case
  proof (cases "n = 0")
    case True
    then have "unmap_descs (ztl_blockDevice ord zord em_dev jn now) (concat (map unmap_desc ds) @ rest) s = (Inr (), s')"
      using Cons.prems(5) by (simp add: d unmap_descs_Cons)
    from Cons.IH [OF Cons.prems(1) _ Cons.prems(3,4) this] True show ?thesis
      using Cons.prems(2) by (auto simp: d unmap_touches_def)
  next
    case False
    then obtain s1 where u: "ztl_Unmap jn s lba n = (Inr (), s1)"
      and r: "unmap_descs (ztl_blockDevice ord zord em_dev jn now) (concat (map unmap_desc ds) @ rest) s1 = (Inr (), s')"
      using Cons.prems(5)
      by (auto simp: d unmap_descs_Cons word_gt_0 ztl_blockDevice_def [of ord zord em_dev jn now] split: prod.splits sum.splits)
    have n: "0 < unat n" using False by (simp add: unat_gt_0)
    have range: "unat lba + unat n \<le> 2 ^ 63" using Cons.prems(2) d by simp
    note c = ztl_Unmap_content [OF Cons.prems(1) n range Cons.prems(3) u]
    have S: "ztl_sectorsPerSeg s1 = ztl_sectorsPerSeg s"
      using u ztl_unmapSegs_ok [OF Cons.prems(1)] by (auto simp: ztl_Unmap_def Let_def)
    have "ztl_content s1 a = (if unmap_touches (unat (ztl_sectorsPerSeg s)) a d then zeros sectorSize else ztl_content s a)"
      using c n by (simp add: d unmap_touches_def)
    moreover have "ztl_inv (em_view (ztl_device s1)) s1" "ztl_device s1 = ztl_device s" using c by auto
    moreover note Cons.IH [OF calculation(2) _ Cons.prems(3,4) r]
    ultimately show ?thesis using Cons.prems(2) by (auto simp: S)
  qed
qed

lemma concat_map_zeros: "concat (map (\<lambda>x. zeros k) xs) = zeros (k * length xs)"
  by (induction xs) (auto simp: zeros_def replicate_add)

lemma vpd83_shift_keeps:
  "length (vpd83_shift devID d) = length d" "take 4 (vpd83_shift devID d) = take 4 d"
proof -
  let ?step = "\<lambda>i d. d[3 + i := push_bit 4 (devID ! (i - 1)) OR drop_bit 4 (devID ! i)]"
  have "length (fold ?step is d) = length d \<and> ((\<forall>i \<in> set is. 1 \<le> i) \<longrightarrow> take 4 (fold ?step is d) = take 4 d)" for "is"
    by (induction "is" arbitrary: d) auto
  then show "length (vpd83_shift devID d) = length d" "take 4 (vpd83_shift devID d) = take 4 d"
    by (auto simp: vpd83_shift_def)
qed

section \<open>Well-formed answers\<close>

definition answer_ok :: "scsi_answer \<Rightarrow> bool" where
  "answer_ok a = (case a of (data, status, sense, err) \<Rightarrow> err = None \<and>
    (status = StatusGood \<and> sense = [] \<or>
     status = StatusCheckCondition \<and> data = [] \<and> length sense = 18 \<and> sense ! 0 = 0x70 \<and> sense ! 7 = 0x0A \<and>
       sense ! 2 \<in> {SenseKeyMediumError, SenseKeyIllegalRequest}))"

lemma answer_ok_good [simp]: "answer_ok (scsi_good d)"
  by (simp add: answer_ok_def scsi_good_def)

lemma answer_ok_check [simp]:
  "answer_ok (scsi_check SenseIllegalRequest)" "answer_ok (scsi_check SenseIllegalRequestInvalidField)"
  "answer_ok (scsi_check (buildSenseFromError e))"
  "answer_ok (scsi_check (BuildSense SenseKeyIllegalRequest ASCInvalidCommandOpCode 0))"
  by (simp_all add: answer_ok_def scsi_check_def SenseIllegalRequest_def SenseIllegalRequestInvalidField_def
      buildSenseFromError_def BuildSense_def SenseKeyMediumError_def SenseKeyIllegalRequest_def)

lemma answer_ok_triple [simp]:
  "answer_ok (scsi_triple handleTestUnitReady)" "answer_ok (scsi_triple handleStartStopUnit)"
  "answer_ok (scsi_triple handlePersistentReserveIn)" "answer_ok (scsi_triple handlePersistentReserveOut)"
  using answer_ok_good [of "[]"] answer_ok_check(1)
  by (simp_all add: scsi_triple_def handleTestUnitReady_def handleStartStopUnit_def handlePersistentReserveIn_def
      handlePersistentReserveOut_def scsi_good_def scsi_check_def)

lemma answer_ok_rw [simp]: "answer_read r = (a, b) \<Longrightarrow> answer_ok a" "answer_write q = (a, b) \<Longrightarrow> answer_ok a"
  by (auto simp: answer_read_def answer_write_def split: prod.splits sum.splits)

lemma Execute_ok: "Execute h cdb out b = Some (a, b') \<Longrightarrow> answer_ok a"
  unfolding Execute_def Let_def
  by (auto split: if_splits option.splits)

section \<open>Properties\<close>

text \<open>
  C31: whatever the command block and the device, \<^verbatim>\<open>Execute\<close> never reports a fatal error, and its answer is one of two
  kinds: GOOD without sense data, or CHECK CONDITION without data and with eighteen bytes of fixed-format sense data
  whose key is MEDIUM ERROR or ILLEGAL REQUEST.
\<close>

theorem execute_answer:
  assumes "Execute h cdb out b = Some ((data, status, sense, err), b')"
  shows "err = None \<and>
    (status = StatusGood \<and> sense = [] \<or>
     status = StatusCheckCondition \<and> data = [] \<and> length sense = 18 \<and> sense ! 0 = 0x70 \<and> sense ! 7 = 0x0A \<and>
       sense ! 2 \<in> {SenseKeyMediumError, SenseKeyIllegalRequest})"
  using Execute_ok [OF assms] by (simp add: answer_ok_def)

theorem execute_answer_witness:
  "\<exists>data status sense err b'.
     Execute (NewHandler (ztl_blockDevice (\<lambda>x. x) (\<lambda>x. x) em_dev None 0) ''ZNS'' (zeros 16)) [0x42, 0] [] ztl_demo =
       Some ((data, status, sense, err), b') \<and> err = None \<and> sense = []"
proof -
  have "Execute (NewHandler (ztl_blockDevice (\<lambda>x. x) (\<lambda>x. x) em_dev None 0) ''ZNS'' (zeros 16)) [0x42, 0] [] ztl_demo =
      Some (([], StatusGood, [], None), ztl_demo)"
    by (simp add: Execute_def scsi_opcodes handleUnmap_def answer_write_def scsi_good_def Let_def)
  with execute_answer [OF this] show ?thesis by (auto simp: StatusGood_def StatusCheckCondition_def)
qed



text \<open>
  The command layer does not check addresses against the capacity. A READ entirely behind the last segment of the
  device is answered GOOD with zeros, where the standard asks for LOGICAL BLOCK ADDRESS OUT OF RANGE.
\<close>

theorem scsi_read_beyond_end:
  assumes "ztl_good s" and "rw_fits f lba n" and "unat lba + unat n \<le> 2 ^ 63"
    and "unat (l2p_size (ztl_l2p s)) * unat (ztl_sectorsPerSeg s) \<le> unat lba"
  shows "Execute (NewHandler (ztl_blockDevice ord zord em_dev jn now) sn did) (rw_cdb f False fl grp ctl lba n @ pad) out s =
     Some (scsi_good (zeros (sectorSize * unat n)), s)"
proof -
  let ?S = "unat (ztl_sectorsPerSeg s)"
  have S: "0 < ?S" using assms(1) by (simp add: ztl_good_def ztl_inv_def)
  have "ztl_content s a = zeros sectorSize" if a: "unat lba \<le> a" "a < 2 ^ 63" for a
  proof -
    have "unat (of_nat (a div ?S) :: u64) = a div ?S"
      by (intro unat_u64_of_nat le_less_trans [OF div_le_dividend]) (use a in simp)
    moreover have "unat (l2p_size (ztl_l2p s)) \<le> a div ?S"
      using S assms(4) a by (simp add: less_eq_div_iff_mult_less_eq)
    ultimately have "l2p_size (ztl_l2p s) \<le> of_nat (a div ?S)" by (simp add: word_le_nat_alt)
    then have "L2P_Get (ztl_l2p s) (of_nat (a div ?S)) = 0" by (simp add: L2P_Get_def)
    then show ?thesis by (simp add: ztl_content_def logical_def seg_sector_def)
  qed
  then have "concat (map (ztl_content s) [unat lba..<unat lba + unat n]) = concat (map (\<lambda>a. zeros sectorSize) [unat lba..<unat lba + unat n])"
    using assms(3) by (intro arg_cong [where f = concat] map_cong) auto
  also have "\<dots> = zeros (sectorSize * unat n)"
    using concat_map_zeros [of sectorSize "[unat lba..<unat lba + unat n]"] by simp
  finally show ?thesis using zb.execute_read_content [OF assms(1-3)] by simp
qed

theorem scsi_read_beyond_end_witness:
  "Execute (NewHandler (ztl_blockDevice (\<lambda>x. x) (\<lambda>x. x) em_dev None 0) ''ZNS'' (zeros 16))
     (rw_cdb Sixteen False 0 0 0 1000000 1 @ []) [] ztl_demo = Some (scsi_good (zeros 512), ztl_demo)"
  using scsi_read_beyond_end [OF ztl_demo_good, of Sixteen 1000000 1 "\<lambda>x. x" "\<lambda>x. x" None 0 "''ZNS''" "zeros 16" 0 0 0 "[]" "[]"]
  by (simp add: ztl_demo_def)

text \<open>
  A successful UNMAP clears exactly the segments that its block descriptors touch. The BLOCK DESCRIPTOR DATA
  LENGTH field only matters by being nonzero: descriptors behind the announced length are executed as well.
\<close>

theorem scsi_unmap_all_descriptors:
  assumes "ztl_inv (em_view (ztl_device s)) s" and "\<forall>d \<in> set ds. unat (fst d) + unat (snd d) \<le> 2 ^ 63" and "a < 2 ^ 63"
    and "length rest < 16" and "0 < unat descLen"
    and "Execute (NewHandler (ztl_blockDevice ord zord em_dev jn now) sn did) (0x42 # cdb)
           (put_u16 dataLen @ put_u16 descLen @ zeros 4 @ concat (map unmap_desc ds) @ rest) s = Some (scsi_good [], s')"
  shows "ztl_inv (em_view (ztl_device s')) s' \<and>
    ztl_content s' a =
      (if \<exists>d \<in> set ds. unmap_touches (unat (ztl_sectorsPerSeg s)) a d then zeros sectorSize else ztl_content s a)"
proof -
  have "unmap_descs (ztl_blockDevice ord zord em_dev jn now) (concat (map unmap_desc ds) @ rest) s = (Inr (), s')"
    using assms(5,6) by (auto simp: Execute_def scsi_opcodes handleUnmap_def NewHandler_def bslice_def Let_def answer_write_good)
  then show ?thesis using ztl_unmap_descs [OF assms(1-4)] by blast
qed

theorem scsi_unmap_all_descriptors_witness:
  "\<exists>s'. Execute (NewHandler (ztl_blockDevice (\<lambda>x. x) (\<lambda>x. x) em_dev None 0) ''ZNS'' (zeros 16)) [0x42]
       (put_u16 22 @ put_u16 16 @ zeros 4 @ concat (map unmap_desc [(0, 2), (2, 2)]) @ []) ztl_demo = Some (scsi_good [], s') \<and>
     ztl_content s' 3 = zeros 512"
proof -
  have ev: "Execute (NewHandler (ztl_blockDevice (\<lambda>x. x) (\<lambda>x. x) em_dev None 0) ''ZNS'' (zeros 16)) [0x42]
       (put_u16 22 @ put_u16 16 @ zeros 4 @ concat (map unmap_desc [(0, 2), (2, 2)]) @ []) ztl_demo = Some (scsi_good [], ztl_demo)"
    by (simp add: Execute_def scsi_opcodes handleUnmap_def NewHandler_def bslice_def Let_def unmap_descs_Cons ztl_blockDevice_def
        ztl_Unmap_def ztl_demo_def LBAToSegmentID_def word_upto_def L2P_Get_def IsUnmapped_def unmap_descs.simps [of _ "[]"]
        unmap_descs_Cons [where rest = "[]", simplified] answer_write_def)
  from scsi_unmap_all_descriptors [OF _ _ _ _ _ ev, of 3] ev show ?thesis
    using ztl_demo_good by (auto simp: ztl_good_def unmap_touches_def ztl_demo_def)
qed

text \<open>
  The page of VPD 0x83 is a fixed header and the device identifier with its first nibble set to 6 (NAA type 6); the
  nibble-shifting loop in front of the copy has no effect on the result.
\<close>

theorem vpd83_layout:
  assumes "length devID = 16"
  shows "buildVPDPage83 devID =
    [0x00, 0x83, 0x00, 20, 0x01, 0x03, 0x00, 16, (devID ! 0 AND 0x0F) OR 0x60] @ tl devID"
proof -
  let ?d0 = "(zeros 20)[0 := 0x01, 1 := 0x03, 2 := 0x00, 3 := 16, 4 := push_bit 4 0x06 OR drop_bit 4 (devID ! 0)] :: bytes"
  have "take 4 ?d0 = [0x01, 0x03, 0x00, 16]" by (simp add: zeros_def eval_nat_numeral)
  then have d: "blit 4 devID (vpd83_shift devID ?d0) = [0x01, 0x03, 0x00, 16] @ devID"
    using assms vpd83_shift_keeps [of devID ?d0] by (simp add: blit_def)
  obtain x xs where x: "devID = x # xs" "length xs = 15" using assms by (cases devID) auto
  have "buildVPDPage83 devID =
      blit 4 ([0x01, 0x03, 0x00, 16, (devID ! 0 AND 0x0F) OR 0x60] @ tl devID) (blit 2 (put_u16 20) ((zeros 24)[0 := 0x00, 1 := 0x83]))"
    unfolding buildVPDPage83_def Let_def VPDPageDeviceIdentifiers_def using d x by simp
  moreover have "put_u16 20 = [0, 20]" by (simp add: be_put_def upt_rec)
  ultimately show ?thesis using x by (simp add: blit_def zeros_def eval_nat_numeral)
qed

theorem vpd83_layout_witness: "buildVPDPage83 (replicate 16 0xAB) = [0, 0x83, 0, 20, 1, 3, 0, 16, 0x6B] @ replicate 15 0xAB"
  using vpd83_layout [of "replicate 16 0xAB"] by (simp add: eval_nat_numeral)

text \<open>
  READ CAPACITY (16) tells the exact capacity, READ CAPACITY (10) the address of the last sector as long as it fits
  into 32 bits and \<open>0xFFFFFFFF\<close> otherwise, for every device that is not empty.
\<close>

theorem read_capacity_values:
  assumes "0 < unat capacity"
  shows "length (handleReadCapacity16 capacity bs) = 32 \<and>
    unat (get_u64 (take 8 (handleReadCapacity16 capacity bs))) + 1 = unat capacity \<and>
    get_u32 (bslice 8 12 (handleReadCapacity16 capacity bs)) = bs \<and>
    unat (get_u32 (take 4 (handleReadCapacity10 capacity bs))) = min (unat capacity - 1) (2 ^ 32 - 1) \<and>
    get_u32 (drop 4 (handleReadCapacity10 capacity bs)) = bs"
proof -
  let ?l = "capacity - 1"
  have l: "unat ?l = unat capacity - 1" using assms by (subst unat_sub_le) (auto simp: word_le_nat_alt)
  have "unat (ucast (if ?l > 0xFFFFFFFF then 0xFFFFFFFF else ?l) :: u32) = min (unat capacity - 1) (2 ^ 32 - 1)"
    using l by (auto simp: unsigned_ucast_eq unsigned_take_bit_eq word_less_nat_alt take_bit_nat_eq_self min_def)
  then show ?thesis
    using l assms by (auto simp: handleReadCapacity16_def handleReadCapacity10_def Let_def bslice_def)
qed

theorem read_capacity_values_witness:
  "unat (get_u32 (take 4 (handleReadCapacity10 (2 ^ 40) 512))) = 2 ^ 32 - 1"
  using read_capacity_values [of "2 ^ 40" 512] by simp

end
