(* ===== verification/Pdu.thy ===== *)
theory Pdu
  imports Prelude
begin

unbundle bit_operations_syntax

text \<open>
  iSCSI PDUs, \<^verbatim>\<open>internal/iscsi/pdu.go\<close>: the basic header segment with its field accessors, and reading and writing a
  PDU on a TCP connection.

  A connection holds the bytes that will still arrive before the peer or the network ends the stream, the bytes written
  so far, and a script of faults for \<^verbatim>\<open>Write\<close>: an entry \<open>Some (k, e)\<close> makes the call fail with \<open>e\<close> after \<open>k\<close> bytes.
\<close>

section \<open>Connections (net, io)\<close>

record net_conn =
  c_in :: bytes
  c_out :: bytes
  c_script :: "(nat \<times> go_error) option list"

definition conn_Write :: "net_conn \<Rightarrow> bytes \<Rightarrow> unit result \<times> net_conn" where
  "conn_Write c p =
     (case c_script c of
        [] \<Rightarrow> (Inr (), c\<lparr>c_out := c_out c @ p\<rparr>)
      | None # s \<Rightarrow> (Inr (), c\<lparr>c_out := c_out c @ p, c_script := s\<rparr>)
      | Some (k, err) # s \<Rightarrow> (Inl err, c\<lparr>c_out := c_out c @ take k p, c_script := s\<rparr>))"

definition io_EOF :: go_error where "io_EOF = Errorf ''EOF''"
definition io_ErrUnexpectedEOF :: go_error where "io_ErrUnexpectedEOF = Errorf ''unexpected EOF''"

definition io_ReadFull :: "net_conn \<Rightarrow> nat \<Rightarrow> bytes result \<times> net_conn" where
  "io_ReadFull c n =
     (if n \<le> length (c_in c) then (Inr (take n (c_in c)), c\<lparr>c_in := drop n (c_in c)\<rparr>)
      else (Inl (if c_in c = [] then io_EOF else io_ErrUnexpectedEOF), c\<lparr>c_in := []\<rparr>))"

section \<open>PDUs\<close>

definition OpcodeNopOut :: u8 where "OpcodeNopOut = 0x00"
definition OpcodeSCSICmd :: u8 where "OpcodeSCSICmd = 0x01"
definition OpcodeTMFReq :: u8 where "OpcodeTMFReq = 0x02"
definition OpcodeLoginReq :: u8 where "OpcodeLoginReq = 0x03"
definition OpcodeTextReq :: u8 where "OpcodeTextReq = 0x04"
definition OpcodeDataOut :: u8 where "OpcodeDataOut = 0x05"
definition OpcodeLogoutReq :: u8 where "OpcodeLogoutReq = 0x06"
definition OpcodeNopIn :: u8 where "OpcodeNopIn = 0x20"
definition OpcodeSCSIRsp :: u8 where "OpcodeSCSIRsp = 0x21"
definition OpcodeTMFRsp :: u8 where "OpcodeTMFRsp = 0x22"
definition OpcodeLoginRsp :: u8 where "OpcodeLoginRsp = 0x23"
definition OpcodeTextRsp :: u8 where "OpcodeTextRsp = 0x24"
definition OpcodeDataIn :: u8 where "OpcodeDataIn = 0x25"
definition OpcodeLogoutRsp :: u8 where "OpcodeLogoutRsp = 0x26"
definition OpcodeR2T :: u8 where "OpcodeR2T = 0x31"

abbreviation BHSSize :: nat where "BHSSize \<equiv> 48"

record PDU =
  BHS :: bytes
  AHS :: bytes
  DataSegment :: bytes

text \<open>A fresh PDU \<^verbatim>\<open>&PDU{}\<close>, and storing bytes into the header.\<close>

definition newPDU :: PDU where
  "newPDU = \<lparr>BHS = zeros BHSSize, AHS = [], DataSegment = []\<rparr>"

definition bhs_put :: "nat \<Rightarrow> bytes \<Rightarrow> PDU \<Rightarrow> PDU" where
  "bhs_put off bs p = p\<lparr>BHS := blit off bs (BHS p)\<rparr>"

definition Opcode :: "PDU \<Rightarrow> u8" where
  "Opcode p = BHS p ! 0 AND 0x3F"

definition SetOpcode :: "u8 \<Rightarrow> PDU \<Rightarrow> PDU" where
  "SetOpcode opcode p = bhs_put 0 [(BHS p ! 0 AND 0xC0) OR (opcode AND 0x3F)] p"

definition Flags :: "PDU \<Rightarrow> u8" where
  "Flags p = BHS p ! 1"

definition SetFlags :: "u8 \<Rightarrow> PDU \<Rightarrow> PDU" where
  "SetFlags flags p = bhs_put 1 [flags] p"

definition TotalAHSLength :: "PDU \<Rightarrow> u8" where
  "TotalAHSLength p = BHS p ! 4"

definition DataSegmentLength :: "PDU \<Rightarrow> u32" where
  "DataSegmentLength p = push_bit 16 (ucast (BHS p ! 5)) OR push_bit 8 (ucast (BHS p ! 6)) OR ucast (BHS p ! 7)"

definition SetDataSegmentLength :: "u32 \<Rightarrow> PDU \<Rightarrow> PDU" where
  "SetDataSegmentLength n p = bhs_put 5 [ucast (drop_bit 16 n), ucast (drop_bit 8 n), ucast n] p"

definition LUN :: "PDU \<Rightarrow> u64" where
  "LUN p = get_u64 (bslice 8 16 (BHS p))"

definition SetLUN :: "u64 \<Rightarrow> PDU \<Rightarrow> PDU" where
  "SetLUN lun p = bhs_put 8 (put_u64 lun) p"

definition InitiatorTaskTag :: "PDU \<Rightarrow> u32" where
  "InitiatorTaskTag p = get_u32 (bslice 16 20 (BHS p))"

definition SetInitiatorTaskTag :: "u32 \<Rightarrow> PDU \<Rightarrow> PDU" where
  "SetInitiatorTaskTag itt p = bhs_put 16 (put_u32 itt) p"

definition CmdSN :: "PDU \<Rightarrow> u32" where
  "CmdSN p = get_u32 (bslice 24 28 (BHS p))"

definition SetCmdSN :: "u32 \<Rightarrow> PDU \<Rightarrow> PDU" where
  "SetCmdSN sn p = bhs_put 24 (put_u32 sn) p"

definition StatSN :: "PDU \<Rightarrow> u32" where
  "StatSN p = get_u32 (bslice 24 28 (BHS p))"

definition SetStatSN :: "u32 \<Rightarrow> PDU \<Rightarrow> PDU" where
  "SetStatSN sn p = bhs_put 24 (put_u32 sn) p"

definition ExpStatSN :: "PDU \<Rightarrow> u32" where
  "ExpStatSN p = get_u32 (bslice 28 32 (BHS p))"

definition SetExpStatSN :: "u32 \<Rightarrow> PDU \<Rightarrow> PDU" where
  "SetExpStatSN sn p = bhs_put 28 (put_u32 sn) p"

definition ExpCmdSN :: "PDU \<Rightarrow> u32" where
  "ExpCmdSN p = get_u32 (bslice 28 32 (BHS p))"

definition SetExpCmdSN :: "u32 \<Rightarrow> PDU \<Rightarrow> PDU" where
  "SetExpCmdSN sn p = bhs_put 28 (put_u32 sn) p"

definition MaxCmdSN :: "PDU \<Rightarrow> u32" where
  "MaxCmdSN p = get_u32 (bslice 32 36 (BHS p))"

definition SetMaxCmdSN :: "u32 \<Rightarrow> PDU \<Rightarrow> PDU" where
  "SetMaxCmdSN sn p = bhs_put 32 (put_u32 sn) p"

section \<open>Reading and writing\<close>

text \<open>The last part of \<^verbatim>\<open>ReadPDU\<close>: the data segment with its padding.\<close>

definition readDataSegment :: "net_conn \<Rightarrow> PDU \<Rightarrow> PDU result \<times> net_conn" where
  "readDataSegment c pdu =
     (let dsLen = DataSegmentLength pdu in
      if dsLen > 0 then
        let paddedLen = (dsLen + 3) AND NOT 3 in
        (case io_ReadFull c (unat paddedLen) of
           (Inl err, c1) \<Rightarrow> (Inl (Wrap ''reading DataSegment'' err), c1)
         | (Inr buf, c1) \<Rightarrow> (Inr (pdu\<lparr>DataSegment := take (unat dsLen) buf\<rparr>), c1))
      else (Inr pdu, c))"

definition ReadPDU :: "net_conn \<Rightarrow> PDU result \<times> net_conn" where
  "ReadPDU c =
     (case io_ReadFull c BHSSize of
        (Inl err, c1) \<Rightarrow> (Inl (Wrap ''reading BHS'' err), c1)
      | (Inr bhs, c1) \<Rightarrow>
          let pdu = newPDU\<lparr>BHS := bhs\<rparr>;
              ahsLen = unat (BHS pdu ! 4) * 4 in
          if ahsLen > 0 then
            (case io_ReadFull c1 ahsLen of
               (Inl err, c2) \<Rightarrow> (Inl (Wrap ''reading AHS'' err), c2)
             | (Inr ahs, c2) \<Rightarrow> readDataSegment c2 (pdu\<lparr>AHS := ahs\<rparr>))
          else readDataSegment c1 pdu)"

text \<open>The last part of \<^verbatim>\<open>WritePDU\<close>: the data segment and its padding.\<close>

definition writeDataSegment :: "net_conn \<Rightarrow> PDU \<Rightarrow> u32 \<Rightarrow> unit result \<times> net_conn" where
  "writeDataSegment c pdu dsLen =
     (if dsLen > 0 then
        (case conn_Write c (DataSegment pdu) of
           (Inl err, c1) \<Rightarrow> (Inl (Wrap ''writing DataSegment'' err), c1)
         | (Inr _, c1) \<Rightarrow>
             let padBytes = (4 - dsLen mod 4) mod 4 in
             if padBytes > 0 then
               (case conn_Write c1 (zeros (unat padBytes)) of
                  (Inl err, c2) \<Rightarrow> (Inl (Wrap ''writing DataSegment padding'' err), c2)
                | (Inr _, c2) \<Rightarrow> (Inr (), c2))
             else (Inr (), c1))
      else (Inr (), c))"

definition WritePDU :: "net_conn \<Rightarrow> PDU \<Rightarrow> unit result \<times> net_conn" where
  "WritePDU c pdu0 =
     (let dsLen = of_nat (length (DataSegment pdu0));
          pdu = SetDataSegmentLength dsLen pdu0 in
      case conn_Write c (BHS pdu) of
        (Inl err, c1) \<Rightarrow> (Inl (Wrap ''writing BHS'' err), c1)
      | (Inr _, c1) \<Rightarrow>
          if length (AHS pdu) > 0 then
            (case conn_Write c1 (AHS pdu) of
               (Inl err, c2) \<Rightarrow> (Inl (Wrap ''writing AHS'' err), c2)
             | (Inr _, c2) \<Rightarrow> writeDataSegment c2 pdu dsLen)
          else writeDataSegment c1 pdu dsLen)"

section \<open>The wire format\<close>

text \<open>PDUs whose header has its size, announces the AHS they carry and can announce the data they carry.\<close>

definition pdu_wf :: "PDU \<Rightarrow> bool" where
  "pdu_wf p \<longleftrightarrow> length (BHS p) = BHSSize \<and> length (AHS p) = unat (BHS p ! 4) * 4 \<and> length (DataSegment p) < 2 ^ 24"

definition pdu_sent :: "PDU \<Rightarrow> PDU" where
  "pdu_sent p = SetDataSegmentLength (of_nat (length (DataSegment p))) p"

definition pdu_pad :: "nat \<Rightarrow> nat" where
  "pdu_pad n = (4 - n mod 4) mod 4"

definition pdu_wire :: "PDU \<Rightarrow> bytes" where
  "pdu_wire p = BHS (pdu_sent p) @ AHS p @ DataSegment p @ zeros (pdu_pad (length (DataSegment p)))"

lemma conn_Write_ok: "conn_Write c p = (Inr x, c') \<Longrightarrow> c_out c' = c_out c @ p \<and> c_in c' = c_in c"
  by (auto simp: conn_Write_def split: list.splits option.splits)

lemma conn_Write_in: "conn_Write c p = (r, c') \<Longrightarrow> c_in c' = c_in c"
  by (auto simp: conn_Write_def split: list.splits option.splits)

lemma io_ReadFull_append [simp]: "length xs = n \<Longrightarrow> io_ReadFull (c\<lparr>c_in := xs @ ys\<rparr>) n = (Inr xs, c\<lparr>c_in := ys\<rparr>)"
  by (simp add: io_ReadFull_def)

lemma bhs_put_fields [simp]: "AHS (bhs_put n b p) = AHS p" "DataSegment (bhs_put n b p) = DataSegment p"
  by (simp_all add: bhs_put_def)

lemma length_BHS_put [simp]: "n \<le> length (BHS p) \<Longrightarrow> length (BHS (bhs_put n b p)) = length (BHS p)"
  by (simp add: bhs_put_def)

lemma pdu_sent_fields [simp]: "AHS (pdu_sent p) = AHS p" "DataSegment (pdu_sent p) = DataSegment p"
  "length (BHS p) = BHSSize \<Longrightarrow> length (BHS (pdu_sent p)) = BHSSize"
  by (simp_all add: pdu_sent_def SetDataSegmentLength_def)

text \<open>The three length bytes hold every length below \<open>2\<^sup>2\<^sup>4\<close>.\<close>

lemma three_bytes:
  assumes "unat (n::u32) < 2 ^ 24"
  shows "push_bit 16 (ucast (ucast (drop_bit 16 n) :: u8)) OR push_bit 8 (ucast (ucast (drop_bit 8 n) :: u8)) OR ucast (ucast n :: u8) = n"
    (is "?l = n")
proof (rule bit_word_eqI)
  fix i assume i: "i < LENGTH(32)"
  have "take_bit 24 n = n" using assms
    by (intro unat_inj [THEN iffD1]) (simp add: unsigned_take_bit_eq take_bit_nat_eq_self)
  then have hi: "bit n i \<Longrightarrow> i < 24" by (metis bit_take_bit_iff)
  consider "i < 8" | "8 \<le> i" "i < 16" | "16 \<le> i" "i < 24" | "24 \<le> i" by linarith
  then show "bit ?l i = bit n i"
    by cases (use i hi in \<open>auto simp: bit_simps\<close>)
qed

lemma DataSegmentLength_sent:
  assumes "pdu_wf p"
  shows "DataSegmentLength (pdu_sent p) = of_nat (length (DataSegment p))" and "BHS (pdu_sent p) ! 4 = BHS p ! 4"
proof -
  have "unat (of_nat (length (DataSegment p)) :: u32) < 2 ^ 24"
    using assms by (simp add: pdu_wf_def unat_of_nat take_bit_nat_eq_self)
  from three_bytes [OF this] show "DataSegmentLength (pdu_sent p) = of_nat (length (DataSegment p))"
    using assms by (simp add: pdu_wf_def pdu_sent_def SetDataSegmentLength_def DataSegmentLength_def bhs_put_def blit_def nth_append)
  show "BHS (pdu_sent p) ! 4 = BHS p ! 4"
    using assms by (simp add: pdu_wf_def pdu_sent_def SetDataSegmentLength_def bhs_put_def blit_def nth_append)
qed


lemma pad_div4: "4 * ((n + 3) div 4) = n + pdu_pad n"
proof -
  have "n = n mod 4 + 4 * (n div 4)" "n mod 4 < 4" by simp_all
  then obtain q r where n: "n = r + 4 * q" and "r < 4" by blast
  then have "r = 0 \<or> r = 1 \<or> r = 2 \<or> r = 3" by linarith
  then show ?thesis by (auto simp: n pdu_pad_def)
qed

lemma padded_len:
  assumes "n < 2 ^ 24"
  shows "unat ((of_nat n + 3 :: u32) AND NOT 3) = n + pdu_pad n"
proof -
  let ?x = "of_nat n + 3 :: u32"
  have "(of_nat n + 3 :: u32) = of_nat (n + 3)" by simp
  then have x: "unat ?x = n + 3" using assms by (simp only: unat_of_nat) (simp add: take_bit_nat_eq_self)
  have e: "2 \<le> i \<Longrightarrow> Suc (Suc (i - 2)) = i" for i by simp
  have "y AND NOT (mask 2) = push_bit 2 (drop_bit 2 y)" for y :: u32
    by (rule bit_word_eqI) (auto simp: bit_simps not_less e)
  moreover have "(3 :: u32) = mask 2" by (simp add: mask_eq_exp_minus_1)
  ultimately have "?x AND NOT 3 = push_bit 2 (drop_bit 2 ?x)" by metis
  moreover have "unat (push_bit 2 (drop_bit 2 y)) = take_bit 32 (4 * (unat y div 4))" for y :: u32
    by (simp add: push_bit_eq_mult drop_bit_eq_div unat_word_ariths unat_div_distrib take_bit_eq_mod mult.commute mod_mult_right_eq)
  ultimately have "unat (?x AND NOT 3) = take_bit 32 (4 * ((n + 3) div 4))" by (simp only: x)
  also have "\<dots> = 4 * ((n + 3) div 4)" using assms by (simp add: take_bit_nat_eq_self)
  also have "\<dots> = n + pdu_pad n" by (rule pad_div4)
  finally show ?thesis .
qed

lemma pad_bytes:
  assumes "n < 2 ^ 24"
  shows "unat ((4 - of_nat n mod 4) mod 4 :: u32) = pdu_pad n"
proof -
  have n: "unat (of_nat n mod 4 :: u32) = n mod 4"
    using assms by (simp add: unat_mod_distrib unat_of_nat take_bit_nat_eq_self)
  then have "of_nat n mod 4 \<le> (4 :: u32)" by (simp add: word_le_nat_alt)
  then show ?thesis using n by (simp add: unat_mod_distrib unat_sub pdu_pad_def)
qed

lemma WritePDU_ok:
  assumes "pdu_wf p" and "WritePDU c p = (Inr x, c')"
  shows "c_out c' = c_out c @ pdu_wire p \<and> c_in c' = c_in c"
proof -
  let ?n = "of_nat (length (DataSegment p)) :: u32"
  have n: "length (DataSegment p) < 2 ^ 24" using assms(1) by (simp add: pdu_wf_def)
  have z: "?n = 0 \<longleftrightarrow> DataSegment p = []"
    using n by (auto simp: word_unat_eq_iff unat_of_nat take_bit_nat_eq_self)
  have pad: "(4 - ?n mod 4) mod 4 = 0 \<longleftrightarrow> pdu_pad (length (DataSegment p)) = 0"
    using pad_bytes [OF n] by (metis unat_0 unat_inj)
  have ds: "c_out c2 = c_out c1 @ DataSegment p @ zeros (pdu_pad (length (DataSegment p))) \<and> c_in c2 = c_in c1"
    if "writeDataSegment c1 (pdu_sent p) ?n = (Inr x, c2)" for c1 c2
    using that z pad pad_bytes [OF n]
    by (auto simp: writeDataSegment_def Let_def word_neq_0_conv pdu_pad_def zeros_def
        dest!: conn_Write_ok split: if_splits prod.splits sum.splits)
  show ?thesis
    using assms(2) ds
    by (fastforce simp: WritePDU_def Let_def pdu_wire_def simp flip: pdu_sent_def
        dest!: conn_Write_ok split: if_splits prod.splits sum.splits)
qed

lemma ReadPDU_wire:
  assumes "pdu_wf p"
  shows "ReadPDU (c\<lparr>c_in := pdu_wire p @ rest\<rparr>) = (Inr (pdu_sent p), c\<lparr>c_in := rest\<rparr>)"
proof -
  let ?n = "length (DataSegment p)"
  have n: "?n < 2 ^ 24" and b: "length (BHS (pdu_sent p)) = BHSSize" and a: "unat (BHS p ! 4) * 4 = length (AHS p)"
    using assms by (auto simp: pdu_wf_def)
  have z: "unat (of_nat ?n :: u32) = ?n" using n by (simp add: unat_of_nat take_bit_nat_eq_self)
  have ds: "readDataSegment (c\<lparr>c_in := DataSegment p @ zeros (pdu_pad ?n) @ rest\<rparr>) (newPDU\<lparr>BHS := BHS (pdu_sent p), AHS := AHS p\<rparr>) =
      (Inr (pdu_sent p), c\<lparr>c_in := rest\<rparr>)"
  proof (cases "?n = 0")
    case True
    have "newPDU\<lparr>BHS := BHS (pdu_sent p), AHS := AHS p\<rparr> = pdu_sent p"
      by (rule PDU.equality) (use True in \<open>simp_all add: newPDU_def\<close>)
    then show ?thesis
      using DataSegmentLength_sent(1) [OF assms] True by (simp add: readDataSegment_def pdu_pad_def zeros_def)
  next
    case False
    then have "(of_nat ?n :: u32) > 0" using z by (simp add: word_less_nat_alt)
    moreover have "DataSegmentLength (newPDU\<lparr>BHS := BHS (pdu_sent p), AHS := AHS p\<rparr>) = of_nat ?n"
      using DataSegmentLength_sent [OF assms] by (simp add: DataSegmentLength_def newPDU_def)
    moreover have "newPDU\<lparr>BHS := BHS (pdu_sent p), AHS := AHS p, DataSegment := DataSegment p\<rparr> = pdu_sent p"
      by (rule PDU.equality) (simp_all add: newPDU_def)
    moreover have "io_ReadFull (c\<lparr>c_in := (DataSegment p @ zeros (pdu_pad ?n)) @ rest\<rparr>) (?n + pdu_pad ?n) =
        (Inr (DataSegment p @ zeros (pdu_pad ?n)), c\<lparr>c_in := rest\<rparr>)" by (rule io_ReadFull_append) simp
    ultimately show ?thesis using padded_len [OF n] z by (simp add: readDataSegment_def Let_def)
  qed
  show ?thesis
    using ds b a DataSegmentLength_sent(2) [OF assms]
    by (auto simp: ReadPDU_def pdu_wire_def Let_def newPDU_def)
qed


text \<open>Reading takes bytes from the front of the stream only; a successful read takes at least a header.\<close>

lemma io_ReadFull_in: "io_ReadFull c n = (r, c') \<Longrightarrow> length (c_in c') \<le> length (c_in c)"
  by (auto simp: io_ReadFull_def split: if_splits)

lemma io_ReadFull_ok: "io_ReadFull c n = (Inr x, c') \<Longrightarrow> length (c_in c') + n = length (c_in c) \<and> length x = n"
  by (auto simp: io_ReadFull_def split: if_splits)

lemma readDataSegment_in: "readDataSegment c p = (r, c') \<Longrightarrow> length (c_in c') \<le> length (c_in c)"
  by (auto simp: readDataSegment_def Let_def dest!: io_ReadFull_in split: if_splits prod.splits sum.splits)

lemma ReadPDU_in: "ReadPDU c = (r, c') \<Longrightarrow> length (c_in c') \<le> length (c_in c)"
  by (fastforce simp: ReadPDU_def Let_def dest: io_ReadFull_in readDataSegment_in split: if_splits prod.splits sum.splits)

lemma ReadPDU_shrinks: "ReadPDU c = (Inr p, c') \<Longrightarrow> length (c_in c') + BHSSize \<le> length (c_in c)"
  by (fastforce simp: ReadPDU_def Let_def dest: io_ReadFull_ok io_ReadFull_in readDataSegment_in split: if_splits prod.splits sum.splits)

lemma ReadPDU_BHS: "ReadPDU c = (Inr p, c') \<Longrightarrow> length (BHS p) = BHSSize"
  by (auto simp: ReadPDU_def readDataSegment_def Let_def newPDU_def dest!: io_ReadFull_ok
      split: if_splits prod.splits sum.splits)

text \<open>Reading is a function of the front of the stream: what lies behind a PDU does not change it.\<close>

lemma io_ReadFull_prefix:
  "io_ReadFull (c\<lparr>c_in := xs\<rparr>) n = (Inr x, c1) \<Longrightarrow>
     \<exists>ys. c1 = c\<lparr>c_in := ys\<rparr> \<and> io_ReadFull (c\<lparr>c_in := xs @ zs\<rparr>) n = (Inr x, c\<lparr>c_in := ys @ zs\<rparr>)"
  by (auto simp: io_ReadFull_def split: if_splits)

lemma ReadPDU_prefix:
  assumes "ReadPDU (c\<lparr>c_in := xs\<rparr>) = (Inr p, c')"
  shows "\<exists>ys. c' = c\<lparr>c_in := ys\<rparr> \<and> ReadPDU (c\<lparr>c_in := xs @ zs\<rparr>) = (Inr p, c\<lparr>c_in := ys @ zs\<rparr>)"
proof -
  have ds: "\<exists>ys. c' = c\<lparr>c_in := ys\<rparr> \<and> readDataSegment (c\<lparr>c_in := ws @ zs\<rparr>) q = (Inr p, c\<lparr>c_in := ys @ zs\<rparr>)"
    if h: "readDataSegment (c\<lparr>c_in := ws\<rparr>) q = (Inr p, c')" for ws q
  proof (cases "DataSegmentLength q > 0")
    case False
    then show ?thesis using h by (auto simp: readDataSegment_def Let_def)
  next
    case True
    let ?n = "unat ((DataSegmentLength q + 3) AND NOT 3)"
    obtain buf c2 where r: "io_ReadFull (c\<lparr>c_in := ws\<rparr>) ?n = (Inr buf, c2)"
      using h True by (auto simp: readDataSegment_def Let_def split: prod.splits sum.splits)
    show ?thesis using h True io_ReadFull_prefix [OF r, of zs] r by (auto simp: readDataSegment_def Let_def)
  qed
  obtain bhs c1 where b: "io_ReadFull (c\<lparr>c_in := xs\<rparr>) BHSSize = (Inr bhs, c1)"
    using assms by (auto simp: ReadPDU_def split: prod.splits sum.splits)
  obtain ws where ws: "c1 = c\<lparr>c_in := ws\<rparr>" "io_ReadFull (c\<lparr>c_in := xs @ zs\<rparr>) BHSSize = (Inr bhs, c\<lparr>c_in := ws @ zs\<rparr>)"
    using io_ReadFull_prefix [OF b, of zs] by blast
  show ?thesis
  proof (cases "unat (bhs ! 4) * 4 > 0")
    case False
    then show ?thesis using assms ds [of ws] by (simp add: ReadPDU_def b ws Let_def newPDU_def)
  next
    case True
    obtain ahs c2 where a: "io_ReadFull (c\<lparr>c_in := ws\<rparr>) (unat (bhs ! 4) * 4) = (Inr ahs, c2)"
      using assms True by (auto simp: ReadPDU_def b ws newPDU_def Let_def split: prod.splits sum.splits)
    obtain us where us: "c2 = c\<lparr>c_in := us\<rparr>" "io_ReadFull (c\<lparr>c_in := ws @ zs\<rparr>) (unat (bhs ! 4) * 4) = (Inr ahs, c\<lparr>c_in := us @ zs\<rparr>)"
      using io_ReadFull_prefix [OF a, of zs] by blast
    show ?thesis using assms True ds [of us] by (simp add: ReadPDU_def b ws a us Let_def newPDU_def)
  qed
qed

section \<open>Properties\<close>

text \<open>
  C32: what \<^verbatim>\<open>WritePDU\<close> puts on a connection without reporting an error, \<^verbatim>\<open>ReadPDU\<close> takes off it again: the PDU with its
  length field set, leaving exactly the bytes behind it, for every header, additional header and data below 16 MiB.
\<close>

theorem pdu_roundtrip:
  assumes "pdu_wf p" and "WritePDU c p = (Inr (), c')"
  shows "\<exists>wire. c_out c' = c_out c @ wire \<and>
    (\<forall>r rest. ReadPDU (r\<lparr>c_in := wire @ rest\<rparr>) = (Inr (SetDataSegmentLength (of_nat (length (DataSegment p))) p), r\<lparr>c_in := rest\<rparr>))"
  using WritePDU_ok [OF assms] ReadPDU_wire [OF assms(1)] by (auto simp: pdu_sent_def)

theorem pdu_roundtrip_witness:
  "\<exists>wire. c_out (snd (WritePDU \<lparr>c_in = [], c_out = [], c_script = []\<rparr> (newPDU\<lparr>DataSegment := [1, 2, 3, 4, 5]\<rparr>))) = wire \<and>
     fst (ReadPDU \<lparr>c_in = wire, c_out = [], c_script = []\<rparr>) =
       Inr (SetDataSegmentLength 5 (newPDU\<lparr>DataSegment := [1, 2, 3, 4, 5]\<rparr>))"
proof -
  let ?c = "\<lparr>c_in = [], c_out = [], c_script = []\<rparr>" and ?p = "newPDU\<lparr>DataSegment := [1, 2, 3, 4, 5]\<rparr>"
  have wf: "pdu_wf ?p" by (simp add: pdu_wf_def newPDU_def zeros_def)
  have "WritePDU ?c ?p = (Inr (), snd (WritePDU ?c ?p))"
    by (simp add: WritePDU_def Let_def conn_Write_def writeDataSegment_def newPDU_def SetDataSegmentLength_def)
  from pdu_roundtrip [OF wf this] obtain wire where w: "c_out (snd (WritePDU ?c ?p)) = wire"
    "\<forall>r rest. ReadPDU (r\<lparr>c_in := wire @ rest\<rparr>) = (Inr (SetDataSegmentLength 5 ?p), r\<lparr>c_in := rest\<rparr>)" by (auto simp: newPDU_def)
  from w(2) [THEN spec, of ?c, THEN spec, of "[]"] have "ReadPDU \<lparr>c_in = wire, c_out = [], c_script = []\<rparr> = (Inr (SetDataSegmentLength 5 ?p), ?c)"
    by simp
  then show ?thesis using w(1) by auto
qed

text \<open>
  A stream that ends inside a PDU is never taken for a PDU: reading any proper prefix of what \<^verbatim>\<open>WritePDU\<close> wrote fails.
\<close>

theorem pdu_torn:
  assumes "pdu_wf p" and "WritePDU c p = (Inr (), c')" and "c_out c' = c_out c @ wire" and "k < length wire"
  shows "\<exists>err. fst (ReadPDU (r\<lparr>c_in := take k wire\<rparr>)) = Inl err"
proof (rule ccontr)
  assume "\<not> ?thesis"
  then obtain q c1 where q: "ReadPDU (r\<lparr>c_in := take k wire\<rparr>) = (Inr q, c1)"
    by (metis prod.collapse sumE)
  have w: "wire = pdu_wire p" using WritePDU_ok [OF assms(1,2)] assms(3) by simp
  obtain ys where "ReadPDU (r\<lparr>c_in := take k wire @ drop k wire\<rparr>) = (Inr q, r\<lparr>c_in := ys @ drop k wire\<rparr>)"
    using ReadPDU_prefix [OF q, of "drop k wire"] by blast
  moreover have "ReadPDU (r\<lparr>c_in := wire @ []\<rparr>) = (Inr (pdu_sent p), r\<lparr>c_in := []\<rparr>)"
    unfolding w by (rule ReadPDU_wire [OF assms(1)])
  ultimately have "c_in (r\<lparr>c_in := ys @ drop k wire\<rparr>) = c_in (r\<lparr>c_in := []\<rparr>)" by (simp only: append_take_drop_id append_Nil2 prod.inject)
  then show False using assms(4) by simp
qed

theorem pdu_torn_witness:
  "\<exists>err. fst (ReadPDU \<lparr>c_in = take 47 (zeros 48), c_out = [], c_script = []\<rparr>) = Inl err"
proof -
  let ?c = "\<lparr>c_in = [], c_out = [], c_script = []\<rparr>"
  have "WritePDU ?c newPDU = (Inr (), ?c\<lparr>c_out := zeros 48\<rparr>)"
    by (simp add: WritePDU_def Let_def conn_Write_def writeDataSegment_def newPDU_def SetDataSegmentLength_def bhs_put_def
        blit_def zeros_def eval_nat_numeral)
  from pdu_torn [OF _ this, of "zeros 48" 47 ?c] show ?thesis by (simp add: pdu_wf_def newPDU_def zeros_def)
qed

end
