(* ===== verification/Params.thy ===== *)
theory Params
  imports Prelude
begin

text \<open>
  Text parameters of login and discovery, \<^verbatim>\<open>internal/iscsi/params.go\<close>: the \<^verbatim>\<open>key=value\<close> format, the operational
  parameters of a session and their negotiation. A Go map is an association list with distinct keys; the order in which
  a \<^verbatim>\<open>range\<close> loop visits it is a parameter \<open>ord\<close>. Go strings are byte strings, here lists of 8-bit characters.
\<close>

section \<open>Numbers and booleans (strconv, strings)\<close>

type_synonym kv_map = "(string \<times> string) list"
type_synonym kv_order = "kv_map \<Rightarrow> kv_map"

definition is_digit :: "char \<Rightarrow> bool" where
  "is_digit c \<longleftrightarrow> 48 \<le> (of_char c :: nat) \<and> (of_char c :: nat) \<le> 57"

definition digits_val :: "string \<Rightarrow> int" where
  "digits_val ds = foldl (\<lambda>v c. 10 * v + (of_char c - 48)) 0 ds"

text \<open>\<^verbatim>\<open>strconv.Atoi\<close>: an optional sign, decimal digits, and a value that fits 64 bits.\<close>

definition strconv_Atoi :: "string \<Rightarrow> int result" where
  "strconv_Atoi s =
     (let (neg, ds) = (case s of
             [] \<Rightarrow> (False, [])
           | c # r \<Rightarrow> if c = CHR ''-'' then (True, r) else if c = CHR ''+'' then (False, r) else (False, s));
          v = (if neg then - digits_val ds else digits_val ds)
      in if ds = [] \<or> \<not> list_all is_digit ds then Inl (Errorf ''invalid syntax'')
         else if v < - (2 ^ 63) \<or> 2 ^ 63 \<le> v then Inl (Errorf ''value out of range'')
         else Inr v)"

fun nat_digits :: "nat \<Rightarrow> string" where
  "nat_digits n = (if n < 10 then [char_of (48 + n)] else nat_digits (n div 10) @ [char_of (48 + n mod 10)])"

declare nat_digits.simps [simp del]

definition strconv_Itoa :: "int \<Rightarrow> string" where
  "strconv_Itoa i = (if i < 0 then CHR ''-'' # nat_digits (nat (- i)) else nat_digits (nat i))"

definition parseIntParam :: "string \<Rightarrow> int \<Rightarrow> int" where
  "parseIntParam s defaultVal =
     (case strconv_Atoi s of
        Inl err \<Rightarrow> defaultVal
      | Inr v \<Rightarrow> if v < 0 then defaultVal else v)"

text \<open>
  \<^verbatim>\<open>strings.EqualFold(s, "Yes")\<close> compares under Unicode simple case folding, under which the two-byte letter U+017F
  (long s) is also an \<^verbatim>\<open>s\<close>.
\<close>

definition parseBoolParam :: "string \<Rightarrow> bool" where
  "parseBoolParam s =
     (case s of
        y # e # rest \<Rightarrow>
          y \<in> {CHR ''Y'', CHR ''y''} \<and> e \<in> {CHR ''E'', CHR ''e''} \<and>
          rest \<in> {''S'', ''s'', [CHR 0xC5, CHR 0xBF]}
      | _ \<Rightarrow> False)"

definition boolToYesNo :: "bool \<Rightarrow> string" where
  "boolToYesNo b = (if b then ''Yes'' else ''No'')"

section \<open>Operational parameters\<close>

definition DefaultMaxRecvDataSegmentLength :: int where "DefaultMaxRecvDataSegmentLength = 65536"
definition DefaultMaxBurstLength :: int where "DefaultMaxBurstLength = 262144"
definition DefaultFirstBurstLength :: int where "DefaultFirstBurstLength = 65536"
definition DefaultMaxOutstandingR2T :: int where "DefaultMaxOutstandingR2T = 1"
definition DefaultDefaultTime2Wait :: int where "DefaultDefaultTime2Wait = 2"
definition DefaultDefaultTime2Retain :: int where "DefaultDefaultTime2Retain = 20"
definition DefaultMaxConnections :: int where "DefaultMaxConnections = 1"

record Params =
  MaxRecvDataSegmentLength :: int
  MaxBurstLength :: int
  FirstBurstLength :: int
  MaxOutstandingR2T :: int
  DefaultTime2Wait :: int
  DefaultTime2Retain :: int
  MaxConnections :: int
  InitialR2T :: bool
  ImmediateData :: bool
  DataPDUInOrder :: bool
  DataSequenceInOrder :: bool
  HeaderDigest :: string
  DataDigest :: string
  InitiatorName :: string
  TargetName :: string
  SessionType :: string

definition DefaultTargetParams :: Params where
  "DefaultTargetParams =
     \<lparr>MaxRecvDataSegmentLength = DefaultMaxRecvDataSegmentLength, MaxBurstLength = DefaultMaxBurstLength,
      FirstBurstLength = DefaultFirstBurstLength, MaxOutstandingR2T = DefaultMaxOutstandingR2T,
      DefaultTime2Wait = DefaultDefaultTime2Wait, DefaultTime2Retain = DefaultDefaultTime2Retain,
      MaxConnections = DefaultMaxConnections, InitialR2T = True, ImmediateData = True, DataPDUInOrder = True,
      DataSequenceInOrder = True, HeaderDigest = ''None'', DataDigest = ''None'', InitiatorName = [], TargetName = [],
      SessionType = []\<rparr>"

section \<open>The text format\<close>

text \<open>\<^verbatim>\<open>bytes.Split\<close> at every zero byte.\<close>

fun bytes_Split :: "bytes \<Rightarrow> bytes list" where
  "bytes_Split [] = [[]]"
| "bytes_Split (b # bs) =
     (if b = 0 then [] # bytes_Split bs
      else case bytes_Split bs of [] \<Rightarrow> [[b]] | x # xs \<Rightarrow> (b # x) # xs)"

text \<open>One round of the loop of \<^verbatim>\<open>ParseKeyValuePairs\<close>: everything up to the first \<^verbatim>\<open>=\<close> is the key.\<close>

definition parse_part :: "bytes \<Rightarrow> kv_map \<Rightarrow> kv_map" where
  "parse_part part result =
     (let kv = bytes_str part in
      if kv = [] then result
      else if CHR ''='' \<notin> set kv then result
      else
        let key = takeWhile (\<lambda>c. c \<noteq> CHR ''='') kv;
            val = tl (dropWhile (\<lambda>c. c \<noteq> CHR ''='') kv)
        in AList.update key val result)"

definition ParseKeyValuePairs :: "bytes \<Rightarrow> kv_map" where
  "ParseKeyValuePairs data = fold parse_part (bytes_Split data) []"

definition SerializeKeyValuePairs :: "kv_order \<Rightarrow> kv_map \<Rightarrow> bytes" where
  "SerializeKeyValuePairs ord kv =
     concat (map (\<lambda>(k, v). str_bytes k @ str_bytes ''='' @ str_bytes v @ [0x00]) (ord kv))"

definition SerializeKeyValueList :: "string list \<Rightarrow> bytes" where
  "SerializeKeyValueList pairs = concat (map (\<lambda>kv. str_bytes kv @ [0x00]) pairs)"

section \<open>Negotiation\<close>

text \<open>
  One round of the loop of \<^verbatim>\<open>NegotiateParams\<close>: the answer for a key, if it gets one, and the parameters.
\<close>

definition negotiate_key :: "Params \<Rightarrow> string \<times> string \<Rightarrow> kv_map \<times> Params \<Rightarrow> kv_map \<times> Params" where
  "negotiate_key target kv acc =
     (case kv of (key, initVal) \<Rightarrow> case acc of (result, p) \<Rightarrow>
        let lower = (\<lambda>def tgt. min (parseIntParam initVal def) tgt);
            reply = (\<lambda>v. AList.update key v result) in
        if key = ''InitiatorName'' then (result, p\<lparr>InitiatorName := initVal\<rparr>)
        else if key = ''TargetName'' then (result, p\<lparr>TargetName := initVal\<rparr>)
        else if key = ''SessionType'' then (result, p\<lparr>SessionType := initVal\<rparr>)
        else if key = ''InitiatorAlias'' then (result, p)
        else if key = ''MaxRecvDataSegmentLength'' then
          let negVal = lower DefaultMaxRecvDataSegmentLength (MaxRecvDataSegmentLength target)
          in (reply (strconv_Itoa negVal), p\<lparr>MaxRecvDataSegmentLength := negVal\<rparr>)
        else if key = ''MaxBurstLength'' then
          let negVal = lower DefaultMaxBurstLength (MaxBurstLength target)
          in (reply (strconv_Itoa negVal), p\<lparr>MaxBurstLength := negVal\<rparr>)
        else if key = ''FirstBurstLength'' then
          let negVal = lower DefaultFirstBurstLength (FirstBurstLength target)
          in (reply (strconv_Itoa negVal), p\<lparr>FirstBurstLength := negVal\<rparr>)
        else if key = ''MaxOutstandingR2T'' then
          let negVal = lower DefaultMaxOutstandingR2T (MaxOutstandingR2T target)
          in (reply (strconv_Itoa negVal), p\<lparr>MaxOutstandingR2T := negVal\<rparr>)
        else if key = ''DefaultTime2Wait'' then
          let negVal = max (parseIntParam initVal DefaultDefaultTime2Wait) (DefaultTime2Wait target)
          in (reply (strconv_Itoa negVal), p\<lparr>DefaultTime2Wait := negVal\<rparr>)
        else if key = ''DefaultTime2Retain'' then
          let negVal = lower DefaultDefaultTime2Retain (DefaultTime2Retain target)
          in (reply (strconv_Itoa negVal), p\<lparr>DefaultTime2Retain := negVal\<rparr>)
        else if key = ''MaxConnections'' then
          let negVal = lower 1 (MaxConnections target)
          in (reply (strconv_Itoa negVal), p\<lparr>MaxConnections := negVal\<rparr>)
        else if key = ''InitialR2T'' then
          let negVal = (parseBoolParam initVal \<or> InitialR2T target)
          in (reply (boolToYesNo negVal), p\<lparr>InitialR2T := negVal\<rparr>)
        else if key = ''ImmediateData'' then
          let negVal = (parseBoolParam initVal \<and> ImmediateData target)
          in (reply (boolToYesNo negVal), p\<lparr>ImmediateData := negVal\<rparr>)
        else if key = ''DataPDUInOrder'' then
          let negVal = (parseBoolParam initVal \<or> DataPDUInOrder target)
          in (reply (boolToYesNo negVal), p\<lparr>DataPDUInOrder := negVal\<rparr>)
        else if key = ''DataSequenceInOrder'' then
          let negVal = (parseBoolParam initVal \<or> DataSequenceInOrder target)
          in (reply (boolToYesNo negVal), p\<lparr>DataSequenceInOrder := negVal\<rparr>)
        else if key = ''HeaderDigest'' then (reply ''None'', p\<lparr>HeaderDigest := ''None''\<rparr>)
        else if key = ''DataDigest'' then (reply ''None'', p\<lparr>DataDigest := ''None''\<rparr>)
        else if key = ''AuthMethod'' then (result, p)
        else if key \<in> {''CHAP_A'', ''CHAP_C'', ''CHAP_I'', ''CHAP_N'', ''CHAP_R''} then (result, p)
        else (reply ''NotUnderstood'', p))"

definition NegotiateParams :: "kv_order \<Rightarrow> kv_map \<Rightarrow> Params \<Rightarrow> kv_map \<times> Params" where
  "NegotiateParams ord initiatorKV target = fold (negotiate_key target) (ord initiatorKV) ([], target)"

section \<open>Round trips\<close>

lemma digits_val_snoc: "digits_val (ds @ [c]) = 10 * digits_val ds + (of_char c - 48)"
  by (simp add: digits_val_def)

lemma of_char_digit [simp]: "n < 10 \<Longrightarrow> (of_char (char_of (48 + n :: nat)) :: int) = 48 + int n"
  using of_nat_of_char [of "char_of (48 + n)", where ?'a = int, symmetric] by simp

lemma nat_digits_ok: "nat_digits n \<noteq> [] \<and> list_all is_digit (nat_digits n) \<and> digits_val (nat_digits n) = int n"
proof (induction n rule: nat_digits.induct)
  case (1 n)
  show ?case
  proof (cases "n < 10")
    case True
    then show ?thesis by (simp add: nat_digits.simps [of n] is_digit_def digits_val_def)
  next
    case False
    have "int n = 10 * int (n div 10) + int (n mod 10)" by (metis of_nat_add of_nat_mult of_nat_numeral mult_div_mod_eq)
    then show ?thesis
      using False 1 by (simp add: nat_digits.simps [of n] digits_val_snoc is_digit_def)
  qed
qed

lemma Atoi_Itoa:
  assumes "- (2 ^ 63) \<le> i" and "i < 2 ^ 63"
  shows "strconv_Atoi (strconv_Itoa i) = Inr i"
proof -
  have d: "nat_digits n = c # r \<Longrightarrow> c \<noteq> CHR ''-'' \<and> c \<noteq> CHR ''+''" for n c r
    using nat_digits_ok [of n] by (auto simp: is_digit_def)
  then show ?thesis
    using assms nat_digits_ok [of "nat i"] nat_digits_ok [of "nat (- i)"]
    by (cases "nat_digits (nat i)") (auto simp: strconv_Atoi_def strconv_Itoa_def dest: d split: list.splits)
qed


lemma map_of_same_set:
  assumes "set xs = set ys" and "distinct (map fst xs)" and "distinct (map fst ys)"
  shows "map_of xs = map_of ys"
proof
  fix k
  have "map_of xs k = Some v \<longleftrightarrow> map_of ys k = Some v" for v
    using assms by (metis map_of_eq_Some_iff)
  then show "map_of xs k = map_of ys k" by (metis not_Some_eq)
qed

lemma map_of_fold_update: "map_of (fold (\<lambda>(k, v). AList.update k v) xs acc) = map_of acc ++ map_of (rev xs)"
proof (induction xs arbitrary: acc)
  case (Cons x xs)
  then show ?case by (cases x) (simp add: update_conv' fun_eq_iff map_add_def split: option.splits)
qed simp

text \<open>Keys and values that the text format can carry.\<close>

definition kv_clean :: "string \<times> string \<Rightarrow> bool" where
  "kv_clean kv \<longleftrightarrow> CHR ''='' \<notin> set (fst kv) \<and> CHR 0x00 \<notin> set (fst kv) \<and> CHR 0x00 \<notin> set (snd kv)"

lemma bytes_Split_append: "0 \<notin> set xs \<Longrightarrow> bytes_Split (xs @ 0 # ys) = xs # bytes_Split ys"
  by (induction xs) auto

lemma zero_str_bytes: "0 \<in> set (str_bytes s) \<longleftrightarrow> CHR 0x00 \<in> set s"
proof -
  have "(of_nat (of_char c) :: u8) = 0 \<longleftrightarrow> c = CHR 0x00" for c
  proof
    assume "(of_nat (of_char c) :: u8) = 0"
    then show "c = CHR 0x00" using of_char_byte [of c] by (simp add: char_of_def)
  qed simp
  then show ?thesis by (auto simp: str_bytes_def image_iff)
qed

lemma parse_part_clean:
  "kv_clean (k, v) \<Longrightarrow> parse_part (str_bytes k @ str_bytes ''='' @ str_bytes v) r = AList.update k v r"
proof -
  assume "kv_clean (k, v)"
  then have k: "CHR ''='' \<notin> set k" by (simp add: kv_clean_def)
  have "str_bytes k @ str_bytes ''='' @ str_bytes v = str_bytes (k @ ''='' @ v)" by (simp add: str_bytes_def)
  then have "bytes_str (str_bytes k @ str_bytes ''='' @ str_bytes v) = k @ CHR ''='' # v" by simp
  moreover have "takeWhile (\<lambda>c. c \<noteq> CHR ''='') (k @ CHR ''='' # v) = k" using k by (subst takeWhile_append2) auto
  moreover have "dropWhile (\<lambda>c. c \<noteq> CHR ''='') (k @ CHR ''='' # v) = CHR ''='' # v" using k by (subst dropWhile_append2) auto
  ultimately show ?thesis by (simp add: parse_part_def Let_def)
qed

lemma parse_serialize_fold:
  "\<forall>kv \<in> set xs. kv_clean kv \<Longrightarrow>
     fold parse_part (bytes_Split (SerializeKeyValuePairs (\<lambda>x. x) xs)) r = fold (\<lambda>(k, v). AList.update k v) xs r"
proof (induction xs arbitrary: r)
  case Nil
  then show ?case by (simp add: SerializeKeyValuePairs_def parse_part_def bytes_str_def)
next
  case (Cons x xs)
  obtain k v where x: "x = (k, v)" by (cases x)
  let ?part = "str_bytes k @ str_bytes ''='' @ str_bytes v"
  have "0 \<notin> set ?part" using Cons.prems zero_str_bytes by (auto simp: x kv_clean_def)
  then have "bytes_Split (SerializeKeyValuePairs (\<lambda>x. x) (x # xs)) = ?part # bytes_Split (SerializeKeyValuePairs (\<lambda>x. x) xs)"
    using bytes_Split_append [of ?part] by (simp add: SerializeKeyValuePairs_def x)
  then show ?case using Cons parse_part_clean [of k v] by (simp add: x)
qed

section \<open>What negotiation yields\<close>

text \<open>The outcome as a function of the offered pairs alone: it mentions no order.\<close>

definition offered :: "kv_map \<Rightarrow> string \<Rightarrow> (string \<Rightarrow> 'a) \<Rightarrow> 'a \<Rightarrow> 'a" where
  "offered kv key f d = (case map_of kv key of None \<Rightarrow> d | Some v \<Rightarrow> f v)"

definition negotiated :: "kv_map \<Rightarrow> Params \<Rightarrow> Params" where
  "negotiated kv t =
     \<lparr>MaxRecvDataSegmentLength = offered kv ''MaxRecvDataSegmentLength''
        (\<lambda>v. min (parseIntParam v 65536) (MaxRecvDataSegmentLength t)) (MaxRecvDataSegmentLength t),
      MaxBurstLength = offered kv ''MaxBurstLength'' (\<lambda>v. min (parseIntParam v 262144) (MaxBurstLength t)) (MaxBurstLength t),
      FirstBurstLength = offered kv ''FirstBurstLength'' (\<lambda>v. min (parseIntParam v 65536) (FirstBurstLength t)) (FirstBurstLength t),
      MaxOutstandingR2T = offered kv ''MaxOutstandingR2T'' (\<lambda>v. min (parseIntParam v 1) (MaxOutstandingR2T t)) (MaxOutstandingR2T t),
      DefaultTime2Wait = offered kv ''DefaultTime2Wait'' (\<lambda>v. max (parseIntParam v 2) (DefaultTime2Wait t)) (DefaultTime2Wait t),
      DefaultTime2Retain = offered kv ''DefaultTime2Retain'' (\<lambda>v. min (parseIntParam v 20) (DefaultTime2Retain t)) (DefaultTime2Retain t),
      MaxConnections = offered kv ''MaxConnections'' (\<lambda>v. min (parseIntParam v 1) (MaxConnections t)) (MaxConnections t),
      InitialR2T = offered kv ''InitialR2T'' (\<lambda>v. parseBoolParam v \<or> InitialR2T t) (InitialR2T t),
      ImmediateData = offered kv ''ImmediateData'' (\<lambda>v. parseBoolParam v \<and> ImmediateData t) (ImmediateData t),
      DataPDUInOrder = offered kv ''DataPDUInOrder'' (\<lambda>v. parseBoolParam v \<or> DataPDUInOrder t) (DataPDUInOrder t),
      DataSequenceInOrder = offered kv ''DataSequenceInOrder'' (\<lambda>v. parseBoolParam v \<or> DataSequenceInOrder t) (DataSequenceInOrder t),
      HeaderDigest = offered kv ''HeaderDigest'' (\<lambda>v. ''None'') (HeaderDigest t),
      DataDigest = offered kv ''DataDigest'' (\<lambda>v. ''None'') (DataDigest t),
      InitiatorName = offered kv ''InitiatorName'' (\<lambda>v. v) (InitiatorName t),
      TargetName = offered kv ''TargetName'' (\<lambda>v. v) (TargetName t),
      SessionType = offered kv ''SessionType'' (\<lambda>v. v) (SessionType t)\<rparr>"

text \<open>The keys that get no answer, and the answer of every other offered key: its negotiated value.\<close>

definition silent_keys :: "string set" where
  "silent_keys = {''InitiatorName'', ''TargetName'', ''SessionType'', ''InitiatorAlias'', ''AuthMethod'',
     ''CHAP_A'', ''CHAP_C'', ''CHAP_I'', ''CHAP_N'', ''CHAP_R''}"

definition reply_of :: "string \<Rightarrow> Params \<Rightarrow> string" where
  "reply_of key p =
     (if key = ''MaxRecvDataSegmentLength'' then strconv_Itoa (MaxRecvDataSegmentLength p)
      else if key = ''MaxBurstLength'' then strconv_Itoa (MaxBurstLength p)
      else if key = ''FirstBurstLength'' then strconv_Itoa (FirstBurstLength p)
      else if key = ''MaxOutstandingR2T'' then strconv_Itoa (MaxOutstandingR2T p)
      else if key = ''DefaultTime2Wait'' then strconv_Itoa (DefaultTime2Wait p)
      else if key = ''DefaultTime2Retain'' then strconv_Itoa (DefaultTime2Retain p)
      else if key = ''MaxConnections'' then strconv_Itoa (MaxConnections p)
      else if key = ''InitialR2T'' then boolToYesNo (InitialR2T p)
      else if key = ''ImmediateData'' then boolToYesNo (ImmediateData p)
      else if key = ''DataPDUInOrder'' then boolToYesNo (DataPDUInOrder p)
      else if key = ''DataSequenceInOrder'' then boolToYesNo (DataSequenceInOrder p)
      else if key \<in> {''HeaderDigest'', ''DataDigest''} then ''None''
      else ''NotUnderstood'')"

text \<open>A value that one key alone sets ends up as that key says, wherever it stands in the list.\<close>

lemma fold_field:
  assumes step: "\<And>k v acc. f (snd (step (k, v) acc)) = (if k = K then g v else f (snd acc))"
    and "distinct (map fst xs)"
  shows "f (snd (fold step xs acc)) = offered xs K g (f (snd acc))"
  using assms(2)
proof (induction xs arbitrary: acc)
  case (Cons x xs)
  obtain k v where x: "x = (k, v)" by (cases x)
  have "map_of xs k = None" using Cons.prems by (simp add: x map_of_eq_None_iff)
  then show ?case using Cons step by (cases "map_of xs K") (auto simp: x offered_def)
qed (simp add: offered_def)

lemmas defaults = DefaultMaxRecvDataSegmentLength_def DefaultMaxBurstLength_def DefaultFirstBurstLength_def
  DefaultMaxOutstandingR2T_def DefaultDefaultTime2Wait_def DefaultDefaultTime2Retain_def DefaultMaxConnections_def

lemma fold_negotiate_params:
  assumes d: "distinct (map fst xs)"
  shows "snd (fold (negotiate_key t) xs (r, t)) = negotiated xs t"
proof -
  have mk: "f (snd (fold (negotiate_key t) xs (r, t))) = offered xs K g (f t)"
    if "\<And>k v acc. f (snd (negotiate_key t (k, v) acc)) = (if k = K then g v else f (snd acc))"
    for f :: "Params \<Rightarrow> 'a" and K g
    using fold_field [OF that d, of "(r, t)"] by simp
  show ?thesis
    by (rule Params.equality; simp only: negotiated_def Params.simps;
        (rule mk; simp add: negotiate_key_def Let_def defaults split: prod.split)?) simp
qed


text \<open>Each pair adds at most its own answer, computed from the target's values.\<close>

lemma negotiate_key_reply:
  "fst (negotiate_key t (k, v) (r, p)) =
     (if k \<in> silent_keys then r else AList.update k (reply_of k (negotiated [(k, v)] t)) r)"
  by (simp add: negotiate_key_def Let_def silent_keys_def reply_of_def negotiated_def offered_def defaults)

lemma fold_negotiate_reply:
  "distinct (map fst xs) \<Longrightarrow>
     map_of (fst (fold (negotiate_key t) xs (r, p))) k =
       (if k \<in> fst ` set xs \<and> k \<notin> silent_keys then Some (reply_of k (negotiated [(k, the (map_of xs k))] t)) else map_of r k)"
proof (induction xs arbitrary: r p)
  case (Cons x xs)
  obtain h v where x: "x = (h, v)" by (cases x)
  obtain r1 p1 where s: "negotiate_key t (h, v) (r, p) = (r1, p1)" by (cases "negotiate_key t (h, v) (r, p)")
  then have "r1 = (if h \<in> silent_keys then r else AList.update h (reply_of h (negotiated [(h, v)] t)) r)"
    using negotiate_key_reply [of t h v r p] by simp
  then show ?case using Cons s by (auto simp: x update_conv' image_iff)
qed simp

lemma reply_of_local:
  assumes "map_of kv k = Some v" and "k \<notin> silent_keys"
  shows "reply_of k (negotiated [(k, v)] t) = reply_of k (negotiated kv t)"
proof -
  have hit: "k = K \<Longrightarrow> map_of kv K = Some v" for K using assms(1) by simp
  show ?thesis by (simp add: reply_of_def negotiated_def offered_def hit cong: if_cong)
qed

section \<open>Properties\<close>

text \<open>
  C33: the outcome of a negotiation does not depend on the order in which the map of offered pairs is visited: numeric
  limits become the minimum of both sides (the waiting time the maximum), \<^verbatim>\<open>InitialR2T\<close> and the ordering flags the
  disjunction, \<^verbatim>\<open>ImmediateData\<close> the conjunction, and every offered key outside the silent ones is answered with its negotiated
  value (\<^verbatim>\<open>NotUnderstood\<close> if it is unknown).
\<close>

theorem negotiation_result:
  assumes "set (ord kv) = set kv" and "distinct (map fst kv)" and "distinct (map fst (ord kv))"
    and "NegotiateParams ord kv t = (reply, p)"
  shows "p = negotiated kv t \<and>
    map_of reply k = (if k \<in> fst ` set kv \<and> k \<notin> silent_keys then Some (reply_of k p) else None)"
proof -
  have m: "map_of (ord kv) = map_of kv" using assms(1,3,2) by (rule map_of_same_set)
  have p: "p = negotiated kv t"
    using fold_negotiate_params [OF assms(3), of t "[]"] assms(4) m by (simp add: NegotiateParams_def negotiated_def offered_def)
  have "map_of reply k =
      (if k \<in> fst ` set kv \<and> k \<notin> silent_keys then Some (reply_of k (negotiated [(k, the (map_of kv k))] t)) else None)"
    using fold_negotiate_reply [OF assms(3), of t "[]" t k] assms(1,4) m by (simp add: NegotiateParams_def)
  moreover have "map_of kv k = Some (the (map_of kv k))" if "k \<in> fst ` set kv"
    using that by (metis map_of_eq_None_iff option.exhaust_sel)
  ultimately show ?thesis using reply_of_local [of kv k] p by auto
qed

theorem negotiation_result_witness:
  "\<exists>reply p. NegotiateParams rev [(''MaxBurstLength'', ''1024''), (''X'', ''y'')] DefaultTargetParams = (reply, p) \<and>
     map_of reply ''X'' = Some ''NotUnderstood'' \<and> map_of reply ''MaxBurstLength'' = Some (strconv_Itoa (MaxBurstLength p))"
proof -
  obtain reply p where n: "NegotiateParams rev [(''MaxBurstLength'', ''1024''), (''X'', ''y'')] DefaultTargetParams = (reply, p)"
    by (cases "NegotiateParams rev [(''MaxBurstLength'', ''1024''), (''X'', ''y'')] DefaultTargetParams")
  have "map_of reply k = (if k \<in> {''MaxBurstLength'', ''X''} \<and> k \<notin> silent_keys then Some (reply_of k p) else None)" for k
    using negotiation_result [OF set_rev _ _ n, of k] by simp
  then show ?thesis using n by (auto simp: silent_keys_def reply_of_def)
qed

text \<open>
  Whatever an initiator offers, each negotiated limit stays between zero and the target's own limit, and the waiting time
  does not fall below the target's.
\<close>

theorem negotiation_bounds:
  assumes "set (ord kv) = set kv" and "distinct (map fst kv)" and "distinct (map fst (ord kv))"
  shows "let p = snd (NegotiateParams ord kv DefaultTargetParams) in
    0 \<le> MaxRecvDataSegmentLength p \<and> MaxRecvDataSegmentLength p \<le> 65536 \<and>
    0 \<le> MaxBurstLength p \<and> MaxBurstLength p \<le> 262144 \<and> 0 \<le> FirstBurstLength p \<and> FirstBurstLength p \<le> 65536 \<and>
    0 \<le> MaxOutstandingR2T p \<and> MaxOutstandingR2T p \<le> 1 \<and> 2 \<le> DefaultTime2Wait p \<and> 0 \<le> DefaultTime2Retain p \<and>
    DefaultTime2Retain p \<le> 20 \<and> 0 \<le> MaxConnections p \<and> MaxConnections p \<le> 1"
proof -
  have pos: "0 \<le> d \<Longrightarrow> 0 \<le> parseIntParam v d" for v d
    by (simp add: parseIntParam_def split: sum.splits)
  have "snd (NegotiateParams ord kv DefaultTargetParams) = negotiated (ord kv) DefaultTargetParams"
    using fold_negotiate_params [OF assms(3)] by (simp add: NegotiateParams_def)
  then show ?thesis
    by (simp add: Let_def negotiated_def offered_def DefaultTargetParams_def defaults pos split: option.split)
qed

theorem negotiation_bounds_witness:
  "MaxBurstLength (snd (NegotiateParams (\<lambda>x. x) [(''MaxBurstLength'', ''16777215'')] DefaultTargetParams)) \<le> 262144"
  using negotiation_bounds [of "\<lambda>x. x" "[(''MaxBurstLength'', ''16777215'')]"] by (simp add: Let_def)

text \<open>
  Parsing what \<^verbatim>\<open>SerializeKeyValuePairs\<close> wrote, in whatever order it visited the map, gives the map back, as long as no key
  contains an equals sign and neither keys nor values contain a zero byte.
\<close>

theorem kv_roundtrip:
  assumes "set (ord kv) = set kv" and "distinct (map fst kv)" and "distinct (map fst (ord kv))" and "\<forall>x \<in> set kv. kv_clean x"
  shows "map_of (ParseKeyValuePairs (SerializeKeyValuePairs ord kv)) = map_of kv"
proof -
  have "ParseKeyValuePairs (SerializeKeyValuePairs ord kv) = fold (\<lambda>(k, v). AList.update k v) (ord kv) []"
    using parse_serialize_fold [of "ord kv" "[]"] assms by (simp add: ParseKeyValuePairs_def SerializeKeyValuePairs_def)
  then have "map_of (ParseKeyValuePairs (SerializeKeyValuePairs ord kv)) = map_of (rev (ord kv))"
    by (simp add: map_of_fold_update)
  also have "\<dots> = map_of kv" using assms by (intro map_of_same_set) (auto simp flip: rev_map)
  finally show ?thesis .
qed

theorem kv_roundtrip_witness:
  "map_of (ParseKeyValuePairs (SerializeKeyValuePairs rev [(''AuthMethod'', ''CHAP''), (''CHAP_A'', ''5'')])) ''CHAP_A'' = Some ''5''"
  by (subst kv_roundtrip [OF set_rev]) (simp_all add: kv_clean_def)

end
