(* ===== verification/Chap.thy ===== *)
theory Chap
  imports Params
begin

unbundle bit_operations_syntax

text \<open>
  CHAP, \<^verbatim>\<open>internal/iscsi/chap.go\<close>, with the parts of the standard library it computes with: MD5 (\<^verbatim>\<open>crypto/md5\<close>, RFC 1321) and
  \<^verbatim>\<open>encoding/hex\<close>. The random bytes of \<^verbatim>\<open>crypto/rand\<close> are an argument: the outcomes of its two calls.
\<close>

section \<open>MD5\<close>

definition md5_K :: "u32 list" where
  "md5_K =
    [0xd76aa478, 0xe8c7b756, 0x242070db, 0xc1bdceee, 0xf57c0faf, 0x4787c62a, 0xa8304613, 0xfd469501,
     0x698098d8, 0x8b44f7af, 0xffff5bb1, 0x895cd7be, 0x6b901122, 0xfd987193, 0xa679438e, 0x49b40821,
     0xf61e2562, 0xc040b340, 0x265e5a51, 0xe9b6c7aa, 0xd62f105d, 0x02441453, 0xd8a1e681, 0xe7d3fbc8,
     0x21e1cde6, 0xc33707d6, 0xf4d50d87, 0x455a14ed, 0xa9e3e905, 0xfcefa3f8, 0x676f02d9, 0x8d2a4c8a,
     0xfffa3942, 0x8771f681, 0x6d9d6122, 0xfde5380c, 0xa4beea44, 0x4bdecfa9, 0xf6bb4b60, 0xbebfbc70,
     0x289b7ec6, 0xeaa127fa, 0xd4ef3085, 0x04881d05, 0xd9d4d039, 0xe6db99e5, 0x1fa27cf8, 0xc4ac5665,
     0xf4292244, 0x432aff97, 0xab9423a7, 0xfc93a039, 0x655b59c3, 0x8f0ccc92, 0xffeff47d, 0x85845dd1,
     0x6fa87e4f, 0xfe2ce6e0, 0xa3014314, 0x4e0811a1, 0xf7537e82, 0xbd3af235, 0x2ad7d2bb, 0xeb86d391]"

definition md5_S :: "nat list" where
  "md5_S =
    [7, 12, 17, 22, 7, 12, 17, 22, 7, 12, 17, 22, 7, 12, 17, 22,
     5, 9, 14, 20, 5, 9, 14, 20, 5, 9, 14, 20, 5, 9, 14, 20,
     4, 11, 16, 23, 4, 11, 16, 23, 4, 11, 16, 23, 4, 11, 16, 23,
     6, 10, 15, 21, 6, 10, 15, 21, 6, 10, 15, 21, 6, 10, 15, 21]"

type_synonym md5_state = "u32 \<times> u32 \<times> u32 \<times> u32"

definition le_get :: "bytes \<Rightarrow> u32" where
  "le_get b = get_u32 (rev b)"

definition md5_word :: "bytes \<Rightarrow> nat \<Rightarrow> u32" where
  "md5_word block g = le_get (bslice (4 * g) (4 * g + 4) block)"

definition md5_step :: "bytes \<Rightarrow> nat \<Rightarrow> md5_state \<Rightarrow> md5_state" where
  "md5_step block i st =
     (case st of (a, b, c, d) \<Rightarrow>
        let (f, g) =
              (if i < 16 then ((b AND c) OR (NOT b AND d), i)
               else if i < 32 then ((d AND b) OR (NOT d AND c), (5 * i + 1) mod 16)
               else if i < 48 then (b XOR c XOR d, (3 * i + 5) mod 16)
               else (c XOR (b OR NOT d), (7 * i) mod 16));
            f' = f + a + md5_K ! i + md5_word block g
        in (d, b + word_rotl (md5_S ! i) f', b, c))"

definition md5_block :: "bytes \<Rightarrow> md5_state \<Rightarrow> md5_state" where
  "md5_block block st =
     (case st of (a0, b0, c0, d0) \<Rightarrow>
        case fold (md5_step block) [0..<64] (a0, b0, c0, d0) of (a, b, c, d) \<Rightarrow> (a0 + a, b0 + b, c0 + c, d0 + d))"

definition md5_pad :: "bytes \<Rightarrow> bytes" where
  "md5_pad msg = msg @ [0x80] @ zeros ((119 - length msg mod 64) mod 64) @ rev (put_u64 (of_nat (8 * length msg)))"

definition md5_Sum :: "bytes \<Rightarrow> bytes" where
  "md5_Sum msg =
     (let p = md5_pad msg;
          blocks = map (\<lambda>i. bslice (64 * i) (64 * i + 64) p) [0..<length p div 64]
      in case fold md5_block blocks (0x67452301, 0xefcdab89, 0x98badcfe, 0x10325476) of
           (a, b, c, d) \<Rightarrow> concat (map (\<lambda>w. rev (put_u32 w)) [a, b, c, d]))"

section \<open>Hexadecimal (encoding/hex)\<close>

definition hex_digit :: "u8 \<Rightarrow> char" where
  "hex_digit n = ''0123456789abcdef'' ! unat (n AND 0x0F)"

definition hex_EncodeToString :: "bytes \<Rightarrow> string" where
  "hex_EncodeToString bs = concat (map (\<lambda>b. [hex_digit (drop_bit 4 b), hex_digit b]) bs)"

definition from_hex_char :: "char \<Rightarrow> u8 option" where
  "from_hex_char c =
     (let n = (of_char c :: nat) in
      if 48 \<le> n \<and> n \<le> 57 then Some (of_nat (n - 48))
      else if 97 \<le> n \<and> n \<le> 102 then Some (of_nat (n - 87))
      else if 65 \<le> n \<and> n \<le> 70 then Some (of_nat (n - 55))
      else None)"

fun hex_DecodeString :: "string \<Rightarrow> bytes result" where
  "hex_DecodeString [] = Inr []"
| "hex_DecodeString [c] = (if from_hex_char c = None then Inl (Errorf ''invalid byte'') else Inl (Errorf ''odd length hex string''))"
| "hex_DecodeString (c # d # s) =
     (case (from_hex_char c, from_hex_char d) of
        (Some x, Some y) \<Rightarrow>
          (case hex_DecodeString s of
             Inl err \<Rightarrow> Inl err
           | Inr bs \<Rightarrow> Inr ((push_bit 4 x OR y) # bs))
      | _ \<Rightarrow> Inl (Errorf ''invalid byte''))"

section \<open>CHAP (chap.go)\<close>

record CHAPChallenge =
  chap_ID :: u8
  chap_Challenge :: bytes

definition NewCHAPChallenge :: "bytes result \<Rightarrow> bytes result \<Rightarrow> CHAPChallenge result" where
  "NewCHAPChallenge rand_id rand_challenge =
     (case rand_id of
        Inl err \<Rightarrow> Inl (Wrap ''generating CHAP ID'' err)
      | Inr i \<Rightarrow>
          (case rand_challenge of
             Inl err \<Rightarrow> Inl (Wrap ''generating CHAP challenge'' err)
           | Inr challenge \<Rightarrow> Inr \<lparr>chap_ID = i ! 0, chap_Challenge = challenge\<rparr>))"

definition ChallengeHex :: "CHAPChallenge \<Rightarrow> string" where
  "ChallengeHex c = ''0x'' @ hex_EncodeToString (chap_Challenge c)"

definition computeCHAPResponse :: "u8 \<Rightarrow> string \<Rightarrow> bytes \<Rightarrow> string" where
  "computeCHAPResponse ident secret challenge = hex_EncodeToString (md5_Sum ([ident] @ str_bytes secret @ challenge))"

definition ComputeCHAPResponse :: "u8 \<Rightarrow> string \<Rightarrow> bytes \<Rightarrow> string" where
  "ComputeCHAPResponse ident secret challenge = ''0x'' @ computeCHAPResponse ident secret challenge"

definition VerifyResponse :: "CHAPChallenge \<Rightarrow> string \<Rightarrow> string \<Rightarrow> bool" where
  "VerifyResponse c secret response =
     (let expected = computeCHAPResponse (chap_ID c) secret (chap_Challenge c);
          resp = (if length response > 2 \<and> (take 2 response = ''0x'' \<or> take 2 response = ''0X'') then drop 2 response else response)
      in case hex_DecodeString resp of
           Inl err \<Rightarrow> False
         | Inr respBytes \<Rightarrow> hex_EncodeToString respBytes = expected)"

record CHAPParams =
  cp_Algorithm :: string
  cp_Identifier :: string
  cp_Name :: string
  cp_Response :: string

text \<open>A lookup of a missing key in a Go map of strings yields the empty string.\<close>

definition kv_get :: "kv_map \<Rightarrow> string \<Rightarrow> string" where
  "kv_get kv k = (case map_of kv k of None \<Rightarrow> [] | Some v \<Rightarrow> v)"

definition ParseCHAPParams :: "kv_map \<Rightarrow> CHAPParams" where
  "ParseCHAPParams kv =
     \<lparr>cp_Algorithm = kv_get kv ''CHAP_A'', cp_Identifier = kv_get kv ''CHAP_I'',
      cp_Name = kv_get kv ''CHAP_N'', cp_Response = kv_get kv ''CHAP_R''\<rparr>"

section \<open>Hexadecimal round trip\<close>

lemma hex_chars: "\<forall>k < 16. from_hex_char (''0123456789abcdef'' ! k) = Some (of_nat k)"
  by (simp add: All_less_Suc eval_nat_numeral from_hex_char_def)

lemma from_hex_digit: "from_hex_char (hex_digit n) = Some (take_bit 4 n)"
proof -
  have n: "n AND 0x0F = take_bit 4 n" by (simp add: take_bit_eq_mask mask_eq_exp_minus_1)
  have "unat (take_bit 4 n) < 16" by (simp add: take_bit_eq_mod unat_mod_distrib)
  then have "from_hex_char (''0123456789abcdef'' ! unat (take_bit 4 n)) = Some (of_nat (unat (take_bit 4 n)))"
    using hex_chars by blast
  then show ?thesis by (simp only: hex_digit_def n of_nat_unat ucast_id)
qed

lemma nibbles: "push_bit 4 (take_bit 4 (drop_bit 4 b)) OR take_bit 4 b = (b :: u8)"
  by (rule bit_word_eqI) (auto simp only: bit_or_iff bit_push_bit_iff bit_take_bit_iff bit_drop_bit_eq le_add_diff_inverse, simp_all)

lemma hex_decode_byte:
  "hex_DecodeString (hex_digit (drop_bit 4 b) # hex_digit b # s) =
     (case hex_DecodeString s of Inl err \<Rightarrow> Inl err | Inr bs \<Rightarrow> Inr (b # bs))"
  by (simp only: hex_DecodeString.simps from_hex_digit option.case prod.case nibbles)

lemma hex_roundtrip [simp]: "hex_DecodeString (hex_EncodeToString bs) = Inr bs"
  by (induction bs) (simp_all add: hex_EncodeToString_def hex_decode_byte del: hex_DecodeString.simps(3))

lemma hex_EncodeToString_inject: "hex_EncodeToString a = hex_EncodeToString b \<longleftrightarrow> a = b"
  by (metis hex_roundtrip sum.inject(2))

text \<open>What \<^verbatim>\<open>VerifyResponse\<close> makes of a response: the bytes it stands for, if it is well formed.\<close>

definition response_bytes :: "string \<Rightarrow> bytes option" where
  "response_bytes r =
     (case hex_DecodeString (if length r > 2 \<and> take 2 r \<in> {''0x'', ''0X''} then drop 2 r else r) of
        Inl err \<Rightarrow> None
      | Inr bs \<Rightarrow> Some bs)"

lemma length_hex [simp]: "length (hex_EncodeToString bs) = 2 * length bs"
  by (induction bs) (auto simp: hex_EncodeToString_def)

lemma length_md5 [simp]: "length (md5_Sum m) = 16"
  by (auto simp: md5_Sum_def Let_def split: prod.split)

lemma chap_verify_accepts: "VerifyResponse c secret (ComputeCHAPResponse (chap_ID c) secret (chap_Challenge c))"
  by (simp add: VerifyResponse_def computeCHAPResponse_def ComputeCHAPResponse_def Let_def)

lemma VerifyResponse_iff:
  "VerifyResponse c secret r \<longleftrightarrow> response_bytes r = Some (md5_Sum (chap_ID c # str_bytes secret @ chap_Challenge c))"
  by (auto simp: VerifyResponse_def response_bytes_def computeCHAPResponse_def hex_EncodeToString_inject Let_def
      split: sum.splits if_splits)

section \<open>Properties\<close>

text \<open>
  A CHAP response is accepted exactly when it is the hexadecimal form, in either case of letters and with or without the prefix
  \<^verbatim>\<open>0x\<close>, of the MD5 digest of identifier, secret and challenge; the response that \<^verbatim>\<open>ComputeCHAPResponse\<close> builds with the right
  secret is accepted.
\<close>

theorem chap_verify_iff:
  "(VerifyResponse c secret r \<longleftrightarrow>
      response_bytes r = Some (md5_Sum (chap_ID c # str_bytes secret @ chap_Challenge c))) \<and>
   VerifyResponse c secret (ComputeCHAPResponse (chap_ID c) secret (chap_Challenge c))"
  using chap_verify_accepts VerifyResponse_iff by blast

end
