(* ===== verification/Login.thy ===== *)
theory Login
  imports Pdu Chap
begin

unbundle bit_operations_syntax

text \<open>
  The login phase, \<^verbatim>\<open>internal/iscsi/login.go\<close>: the state machine that takes a connection from security negotiation through
  operational negotiation to the full feature phase. \<open>rnd\<close> are the outcomes of the two random reads for the CHAP
  challenge (a login draws at most one challenge), \<open>ord\<close> is the iteration order of Go maps.
\<close>

section \<open>State\<close>

definition StageSecurityNegotiation :: int where "StageSecurityNegotiation = 0"
definition StageOperationalNegotiation :: int where "StageOperationalNegotiation = 1"
definition StageFullFeaturePhase :: int where "StageFullFeaturePhase = 3"

definition LoginStatusSuccess :: u8 where "LoginStatusSuccess = 0x00"
definition LoginStatusInitiatorError :: u8 where "LoginStatusInitiatorError = 0x02"
definition LoginDetailSuccess :: u8 where "LoginDetailSuccess = 0x00"
definition LoginDetailAuthFailure :: u8 where "LoginDetailAuthFailure = 0x01"
definition LoginDetailInvalidDuringLogin :: u8 where "LoginDetailInvalidDuringLogin = 0x0F"

record LoginAuthConfig =
  la_Enabled :: bool
  la_CHAPUser :: string
  la_CHAPSecret :: string

record loginHandler =
  lh_conn :: net_conn
  lh_authConfig :: LoginAuthConfig
  lh_targetName :: string
  lh_currentStage :: int
  lh_negotiated :: Params
  lh_chapChallenge :: "CHAPChallenge option"
  lh_isid :: bytes
  lh_cmdSN :: u32
  lh_statSN :: u32

definition newLoginHandler :: "net_conn \<Rightarrow> LoginAuthConfig \<Rightarrow> string \<Rightarrow> u32 \<Rightarrow> loginHandler" where
  "newLoginHandler conn auth targetName statSN =
     \<lparr>lh_conn = conn, lh_authConfig = auth, lh_targetName = targetName, lh_currentStage = StageSecurityNegotiation,
      lh_negotiated = DefaultTargetParams, lh_chapChallenge = None, lh_isid = zeros 6, lh_cmdSN = 0, lh_statSN = statSN\<rparr>"

section \<open>Responses\<close>

text \<open>The header of a login response; \<open>statSN\<close> and \<open>cmdSN\<close> are the handler's, after the increment.\<close>

definition loginResponsePDU :: "PDU \<Rightarrow> u8 \<Rightarrow> u8 \<Rightarrow> u8 \<Rightarrow> u32 \<Rightarrow> u32 \<Rightarrow> bytes \<Rightarrow> PDU" where
  "loginResponsePDU req statusClass statusDetail flags statSN cmdSN seg =
     (let rsp = newPDU;
          rsp = bhs_put 0 [OpcodeLoginRsp] rsp;
          rsp = bhs_put 1 [flags] rsp;
          rsp = bhs_put 2 [0x00, 0x00] rsp;
          rsp = bhs_put 8 (bslice 8 14 (BHS req)) rsp;
          rsp = bhs_put 14 (bslice 14 16 (BHS req)) rsp;
          rsp = bhs_put 14 [0x00, 0x01] rsp;
          rsp = bhs_put 16 (bslice 16 20 (BHS req)) rsp;
          rsp = SetStatSN statSN rsp;
          rsp = SetExpCmdSN (cmdSN + 1) rsp;
          rsp = SetMaxCmdSN (cmdSN + 32) rsp;
          rsp = bhs_put 36 [statusClass, statusDetail] rsp
      in rsp\<lparr>DataSegment := seg\<rparr>)"

definition sendLoginResponse ::
    "kv_order \<Rightarrow> loginHandler \<Rightarrow> PDU \<Rightarrow> u8 \<Rightarrow> u8 \<Rightarrow> int \<Rightarrow> int \<Rightarrow> bool \<Rightarrow> kv_map \<Rightarrow> unit result \<times> loginHandler" where
  "sendLoginResponse ord h req statusClass statusDetail csg nsg transitBit kvOut =
     (let flags = of_int (csg * 4) OR of_int nsg OR (if transitBit then 0x80 else 0);
          stage = (if transitBit then
                     if nsg = StageFullFeaturePhase then StageFullFeaturePhase
                     else if csg = StageSecurityNegotiation \<and> nsg = StageOperationalNegotiation then StageOperationalNegotiation
                     else lh_currentStage h
                   else lh_currentStage h);
          h1 = h\<lparr>lh_currentStage := stage, lh_statSN := lh_statSN h + 1\<rparr>;
          seg = (if length kvOut > 0 then SerializeKeyValuePairs ord kvOut else [])
      in case WritePDU (lh_conn h1) (loginResponsePDU req statusClass statusDetail flags (lh_statSN h1) (lh_cmdSN h1) seg) of
           (r, c) \<Rightarrow> (r, h1\<lparr>lh_conn := c\<rparr>))"

definition sendLoginError :: "kv_order \<Rightarrow> loginHandler \<Rightarrow> PDU \<Rightarrow> u8 \<Rightarrow> u8 \<Rightarrow> unit result \<times> loginHandler" where
  "sendLoginError ord h req statusClass statusDetail =
     sendLoginResponse ord h req statusClass statusDetail (lh_currentStage h) (lh_currentStage h) False []"

section \<open>Stages\<close>

text \<open>The name of the initiator, remembered by both branches of the security stage.\<close>

definition rememberInitiator :: "kv_map \<Rightarrow> loginHandler \<Rightarrow> loginHandler" where
  "rememberInitiator kvIn h =
     (case map_of kvIn ''InitiatorName'' of
        None \<Rightarrow> h
      | Some initName \<Rightarrow> h\<lparr>lh_negotiated := (lh_negotiated h)\<lparr>InitiatorName := initName\<rparr>\<rparr>)"

definition handleSecurityStage ::
    "kv_order \<Rightarrow> bytes result \<times> bytes result \<Rightarrow> loginHandler \<Rightarrow> PDU \<Rightarrow> kv_map \<Rightarrow> bool \<Rightarrow> int \<Rightarrow> unit result \<times> loginHandler" where
  "handleSecurityStage ord rnd h req kvIn transitBit nsg =
     (if \<not> la_Enabled (lh_authConfig h) then
        let kvOut = [(''TargetName'', lh_targetName h)];
            h1 = rememberInitiator kvIn h;
            kvOut = (if map_of kvIn ''AuthMethod'' \<noteq> None then AList.update ''AuthMethod'' ''None'' kvOut else kvOut);
            nextStage = (if transitBit \<and> nsg = StageFullFeaturePhase then StageFullFeaturePhase else StageOperationalNegotiation)
        in sendLoginResponse ord h1 req LoginStatusSuccess LoginDetailSuccess StageSecurityNegotiation nextStage transitBit kvOut
      else
        case lh_chapChallenge h of
          None \<Rightarrow>
            (case NewCHAPChallenge (fst rnd) (snd rnd) of
               Inl err \<Rightarrow> (Inl (Wrap ''generating CHAP challenge'' err), h)
             | Inr chap \<Rightarrow>
                 let h1 = rememberInitiator kvIn (h\<lparr>lh_chapChallenge := Some chap\<rparr>);
                     kvOut = [(''AuthMethod'', ''CHAP''), (''CHAP_A'', ''5''),
                              (''CHAP_I'', strconv_Itoa (uint (chap_ID chap))), (''CHAP_C'', ChallengeHex chap)]
                 in sendLoginResponse ord h1 req LoginStatusSuccess LoginDetailSuccess
                      StageSecurityNegotiation StageSecurityNegotiation False kvOut)
        | Some chap \<Rightarrow>
            if \<not> VerifyResponse chap (la_CHAPSecret (lh_authConfig h)) (cp_Response (ParseCHAPParams kvIn))
            then sendLoginError ord h req LoginStatusInitiatorError LoginDetailAuthFailure
            else sendLoginResponse ord h req LoginStatusSuccess LoginDetailSuccess
                   StageSecurityNegotiation StageOperationalNegotiation True [(''TargetName'', lh_targetName h)])"

definition handleOperationalStage ::
    "kv_order \<Rightarrow> loginHandler \<Rightarrow> PDU \<Rightarrow> kv_map \<Rightarrow> bool \<Rightarrow> int \<Rightarrow> unit result \<times> loginHandler" where
  "handleOperationalStage ord h req kvIn transitBit nsg =
     (case NegotiateParams ord kvIn (lh_negotiated h) of
        (rspKV, neg) \<Rightarrow>
          let h1 = h\<lparr>lh_negotiated := neg\<rparr>;
              rspKV = AList.update ''TargetName'' (lh_targetName h1) rspKV;
              nextStage = (if transitBit then nsg else StageOperationalNegotiation);
              h2 = (if transitBit \<and> nextStage = StageFullFeaturePhase then h1\<lparr>lh_currentStage := StageFullFeaturePhase\<rparr> else h1)
          in sendLoginResponse ord h2 req LoginStatusSuccess LoginDetailSuccess StageOperationalNegotiation nextStage transitBit rspKV)"

definition handleLoginPDU ::
    "kv_order \<Rightarrow> bytes result \<times> bytes result \<Rightarrow> loginHandler \<Rightarrow> PDU \<Rightarrow> unit result \<times> loginHandler" where
  "handleLoginPDU ord rnd h req =
     (let flags = BHS req ! 1;
          transitBit = (flags AND 0x80 \<noteq> 0);
          csg = uint (drop_bit 2 flags AND 0x03);
          nsg = uint (flags AND 0x03);
          kvIn = (if length (DataSegment req) > 0 then ParseKeyValuePairs (DataSegment req) else []);
          h1 = h\<lparr>lh_cmdSN := CmdSN req, lh_isid := bslice 8 14 (BHS req)\<rparr>
      in if csg = StageSecurityNegotiation then handleSecurityStage ord rnd h1 req kvIn transitBit nsg
         else if csg = StageOperationalNegotiation then handleOperationalStage ord h1 req kvIn transitBit nsg
         else sendLoginError ord h1 req LoginStatusInitiatorError LoginDetailInvalidDuringLogin)"

section \<open>The login loop\<close>

text \<open>
  Responses leave the incoming stream alone, and every round of the loop takes one PDU off it; so the loop ends.
\<close>

lemma WritePDU_in: "WritePDU c p = (r, c') \<Longrightarrow> c_in c' = c_in c"
  by (auto simp: WritePDU_def writeDataSegment_def Let_def dest!: conn_Write_in split: if_splits prod.splits sum.splits)

lemma sendLoginResponse_in: "sendLoginResponse ord h req sc sd csg nsg t kv = (r, h') \<Longrightarrow> c_in (lh_conn h') = c_in (lh_conn h)"
  by (auto simp: sendLoginResponse_def Let_def dest!: WritePDU_in split: prod.splits)

lemma rememberInitiator_conn [simp]: "lh_conn (rememberInitiator kv h) = lh_conn h"
  by (simp add: rememberInitiator_def split: option.split)

lemma handleLoginPDU_in: "handleLoginPDU ord rnd h req = (r, h') \<Longrightarrow> c_in (lh_conn h') = c_in (lh_conn h)"
  unfolding handleLoginPDU_def handleSecurityStage_def handleOperationalStage_def sendLoginError_def Let_def
  by (auto dest!: sendLoginResponse_in split: if_splits option.splits sum.splits prod.splits)

function login_Run :: "kv_order \<Rightarrow> bytes result \<times> bytes result \<Rightarrow> loginHandler \<Rightarrow> (Params \<times> u32) result \<times> loginHandler" where
  "login_Run ord rnd h =
     (if lh_currentStage h \<noteq> StageFullFeaturePhase then
        (case ReadPDU (lh_conn h) of
           (Inl err, c) \<Rightarrow> (Inl (Wrap ''reading login PDU'' err), h\<lparr>lh_conn := c\<rparr>)
         | (Inr pdu, c) \<Rightarrow>
             let h1 = h\<lparr>lh_conn := c\<rparr> in
             if Opcode pdu \<noteq> OpcodeLoginReq then (Inl (Errorf ''expected Login Request''), h1)
             else
               (case handleLoginPDU ord rnd h1 pdu of
                  (Inl err, h2) \<Rightarrow> (Inl err, h2)
                | (Inr _, h2) \<Rightarrow> login_Run ord rnd h2))
      else (Inr (lh_negotiated h, lh_cmdSN h), h))"
  by pat_completeness auto
termination
  by (relation "measure (\<lambda>(ord, rnd, h). length (c_in (lh_conn h)))")
    (auto dest!: ReadPDU_shrinks [OF sym] handleLoginPDU_in [OF sym])

declare login_Run.simps [simp del]


section \<open>Single steps\<close>

definition pdu_csg :: "PDU \<Rightarrow> int" where
  "pdu_csg p = uint (drop_bit 2 (BHS p ! 1) AND 0x03)"

definition pdu_text :: "PDU \<Rightarrow> kv_map" where
  "pdu_text p = (if DataSegment p = [] then [] else ParseKeyValuePairs (DataSegment p))"

text \<open>A connection without write faults takes every PDU.\<close>

lemma WritePDU_no_faults: "c_script c = [] \<Longrightarrow> \<exists>out. WritePDU c p = (Inr (), c\<lparr>c_out := out\<rparr>)"
proof -
  assume s: "c_script c = []"
  have w: "c_script c' = [] \<Longrightarrow> conn_Write c' b = (Inr (), c'\<lparr>c_out := c_out c' @ b\<rparr>)" for c' b
    by (simp add: conn_Write_def)
  show ?thesis using s by (auto simp: WritePDU_def writeDataSegment_def Let_def w)
qed

lemma sendLoginResponse_no_faults:
  assumes "c_script (lh_conn h) = []"
  shows "\<exists>h'. sendLoginResponse ord h req sc sd csg nsg t kv = (Inr (), h') \<and> c_script (lh_conn h') = [] \<and>
    c_in (lh_conn h') = c_in (lh_conn h) \<and> lh_authConfig h' = lh_authConfig h \<and> lh_targetName h' = lh_targetName h \<and>
    lh_negotiated h' = lh_negotiated h \<and> lh_chapChallenge h' = lh_chapChallenge h \<and>
    lh_cmdSN h' = lh_cmdSN h \<and> lh_isid h' = lh_isid h \<and> lh_statSN h' = lh_statSN h + 1 \<and>
    lh_currentStage h' =
      (if t \<and> nsg = StageFullFeaturePhase then StageFullFeaturePhase
       else if t \<and> csg = StageSecurityNegotiation \<and> nsg = StageOperationalNegotiation then StageOperationalNegotiation
       else lh_currentStage h)"
proof -
  obtain out where "WritePDU (lh_conn h) p = (Inr (), (lh_conn h)\<lparr>c_out := out p\<rparr>)" for p
    using WritePDU_no_faults [OF assms] by metis
  then show ?thesis using assms by (auto simp: sendLoginResponse_def Let_def)
qed

lemma rememberInitiator_fields [simp]:
  "lh_authConfig (rememberInitiator kv h) = lh_authConfig h" "lh_chapChallenge (rememberInitiator kv h) = lh_chapChallenge h"
  "lh_currentStage (rememberInitiator kv h) = lh_currentStage h" "lh_targetName (rememberInitiator kv h) = lh_targetName h"
  "lh_statSN (rememberInitiator kv h) = lh_statSN h"
  by (simp_all add: rememberInitiator_def split: option.split)

text \<open>The effect of a response on the sequence number and the stage, faults or not.\<close>

lemma sendLoginResponse_state:
  "sendLoginResponse ord h req sc sd csg nsg t kv = (r, h') \<Longrightarrow>
     lh_statSN h' = lh_statSN h + 1 \<and>
     lh_currentStage h' =
      (if t \<and> nsg = StageFullFeaturePhase then StageFullFeaturePhase
       else if t \<and> csg = StageSecurityNegotiation \<and> nsg = StageOperationalNegotiation then StageOperationalNegotiation
       else lh_currentStage h)"
  by (auto simp: sendLoginResponse_def Let_def split: prod.splits)

lemma handleLoginPDU_count:
  "handleLoginPDU ord rnd h req = (r, h') \<Longrightarrow> \<exists>k \<le> 1. lh_statSN h' = lh_statSN h + of_nat k"
  unfolding handleLoginPDU_def handleSecurityStage_def handleOperationalStage_def sendLoginError_def Let_def
  by (auto dest!: sendLoginResponse_state intro: exI [of _ 0] exI [of _ 1] split: if_splits option.splits sum.splits prod.splits)

text \<open>One round of the loop on a stream that starts with a login request.\<close>

lemma login_Run_step:
  assumes "pdu_wf p" and "Opcode (pdu_sent p) = OpcodeLoginReq" and "lh_currentStage h \<noteq> StageFullFeaturePhase"
    and "c_in (lh_conn h) = pdu_wire p @ rest"
    and "handleLoginPDU ord rnd (h\<lparr>lh_conn := (lh_conn h)\<lparr>c_in := rest\<rparr>\<rparr>) (pdu_sent p) = (Inr x, h')"
  shows "login_Run ord rnd h = login_Run ord rnd h'"
proof -
  have "ReadPDU ((lh_conn h)\<lparr>c_in := pdu_wire p @ rest\<rparr>) = (Inr (pdu_sent p), (lh_conn h)\<lparr>c_in := rest\<rparr>)"
    by (rule ReadPDU_wire [OF assms(1)])
  moreover have "(lh_conn h)\<lparr>c_in := pdu_wire p @ rest\<rparr> = lh_conn h" using assms(4) by simp
  ultimately show ?thesis using assms by (subst login_Run.simps) (simp add: Let_def)
qed

lemma BHS_sent_nth: "length (BHS p) = BHSSize \<Longrightarrow> i < 5 \<Longrightarrow> BHS (pdu_sent p) ! i = BHS p ! i"
  by (simp add: pdu_sent_def SetDataSegmentLength_def bhs_put_def blit_def nth_append)

lemma pdu_sent_same [simp]:
  assumes "length (BHS p) = BHSSize"
  shows "Opcode (pdu_sent p) = Opcode p" "pdu_csg (pdu_sent p) = pdu_csg p" "pdu_text (pdu_sent p) = pdu_text p"
  using assms BHS_sent_nth [of p] by (simp_all add: Opcode_def pdu_csg_def pdu_text_def)

lemma handleLoginPDU_csg:
  "handleLoginPDU ord rnd h req =
     (let t = (BHS req ! 1 AND 0x80 \<noteq> 0); nsg = uint (BHS req ! 1 AND 0x03);
          h1 = h\<lparr>lh_cmdSN := CmdSN req, lh_isid := bslice 8 14 (BHS req)\<rparr>
      in if pdu_csg req = 0 then handleSecurityStage ord rnd h1 req (pdu_text req) t nsg
         else if pdu_csg req = 1 then handleOperationalStage ord h1 req (pdu_text req) t nsg
         else sendLoginError ord h1 req LoginStatusInitiatorError LoginDetailInvalidDuringLogin)"
  by (simp add: handleLoginPDU_def pdu_csg_def pdu_text_def Let_def StageSecurityNegotiation_def StageOperationalNegotiation_def)


text \<open>What the steps of a login do when the connection has no write faults: challenge, verification, operational stage.\<close>

definition quiet :: "loginHandler \<Rightarrow> loginHandler \<Rightarrow> bool" where
  "quiet h h' \<longleftrightarrow> c_script (lh_conn h') = [] \<and> c_in (lh_conn h') = c_in (lh_conn h) \<and> lh_authConfig h' = lh_authConfig h"

lemma step_challenge:
  assumes "c_script (lh_conn h) = []" and "la_Enabled (lh_authConfig h)" and "lh_chapChallenge h = None" and "pdu_csg req = 0"
  shows "\<exists>h'. handleLoginPDU ord (Inr [i], Inr ch) h req = (Inr (), h') \<and> quiet h h' \<and>
    lh_chapChallenge h' = Some \<lparr>chap_ID = i, chap_Challenge = ch\<rparr> \<and> lh_currentStage h' = lh_currentStage h"
proof -
  let ?h = "rememberInitiator (pdu_text req) (h\<lparr>lh_cmdSN := CmdSN req, lh_isid := bslice 8 14 (BHS req),
      lh_chapChallenge := Some \<lparr>chap_ID = i, chap_Challenge = ch\<rparr>\<rparr>)"
  have "c_script (lh_conn ?h) = []" using assms(1) by simp
  from sendLoginResponse_no_faults [OF this] show ?thesis
    using assms by (fastforce simp: handleLoginPDU_csg handleSecurityStage_def NewCHAPChallenge_def Let_def quiet_def)
qed

lemma step_verified:
  assumes "c_script (lh_conn h) = []" and "la_Enabled (lh_authConfig h)" and "lh_chapChallenge h = Some chap" and "pdu_csg req = 0"
    and "VerifyResponse chap (la_CHAPSecret (lh_authConfig h)) (kv_get (pdu_text req) ''CHAP_R'')"
  shows "\<exists>h'. handleLoginPDU ord rnd h req = (Inr (), h') \<and> quiet h h' \<and> lh_currentStage h' = StageOperationalNegotiation"
proof -
  let ?h = "h\<lparr>lh_cmdSN := CmdSN req, lh_isid := bslice 8 14 (BHS req)\<rparr>"
  have "c_script (lh_conn ?h) = []" using assms(1) by simp
  from sendLoginResponse_no_faults [OF this] show ?thesis
    using assms by (fastforce simp: handleLoginPDU_csg handleSecurityStage_def ParseCHAPParams_def Let_def quiet_def
        StageOperationalNegotiation_def StageFullFeaturePhase_def)
qed

lemma step_rejected:
  assumes "c_script (lh_conn h) = []" and "la_Enabled (lh_authConfig h)" and "lh_chapChallenge h = Some chap" and "pdu_csg req = 0"
    and "\<not> VerifyResponse chap (la_CHAPSecret (lh_authConfig h)) (kv_get (pdu_text req) ''CHAP_R'')"
  shows "\<exists>h'. handleLoginPDU ord rnd h req = (Inr (), h') \<and> quiet h h' \<and> lh_currentStage h' = lh_currentStage h \<and>
    lh_chapChallenge h' = Some chap"
proof -
  let ?h = "h\<lparr>lh_cmdSN := CmdSN req, lh_isid := bslice 8 14 (BHS req)\<rparr>"
  have "c_script (lh_conn ?h) = []" using assms(1) by simp
  from sendLoginResponse_no_faults [OF this] show ?thesis
    using assms by (fastforce simp: handleLoginPDU_csg handleSecurityStage_def sendLoginError_def ParseCHAPParams_def Let_def quiet_def)
qed

lemma step_operational:
  assumes "c_script (lh_conn h) = []" and "BHS req ! 1 = 0x87"
  shows "\<exists>h'. handleLoginPDU ord rnd h req = (Inr (), h') \<and> quiet h h' \<and> lh_currentStage h' = StageFullFeaturePhase \<and>
    lh_chapChallenge h' = lh_chapChallenge h \<and> lh_cmdSN h' = CmdSN req \<and>
    lh_negotiated h' = snd (NegotiateParams ord (pdu_text req) (lh_negotiated h))"
proof -
  have flags: "pdu_csg req = 1" "BHS req ! 1 AND 0x80 \<noteq> 0" "uint (BHS req ! 1 AND 0x03) = StageFullFeaturePhase"
    using assms(2) by (simp_all add: pdu_csg_def StageFullFeaturePhase_def)
  obtain rsp neg where n: "NegotiateParams ord (pdu_text req) (lh_negotiated h) = (rsp, neg)"
    by (cases "NegotiateParams ord (pdu_text req) (lh_negotiated h)")
  let ?h = "h\<lparr>lh_cmdSN := CmdSN req, lh_isid := bslice 8 14 (BHS req), lh_negotiated := neg, lh_currentStage := StageFullFeaturePhase\<rparr>"
  have "c_script (lh_conn ?h) = []" using assms(1) by simp
  from sendLoginResponse_no_faults [OF this] show ?thesis
    using flags n by (fastforce simp: handleLoginPDU_csg handleOperationalStage_def Let_def quiet_def)
qed

lemma login_Run_done: "lh_currentStage h = StageFullFeaturePhase \<Longrightarrow> login_Run ord rnd h = (Inr (lh_negotiated h, lh_cmdSN h), h)"
  by (subst login_Run.simps) simp

lemma CmdSN_sent: "length (BHS p) = BHSSize \<Longrightarrow> CmdSN (pdu_sent p) = CmdSN p"
  by (simp add: CmdSN_def pdu_sent_def SetDataSegmentLength_def bhs_put_def blit_def bslice_def)

lemma stages_differ [simp]: "StageSecurityNegotiation \<noteq> StageFullFeaturePhase" "StageOperationalNegotiation \<noteq> StageFullFeaturePhase"
  "StageOperationalNegotiation \<noteq> StageSecurityNegotiation"
  by (simp_all add: StageSecurityNegotiation_def StageOperationalNegotiation_def StageFullFeaturePhase_def)

text \<open>The shortest login: one request, in the operational stage, for the full feature phase.\<close>

lemma login_one_step:
  assumes "c_script conn = []" and "pdu_wf p" and "Opcode p = OpcodeLoginReq" and "BHS p ! 1 = 0x87" and "c_in conn = pdu_wire p @ rest"
  shows "\<exists>h. login_Run ord rnd (newLoginHandler conn auth name sn) = (Inr (lh_negotiated h, CmdSN p), h) \<and> lh_chapChallenge h = None \<and>
    c_script (lh_conn h) = [] \<and> c_in (lh_conn h) = rest \<and>
    lh_negotiated h = snd (NegotiateParams ord (pdu_text p) DefaultTargetParams)"
proof -
  have len: "length (BHS p) = BHSSize" using assms(2) by (simp add: pdu_wf_def)
  let ?h0 = "newLoginHandler conn auth name sn"
  obtain h1 where h1: "handleLoginPDU ord rnd (?h0\<lparr>lh_conn := (lh_conn ?h0)\<lparr>c_in := rest\<rparr>\<rparr>) (pdu_sent p) = (Inr (), h1)"
    "quiet (?h0\<lparr>lh_conn := (lh_conn ?h0)\<lparr>c_in := rest\<rparr>\<rparr>) h1"
    "lh_currentStage h1 = StageFullFeaturePhase" "lh_chapChallenge h1 = None" "lh_cmdSN h1 = CmdSN (pdu_sent p)"
    "lh_negotiated h1 = snd (NegotiateParams ord (pdu_text (pdu_sent p)) DefaultTargetParams)"
    using step_operational [of "?h0\<lparr>lh_conn := (lh_conn ?h0)\<lparr>c_in := rest\<rparr>\<rparr>" "pdu_sent p" ord rnd] assms(1,4) BHS_sent_nth [OF len, of 1]
    by (auto simp: newLoginHandler_def)
  have "login_Run ord rnd ?h0 = login_Run ord rnd h1"
    by (rule login_Run_step [OF assms(2)]) (use h1 assms len in \<open>auto simp: newLoginHandler_def\<close>)
  then show ?thesis using login_Run_done [OF h1(3)] h1 len CmdSN_sent [OF len] by (auto simp: quiet_def)
qed

text \<open>Login requests for the concrete runs below.\<close>

definition login_req :: "u8 \<Rightarrow> kv_map \<Rightarrow> PDU" where
  "login_req flags kv = newPDU\<lparr>BHS := [0x43, flags] @ zeros 46, DataSegment := SerializeKeyValuePairs (\<lambda>x. x) kv\<rparr>"

lemma hex_no_zero: "CHR 0x00 \<notin> set (hex_EncodeToString bs)"
proof (induction bs)
  case (Cons b bs)
  have "hex_digit n \<noteq> CHR 0x00" for n
  proof
    assume "hex_digit n = CHR 0x00"
    then have "from_hex_char (CHR 0x00) = Some (take_bit 4 n)" using from_hex_digit [of n] by simp
    then show False by (simp add: from_hex_char_def)
  qed
  then have "CHR 0x00 \<noteq> hex_digit n" for n by metis
  then show ?case using Cons by (simp add: hex_EncodeToString_def)
qed (simp add: hex_EncodeToString_def)

lemma login_req_fields [simp]:
  "length (BHS (login_req f kv)) = BHSSize" "BHS (login_req f kv) ! 1 = f" "BHS (login_req f kv) ! Suc 0 = f" "BHS (login_req f kv) ! 4 = 0"
  "AHS (login_req f kv) = []" "DataSegment (login_req f kv) = SerializeKeyValuePairs (\<lambda>x. x) kv"
  "Opcode (login_req f kv) = OpcodeLoginReq" "pdu_csg (login_req f kv) = uint (drop_bit 2 f AND 0x03)"
  by (simp_all add: login_req_def newPDU_def zeros_def Opcode_def OpcodeLoginReq_def pdu_csg_def nth_append)

lemma login_req_text: "kv_clean (k, v) \<Longrightarrow> pdu_text (login_req f [(k, v)]) = [(k, v)]"
  using parse_serialize_fold [of "[(k, v)]" "[]"]
  by (simp add: pdu_text_def ParseKeyValuePairs_def) (simp add: SerializeKeyValuePairs_def)

section \<open>Properties\<close>

text \<open>
  C22: an initiator that knows the secret gets in. With authentication enabled, a stream of three login requests (security
  stage; security stage with the right answer to the challenge; operational stage asking for the full feature phase) ends the
  login successfully, with the command number of the last request and nothing read beyond it.
\<close>

theorem login_chap_succeeds:
  assumes "la_Enabled auth" and "c_script conn = []"
    and "pdu_wf p1" and "pdu_wf p2" and "pdu_wf p3"
    and "Opcode p1 = OpcodeLoginReq" and "Opcode p2 = OpcodeLoginReq" and "Opcode p3 = OpcodeLoginReq"
    and "pdu_csg p1 = 0" and "pdu_csg p2 = 0" and "BHS p3 ! 1 = 0x87"
    and "kv_get (pdu_text p2) ''CHAP_R'' = ComputeCHAPResponse i (la_CHAPSecret auth) ch"
    and "c_in conn = pdu_wire p1 @ pdu_wire p2 @ pdu_wire p3 @ rest"
  shows "\<exists>params h'. login_Run ord (Inr [i], Inr ch) (newLoginHandler conn auth name sn) = (Inr (params, CmdSN p3), h') \<and>
    c_in (lh_conn h') = rest"
proof -
  have len: "length (BHS p1) = BHSSize" "length (BHS p2) = BHSSize" "length (BHS p3) = BHSSize" using assms by (auto simp: pdu_wf_def)
  let ?rnd = "(Inr [i], Inr ch)" and ?h0 = "newLoginHandler conn auth name sn"
  let ?in = "\<lambda>h xs. h\<lparr>lh_conn := (lh_conn h)\<lparr>c_in := xs\<rparr>\<rparr>"
  obtain h1 where h1: "handleLoginPDU ord ?rnd (?in ?h0 (pdu_wire p2 @ pdu_wire p3 @ rest)) (pdu_sent p1) = (Inr (), h1)"
    "quiet (?in ?h0 (pdu_wire p2 @ pdu_wire p3 @ rest)) h1" "lh_chapChallenge h1 = Some \<lparr>chap_ID = i, chap_Challenge = ch\<rparr>"
    "lh_currentStage h1 = StageSecurityNegotiation"
    using step_challenge [of "?in ?h0 (pdu_wire p2 @ pdu_wire p3 @ rest)" "pdu_sent p1" ord i ch] assms len
    by (auto simp: newLoginHandler_def)
  obtain h2 where h2: "handleLoginPDU ord ?rnd (?in h1 (pdu_wire p3 @ rest)) (pdu_sent p2) = (Inr (), h2)"
    "quiet (?in h1 (pdu_wire p3 @ rest)) h2" "lh_currentStage h2 = StageOperationalNegotiation"
    using step_verified [of "?in h1 (pdu_wire p3 @ rest)" _ "pdu_sent p2" ord ?rnd] assms len h1 chap_verify_accepts [of "\<lparr>chap_ID = i, chap_Challenge = ch\<rparr>"]
    by (auto simp: quiet_def newLoginHandler_def)
  obtain h3 where h3: "handleLoginPDU ord ?rnd (?in h2 rest) (pdu_sent p3) = (Inr (), h3)"
    "quiet (?in h2 rest) h3" "lh_currentStage h3 = StageFullFeaturePhase" "lh_cmdSN h3 = CmdSN p3"
    using step_operational [of "?in h2 rest" "pdu_sent p3" ord ?rnd] assms(11) len h2 BHS_sent_nth [of p3 1] CmdSN_sent
    by (auto simp: quiet_def)
  have "login_Run ord ?rnd ?h0 = login_Run ord ?rnd h1"
    by (rule login_Run_step [OF assms(3)]) (use h1 assms len in \<open>auto simp: newLoginHandler_def\<close>)
  also have "\<dots> = login_Run ord ?rnd h2"
    by (rule login_Run_step [OF assms(4)]) (use h1 h2 assms len in \<open>auto simp: quiet_def newLoginHandler_def\<close>)
  also have "\<dots> = login_Run ord ?rnd h3"
    by (rule login_Run_step [OF assms(5)]) (use h2 h3 assms len in \<open>auto simp: quiet_def newLoginHandler_def\<close>)
  also have "\<dots> = (Inr (lh_negotiated h3, lh_cmdSN h3), h3)" by (rule login_Run_done [OF h3(3)])
  finally show ?thesis using h3 by (auto simp: quiet_def)
qed


theorem login_chap_succeeds_witness:
  "\<exists>params h'. login_Run (\<lambda>x. x) (Inr [7], Inr (replicate 16 5))
     (newLoginHandler \<lparr>c_in = pdu_wire (login_req 0 []) @
          pdu_wire (login_req 0 [(''CHAP_R'', ComputeCHAPResponse 7 ''secret'' (replicate 16 5))]) @ pdu_wire (login_req 0x87 []) @ [],
        c_out = [], c_script = []\<rparr> \<lparr>la_Enabled = True, la_CHAPUser = ''user'', la_CHAPSecret = ''secret''\<rparr> ''iqn'' 0) =
     (Inr (params, CmdSN (login_req 0x87 [])), h')"
proof -
  let ?r = "ComputeCHAPResponse 7 ''secret'' (replicate 16 5)"
  have clean: "kv_clean (''CHAP_R'', ?r)"
    using hex_no_zero by (simp add: kv_clean_def ComputeCHAPResponse_def computeCHAPResponse_def)
  have len: "length ?r = 34" by (simp add: ComputeCHAPResponse_def computeCHAPResponse_def)
  have wf: "pdu_wf (login_req f [])" "pdu_wf (login_req f [(''CHAP_R'', ?r)])" for f
    using len by (simp_all add: pdu_wf_def SerializeKeyValuePairs_def)
  show ?thesis
    using login_chap_succeeds [where auth = "\<lparr>la_Enabled = True, la_CHAPUser = ''user'', la_CHAPSecret = ''secret''\<rparr>"
        and conn = "\<lparr>c_in = pdu_wire (login_req 0 []) @ pdu_wire (login_req 0 [(''CHAP_R'', ?r)]) @ pdu_wire (login_req 0x87 []) @ [],
          c_out = [], c_script = []\<rparr>" and ?p1.0 = "login_req 0 []" and ?p2.0 = "login_req 0 [(''CHAP_R'', ?r)]"
        and ?p3.0 = "login_req 0x87 []" and i = 7 and ch = "replicate 16 5" and rest = "[]" and ord = "\<lambda>x. x" and name = "''iqn''" and sn = 0]
      wf login_req_text [OF clean] by (auto simp: kv_get_def)
qed

text \<open>
  C21: in the security stage authentication is enforced. With authentication enabled, a request that declares the security stage
  moves the login on only if a challenge was sent before and the request carries the MD5 digest of identifier, secret and
  that challenge; it then moves to the operational stage, never straight to the full feature phase.
\<close>

theorem login_security_gate:
  assumes "la_Enabled (lh_authConfig h)" and "lh_currentStage h = StageSecurityNegotiation" and "pdu_csg req = 0"
    and "handleLoginPDU ord rnd h req = (r, h')" and "lh_currentStage h' \<noteq> StageSecurityNegotiation"
  shows "lh_currentStage h' = StageOperationalNegotiation \<and>
    (\<exists>chap. lh_chapChallenge h = Some chap \<and>
       response_bytes (kv_get (pdu_text req) ''CHAP_R'') =
         Some (md5_Sum (chap_ID chap # str_bytes (la_CHAPSecret (lh_authConfig h)) @ chap_Challenge chap)))"
proof (cases "lh_chapChallenge h")
  case None
  then show ?thesis
    using assms by (auto simp: handleLoginPDU_csg handleSecurityStage_def Let_def dest!: sendLoginResponse_state split: sum.splits)
next
  case (Some chap)
  have "VerifyResponse chap (la_CHAPSecret (lh_authConfig h)) (kv_get (pdu_text req) ''CHAP_R'')"
    using assms Some by (auto simp: handleLoginPDU_csg handleSecurityStage_def sendLoginError_def ParseCHAPParams_def Let_def
        dest!: sendLoginResponse_state split: if_splits)
  moreover have "lh_currentStage h' = StageOperationalNegotiation"
    using assms Some by (auto simp: handleLoginPDU_csg handleSecurityStage_def sendLoginError_def Let_def
        dest!: sendLoginResponse_state split: if_splits)
  ultimately show ?thesis using Some VerifyResponse_iff by auto
qed

theorem login_security_gate_witness:
  "\<exists>chap. lh_chapChallenge ((newLoginHandler \<lparr>c_in = [], c_out = [], c_script = []\<rparr>
       \<lparr>la_Enabled = True, la_CHAPUser = ''user'', la_CHAPSecret = ''secret''\<rparr> ''iqn'' 0)
       \<lparr>lh_chapChallenge := Some \<lparr>chap_ID = 7, chap_Challenge = replicate 16 5\<rparr>\<rparr>) = Some chap \<and>
     response_bytes (ComputeCHAPResponse 7 ''secret'' (replicate 16 5)) = Some (md5_Sum (7 # str_bytes ''secret'' @ chap_Challenge chap))"
proof -
  let ?r = "ComputeCHAPResponse 7 ''secret'' (replicate 16 5)" and ?c = "\<lparr>chap_ID = 7, chap_Challenge = replicate 16 5\<rparr>"
  let ?h = "(newLoginHandler \<lparr>c_in = [], c_out = [], c_script = []\<rparr>
       \<lparr>la_Enabled = True, la_CHAPUser = ''user'', la_CHAPSecret = ''secret''\<rparr> ''iqn'' 0)\<lparr>lh_chapChallenge := Some ?c\<rparr>"
  have tx: "pdu_text (login_req 0 [(''CHAP_R'', ?r)]) = [(''CHAP_R'', ?r)]"
    using hex_no_zero by (intro login_req_text) (simp add: kv_clean_def ComputeCHAPResponse_def computeCHAPResponse_def)
  obtain h' where "handleLoginPDU (\<lambda>x. x) (Inr [], Inr []) ?h (login_req 0 [(''CHAP_R'', ?r)]) = (Inr (), h')"
    "lh_currentStage h' = StageOperationalNegotiation"
    using step_verified [of ?h ?c "login_req 0 [(''CHAP_R'', ?r)]" "\<lambda>x. x" "(Inr [], Inr [])"] tx chap_verify_accepts [of ?c "''secret''"]
    by (auto simp: newLoginHandler_def kv_get_def)
  from login_security_gate [OF _ _ _ this(1)] this(2) show ?thesis using tx by (auto simp: newLoginHandler_def kv_get_def)
qed

text \<open>
  C38: authentication can be skipped. The stage is taken from the request: with authentication enabled and any secret, one login
  request that declares the operational stage and asks for the full feature phase ends the login successfully, without a
  challenge having been sent.
\<close>

theorem login_chap_bypass:
  assumes "la_Enabled auth" and "c_script conn = []" and "pdu_wf p" and "Opcode p = OpcodeLoginReq" and "BHS p ! 1 = 0x87"
    and "c_in conn = pdu_wire p @ rest"
  shows "\<exists>params sn h'. login_Run ord rnd (newLoginHandler conn auth name 0) = (Inr (params, sn), h') \<and> lh_chapChallenge h' = None"
  using login_one_step [OF assms(2-6), of ord rnd auth name 0] by blast

theorem login_chap_bypass_witness:
  "\<exists>params sn h'. login_Run (\<lambda>x. x) (Inl (Errorf ''no entropy''), Inl (Errorf ''no entropy''))
     (newLoginHandler \<lparr>c_in = pdu_wire (login_req 0x87 []) @ [], c_out = [], c_script = []\<rparr>
        \<lparr>la_Enabled = True, la_CHAPUser = ''user'', la_CHAPSecret = ''secret''\<rparr> ''iqn'' 0) = (Inr (params, sn), h') \<and> lh_chapChallenge h' = None"
  by (rule login_chap_bypass [where p = "login_req 0x87 []" and rest = "[]"]) (simp_all add: pdu_wf_def SerializeKeyValuePairs_def)

text \<open>
  A wrong CHAP response is reported to the initiator but does not end the login: the handler goes on with the same challenge,
  so that any number of responses may be tried against it.
\<close>

theorem login_failure_keeps_challenge:
  assumes "c_script (lh_conn h) = []" and "la_Enabled (lh_authConfig h)" and "lh_chapChallenge h = Some chap" and "pdu_csg req = 0"
    and "\<not> VerifyResponse chap (la_CHAPSecret (lh_authConfig h)) (kv_get (pdu_text req) ''CHAP_R'')"
  shows "\<exists>h'. handleLoginPDU ord rnd h req = (Inr (), h') \<and> lh_currentStage h' = lh_currentStage h \<and> lh_chapChallenge h' = Some chap"
  using step_rejected [OF assms] by blast

theorem login_failure_keeps_challenge_witness:
  "\<exists>h'. handleLoginPDU (\<lambda>x. x) (Inr [], Inr []) ((newLoginHandler \<lparr>c_in = [], c_out = [], c_script = []\<rparr>
       \<lparr>la_Enabled = True, la_CHAPUser = ''user'', la_CHAPSecret = ''secret''\<rparr> ''iqn'' 0)\<lparr>lh_chapChallenge := Some \<lparr>chap_ID = 7, chap_Challenge = []\<rparr>\<rparr>)
       (login_req 0 []) = (Inr (), h') \<and> lh_chapChallenge h' = Some \<lparr>chap_ID = 7, chap_Challenge = []\<rparr>"
proof -
  let ?h = "(newLoginHandler \<lparr>c_in = [], c_out = [], c_script = []\<rparr>
       \<lparr>la_Enabled = True, la_CHAPUser = ''user'', la_CHAPSecret = ''secret''\<rparr> ''iqn'' 0)\<lparr>lh_chapChallenge := Some \<lparr>chap_ID = 7, chap_Challenge = []\<rparr>\<rparr>"
  have "[] \<noteq> md5_Sum m" for m by (metis length_md5 list.size(3) zero_neq_numeral)
  then have "\<not> VerifyResponse c s []" for c s by (simp add: VerifyResponse_iff response_bytes_def)
  moreover have "kv_get (pdu_text (login_req 0 [])) ''CHAP_R'' = []"
    by (simp add: kv_get_def pdu_text_def SerializeKeyValuePairs_def)
  ultimately show ?thesis
    using login_failure_keeps_challenge [of ?h "\<lparr>chap_ID = 7, chap_Challenge = []\<rparr>" "login_req 0 []" "\<lambda>x. x" "(Inr [], Inr [])"]
    by (auto simp: newLoginHandler_def)
qed



end
