(* ===== verification/DataTransfer.thy ===== *)
theory DataTransfer
  imports Pdu Params
begin

unbundle bit_operations_syntax

text \<open>
  Moving data between initiator and target: \<^verbatim>\<open>internal/iscsi/data_in.go\<close> cuts the result of a read into Data-In PDUs,
  \<^verbatim>\<open>internal/iscsi/data_out.go\<close> collects the data of a write from Data-Out PDUs. \<open>None\<close> is a Go panic.
\<close>

section \<open>Data-In (data\_in.go)\<close>

definition dataInPDU :: "u32 \<Rightarrow> u64 \<Rightarrow> bytes \<Rightarrow> bool \<Rightarrow> u32 \<Rightarrow> u32 \<Rightarrow> u32 \<Rightarrow> u32 \<Rightarrow> nat \<Rightarrow> PDU" where
  "dataInPDU itt lun chunk isFinal statSN expCmdSN maxCmdSN dataSN offset =
     (let pdu = SetOpcode OpcodeDataIn newPDU;
          pdu = SetFlags (if isFinal then 0x80 else 0) pdu;
          pdu = SetLUN lun pdu;
          pdu = SetInitiatorTaskTag itt pdu;
          pdu = bhs_put 20 (put_u32 0xFFFFFFFF) pdu;
          pdu = SetStatSN statSN pdu;
          pdu = SetExpCmdSN expCmdSN pdu;
          pdu = SetMaxCmdSN maxCmdSN pdu;
          pdu = bhs_put 36 (put_u32 dataSN) pdu;
          pdu = bhs_put 40 (put_u32 (of_nat offset)) pdu;
          pdu = bhs_put 44 (put_u32 0) pdu
      in pdu\<lparr>DataSegment := chunk\<rparr>)"

text \<open>The limit in force: the default when none or a senseless one was negotiated.\<close>

definition effRecvLen :: "int \<Rightarrow> nat" where
  "effRecvLen maxRecvLen = nat (if maxRecvLen \<le> 0 then DefaultMaxRecvDataSegmentLength else maxRecvLen)"

lemma effRecvLen_pos [simp]: "0 < effRecvLen m"
  by (simp add: effRecvLen_def DefaultMaxRecvDataSegmentLength_def)

text \<open>The loop of \<^verbatim>\<open>sendDataIn\<close>, with its variables \<open>offset\<close> and \<open>dataSN\<close>.\<close>

function dataIn_loop ::
    "u32 \<Rightarrow> u64 \<Rightarrow> bytes \<Rightarrow> u32 \<Rightarrow> u32 \<Rightarrow> u32 \<Rightarrow> int \<Rightarrow> nat \<Rightarrow> u32 \<Rightarrow> net_conn \<Rightarrow> unit result \<times> net_conn" where
  "dataIn_loop itt lun data statSN expCmdSN maxCmdSN maxRecvLen offset dataSN conn =
     (let totalLen = length data in
      if offset < totalLen \<or> totalLen = 0 then
        let endOff = min (offset + effRecvLen maxRecvLen) totalLen;
            chunk = bslice offset endOff data;
            isFinal = (endOff = totalLen);
            pdu = dataInPDU itt lun chunk isFinal statSN expCmdSN maxCmdSN dataSN offset in
        (case WritePDU conn pdu of
           (Inl err, c1) \<Rightarrow> (Inl err, c1)
         | (Inr _, c1) \<Rightarrow>
             if totalLen = 0 then (Inr (), c1)
             else dataIn_loop itt lun data statSN expCmdSN maxCmdSN maxRecvLen endOff (dataSN + 1) c1)
      else (Inr (), conn))"
  by pat_completeness auto
termination
  by (relation "measure (\<lambda>(itt, lun, data, statSN, expCmdSN, maxCmdSN, maxRecvLen, offset, dataSN, conn). length data - offset)")
    (auto simp: min_def intro: diff_less_mono2)

declare dataIn_loop.simps [simp del]

definition sendDataIn ::
    "net_conn \<Rightarrow> u32 \<Rightarrow> u64 \<Rightarrow> bytes \<Rightarrow> u32 \<Rightarrow> u32 \<Rightarrow> u32 \<Rightarrow> int \<Rightarrow> unit result \<times> net_conn" where
  "sendDataIn conn itt lun data statSN expCmdSN maxCmdSN maxRecvLen =
     dataIn_loop itt lun data statSN expCmdSN maxCmdSN maxRecvLen 0 0 conn"

section \<open>Data-Out (data\_out.go)\<close>

text \<open>
  The byte slice of a reassembly buffer has a length and a capacity. The bytes between the two have never been written
  and are zero, so that lengthening the slice appends zeros.
\<close>

record dataOutBuffer =
  dob_itt :: u32
  dob_expectedLen :: u32
  dob_data :: bytes
  dob_cap :: nat
  dob_nextDataSN :: u32

definition newDataOutBuffer :: "u32 \<Rightarrow> u32 \<Rightarrow> dataOutBuffer" where
  "newDataOutBuffer itt expectedLen =
     \<lparr>dob_itt = itt, dob_expectedLen = expectedLen, dob_data = [], dob_cap = unat expectedLen, dob_nextDataSN = 0\<rparr>"

definition pdu_final :: "PDU \<Rightarrow> bool" where
  "pdu_final p \<longleftrightarrow> BHS p ! 1 AND 0x80 \<noteq> 0"

definition pdu_dataSN :: "PDU \<Rightarrow> u32" where
  "pdu_dataSN p = get_u32 (bslice 36 40 (BHS p))"

definition pdu_bufferOffset :: "PDU \<Rightarrow> u32" where
  "pdu_bufferOffset p = get_u32 (bslice 40 44 (BHS p))"

definition extend :: "nat \<Rightarrow> bytes \<Rightarrow> bytes" where
  "extend n data = data @ zeros (n - length data)"

text \<open>\<^verbatim>\<open>add\<close>: make room, then copy. Slicing from an offset behind the end of the data panics.\<close>

definition dob_add :: "dataOutBuffer \<Rightarrow> PDU \<Rightarrow> (bool \<times> dataOutBuffer) option" where
  "dob_add b pdu =
     (let finalBit = pdu_final pdu;
          bufferOffset = pdu_bufferOffset pdu;
          needed = bufferOffset + of_nat (length (DataSegment pdu));
          b1 = (if needed > of_nat (dob_cap b) then
                  b\<lparr>dob_data := extend (unat needed) (dob_data b), dob_cap := max (unat needed) (dob_cap b * 2)\<rparr>
                else if needed > of_nat (length (dob_data b)) then b\<lparr>dob_data := extend (unat needed) (dob_data b)\<rparr>
                else b)
      in if unat bufferOffset > length (dob_data b1) then None
         else Some (finalBit,
                b1\<lparr>dob_data := blit (unat bufferOffset) (DataSegment pdu) (dob_data b1), dob_nextDataSN := pdu_dataSN pdu + 1\<rparr>))"

definition assembledData :: "dataOutBuffer \<Rightarrow> bytes" where
  "assembledData b = dob_data b"

type_synonym ReassemblyMap = "(u32 \<times> dataOutBuffer) list"

definition newReassemblyMap :: ReassemblyMap where
  "newReassemblyMap = []"

definition initBuffer :: "u32 \<Rightarrow> u32 \<Rightarrow> ReassemblyMap \<Rightarrow> ReassemblyMap" where
  "initBuffer itt expectedLen m = AList.update itt (newDataOutBuffer itt expectedLen) m"

text \<open>The result is the assembled data when the final PDU has come, \<open>Inr None\<close> before that.\<close>

definition addDataOut :: "PDU \<Rightarrow> ReassemblyMap \<Rightarrow> (bytes option result \<times> ReassemblyMap) option" where
  "addDataOut pdu m =
     (let itt = InitiatorTaskTag pdu in
      case map_of m itt of
        None \<Rightarrow> Some (Inl (Errorf ''no reassembly buffer for ITT''), m)
      | Some buf \<Rightarrow>
          (case dob_add buf pdu of
             None \<Rightarrow> None
           | Some (final, buf1) \<Rightarrow>
               if final then Some (Inr (Some (assembledData buf1)), AList.delete itt m)
               else Some (Inr None, AList.update itt buf1 m)))"

definition clearBuffer :: "u32 \<Rightarrow> ReassemblyMap \<Rightarrow> ReassemblyMap" where
  "clearBuffer itt m = AList.delete itt m"


section \<open>What the loop of sendDataIn sends\<close>

text \<open>The PDUs of a transfer from offset \<open>off\<close> on, with the first of them numbered \<open>k\<close>.\<close>

function dataIn_pdus :: "u32 \<Rightarrow> u64 \<Rightarrow> bytes \<Rightarrow> u32 \<Rightarrow> u32 \<Rightarrow> u32 \<Rightarrow> int \<Rightarrow> nat \<Rightarrow> nat \<Rightarrow> PDU list" where
  "dataIn_pdus itt lun data ss es ms m off k =
     (if off < length data then
        let e = min (off + effRecvLen m) (length data) in
        dataInPDU itt lun (bslice off e data) (e = length data) ss es ms (of_nat k) off # dataIn_pdus itt lun data ss es ms m e (Suc k)
      else [])"
  by pat_completeness auto
termination
  by (relation "measure (\<lambda>(itt, lun, data, ss, es, ms, m, off, k). length data - off)") (auto simp: min_def intro: diff_less_mono2)

declare dataIn_pdus.simps [simp del]

lemma dataInPDU_fields [simp]:
  "DataSegment (dataInPDU itt lun chunk f ss es ms sn off) = chunk" "length (BHS (dataInPDU itt lun chunk f ss es ms sn off)) = BHSSize"
  "AHS (dataInPDU itt lun chunk f ss es ms sn off) = []"
  by (simp_all add: dataInPDU_def Let_def SetOpcode_def SetFlags_def SetLUN_def SetInitiatorTaskTag_def SetStatSN_def SetExpCmdSN_def
      SetMaxCmdSN_def newPDU_def bhs_put_def)

lemma nth_blit: "i < length dst \<Longrightarrow> off + length src \<le> length dst \<Longrightarrow>
    blit off src dst ! i = (if off \<le> i \<and> i < off + length src then src ! (i - off) else dst ! i)"
  by (auto simp: blit_def nth_append)

lemma bslice_blit: "off + length src \<le> length dst \<Longrightarrow> j \<le> off \<or> off + length src \<le> i \<Longrightarrow> j \<le> length dst \<Longrightarrow>
    bslice i j (blit off src dst) = bslice i j dst"
  by (rule nth_equalityI) (auto simp: bslice_def nth_blit)

lemma bslice_blit_eq: "off + length src \<le> length dst \<Longrightarrow> j = off + length src \<Longrightarrow> bslice off j (blit off src dst) = src"
  by (simp add: bslice_blit_hit)

lemmas dataIn_eval = dataInPDU_def Let_def SetOpcode_def SetFlags_def SetLUN_def SetInitiatorTaskTag_def SetStatSN_def
  SetExpCmdSN_def SetMaxCmdSN_def newPDU_def bhs_put_def

lemma dataInPDU_header:
  "pdu_final (dataInPDU itt lun chunk f ss es ms sn off) = f" "pdu_dataSN (dataInPDU itt lun chunk f ss es ms sn off) = sn"
  "pdu_bufferOffset (dataInPDU itt lun chunk f ss es ms sn off) = of_nat off"
  "InitiatorTaskTag (dataInPDU itt lun chunk f ss es ms sn off) = itt"
  by (simp_all add: dataIn_eval pdu_final_def pdu_dataSN_def pdu_bufferOffset_def InitiatorTaskTag_def nth_blit bslice_blit bslice_blit_eq)


lemma dataInPDU_wf: "length chunk < 2 ^ 24 \<Longrightarrow> pdu_wf (dataInPDU itt lun chunk f ss es ms sn off)"
proof -
  have "BHS (dataInPDU itt lun chunk f ss es ms sn off) ! 4 = 0" by (simp add: dataIn_eval nth_blit zeros_def)
  moreover assume "length chunk < 2 ^ 24"
  ultimately show ?thesis by (simp add: pdu_wf_def)
qed

lemma dataIn_loop_sends:
  assumes "effRecvLen m < 2 ^ 24" and "data \<noteq> []"
    and "dataIn_loop itt lun data ss es ms m off (of_nat k) c = (Inr x, c')"
  shows "c_out c' = c_out c @ concat (map pdu_wire (dataIn_pdus itt lun data ss es ms m off k)) \<and> c_in c' = c_in c"
  using assms
proof (induction itt lun data ss es ms m off k arbitrary: c rule: dataIn_pdus.induct)
  case (1 itt lun data ss es ms m off k)
  show ?case
  proof (cases "off < length data")
    case False
    then show ?thesis using "1.prems" by (simp add: dataIn_loop.simps [of _ _ _ _ _ _ _ off] dataIn_pdus.simps [of _ _ _ _ _ _ _ off])
  next
    case True
    let ?e = "min (off + effRecvLen m) (length data)"
    let ?p = "dataInPDU itt lun (bslice off ?e data) (?e = length data) ss es ms (of_nat k) off"
    obtain c1 where w: "WritePDU c ?p = (Inr (), c1)"
      and r: "dataIn_loop itt lun data ss es ms m ?e (of_nat (Suc k)) c1 = (Inr x, c')"
      using "1.prems" True by (subst (asm) dataIn_loop.simps) (auto simp: Let_def add.commute split: prod.splits sum.splits)
    have "length (bslice off ?e data) < 2 ^ 24" using "1.prems"(1) by simp
    from WritePDU_ok [OF dataInPDU_wf [OF this] w] "1.IH" [OF True refl "1.prems"(1,2) r] show ?thesis
      using True by (subst dataIn_pdus.simps) (simp add: Let_def)
  qed
qed

lemma dataIn_pdus_concat:
  "off \<le> length data \<Longrightarrow> concat (map DataSegment (dataIn_pdus itt lun data ss es ms m off k)) = drop off data"
proof (induction itt lun data ss es ms m off k rule: dataIn_pdus.induct)
  case (1 itt lun data ss es ms m off k)
  let ?e = "min (off + effRecvLen m) (length data)"
  show ?case
  proof (cases "off < length data")
    case True
    have "drop off data = take (?e - off) (drop off data) @ drop (?e - off) (drop off data)"
      by (rule append_take_drop_id [symmetric])
    also have "drop (?e - off) (drop off data) = drop ?e data" using True by (simp add: min_def)
    finally have "drop off data = bslice off ?e data @ drop ?e data" by (simp only: bslice_def)
    then show ?thesis using "1.IH" [OF True refl] True by (subst dataIn_pdus.simps) (simp add: Let_def)
  qed (use 1 in \<open>simp add: dataIn_pdus.simps\<close>)
qed

lemma dataIn_pdus_Nil: "dataIn_pdus itt lun data ss es ms m off k = [] \<longleftrightarrow> length data \<le> off"
  by (subst dataIn_pdus.simps) (auto simp: Let_def)

lemma dataIn_pdus_nth:
  "i < length (dataIn_pdus itt lun data ss es ms m off k) \<Longrightarrow>
   let p = dataIn_pdus itt lun data ss es ms m off k ! i in
      InitiatorTaskTag p = itt \<and> pdu_dataSN p = of_nat (k + i) \<and> pdu_bufferOffset p = of_nat (off + i * effRecvLen m) \<and>
      length (DataSegment p) \<le> effRecvLen m \<and> DataSegment p \<noteq> [] \<and>
      (pdu_final p \<longleftrightarrow> Suc i = length (dataIn_pdus itt lun data ss es ms m off k))"
proof (induction itt lun data ss es ms m off k arbitrary: i rule: dataIn_pdus.induct)
  case (1 itt lun data ss es ms m off k)
  let ?e = "min (off + effRecvLen m) (length data)" and ?ps = "\<lambda>off k. dataIn_pdus itt lun data ss es ms m off k"
  let ?p = "dataInPDU itt lun (bslice off ?e data) (?e = length data) ss es ms (of_nat k) off"
  have off: "off < length data" using "1.prems" by (subst (asm) dataIn_pdus.simps) (auto split: if_splits)
  then have ps: "?ps off k = ?p # ?ps ?e (Suc k)" by (subst dataIn_pdus.simps) (simp add: Let_def)
  have more: "?ps ?e (Suc k) = [] \<longleftrightarrow> ?e = length data" by (auto simp: dataIn_pdus_Nil)
  show ?case
  proof (cases i)
    case 0
    have "bslice off ?e data \<noteq> []"
      using off effRecvLen_pos [of m] by (auto simp: bslice_def min_def simp del: effRecvLen_pos split: if_splits)
    then show ?thesis using 0 more by (simp add: ps dataInPDU_header Let_def)
  next
    case (Suc j)
    then have j: "j < length (?ps ?e (Suc k))" using "1.prems" ps by simp
    then have "?e = off + effRecvLen m" using more by (auto simp: min_def split: if_splits)
    then show ?thesis using "1.IH" [OF off refl j] Suc by (simp add: ps Let_def algebra_simps)
  qed
qed

section \<open>What reassembly collects\<close>

text \<open>A transfer of the bytes \<open>D\<close>: every segment is the slice of \<open>D\<close> at its offset.\<close>

definition segment_of :: "bytes \<Rightarrow> PDU \<Rightarrow> bool" where
  "segment_of D p \<longleftrightarrow> unat (pdu_bufferOffset p) + length (DataSegment p) \<le> length D \<and>
     DataSegment p = bslice (unat (pdu_bufferOffset p)) (unat (pdu_bufferOffset p) + length (DataSegment p)) D"

definition covered :: "PDU list \<Rightarrow> nat set" where
  "covered ps = (\<Union>p \<in> set ps. {unat (pdu_bufferOffset p)..<unat (pdu_bufferOffset p) + length (DataSegment p)})"

text \<open>The state of a buffer that has taken the PDUs \<open>ps\<close>: right where they wrote, and within its capacity.\<close>

definition collects :: "bytes \<Rightarrow> PDU list \<Rightarrow> dataOutBuffer \<Rightarrow> bool" where
  "collects D ps b \<longleftrightarrow> length (dob_data b) \<le> length D \<and> length (dob_data b) \<le> dob_cap b \<and> dob_cap b < 2 ^ 32 \<and>
     (\<forall>i \<in> covered ps. i < length (dob_data b) \<and> dob_data b ! i = D ! i)"

lemma dob_add_collects:
  assumes "collects D ps b" and "segment_of D p" and "length D \<le> dob_cap b"
  shows "\<exists>b'. dob_add b p = Some (pdu_final p, b') \<and> collects D (p # ps) b' \<and> dob_cap b' = dob_cap b"
proof -
  let ?o = "unat (pdu_bufferOffset p)" and ?n = "length (DataSegment p)"
  let ?needed = "pdu_bufferOffset p + of_nat ?n"
  have D: "length D < 2 ^ 32" using assms by (simp add: collects_def)
  have fits: "?o + ?n \<le> length D" using assms(2) by (simp add: segment_of_def)
  have n: "unat ?needed = ?o + ?n" using D fits by (simp add: unat_word_ariths unat_of_nat take_bit_nat_eq_self)
  have c: "unat (of_nat (dob_cap b) :: u32) = dob_cap b" "unat (of_nat (length (dob_data b)) :: u32) = length (dob_data b)"
    using assms(1) by (simp_all add: collects_def unat_of_nat take_bit_nat_eq_self)
  have small: "\<not> ?needed > of_nat (dob_cap b)" using n c fits assms(3) by (simp add: word_less_nat_alt)
  define d where "d = extend (?o + ?n) (dob_data b)"
  have d: "length d = max (?o + ?n) (length (dob_data b))" by (simp add: d_def extend_def)
  have "(if ?needed > of_nat (length (dob_data b)) then b\<lparr>dob_data := extend (unat ?needed) (dob_data b)\<rparr> else b) = b\<lparr>dob_data := d\<rparr>"
    using n c by (auto simp: word_less_nat_alt d_def extend_def zeros_def)
  then have add: "dob_add b p = Some (pdu_final p, b\<lparr>dob_data := blit ?o (DataSegment p) d, dob_nextDataSN := pdu_dataSN p + 1\<rparr>)"
    using small d by (simp add: dob_add_def Let_def)
  have "blit ?o (DataSegment p) d ! i = D ! i" if "i \<in> covered (p # ps)" for i
  proof (cases "?o \<le> i \<and> i < ?o + ?n")
    case True
    then have "i - ?o < ?n" by linarith
    then have "bslice ?o (?o + ?n) D ! (i - ?o) = D ! i" using True fits by (simp add: bslice_def)
    moreover have "DataSegment p = bslice ?o (?o + ?n) D" using assms(2) unfolding segment_of_def by blast
    ultimately have "DataSegment p ! (i - ?o) = D ! i" by metis
    then show ?thesis using True d by (simp add: nth_blit less_max_iff_disj)
  next
    case False
    then have "i \<in> covered ps" using that by (auto simp: covered_def)
    then have "i < length (dob_data b)" "dob_data b ! i = D ! i" using assms(1) by (auto simp: collects_def)
    then show ?thesis using False d by (auto simp: nth_blit d_def extend_def nth_append)
  qed
  moreover have "i < length d" if "i \<in> covered (p # ps)" for i
    using that assms(1) d by (auto simp: covered_def collects_def less_max_iff_disj)
  ultimately show ?thesis
    using add d fits assms by (auto simp: collects_def)
qed


text \<open>Taking a list of PDUs, none of them final.\<close>

fun addAll :: "PDU list \<Rightarrow> ReassemblyMap \<Rightarrow> ReassemblyMap option" where
  "addAll [] m = Some m"
| "addAll (p # ps) m = (case addDataOut p m of Some (Inr None, m1) \<Rightarrow> addAll ps m1 | _ \<Rightarrow> None)"

lemma addAll_collects:
  assumes "\<forall>p \<in> set ps. InitiatorTaskTag p = itt \<and> segment_of D p \<and> \<not> pdu_final p"
    and "map_of m itt = Some b" and "collects D qs b" and "length D \<le> dob_cap b"
  shows "\<exists>m1 b1. addAll ps m = Some m1 \<and> map_of m1 itt = Some b1 \<and> collects D (rev ps @ qs) b1 \<and> dob_cap b1 = dob_cap b"
  using assms
proof (induction ps arbitrary: m b qs)
  case (Cons p ps)
  obtain b' where b': "dob_add b p = Some (False, b')" "collects D (p # qs) b'" "dob_cap b' = dob_cap b"
    using dob_add_collects [OF Cons.prems(3) _ Cons.prems(4), of p] Cons.prems(1) by auto
  have "addAll (p # ps) m = addAll ps (AList.update itt b' m)" using Cons.prems b' by (simp add: addDataOut_def)
  then show ?case using Cons.IH [of "AList.update itt b' m" b' "p # qs"] Cons.prems b' by (auto simp: update_conv')
qed auto

lemma reassembly_complete:
  assumes "length D < 2 ^ 32"
    and "\<forall>p \<in> set ps. InitiatorTaskTag p = itt \<and> segment_of D p \<and> \<not> pdu_final p"
    and "InitiatorTaskTag q = itt" and "segment_of D q" and "pdu_final q" and "covered (q # ps) = {..<length D}"
  shows "\<exists>m1. addAll ps (initBuffer itt (of_nat (length D)) m) = Some m1 \<and>
    addDataOut q m1 = Some (Inr (Some D), AList.delete itt m1)"
proof -
  let ?b = "newDataOutBuffer itt (of_nat (length D))"
  have cap: "dob_cap ?b = length D" using assms(1) by (simp add: newDataOutBuffer_def unat_of_nat take_bit_nat_eq_self)
  then have b: "collects D [] ?b" "length D \<le> dob_cap ?b"
    using assms(1) by (simp_all add: collects_def covered_def newDataOutBuffer_def unat_of_nat take_bit_nat_eq_self)
  have "map_of (initBuffer itt (of_nat (length D)) m) itt = Some ?b" by (simp add: initBuffer_def update_conv')
  from addAll_collects [OF assms(2) this b] obtain m1 b1 where m1: "addAll ps (initBuffer itt (of_nat (length D)) m) = Some m1"
    "map_of m1 itt = Some b1" "collects D (rev ps) b1" "dob_cap b1 = dob_cap ?b" by auto
  obtain b2 where b2: "dob_add b1 q = Some (True, b2)" "collects D (q # rev ps) b2"
    using dob_add_collects [OF m1(3) assms(4)] m1(4) cap assms(5) by auto
  have "covered (q # rev ps) = {..<length D}" using assms(6) by (simp add: covered_def)
  then have all: "i < length D \<Longrightarrow> i < length (dob_data b2) \<and> dob_data b2 ! i = D ! i" for i
    using b2(2) by (auto simp: collects_def)
  have "length D \<le> length (dob_data b2)" using all by (metis le_less_linear less_irrefl)
  then have "dob_data b2 = D" using all b2(2) by (intro nth_equalityI) (auto simp: collects_def)
  then show ?thesis using m1 b2 assms(3) by (auto simp: addDataOut_def assembledData_def)
qed

section \<open>Properties\<close>

text \<open>
  C25: \<^verbatim>\<open>sendDataIn\<close> sends exactly the data, in order: the segments of its PDUs concatenate to the data, none is longer than the
  initiator's limit (65536 if that is not positive), each header carries the task tag, consecutive numbers from zero and
  the true offset, and the final bit is on the last one only. The loop always ends.
\<close>

theorem data_in_transfer:
  assumes "data \<noteq> []" and "maxRecv < 2 ^ 24"
    and "sendDataIn c itt lun data statSN expCmdSN maxCmdSN maxRecv = (Inr (), c')"
  shows "\<exists>ps. c_out c' = c_out c @ concat (map pdu_wire ps) \<and> concat (map DataSegment ps) = data \<and>
    (\<forall>i < length ps. InitiatorTaskTag (ps ! i) = itt \<and> pdu_dataSN (ps ! i) = of_nat i \<and>
       pdu_bufferOffset (ps ! i) = of_nat (i * effRecvLen maxRecv) \<and> length (DataSegment (ps ! i)) \<le> effRecvLen maxRecv \<and>
       (pdu_final (ps ! i) \<longleftrightarrow> Suc i = length ps))"
proof -
  let ?ps = "dataIn_pdus itt lun data statSN expCmdSN maxCmdSN maxRecv 0 0"
  have m: "effRecvLen maxRecv < 2 ^ 24" using assms(2) by (auto simp: effRecvLen_def DefaultMaxRecvDataSegmentLength_def)
  have "c_out c' = c_out c @ concat (map pdu_wire ?ps)"
    using dataIn_loop_sends [OF m assms(1), of itt lun statSN expCmdSN maxCmdSN 0 0] assms(3) by (simp add: sendDataIn_def)
  moreover have "concat (map DataSegment ?ps) = data" using dataIn_pdus_concat [of 0 data] by simp
  moreover have "i < length ?ps \<Longrightarrow> InitiatorTaskTag (?ps ! i) = itt \<and> pdu_dataSN (?ps ! i) = of_nat i \<and>
       pdu_bufferOffset (?ps ! i) = of_nat (i * effRecvLen maxRecv) \<and> length (DataSegment (?ps ! i)) \<le> effRecvLen maxRecv \<and>
       (pdu_final (?ps ! i) \<longleftrightarrow> Suc i = length ?ps)" for i
    using dataIn_pdus_nth [of i itt lun data statSN expCmdSN maxCmdSN maxRecv 0 0] by (simp add: Let_def)
  ultimately show ?thesis by blast
qed

theorem data_in_transfer_witness:
  "\<exists>ps. c_out (snd (sendDataIn \<lparr>c_in = [], c_out = [], c_script = []\<rparr> 1 0 [1, 2, 3] 0 0 0 2)) = concat (map pdu_wire ps) \<and>
     concat (map DataSegment ps) = [1, 2, 3]"
proof -
  have "sendDataIn \<lparr>c_in = [], c_out = [], c_script = []\<rparr> 1 0 [1, 2, 3] 0 0 0 2 =
      (Inr (), snd (sendDataIn \<lparr>c_in = [], c_out = [], c_script = []\<rparr> 1 0 [1, 2, 3] 0 0 0 2))"
    by (simp add: sendDataIn_def dataIn_loop.simps Let_def effRecvLen_def WritePDU_def writeDataSegment_def conn_Write_def
        SetDataSegmentLength_def bslice_def)
  from data_in_transfer [OF _ _ this] show ?thesis by fastforce
qed

text \<open>
  C24: the data of a write arrives whole. Data-Out PDUs whose segments are slices of the data at their offsets and
  together cover it, in whatever order and with whatever overlaps, the final one last, assemble to exactly the data, and the
  buffer is released.
\<close>

theorem data_out_reassembles:
  assumes "length D < 2 ^ 32"
    and "\<forall>p \<in> set ps. InitiatorTaskTag p = itt \<and> segment_of D p \<and> \<not> pdu_final p"
    and "InitiatorTaskTag q = itt" and "segment_of D q" and "pdu_final q" and "covered (q # ps) = {..<length D}"
  shows "\<exists>m1. addAll ps (initBuffer itt (of_nat (length D)) m) = Some m1 \<and>
    addDataOut q m1 = Some (Inr (Some D), AList.delete itt m1)"
  using assms by (rule reassembly_complete)

definition data_out_pdu :: "u32 \<Rightarrow> bool \<Rightarrow> u32 \<Rightarrow> bytes \<Rightarrow> PDU" where
  "data_out_pdu itt f off seg =
     bhs_put 40 (put_u32 off) (SetInitiatorTaskTag itt (SetFlags (if f then 0x80 else 0) (SetOpcode OpcodeDataOut (newPDU\<lparr>DataSegment := seg\<rparr>))))"

lemma data_out_pdu_fields [simp]:
  "InitiatorTaskTag (data_out_pdu itt f off seg) = itt" "pdu_final (data_out_pdu itt f off seg) = f"
  "pdu_bufferOffset (data_out_pdu itt f off seg) = off" "DataSegment (data_out_pdu itt f off seg) = seg"
  by (simp_all add: data_out_pdu_def SetInitiatorTaskTag_def SetFlags_def SetOpcode_def newPDU_def bhs_put_def InitiatorTaskTag_def
      pdu_final_def pdu_bufferOffset_def nth_blit bslice_blit bslice_blit_eq)

theorem data_out_reassembles_witness:
  "\<exists>m1. addAll [data_out_pdu 7 False 2 [3, 4]] (initBuffer 7 4 []) = Some m1 \<and>
     addDataOut (data_out_pdu 7 True 0 [1, 2]) m1 = Some (Inr (Some [1, 2, 3, 4]), AList.delete 7 m1)"
proof -
  have "covered [data_out_pdu 7 True 0 [1, 2], data_out_pdu 7 False 2 [3, 4]] = {..<4}" by (auto simp: covered_def)
  then show ?thesis
    using data_out_reassembles [of "[1, 2, 3, 4]" "[data_out_pdu 7 False 2 [3, 4]]" 7 "data_out_pdu 7 True 0 [1, 2]" "[]"]
    by (simp add: segment_of_def bslice_def del: addAll.simps flip: numeral_eq_Suc)
qed

text \<open>
  The sum of offset and length of a Data-Out PDU is computed in 32 bits. A PDU for a write in progress with an offset behind
  the data received so far, for which the sum wraps around, makes the target panic.
\<close>

theorem data_out_wrap_panics:
  assumes "map_of m (InitiatorTaskTag p) = Some b" and "length (DataSegment p) < 2 ^ 32"
    and "2 ^ 32 \<le> unat (pdu_bufferOffset p) + length (DataSegment p)" and "length (dob_data b) < unat (pdu_bufferOffset p)"
  shows "addDataOut p m = None"
proof -
  let ?needed = "pdu_bufferOffset p + of_nat (length (DataSegment p))"
  have "unat ?needed = unat (pdu_bufferOffset p) + length (DataSegment p) - 2 ^ 32"
    using assms(2,3) unsigned_less [of "pdu_bufferOffset p", where ?'a = nat]
    by (simp add: unat_word_ariths unat_of_nat take_bit_nat_eq_self mod_if)
  then have "unat ?needed < unat (pdu_bufferOffset p)" using assms(2,3) by linarith
  then have "dob_add b p = None" using assms(4) by (auto simp: dob_add_def Let_def extend_def)
  then show ?thesis using assms(1) by (simp add: addDataOut_def)
qed

theorem data_out_wrap_panics_witness: "addDataOut (data_out_pdu 7 True 0xFFFFFFFF [1]) (initBuffer 7 512 []) = None"
  by (rule data_out_wrap_panics [where b = "newDataOutBuffer 7 512"]) (simp_all add: initBuffer_def newDataOutBuffer_def)

end
