(* ===== verification/IscsiCmd.thy ===== *)
theory IscsiCmd
  imports DataTransfer Scsi
begin

unbundle bit_operations_syntax

text \<open>
  The request handlers of the full feature phase: SCSI commands with their responses and R2Ts (\<^verbatim>\<open>internal/iscsi/scsi_cmd.go\<close>),
  NOP-Out (\<^verbatim>\<open>nop.go\<close>), task management (\<^verbatim>\<open>tmf.go\<close>), logout (\<^verbatim>\<open>logout.go\<close>) and the discovery answer (\<^verbatim>\<open>text.go\<close>, \<^verbatim>\<open>target.go\<close>).
  \<open>None\<close> is a panic, or a device call that never returns.
\<close>

section \<open>Responses (scsi\_cmd.go)\<close>

definition SCSICmdFlagFinal :: u8 where "SCSICmdFlagFinal = 0x80"
definition SCSICmdFlagRead :: u8 where "SCSICmdFlagRead = 0x40"
definition SCSICmdFlagWrite :: u8 where "SCSICmdFlagWrite = 0x20"

text \<open>The three sequence numbers that every response carries.\<close>

definition set_sns :: "u32 \<Rightarrow> u32 \<Rightarrow> u32 \<Rightarrow> PDU \<Rightarrow> PDU" where
  "set_sns statSN expCmdSN maxCmdSN p = SetMaxCmdSN maxCmdSN (SetExpCmdSN expCmdSN (SetStatSN statSN p))"

definition r2tPDU :: "PDU \<Rightarrow> u32 \<Rightarrow> u32 \<Rightarrow> u32 \<Rightarrow> u32 \<Rightarrow> u32 \<Rightarrow> u32 \<Rightarrow> PDU" where
  "r2tPDU req itt bufferOffset desiredLen statSN expCmdSN maxCmdSN =
     (let rsp = bhs_put 0 [OpcodeR2T] newPDU;
          rsp = bhs_put 1 [0x80] rsp;
          rsp = bhs_put 8 (bslice 8 16 (BHS req)) rsp;
          rsp = SetInitiatorTaskTag itt rsp;
          rsp = bhs_put 20 (put_u32 itt) rsp;
          rsp = set_sns statSN expCmdSN maxCmdSN rsp;
          rsp = bhs_put 36 (put_u32 0) rsp;
          rsp = bhs_put 40 (put_u32 bufferOffset) rsp
      in bhs_put 44 (put_u32 desiredLen) rsp)"

definition sendR2T :: "net_conn \<Rightarrow> PDU \<Rightarrow> u32 \<Rightarrow> u32 \<Rightarrow> u32 \<Rightarrow> u32 \<Rightarrow> u32 \<Rightarrow> u32 \<Rightarrow> unit result \<times> net_conn" where
  "sendR2T conn req itt bufferOffset desiredLen statSN expCmdSN maxCmdSN =
     WritePDU conn (r2tPDU req itt bufferOffset desiredLen statSN expCmdSN maxCmdSN)"

definition scsiResponsePDU :: "PDU \<Rightarrow> u8 \<Rightarrow> bytes \<Rightarrow> u32 \<Rightarrow> u32 \<Rightarrow> u32 \<Rightarrow> PDU" where
  "scsiResponsePDU req scsiStatus senseData statSN expCmdSN maxCmdSN =
     (let rsp = bhs_put 0 [OpcodeSCSIRsp] newPDU;
          rsp = bhs_put 1 [0x80] rsp;
          rsp = bhs_put 2 [0x00] rsp;
          rsp = bhs_put 3 [scsiStatus] rsp;
          rsp = SetInitiatorTaskTag (InitiatorTaskTag req) rsp;
          rsp = set_sns statSN expCmdSN maxCmdSN rsp;
          senseLen = (of_nat (length senseData) :: u16)
      in if length senseData > 0 \<and> scsiStatus = StatusCheckCondition
         then rsp\<lparr>DataSegment := [ucast (drop_bit 8 senseLen), ucast senseLen] @ senseData\<rparr>
         else rsp)"

text \<open>The parameter \<^verbatim>\<open>residualCount\<close> is not used by the code.\<close>

definition sendSCSIResponse ::
    "net_conn \<Rightarrow> PDU \<Rightarrow> u8 \<Rightarrow> bytes \<Rightarrow> u32 \<Rightarrow> u32 \<Rightarrow> u32 \<Rightarrow> u32 \<Rightarrow> unit result \<times> net_conn" where
  "sendSCSIResponse conn req scsiStatus senseData residualCount statSN expCmdSN maxCmdSN =
     WritePDU conn (scsiResponsePDU req scsiStatus senseData statSN expCmdSN maxCmdSN)"

section \<open>SCSI commands (scsi\_cmd.go)\<close>

definition cmd_cdb :: "PDU \<Rightarrow> bytes" where
  "cmd_cdb req = bslice 32 48 (BHS req)"

definition cmd_expectedLen :: "PDU \<Rightarrow> u32" where
  "cmd_expectedLen req = get_u32 (bslice 20 24 (BHS req))"

text \<open>The made-up Data-Out PDU by which immediate data enters the reassembly buffer.\<close>

definition fakePDU :: "u32 \<Rightarrow> bytes \<Rightarrow> PDU" where
  "fakePDU itt immediateData =
     (let p = bhs_put 1 [0x00] newPDU;
          p = bhs_put 36 (put_u32 0) p;
          p = bhs_put 40 (put_u32 0) p;
          p = SetInitiatorTaskTag itt p
      in p\<lparr>DataSegment := immediateData\<rparr>)"

definition addImmediate :: "u32 \<Rightarrow> bytes \<Rightarrow> ReassemblyMap \<Rightarrow> ReassemblyMap option" where
  "addImmediate itt immediateData m =
     (if length immediateData > 0 then map_option snd (addDataOut (fakePDU itt immediateData) m) else Some m)"

text \<open>The end of \<^verbatim>\<open>handleSCSICmd\<close>: execute the command, send data and response.\<close>

definition execSCSI ::
    "'b Handler \<Rightarrow> Params \<Rightarrow> PDU \<Rightarrow> bytes \<Rightarrow> u32 \<Rightarrow> u32 \<Rightarrow> u32 \<Rightarrow> net_conn \<Rightarrow> 'b \<Rightarrow> (unit result \<times> net_conn \<times> 'b) option" where
  "execSCSI h params req writeData statSN expCmdSN maxCmdSN conn b =
     (case Execute h (cmd_cdb req) writeData b of
        None \<Rightarrow> None
      | Some ((dataIn, scsiStatus, senseData, Some err), b1) \<Rightarrow> Some (Inl (Wrap ''SCSI Execute'' err), conn, b1)
      | Some ((dataIn, scsiStatus, senseData, None), b1) \<Rightarrow>
          let isRead = (BHS req ! 1 AND SCSICmdFlagRead \<noteq> 0);
              maxRecv = (if MaxRecvDataSegmentLength params \<le> 0 then DefaultMaxRecvDataSegmentLength
                         else MaxRecvDataSegmentLength params) in
          Some (case (if isRead \<and> length dataIn > 0 \<and> scsiStatus = StatusGood
                      then sendDataIn conn (InitiatorTaskTag req) (LUN req) dataIn statSN expCmdSN maxCmdSN maxRecv
                      else (Inr (), conn)) of
                  (Inl err, c1) \<Rightarrow> (Inl (Wrap ''sending Data-In'' err), c1, b1)
                | (Inr _, c1) \<Rightarrow>
                    (case sendSCSIResponse c1 req scsiStatus senseData (of_nat (length dataIn)) statSN expCmdSN maxCmdSN of
                       (r, c2) \<Rightarrow> (r, c2, b1))))"

definition handleSCSICmd ::
    "'b Handler \<Rightarrow> Params \<Rightarrow> PDU \<Rightarrow> u32 \<Rightarrow> u32 \<Rightarrow> u32 \<Rightarrow> net_conn \<Rightarrow> ReassemblyMap \<Rightarrow> 'b \<Rightarrow>
       (unit result \<times> net_conn \<times> ReassemblyMap \<times> 'b) option" where
  "handleSCSICmd h params req statSN expCmdSN maxCmdSN conn m b =
     (let flags = BHS req ! 1;
          isWrite = (flags AND SCSICmdFlagWrite \<noteq> 0);
          finalBit = (flags AND SCSICmdFlagFinal \<noteq> 0);
          itt = InitiatorTaskTag req;
          expectedLen = cmd_expectedLen req;
          immediateData = DataSegment req;
          immLen = (of_nat (length immediateData) :: u32);
          exec = (\<lambda>writeData. map_option (\<lambda>(r, c, b1). (r, c, m, b1))
                    (execSCSI h params req writeData statSN expCmdSN maxCmdSN conn b));
          solicit = (\<lambda>off len.
                    case addImmediate itt immediateData (initBuffer itt expectedLen m) of
                      None \<Rightarrow> None
                    | Some m1 \<Rightarrow>
                        (case sendR2T conn req itt off len statSN expCmdSN maxCmdSN of (r, c) \<Rightarrow> Some (r, c, m1, b)))
      in if isWrite then
           if finalBit \<or> \<not> InitialR2T params then
             if \<not> finalBit \<and> expectedLen > immLen then solicit immLen (expectedLen - immLen)
             else exec immediateData
           else if length immediateData > 0 then solicit immLen (expectedLen - immLen)
           else solicit 0 expectedLen
         else exec [])"

definition completeWriteCommand ::
    "'b Handler \<Rightarrow> PDU \<Rightarrow> bytes \<Rightarrow> bytes \<Rightarrow> u32 \<Rightarrow> u32 \<Rightarrow> u32 \<Rightarrow> net_conn \<Rightarrow> 'b \<Rightarrow> (unit result \<times> net_conn \<times> 'b) option" where
  "completeWriteCommand h req cdb writeData statSN expCmdSN maxCmdSN conn b =
     (case Execute h cdb writeData b of
        None \<Rightarrow> None
      | Some ((dataIn, scsiStatus, senseData, Some err), b1) \<Rightarrow> Some (Inl (Wrap ''SCSI Execute (write)'' err), conn, b1)
      | Some ((dataIn, scsiStatus, senseData, None), b1) \<Rightarrow>
          (case sendSCSIResponse conn req scsiStatus senseData 0 statSN expCmdSN maxCmdSN of (r, c) \<Rightarrow> Some (r, c, b1)))"

section \<open>NOP, task management, logout (nop.go, tmf.go, logout.go)\<close>

definition handleNopOut :: "net_conn \<Rightarrow> PDU \<Rightarrow> u32 \<Rightarrow> u32 \<Rightarrow> u32 \<Rightarrow> unit result \<times> net_conn" where
  "handleNopOut conn req statSN expCmdSN maxCmdSN =
     (let itt = InitiatorTaskTag req;
          rsp = bhs_put 0 [OpcodeNopIn] newPDU;
          rsp = bhs_put 1 [0x80] rsp;
          rsp = bhs_put 8 (bslice 8 16 (BHS req)) rsp;
          rsp = SetInitiatorTaskTag itt rsp;
          rsp = bhs_put 20 (put_u32 0xFFFFFFFF) rsp;
          rsp = set_sns statSN expCmdSN maxCmdSN rsp
      in WritePDU conn (rsp\<lparr>DataSegment := DataSegment req\<rparr>))"

definition TMFFuncAbortTask :: u8 where "TMFFuncAbortTask = 0x01"
definition TMFFuncAbortTaskSet :: u8 where "TMFFuncAbortTaskSet = 0x02"
definition TMFFuncClearACA :: u8 where "TMFFuncClearACA = 0x03"
definition TMFFuncClearTaskSet :: u8 where "TMFFuncClearTaskSet = 0x04"
definition TMFFuncLogicalUnitReset :: u8 where "TMFFuncLogicalUnitReset = 0x05"
definition TMFFuncTargetWarmReset :: u8 where "TMFFuncTargetWarmReset = 0x06"
definition TMFFuncTargetColdReset :: u8 where "TMFFuncTargetColdReset = 0x07"
definition TMFResponseFunctionComplete :: u8 where "TMFResponseFunctionComplete = 0x00"
definition TMFResponseUnsupported :: u8 where "TMFResponseUnsupported = 0x05"

definition handleTMFRequest :: "net_conn \<Rightarrow> PDU \<Rightarrow> u32 \<Rightarrow> u32 \<Rightarrow> u32 \<Rightarrow> unit result \<times> net_conn" where
  "handleTMFRequest conn req statSN expCmdSN maxCmdSN =
     (let func = BHS req ! 1 AND 0x7F;
          response = (if func \<in> {TMFFuncAbortTask, TMFFuncAbortTaskSet, TMFFuncClearTaskSet, TMFFuncLogicalUnitReset,
                                 TMFFuncTargetWarmReset, TMFFuncTargetColdReset, TMFFuncClearACA}
                      then TMFResponseFunctionComplete else TMFResponseUnsupported);
          rsp = bhs_put 0 [OpcodeTMFRsp] newPDU;
          rsp = bhs_put 1 [0x80] rsp;
          rsp = bhs_put 2 [response] rsp;
          rsp = SetInitiatorTaskTag (InitiatorTaskTag req) rsp;
          rsp = bhs_put 20 (put_u32 0xFFFFFFFF) rsp;
          rsp = set_sns statSN expCmdSN maxCmdSN rsp
      in WritePDU conn rsp)"

definition LogoutResponseSuccess :: u8 where "LogoutResponseSuccess = 0x00"

definition handleLogout :: "net_conn \<Rightarrow> PDU \<Rightarrow> u32 \<Rightarrow> u32 \<Rightarrow> u32 \<Rightarrow> unit result \<times> net_conn" where
  "handleLogout conn req statSN expCmdSN maxCmdSN =
     (let rsp = bhs_put 0 [OpcodeLogoutRsp] newPDU;
          rsp = bhs_put 1 [0x80] rsp;
          rsp = bhs_put 2 [LogoutResponseSuccess] rsp;
          rsp = SetInitiatorTaskTag (InitiatorTaskTag req) rsp;
          rsp = set_sns statSN expCmdSN maxCmdSN rsp;
          rsp = bhs_put 40 [0x00, 0x00] rsp;
          rsp = bhs_put 42 [0x00, 0x00] rsp
      in WritePDU conn rsp)"

section \<open>Targets and discovery (target.go, text.go)\<close>

record LUNInfo =
  lun_ID :: u32
  lun_BlockSize :: u32
  lun_NumBlocks :: u64

record Target =
  tgt_IQN :: string
  tgt_Portal :: string
  tgt_LUNs :: "LUNInfo list"

definition NewTarget :: "string \<Rightarrow> string \<Rightarrow> Target" where
  "NewTarget iqn portal = \<lparr>tgt_IQN = iqn, tgt_Portal = portal, tgt_LUNs = []\<rparr>"

definition AddLUN :: "u32 \<Rightarrow> u32 \<Rightarrow> u64 \<Rightarrow> Target \<Rightarrow> Target" where
  "AddLUN lun blockSize numBlocks t =
     t\<lparr>tgt_LUNs := tgt_LUNs t @ [\<lparr>lun_ID = lun, lun_BlockSize = blockSize, lun_NumBlocks = numBlocks\<rparr>]\<rparr>"

text \<open>The lines for one target; \<open>localAddr\<close> is \<open>None\<close> for a nil address.\<close>

definition target_lines :: "string \<Rightarrow> string option \<Rightarrow> Target \<Rightarrow> string list" where
  "target_lines sendTargets localAddr t =
     (if sendTargets = ''All'' \<or> sendTargets = tgt_IQN t then
        let portal = (if tgt_Portal t = [] \<and> localAddr \<noteq> None then the localAddr else tgt_Portal t)
        in [''TargetName='' @ tgt_IQN t] @ (if portal \<noteq> [] then [''TargetAddress='' @ portal @ '',1''] else [])
      else [])"

definition handleSendTargets :: "PDU \<Rightarrow> Target list \<Rightarrow> string option \<Rightarrow> bytes" where
  "handleSendTargets req targets localAddr =
     (case map_of (ParseKeyValuePairs (DataSegment req)) ''SendTargets'' of
        None \<Rightarrow> []
      | Some sendTargets \<Rightarrow>
          let responseKV = concat (map (target_lines sendTargets localAddr) targets)
          in if responseKV = [] then [] else SerializeKeyValueList responseKV)"

end
