(* ===== verification/Connection.thy ===== *)
theory Connection
  imports IscsiCmd Login
begin

unbundle bit_operations_syntax

text \<open>
  A connection in the full feature phase, \<^verbatim>\<open>internal/iscsi/connection.go\<close>: sequence numbers, commands waiting for their data, and
  the loop that reads PDUs and dispatches them. The SCSI handler \<open>h\<close> and the state \<open>b\<close> of its block device are shared by all
  connections and passed along; a PDU is handled under the connection's locks, so each call is one step. \<open>None\<close> is a
  panic, or a device call that never returns.
\<close>

section \<open>State\<close>

record Connection =
  cn_conn :: net_conn
  cn_localAddr :: string
  cn_session :: "u16 option"
  cn_params :: Params
  cn_reassembly :: ReassemblyMap
  cn_statSN :: u32
  cn_expCmdSN :: u32
  cn_maxCmdSN :: u32
  cn_pendingCDB :: "(u32 \<times> bytes) list"
  cn_pendingReq :: "(u32 \<times> PDU) list"
  cn_closed :: bool

definition newConnection :: "net_conn \<Rightarrow> string \<Rightarrow> u16 option \<Rightarrow> Params \<Rightarrow> Connection" where
  "newConnection conn localAddr session params =
     \<lparr>cn_conn = conn, cn_localAddr = localAddr, cn_session = session, cn_params = params, cn_reassembly = newReassemblyMap,
      cn_statSN = 0, cn_expCmdSN = 0, cn_maxCmdSN = 32, cn_pendingCDB = [], cn_pendingReq = [], cn_closed = False\<rparr>"

definition cn_nextStatSN :: "Connection \<Rightarrow> Connection" where
  "cn_nextStatSN c = c\<lparr>cn_statSN := cn_statSN c + 1\<rparr>"

definition cn_close :: "Connection \<Rightarrow> Connection" where
  "cn_close c = c\<lparr>cn_closed := True\<rparr>"

section \<open>Handlers\<close>

definition handleSCSICommand ::
    "'b Handler \<Rightarrow> PDU \<Rightarrow> u32 \<Rightarrow> u32 \<Rightarrow> Connection \<times> 'b \<Rightarrow> (unit result \<times> Connection \<times> 'b) option" where
  "handleSCSICommand h pdu expCmdSN maxCmdSN s =
     (case s of (c, b) \<Rightarrow>
        let cdb = cmd_cdb pdu;
            isWrite = (BHS pdu ! 1 AND SCSICmdFlagWrite \<noteq> 0);
            itt = InitiatorTaskTag pdu;
            c1 = (if isWrite \<and> cmd_expectedLen pdu > of_nat (length (DataSegment pdu))
                  then c\<lparr>cn_pendingCDB := AList.update itt cdb (cn_pendingCDB c),
                         cn_pendingReq := AList.update itt pdu (cn_pendingReq c)\<rparr>
                  else c);
            c2 = cn_nextStatSN c1
        in case handleSCSICmd h (cn_params c2) pdu (cn_statSN c2) expCmdSN maxCmdSN (cn_conn c2) (cn_reassembly c2) b of
             None \<Rightarrow> None
           | Some (r, conn, m, b1) \<Rightarrow> Some (r, c2\<lparr>cn_conn := conn, cn_reassembly := m\<rparr>, b1))"

definition handleDataOut ::
    "'b Handler \<Rightarrow> PDU \<Rightarrow> u32 \<Rightarrow> u32 \<Rightarrow> Connection \<times> 'b \<Rightarrow> (unit result \<times> Connection \<times> 'b) option" where
  "handleDataOut h pdu expCmdSN maxCmdSN s =
     (case s of (c, b) \<Rightarrow>
        let itt = InitiatorTaskTag pdu in
        case addDataOut pdu (cn_reassembly c) of
          None \<Rightarrow> None
        | Some (Inl err, m) \<Rightarrow> Some (Inr (), c\<lparr>cn_reassembly := m\<rparr>, b)
        | Some (Inr None, m) \<Rightarrow> Some (Inr (), c\<lparr>cn_reassembly := m\<rparr>, b)
        | Some (Inr (Some assembled), m) \<Rightarrow>
            let pcdb = map_of (cn_pendingCDB c) itt;
                preq = map_of (cn_pendingReq c) itt;
                c1 = cn_nextStatSN (c\<lparr>cn_reassembly := m, cn_pendingCDB := AList.delete itt (cn_pendingCDB c),
                                     cn_pendingReq := AList.delete itt (cn_pendingReq c)\<rparr>)
            in case (pcdb, preq) of
                 (Some cdb, Some origReq) \<Rightarrow>
                   (case completeWriteCommand h origReq cdb assembled (cn_statSN c1) expCmdSN maxCmdSN (cn_conn c1) b of
                      None \<Rightarrow> None
                    | Some (r, conn, b1) \<Rightarrow> Some (r, c1\<lparr>cn_conn := conn\<rparr>, b1))
               | _ \<Rightarrow> Some (Inr (), c1, b))"

definition handleTextRequest :: "PDU \<Rightarrow> u32 \<Rightarrow> u32 \<Rightarrow> Connection \<Rightarrow> unit result \<times> Connection" where
  "handleTextRequest pdu expCmdSN maxCmdSN c =
     (let c1 = cn_nextStatSN c;
          targetInfo = (if cn_session c1 \<noteq> None
                        then ''TargetName='' @ TargetName (cn_params c1) @ [CHR 0x00] @
                             ''TargetAddress='' @ cn_localAddr c1 @ '',1'' @ [CHR 0x00]
                        else []);
          rsp = bhs_put 0 [OpcodeTextRsp] newPDU;
          rsp = bhs_put 1 [0x80] rsp;
          rsp = SetInitiatorTaskTag (InitiatorTaskTag pdu) rsp;
          rsp = bhs_put 20 (put_u32 0xFFFFFFFF) rsp;
          rsp = set_sns (cn_statSN c1) expCmdSN maxCmdSN rsp;
          rsp = (if targetInfo \<noteq> [] then rsp\<lparr>DataSegment := str_bytes targetInfo\<rparr> else rsp)
      in case WritePDU (cn_conn c1) rsp of (r, conn) \<Rightarrow> (r, c1\<lparr>cn_conn := conn\<rparr>))"

text \<open>The simple handlers answer with a fresh status number.\<close>

definition respond ::
    "(net_conn \<Rightarrow> PDU \<Rightarrow> u32 \<Rightarrow> u32 \<Rightarrow> u32 \<Rightarrow> unit result \<times> net_conn) \<Rightarrow> PDU \<Rightarrow> u32 \<Rightarrow> u32 \<Rightarrow> Connection \<Rightarrow> unit result \<times> Connection" where
  "respond handle pdu expCmdSN maxCmdSN c =
     (let c1 = cn_nextStatSN c
      in case handle (cn_conn c1) pdu (cn_statSN c1) expCmdSN maxCmdSN of (r, conn) \<Rightarrow> (r, c1\<lparr>cn_conn := conn\<rparr>))"

definition dispatch ::
    "'b Handler \<Rightarrow> PDU \<Rightarrow> Connection \<times> 'b \<Rightarrow> (unit result \<times> Connection \<times> 'b) option" where
  "dispatch h pdu s =
     (case s of (c0, b) \<Rightarrow>
        let opcode = Opcode pdu;
            c = (if opcode \<noteq> OpcodeDataOut
                 then c0\<lparr>cn_expCmdSN := CmdSN pdu + 1, cn_maxCmdSN := CmdSN pdu + 1 + 31\<rparr> else c0);
            expCmdSN = cn_expCmdSN c; maxCmdSN = cn_maxCmdSN c;
            plain = (\<lambda>(r, c1). Some (r, c1, b)) in
        if opcode = OpcodeSCSICmd then handleSCSICommand h pdu expCmdSN maxCmdSN (c, b)
        else if opcode = OpcodeDataOut then handleDataOut h pdu expCmdSN maxCmdSN (c, b)
        else if opcode = OpcodeNopOut then plain (respond handleNopOut pdu expCmdSN maxCmdSN c)
        else if opcode = OpcodeTMFReq then plain (respond handleTMFRequest pdu expCmdSN maxCmdSN c)
        else if opcode = OpcodeLogoutReq then
          plain (case respond handleLogout pdu expCmdSN maxCmdSN c of
                   (Inl err, c1) \<Rightarrow> (Inl err, c1)
                 | (Inr _, c1) \<Rightarrow> (Inl (Errorf ''logout requested''), cn_close c1))
        else if opcode = OpcodeTextReq then plain (handleTextRequest pdu expCmdSN maxCmdSN c)
        else Some (Inr (), c, b))"

section \<open>The read loop\<close>

text \<open>Handling a PDU leaves the incoming stream alone; so the loop, which takes a PDU off it in every round, ends.\<close>

lemma WritePDU_snd_in [simp]: "c_in (snd (WritePDU c p)) = c_in c"
  by (cases "WritePDU c p") (auto dest: WritePDU_in)

lemma dataIn_loop_in: "dataIn_loop itt lun data ss es ms m off sn c = (r, c') \<Longrightarrow> c_in c' = c_in c"
proof (induction itt lun data ss es ms m off sn c rule: dataIn_loop.induct)
  case (1 itt lun data ss es ms m off sn c)
  then show ?case
    by (subst (asm) (2) dataIn_loop.simps) (auto simp: Let_def dest: WritePDU_in split: if_splits prod.splits sum.splits)
qed

lemma sendDataIn_in: "sendDataIn c itt lun data ss es ms m = (r, c') \<Longrightarrow> c_in c' = c_in c"
  unfolding sendDataIn_def by (rule dataIn_loop_in)

lemma execSCSI_in: "execSCSI h params req w ss es ms c b = Some (r, c', b') \<Longrightarrow> c_in c' = c_in c"
  by (auto simp: execSCSI_def Let_def sendSCSIResponse_def dest!: sendDataIn_in WritePDU_in
      split: option.splits if_splits prod.splits sum.splits)

lemma handleSCSICmd_in: "handleSCSICmd h params req ss es ms c m b = Some (r, c', m', b') \<Longrightarrow> c_in c' = c_in c"
  by (auto simp: handleSCSICmd_def Let_def sendR2T_def dest!: execSCSI_in WritePDU_in split: option.splits if_splits prod.splits)

lemma completeWriteCommand_in: "completeWriteCommand h req cdb w ss es ms c b = Some (r, c', b') \<Longrightarrow> c_in c' = c_in c"
  by (auto simp: completeWriteCommand_def sendSCSIResponse_def dest!: WritePDU_in split: option.splits prod.splits)

lemma dispatch_in: "dispatch h pdu (c, b) = Some (r, c', b') \<Longrightarrow> c_in (cn_conn c') = c_in (cn_conn c)"
proof -
  have sc: "c_in (cn_conn c') = c_in (cn_conn c)" if "handleSCSICommand h pdu es ms (c, b) = Some (r, c', b')" for es ms and c c' :: Connection
    using that by (auto simp: handleSCSICommand_def cn_nextStatSN_def Let_def dest!: handleSCSICmd_in split: option.splits if_splits)
  have dd: "c_in (cn_conn c') = c_in (cn_conn c)" if "handleDataOut h pdu es ms (c, b) = Some (r, c', b')" for es ms and c c' :: Connection
    using that by (auto simp: handleDataOut_def cn_nextStatSN_def Let_def dest!: completeWriteCommand_in
        split: option.splits sum.splits prod.splits)
  have rs: "c_in (cn_conn c') = c_in (cn_conn c)" if "respond f pdu es ms c = (r, c')" "\<And>n e m. c_in (snd (f (cn_conn c) pdu n e m)) = c_in (cn_conn c)"
    for f es ms r and c c' :: Connection
    using that by (auto simp: respond_def cn_nextStatSN_def Let_def split: prod.splits) (metis snd_conv)
  have f: "c_in (snd (handleNopOut d pdu n e m)) = c_in d" "c_in (snd (handleTMFRequest d pdu n e m)) = c_in d"
    "c_in (snd (handleLogout d pdu n e m)) = c_in d" for d n e m
    by (simp_all add: handleNopOut_def handleTMFRequest_def handleLogout_def Let_def)
  have tx: "c_in (cn_conn c') = c_in (cn_conn c)" if "handleTextRequest pdu es ms c = (r, c')" for es ms r and c c' :: Connection
    using that by (auto simp: handleTextRequest_def cn_nextStatSN_def Let_def dest!: WritePDU_in split: prod.splits)
  assume "dispatch h pdu (c, b) = Some (r, c', b')"
  then show ?thesis
    by (auto simp: dispatch_def Let_def cn_close_def f dest!: sc dd tx rs split: if_splits prod.splits sum.splits)
qed


text \<open>\<^verbatim>\<open>Run\<close> returns when reading fails or a handler reports an error; what remains is the state of the connection and the device.\<close>

function cn_Run :: "'b Handler \<Rightarrow> Connection \<times> 'b \<Rightarrow> (Connection \<times> 'b) option" where
  "cn_Run h (c, b) =
     (case ReadPDU (cn_conn c) of
        (Inl err, conn) \<Rightarrow> Some (c\<lparr>cn_conn := conn\<rparr>, b)
      | (Inr pdu, conn) \<Rightarrow>
          (case dispatch h pdu (c\<lparr>cn_conn := conn\<rparr>, b) of
             None \<Rightarrow> None
           | Some (Inl err, c1, b1) \<Rightarrow> Some (c1, b1)
           | Some (Inr _, c1, b1) \<Rightarrow> cn_Run h (c1, b1)))"
  by pat_completeness auto
termination
  by (relation "measure (\<lambda>(h, c, b). length (c_in (cn_conn c)))")
    (auto dest!: ReadPDU_shrinks [OF sym] dispatch_in)

declare cn_Run.simps [simp del]


section \<open>Exchanges on the wire\<close>

text \<open>Setting the length field of a PDU changes nothing else that the handlers look at.\<close>

lemma bslice_sent: "length (BHS p) = BHSSize \<Longrightarrow> 8 \<le> i \<Longrightarrow> j \<le> BHSSize \<Longrightarrow> bslice i j (BHS (pdu_sent p)) = bslice i j (BHS p)"
  by (simp add: pdu_sent_def SetDataSegmentLength_def bhs_put_def bslice_blit)

lemma sent_fields:
  assumes "length (BHS p) = BHSSize"
  shows "InitiatorTaskTag (pdu_sent p) = InitiatorTaskTag p" "cmd_cdb (pdu_sent p) = cmd_cdb p" "LUN (pdu_sent p) = LUN p"
    "cmd_expectedLen (pdu_sent p) = cmd_expectedLen p" "pdu_bufferOffset (pdu_sent p) = pdu_bufferOffset p"
    "pdu_final (pdu_sent p) = pdu_final p" "CmdSN (pdu_sent p) = CmdSN p" "BHS (pdu_sent p) ! 1 = BHS p ! 1" "BHS (pdu_sent p) ! Suc 0 = BHS p ! Suc 0"
    "Opcode (pdu_sent p) = Opcode p"
  using assms BHS_sent_nth [of p 1]
  by (simp_all add: InitiatorTaskTag_def cmd_cdb_def LUN_def cmd_expectedLen_def pdu_bufferOffset_def pdu_final_def CmdSN_def bslice_sent)

lemma segment_of_sent [simp]: "length (BHS p) = BHSSize \<Longrightarrow> segment_of D (pdu_sent p) = segment_of D p"
  by (simp add: segment_of_def sent_fields)

lemma cn_Run_step:
  assumes "pdu_wf p" and "c_in (cn_conn c) = pdu_wire p @ rest"
    and "dispatch h (pdu_sent p) (c\<lparr>cn_conn := (cn_conn c)\<lparr>c_in := rest\<rparr>\<rparr>, b) = Some (Inr (), c', b')"
  shows "cn_Run h (c, b) = cn_Run h (c', b')"
proof -
  have "ReadPDU ((cn_conn c)\<lparr>c_in := pdu_wire p @ rest\<rparr>) = (Inr (pdu_sent p), (cn_conn c)\<lparr>c_in := rest\<rparr>)"
    by (rule ReadPDU_wire [OF assms(1)])
  moreover have "(cn_conn c)\<lparr>c_in := pdu_wire p @ rest\<rparr> = cn_conn c" using assms(2) by simp
  ultimately show ?thesis using assms(3) by (subst cn_Run.simps) simp
qed

text \<open>The Data-Out PDUs of a transfer, none of them final, only fill the reassembly buffer.\<close>

lemma run_data_outs:
  assumes "\<forall>p \<in> set ps. pdu_wf p \<and> Opcode p = OpcodeDataOut"
    and "addAll (map pdu_sent ps) (cn_reassembly c) = Some m"
    and "c_in (cn_conn c) = concat (map pdu_wire ps) @ rest"
  shows "cn_Run h (c, b) = cn_Run h (c\<lparr>cn_conn := (cn_conn c)\<lparr>c_in := rest\<rparr>, cn_reassembly := m\<rparr>, b)"
  using assms
proof (induction ps arbitrary: c)
  case Nil
  then have "c\<lparr>cn_conn := (cn_conn c)\<lparr>c_in := rest\<rparr>, cn_reassembly := m\<rparr> = c" by auto
  then show ?case by simp
next
  case (Cons p ps)
  then have wf: "pdu_wf p" "length (BHS p) = BHSSize" and op: "Opcode p = OpcodeDataOut" by (auto simp: pdu_wf_def)
  obtain m1 where m1: "addDataOut (pdu_sent p) (cn_reassembly c) = Some (Inr None, m1)" "addAll (map pdu_sent ps) m1 = Some m"
    using Cons.prems(2) by (auto split: option.splits sum.splits prod.splits)
  let ?c = "c\<lparr>cn_conn := (cn_conn c)\<lparr>c_in := concat (map pdu_wire ps) @ rest\<rparr>\<rparr>"
  have "dispatch h (pdu_sent p) (?c, b) = Some (Inr (), ?c\<lparr>cn_reassembly := m1\<rparr>, b)"
    using op wf m1 by (simp add: dispatch_def handleDataOut_def sent_fields OpcodeDataOut_def OpcodeSCSICmd_def Let_def)
  then have "cn_Run h (c, b) = cn_Run h (?c\<lparr>cn_reassembly := m1\<rparr>, b)"
    using Cons.prems(3) by (intro cn_Run_step [OF wf(1)]) simp_all
  also have "\<dots> = cn_Run h ((?c\<lparr>cn_reassembly := m1\<rparr>)\<lparr>cn_conn := (cn_conn (?c\<lparr>cn_reassembly := m1\<rparr>))\<lparr>c_in := rest\<rparr>, cn_reassembly := m\<rparr>, b)"
    by (rule Cons.IH) (use Cons.prems m1 in auto)
  finally show ?case by simp
qed


lemma WritePDU_quiet: "c_script c = [] \<Longrightarrow> pdu_wf p \<Longrightarrow> WritePDU c p = (Inr (), c\<lparr>c_out := c_out c @ pdu_wire p\<rparr>)"
  using WritePDU_no_faults [of c p] WritePDU_ok [of p c "()"] by auto

lemma dataIn_loop_quiet:
  "c_script c = [] \<Longrightarrow> \<exists>c'. dataIn_loop itt lun data ss es ms m off sn c = (Inr (), c') \<and> c_script c' = []"
proof (induction itt lun data ss es ms m off sn c rule: dataIn_loop.induct)
  case (1 itt lun data ss es ms m off sn c)
  obtain out where w: "WritePDU c p = (Inr (), c\<lparr>c_out := out p\<rparr>)" for p using WritePDU_no_faults [OF "1.prems"] by metis
  show ?case using "1.IH" "1.prems" w by (subst dataIn_loop.simps) (auto simp: Let_def)
qed

lemma sendDataIn_quiet: "c_script c = [] \<Longrightarrow> \<exists>c'. sendDataIn c itt lun data ss es ms m = (Inr (), c') \<and> c_script c' = []"
  unfolding sendDataIn_def by (rule dataIn_loop_quiet)

lemmas response_eval = Let_def set_sns_def SetInitiatorTaskTag_def SetStatSN_def SetExpCmdSN_def SetMaxCmdSN_def newPDU_def bhs_put_def

lemma r2tPDU_wf: "length (BHS req) = BHSSize \<Longrightarrow> pdu_wf (r2tPDU req itt off len ss es ms)"
  by (simp add: r2tPDU_def response_eval pdu_wf_def nth_blit zeros_def)

lemma scsiResponsePDU_wf: "length sense < 2 ^ 16 \<Longrightarrow> pdu_wf (scsiResponsePDU req st sense ss es ms)"
  by (simp add: scsiResponsePDU_def response_eval pdu_wf_def nth_blit zeros_def)

lemma scsiResponsePDU_status:
  "BHS (scsiResponsePDU req st sense ss es ms) ! 3 = st" "Opcode (scsiResponsePDU req st sense ss es ms) = OpcodeSCSIRsp"
  "InitiatorTaskTag (scsiResponsePDU req st sense ss es ms) = InitiatorTaskTag req"
  by (simp_all add: scsiResponsePDU_def response_eval nth_blit zeros_def Opcode_def OpcodeSCSIRsp_def InitiatorTaskTag_def bslice_blit bslice_blit_eq)

lemma Execute_sense: "Execute h cdb out b = Some ((d, st, sense, err), b') \<Longrightarrow> err = None \<and> length sense < 2 ^ 16"
  using Execute_ok [of h cdb out b "(d, st, sense, err)" b'] by (auto simp: answer_ok_def)

text \<open>
  A write whose data is solicited: the command is answered with an R2T for all of it; the Data-Out PDUs fill the buffer; the
  final one executes the command on the assembled data and the response goes out.
\<close>

lemma write_exchange:
  fixes c :: Connection
  assumes wf: "pdu_wf cmd" "\<forall>p \<in> set ps. pdu_wf p" "pdu_wf q"
    and op: "Opcode cmd = OpcodeSCSICmd" "\<forall>p \<in> set ps. Opcode p = OpcodeDataOut" "Opcode q = OpcodeDataOut"
    and cmd: "BHS cmd ! 1 AND SCSICmdFlagWrite \<noteq> 0" "BHS cmd ! 1 AND SCSICmdFlagFinal = 0" "DataSegment cmd = []"
      "cmd_expectedLen cmd = of_nat (length D)" "InitiatorTaskTag cmd = itt"
    and c: "c_script (cn_conn c) = []" "InitialR2T (cn_params c)"
    and D: "0 < length D" "length D < 2 ^ 32"
    and segs: "\<forall>p \<in> set ps. InitiatorTaskTag p = itt \<and> segment_of D p \<and> \<not> pdu_final p"
      "InitiatorTaskTag q = itt" "segment_of D q" "pdu_final q" "covered (q # ps) = {..<length D}"
    and stream: "c_in (cn_conn c) = pdu_wire cmd @ concat (map pdu_wire ps) @ pdu_wire q @ rest"
    and exec: "Execute h (cmd_cdb cmd) D b = Some ((dataIn, st, sense, None), b')"
  shows "\<exists>c'. cn_Run h (c, b) = cn_Run h (c', b') \<and> c_in (cn_conn c') = rest \<and> c_script (cn_conn c') = [] \<and> cn_params c' = cn_params c \<and>
    cn_statSN c' = cn_statSN c + 2 \<and>
    c_out (cn_conn c') = c_out (cn_conn c) @
      pdu_wire (r2tPDU (pdu_sent cmd) itt 0 (of_nat (length D)) (cn_statSN c + 1) (CmdSN cmd + 1) (CmdSN cmd + 1 + 31)) @
      pdu_wire (scsiResponsePDU (pdu_sent cmd) st sense (cn_statSN c + 2) (CmdSN cmd + 1) (CmdSN cmd + 1 + 31))"
proof -
  have len: "length (BHS cmd) = BHSSize" "length (BHS q) = BHSSize" "p \<in> set ps \<Longrightarrow> length (BHS p) = BHSSize" for p
    using wf by (auto simp: pdu_wf_def)
  let ?es = "CmdSN cmd + 1" and ?ms = "CmdSN cmd + 1 + 31" and ?sn = "cn_statSN c + 1"
  let ?r2t = "r2tPDU (pdu_sent cmd) itt 0 (of_nat (length D)) ?sn ?es ?ms"
  let ?m0 = "initBuffer itt (of_nat (length D)) (cn_reassembly c)"
  define c1 where "c1 = c\<lparr>cn_expCmdSN := ?es, cn_maxCmdSN := ?ms, cn_pendingCDB := AList.update itt (cmd_cdb cmd) (cn_pendingCDB c),
      cn_pendingReq := AList.update itt (pdu_sent cmd) (cn_pendingReq c), cn_statSN := ?sn, cn_reassembly := ?m0,
      cn_conn := (cn_conn c)\<lparr>c_in := concat (map pdu_wire ps) @ pdu_wire q @ rest, c_out := c_out (cn_conn c) @ pdu_wire ?r2t\<rparr>\<rparr>"
  have pos: "(of_nat (length D) :: u32) > 0" using D by (simp add: word_less_nat_alt unat_of_nat take_bit_nat_eq_self)
  have r2t: "pdu_wf ?r2t" using len by (intro r2tPDU_wf) simp
  have "dispatch h (pdu_sent cmd) (c\<lparr>cn_conn := (cn_conn c)\<lparr>c_in := concat (map pdu_wire ps) @ pdu_wire q @ rest\<rparr>\<rparr>, b) = Some (Inr (), c1, b)"
    using op(1) cmd c pos len r2t
    by (simp add: dispatch_def handleSCSICommand_def handleSCSICmd_def sent_fields addImmediate_def sendR2T_def cn_nextStatSN_def
        WritePDU_quiet OpcodeSCSICmd_def OpcodeDataOut_def Let_def c1_def)
  then have "cn_Run h (c, b) = cn_Run h (c1, b)" using stream by (intro cn_Run_step [OF wf(1)])
  have cov: "covered (pdu_sent q # map pdu_sent ps) = {..<length D}" using segs(5) len by (simp add: covered_def sent_fields)
  obtain m1 where m1: "addAll (map pdu_sent ps) ?m0 = Some m1" "addDataOut (pdu_sent q) m1 = Some (Inr (Some D), AList.delete itt m1)"
    using reassembly_complete [OF D(2), of "map pdu_sent ps" itt "pdu_sent q" "cn_reassembly c"] segs len cov
    by (auto simp: sent_fields)
  define c2 where "c2 = c1\<lparr>cn_conn := (cn_conn c1)\<lparr>c_in := pdu_wire q @ rest\<rparr>, cn_reassembly := m1\<rparr>"
  have "cn_Run h (c1, b) = cn_Run h (c2, b)"
    unfolding c2_def by (rule run_data_outs [OF _ _ _]) (use wf op m1 in \<open>auto simp: c1_def\<close>)
  let ?rsp = "scsiResponsePDU (pdu_sent cmd) st sense (?sn + 1) ?es ?ms"
  define c3 where "c3 = c2\<lparr>cn_reassembly := AList.delete itt m1, cn_pendingCDB := AList.delete itt (cn_pendingCDB c2),
      cn_pendingReq := AList.delete itt (cn_pendingReq c2), cn_statSN := ?sn + 1,
      cn_conn := (cn_conn c2)\<lparr>c_in := rest, c_out := c_out (cn_conn c2) @ pdu_wire ?rsp\<rparr>\<rparr>"
  have rsp: "pdu_wf ?rsp" using Execute_sense [OF exec] by (intro scsiResponsePDU_wf) simp
  have "dispatch h (pdu_sent q) (c2\<lparr>cn_conn := (cn_conn c2)\<lparr>c_in := rest\<rparr>\<rparr>, b) = Some (Inr (), c3, b')"
    using op(3) len m1(2) segs(2) exec rsp c(1)
    by (simp add: dispatch_def handleDataOut_def sent_fields completeWriteCommand_def sendSCSIResponse_def cn_nextStatSN_def
        WritePDU_quiet OpcodeSCSICmd_def OpcodeDataOut_def Let_def c1_def c2_def c3_def update_conv')
  then have "cn_Run h (c2, b) = cn_Run h (c3, b')" by (intro cn_Run_step [OF wf(3)]) (simp add: c2_def)
  then have run: "cn_Run h (c, b) = cn_Run h (c3, b')"
    using \<open>cn_Run h (c, b) = cn_Run h (c1, b)\<close> \<open>cn_Run h (c1, b) = cn_Run h (c2, b)\<close> by simp
  have sn: "?sn + 1 = cn_statSN c + 2" by simp
  show ?thesis
    by (intro exI [of _ c3] conjI, rule run) (use c(1) in \<open>simp_all add: c1_def c2_def c3_def sn del: one_add_one\<close>)
qed

text \<open>A command that reads: its data goes out in Data-In PDUs, then the response.\<close>

lemma read_exchange:
  fixes c :: Connection
  assumes wf: "pdu_wf cmd" and op: "Opcode cmd = OpcodeSCSICmd"
    and cmd: "BHS cmd ! 1 AND SCSICmdFlagWrite = 0" "BHS cmd ! 1 AND SCSICmdFlagRead \<noteq> 0"
    and c: "c_script (cn_conn c) = []" "MaxRecvDataSegmentLength (cn_params c) < 2 ^ 24"
    and stream: "c_in (cn_conn c) = pdu_wire cmd @ rest"
    and exec: "Execute h (cmd_cdb cmd) [] b = Some (scsi_good data, b')" and data: "data \<noteq> []"
  shows "\<exists>c' ps. cn_Run h (c, b) = cn_Run h (c', b') \<and> c_in (cn_conn c') = rest \<and> c_script (cn_conn c') = [] \<and>
    cn_params c' = cn_params c \<and> cn_statSN c' = cn_statSN c + 1 \<and> concat (map DataSegment ps) = data \<and> (\<forall>p \<in> set ps. InitiatorTaskTag p = InitiatorTaskTag cmd) \<and>
    c_out (cn_conn c') = c_out (cn_conn c) @ concat (map pdu_wire ps) @
      pdu_wire (scsiResponsePDU (pdu_sent cmd) StatusGood [] (cn_statSN c + 1) (CmdSN cmd + 1) (CmdSN cmd + 1 + 31))"
proof -
  have len: "length (BHS cmd) = BHSSize" using wf by (auto simp: pdu_wf_def)
  let ?es = "CmdSN cmd + 1" and ?ms = "CmdSN cmd + 1 + 31" and ?sn = "cn_statSN c + 1" and ?itt = "InitiatorTaskTag cmd"
  let ?m = "if MaxRecvDataSegmentLength (cn_params c) \<le> 0 then DefaultMaxRecvDataSegmentLength else MaxRecvDataSegmentLength (cn_params c)"
  let ?ps = "dataIn_pdus ?itt (LUN cmd) data ?sn ?es ?ms ?m 0 0"
  let ?rsp = "scsiResponsePDU (pdu_sent cmd) StatusGood [] ?sn ?es ?ms"
  have m: "effRecvLen ?m < 2 ^ 24" using c(2) by (auto simp: effRecvLen_def DefaultMaxRecvDataSegmentLength_def)
  obtain d where d: "sendDataIn ((cn_conn c)\<lparr>c_in := rest\<rparr>) ?itt (LUN cmd) data ?sn ?es ?ms ?m = (Inr (), d)" "c_script d = []"
    using sendDataIn_quiet [of "(cn_conn c)\<lparr>c_in := rest\<rparr>" ?itt "LUN cmd" data ?sn ?es ?ms ?m] c(1) by auto
  have out: "c_out d = c_out (cn_conn c) @ concat (map pdu_wire ?ps) \<and> c_in d = rest"
    using dataIn_loop_sends [OF m data, of ?itt "LUN cmd" ?sn ?es ?ms 0 0] d(1) by (simp add: sendDataIn_def)
  define c1 where "c1 = c\<lparr>cn_expCmdSN := ?es, cn_maxCmdSN := ?ms, cn_statSN := ?sn, cn_conn := d\<lparr>c_out := c_out d @ pdu_wire ?rsp\<rparr>\<rparr>"
  have rsp: "pdu_wf ?rsp" by (intro scsiResponsePDU_wf) simp
  have "execSCSI h (cn_params c) (pdu_sent cmd) [] ?sn ?es ?ms ((cn_conn c)\<lparr>c_in := rest\<rparr>) b = Some (Inr (), d\<lparr>c_out := c_out d @ pdu_wire ?rsp\<rparr>, b')"
    using cmd len exec d rsp data
    by (simp add: execSCSI_def sent_fields sendSCSIResponse_def WritePDU_quiet scsi_good_def Let_def split del: if_split)
  then have "dispatch h (pdu_sent cmd) (c\<lparr>cn_conn := (cn_conn c)\<lparr>c_in := rest\<rparr>\<rparr>, b) = Some (Inr (), c1, b')"
    using op cmd len
    by (simp add: dispatch_def handleSCSICommand_def handleSCSICmd_def sent_fields cn_nextStatSN_def
        OpcodeSCSICmd_def OpcodeDataOut_def Let_def c1_def)
  then have run: "cn_Run h (c, b) = cn_Run h (c1, b')" using stream by (intro cn_Run_step [OF wf])
  have cc: "concat (map DataSegment ?ps) = data" using dataIn_pdus_concat [of 0 data] by simp
  have tags: "\<forall>p \<in> set ?ps. InitiatorTaskTag p = ?itt"
    using dataIn_pdus_nth [of _ ?itt "LUN cmd" data ?sn ?es ?ms ?m 0 0] by (auto simp: in_set_conv_nth Let_def)
  have fin: "c_in (cn_conn c1) = rest" "c_script (cn_conn c1) = []" "cn_params c1 = cn_params c" "cn_statSN c1 = cn_statSN c + 1"
    "c_out (cn_conn c1) = c_out (cn_conn c) @ concat (map pdu_wire ?ps) @ pdu_wire ?rsp"
    using d(2) out by (simp_all add: c1_def)
  show ?thesis by (rule exI [of _ c1], rule exI [of _ ?ps]) (intro conjI run cc tags fin)
qed


text \<open>A SCSI command PDU for the concrete runs.\<close>

definition cmd_pdu :: "u8 \<Rightarrow> u32 \<Rightarrow> u32 \<Rightarrow> bytes \<Rightarrow> PDU" where
  "cmd_pdu flags itt len cdb =
     bhs_put 32 cdb (bhs_put 20 (put_u32 len) (SetInitiatorTaskTag itt (bhs_put 0 [OpcodeSCSICmd, flags] newPDU)))"

lemma cmd_pdu_fields [simp]:
  assumes "length cdb = 16"
  shows "pdu_wf (cmd_pdu flags itt len cdb)" "Opcode (cmd_pdu flags itt len cdb) = OpcodeSCSICmd"
    "BHS (cmd_pdu flags itt len cdb) ! 1 = flags" "BHS (cmd_pdu flags itt len cdb) ! Suc 0 = flags" "DataSegment (cmd_pdu flags itt len cdb) = []"
    "cmd_cdb (cmd_pdu flags itt len cdb) = cdb" "cmd_expectedLen (cmd_pdu flags itt len cdb) = len"
    "InitiatorTaskTag (cmd_pdu flags itt len cdb) = itt"
  using assms
  by (simp_all add: cmd_pdu_def newPDU_def SetInitiatorTaskTag_def bhs_put_def pdu_wf_def Opcode_def OpcodeSCSICmd_def nth_blit zeros_def
      cmd_cdb_def cmd_expectedLen_def InitiatorTaskTag_def bslice_blit bslice_blit_eq)

section \<open>Properties\<close>

text \<open>
  A write command with the final bit set is executed at once on its immediate data, whatever was negotiated. RFC 7143 has
  initiators set the bit whenever no unsolicited Data-Out PDUs follow, which with \<^verbatim>\<open>InitialR2T=Yes\<close> is always; such a write of
  more than the immediate data is not solicited but answered with CHECK CONDITION, the device is left as it was, and
  the command stays in the table of pending commands.
\<close>

theorem iscsi_final_write_fails:
  assumes "pdu_wf cmd" and "Opcode cmd = OpcodeSCSICmd" and "BHS cmd ! 1 AND SCSICmdFlagWrite \<noteq> 0"
    and "BHS cmd ! 1 AND SCSICmdFlagFinal \<noteq> 0" and "rw_fits f lba n" and "cmd_cdb cmd = rw_cdb f True fl grp ctl lba n @ pad"
    and "length (DataSegment cmd) < sectorSize * unat n" and "unat (cmd_expectedLen cmd) = sectorSize * unat n"
    and "c_script (cn_conn c) = []" and "c_in (cn_conn c) = pdu_wire cmd @ rest"
  shows "\<exists>c'. cn_Run h (c, b) = cn_Run h (c', b) \<and> c_in (cn_conn c') = rest \<and>
    map_of (cn_pendingCDB c') (InitiatorTaskTag cmd) = Some (cmd_cdb cmd) \<and>
    c_out (cn_conn c') = c_out (cn_conn c) @ pdu_wire (scsiResponsePDU (SetDataSegmentLength (of_nat (length (DataSegment cmd))) cmd)
      StatusCheckCondition SenseMediumError (cn_statSN c + 1) (CmdSN cmd + 1) (CmdSN cmd + 1 + 31))"
proof -
  have len: "length (BHS cmd) = BHSSize" using assms(1) by (auto simp: pdu_wf_def)
  let ?es = "CmdSN cmd + 1" and ?ms = "CmdSN cmd + 1 + 31" and ?sn = "cn_statSN c + 1" and ?itt = "InitiatorTaskTag cmd"
  let ?rsp = "scsiResponsePDU (pdu_sent cmd) StatusCheckCondition SenseMediumError ?sn ?es ?ms"
  define c1 where "c1 = c\<lparr>cn_expCmdSN := ?es, cn_maxCmdSN := ?ms, cn_pendingCDB := AList.update ?itt (cmd_cdb cmd) (cn_pendingCDB c),
      cn_pendingReq := AList.update ?itt (pdu_sent cmd) (cn_pendingReq c), cn_statSN := ?sn,
      cn_conn := (cn_conn c)\<lparr>c_in := rest, c_out := c_out (cn_conn c) @ pdu_wire ?rsp\<rparr>\<rparr>"
  have ex: "Execute h (cmd_cdb cmd) (DataSegment cmd) b = Some (scsi_check SenseMediumError, b)"
    using execute_write [OF assms(5), of h fl grp ctl pad "DataSegment cmd" b] assms(6,7) by simp
  have rsp: "pdu_wf ?rsp" by (intro scsiResponsePDU_wf) (simp add: SenseMediumError_def BuildSense_def)
  have n: "length (DataSegment cmd) < 2 ^ 32" using assms(1) by (simp add: pdu_wf_def)
  have big: "of_nat (length (DataSegment cmd)) < cmd_expectedLen cmd"
    using n assms(7,8) by (simp add: word_less_nat_alt unat_of_nat take_bit_nat_eq_self)
  have "dispatch h (pdu_sent cmd) (c\<lparr>cn_conn := (cn_conn c)\<lparr>c_in := rest\<rparr>\<rparr>, b) = Some (Inr (), c1, b)"
    using assms(2-4,9) len ex rsp big
    by (simp add: dispatch_def handleSCSICommand_def handleSCSICmd_def execSCSI_def sent_fields sendSCSIResponse_def cn_nextStatSN_def
        WritePDU_quiet scsi_check_def OpcodeSCSICmd_def OpcodeDataOut_def Let_def c1_def)
  then have "cn_Run h (c, b) = cn_Run h (c1, b)" using assms(10) by (intro cn_Run_step [OF assms(1)])
  then show ?thesis
    by (intro exI [of _ c1] conjI) (simp_all add: c1_def update_conv' flip: pdu_sent_def)
qed

definition demo_conn :: "bytes \<Rightarrow> Connection" where
  "demo_conn xs = newConnection \<lparr>c_in = xs, c_out = [], c_script = []\<rparr> ''127.0.0.1:3260'' (Some 1) DefaultTargetParams"

definition demo_handler :: "(Emulator, unit) ZTL Handler" where
  "demo_handler = NewHandler (ztl_blockDevice (\<lambda>x. x) (\<lambda>x. x) em_dev None 0) ''ZNS'' (zeros 16)"

theorem iscsi_final_write_fails_witness:
  "\<exists>c'. cn_Run demo_handler (demo_conn (pdu_wire (cmd_pdu 0xA0 7 512 (rw_cdb Sixteen True 0 0 0 8 1)) @ []), ztl_demo) =
       cn_Run demo_handler (c', ztl_demo) \<and>
     map_of (cn_pendingCDB c') 7 = Some (rw_cdb Sixteen True 0 0 0 8 1)"
proof -
  let ?cmd = "cmd_pdu 0xA0 7 512 (rw_cdb Sixteen True 0 0 0 8 1)"
  have l: "length (rw_cdb Sixteen True 0 0 0 8 1) = 16" by (rule length_rw_cdb)
  note f = cmd_pdu_fields [OF l]
  have "rw_fits Sixteen 8 1" by simp
  from iscsi_final_write_fails [of ?cmd Sixteen 8 1 0 0 0 "[]" "demo_conn (pdu_wire ?cmd @ [])" "[]" demo_handler ztl_demo, OF f(1,2) _ _ this]
  show ?thesis by (auto simp: f demo_conn_def newConnection_def SCSICmdFlagWrite_def SCSICmdFlagFinal_def simp del: rw_cdb.simps)
qed

end
