(* ===== verification/Session.thy ===== *)
theory Session
  imports Connection Config
begin

unbundle bit_operations_syntax

text \<open>
  Sessions and the server: \<^verbatim>\<open>internal/iscsi/session.go\<close> and the connection handler of \<^verbatim>\<open>internal/iscsi/server.go\<close>. The code keeps
  pointers to sessions, so the manager has a heap of sessions and the table maps handles to addresses in it; connections are
  named by numbers. Every method runs under the manager's or the session's lock and is one step.
\<close>

section \<open>Sessions\<close>

record Session =
  ses_ISID :: bytes
  ses_TSIH :: u16
  ses_Params :: Params
  ses_connections :: "nat list"

record SessionManager =
  sm_sessions :: "(u16 \<times> nat) list"
  sm_maxSessions :: int
  sm_nextTSIH :: u32
  sm_heap :: "Session list"

definition on_session :: "nat \<Rightarrow> (Session \<Rightarrow> Session) \<Rightarrow> SessionManager \<Rightarrow> SessionManager" where
  "on_session a f m = m\<lparr>sm_heap := (sm_heap m)[a := f (sm_heap m ! a)]\<rparr>"

definition AddConnection :: "nat \<Rightarrow> nat \<Rightarrow> SessionManager \<Rightarrow> SessionManager" where
  "AddConnection a c = on_session a (\<lambda>s. s\<lparr>ses_connections := ses_connections s @ [c]\<rparr>)"

definition RemoveConnection :: "nat \<Rightarrow> nat \<Rightarrow> SessionManager \<Rightarrow> SessionManager" where
  "RemoveConnection a c = on_session a (\<lambda>s. s\<lparr>ses_connections := remove1 c (ses_connections s)\<rparr>)"

definition ConnectionCount :: "nat \<Rightarrow> SessionManager \<Rightarrow> nat" where
  "ConnectionCount a m = length (ses_connections (sm_heap m ! a))"

definition NewSessionManager :: "int \<Rightarrow> SessionManager" where
  "NewSessionManager maxSessions = \<lparr>sm_sessions = [], sm_maxSessions = maxSessions, sm_nextTSIH = 0, sm_heap = []\<rparr>"

text \<open>\<^verbatim>\<open>nextTSIH.Add(1)\<close> wraps at 32 bits; its lower half is the handle, and 0 is skipped.\<close>

definition CreateSession :: "bytes \<Rightarrow> Params \<Rightarrow> SessionManager \<Rightarrow> nat result \<times> SessionManager" where
  "CreateSession isid params m =
     (if int (length (sm_sessions m)) \<ge> sm_maxSessions m then (Inl (Errorf ''maximum sessions reached''), m)
      else
        let n1 = sm_nextTSIH m + 1;
            t1 = (ucast (n1 AND 0xFFFF) :: u16);
            n2 = (if t1 = 0 then n1 + 1 else n1);
            tsih = (if t1 = 0 then ucast (n2 AND 0xFFFF) else t1);
            s = \<lparr>ses_ISID = isid, ses_TSIH = tsih, ses_Params = params, ses_connections = []\<rparr>;
            a = length (sm_heap m)
        in (Inr a, m\<lparr>sm_nextTSIH := n2, sm_heap := sm_heap m @ [s], sm_sessions := AList.update tsih a (sm_sessions m)\<rparr>))"

definition GetSession :: "u16 \<Rightarrow> SessionManager \<Rightarrow> nat option" where
  "GetSession tsih m = map_of (sm_sessions m) tsih"

definition RemoveSession :: "u16 \<Rightarrow> SessionManager \<Rightarrow> SessionManager" where
  "RemoveSession tsih m = m\<lparr>sm_sessions := AList.delete tsih (sm_sessions m)\<rparr>"

definition SessionCount :: "SessionManager \<Rightarrow> nat" where
  "SessionCount m = length (sm_sessions m)"

section \<open>The manager as a state machine\<close>

text \<open>A step is labelled with the number of sessions it creates.\<close>

inductive sm_step :: "SessionManager \<Rightarrow> nat \<Rightarrow> SessionManager \<Rightarrow> bool" where
  create: "CreateSession isid params m = (Inr a, m') \<Longrightarrow> sm_step m 1 m'"
| refuse: "CreateSession isid params m = (Inl e, m') \<Longrightarrow> sm_step m 0 m'"
| remove: "sm_step m 0 (RemoveSession tsih m)"
| attach: "GetSession tsih m = Some a \<Longrightarrow> sm_step m 0 (AddConnection a c m)"
| detach: "GetSession tsih m = Some a \<Longrightarrow> sm_step m 0 (RemoveConnection a c m)"

inductive_cases sm_stepE: "sm_step m n m'"

inductive sm_reach :: "int \<Rightarrow> nat \<Rightarrow> SessionManager \<Rightarrow> bool" for maxSessions where
  start: "sm_reach maxSessions 0 (NewSessionManager maxSessions)"
| step: "sm_reach maxSessions n m \<Longrightarrow> sm_step m k m' \<Longrightarrow> sm_reach maxSessions (n + k) m'"

text \<open>
  The table has one entry per handle, never handle 0, its sessions know their own handle, and there are never more of them
  than allowed.
\<close>

definition sm_inv :: "SessionManager \<Rightarrow> bool" where
  "sm_inv m \<longleftrightarrow> distinct (map fst (sm_sessions m)) \<and>
     (\<forall>(t, a) \<in> set (sm_sessions m). t \<noteq> 0 \<and> a < length (sm_heap m) \<and> ses_TSIH (sm_heap m ! a) = t) \<and>
     int (length (sm_sessions m)) \<le> max 0 (sm_maxSessions m)"

definition sm_handle :: "u32 \<Rightarrow> u16 \<times> u32" where
  "sm_handle n = (if (ucast (n + 1) :: u16) = 0 then (ucast (n + 2), n + 2) else (ucast (n + 1), n + 1))"

lemma ucast_low: "(ucast (n AND 0xFFFF :: u32) :: u16) = ucast n"
proof -
  have "n AND 0xFFFF = take_bit 16 n" by (simp add: take_bit_eq_mask mask_eq_exp_minus_1)
  then show ?thesis by (intro bit_word_eqI) (simp add: bit_simps)
qed

lemma unat_low: "unat (ucast (n + of_nat k :: u32) :: u16) = (unat n + k) mod 65536"
  by (simp add: unsigned_ucast_eq unat_word_ariths take_bit_nat_def unat_of_nat mod_simps mod_mod_cancel)

lemma sm_handle_nat:
  "unat (fst (sm_handle n)) = (if (unat n + 1) mod 65536 = 0 then 1 else (unat n + 1) mod 65536)"
proof -
  have z: "(ucast (n + 1) :: u16) = 0 \<longleftrightarrow> (unat n + 1) mod 65536 = 0"
    using unat_low [of n 1] by (simp add: unat_eq_0 [symmetric])
  have "(unat n + 2) mod 65536 = 1" if "(unat n + 1) mod 65536 = 0" using that by (simp add: mod_Suc numeral_2_eq_2)
  then show ?thesis using unat_low [of n 1] unat_low [of n 2] z by (auto simp: sm_handle_def)
qed

lemma sm_handle_nonzero [simp]: "fst (sm_handle n) \<noteq> 0"
  using sm_handle_nat [of n] by (auto split: if_splits)

lemma CreateSession_handle:
  "CreateSession isid params m =
     (if int (length (sm_sessions m)) \<ge> sm_maxSessions m then (Inl (Errorf ''maximum sessions reached''), m)
      else (Inr (length (sm_heap m)),
        m\<lparr>sm_nextTSIH := snd (sm_handle (sm_nextTSIH m)),
          sm_heap := sm_heap m @ [\<lparr>ses_ISID = isid, ses_TSIH = fst (sm_handle (sm_nextTSIH m)), ses_Params = params, ses_connections = []\<rparr>],
          sm_sessions := AList.update (fst (sm_handle (sm_nextTSIH m))) (length (sm_heap m)) (sm_sessions m)\<rparr>))"
  by (simp add: CreateSession_def sm_handle_def ucast_low Let_def add.assoc)


lemma RemoveSession_inv: "sm_inv m \<Longrightarrow> sm_inv (RemoveSession t m)"
proof -
  assume i: "sm_inv m"
  have "int (length (AList.delete t (sm_sessions m))) \<le> int (length (sm_sessions m))" by (simp add: AList.delete_eq)
  also have "\<dots> \<le> max 0 (sm_maxSessions m)" using i by (simp add: sm_inv_def)
  finally show ?thesis using i by (auto simp: sm_inv_def RemoveSession_def AList.delete_eq distinct_map_filter)
qed

lemma on_session_inv:
  assumes "sm_inv m" and "\<And>s. ses_TSIH (f s) = ses_TSIH s"
  shows "sm_inv (on_session a f m)"
proof -
  have "ses_TSIH ((sm_heap m)[a := f (sm_heap m ! a)] ! b) = ses_TSIH (sm_heap m ! b)" if "b < length (sm_heap m)" for b
    using that assms(2) by (cases "a = b") simp_all
  then show ?thesis using assms(1) by (auto simp: sm_inv_def on_session_def)
qed

lemma length_update_le: "length (AList.update k v xs) \<le> Suc (length xs)"
  by (induction xs) auto

lemma update_fresh: "k \<notin> fst ` set xs \<Longrightarrow> AList.update k v xs = xs @ [(k, v)]"
  by (induction xs) auto

lemma delete_fresh: "k \<notin> fst ` set xs \<Longrightarrow> AList.delete k (xs @ [(k, v)]) = xs"
  by (induction xs) auto

lemma fst_in_update: "p \<in> set (AList.update k v xs) \<Longrightarrow> fst p = k \<or> p \<in> set xs"
  by (induction xs) (auto split: if_splits)

lemma in_update: "distinct (map fst xs) \<Longrightarrow> (t, a) \<in> set (AList.update k v xs) \<Longrightarrow> t = k \<and> a = v \<or> t \<noteq> k \<and> (t, a) \<in> set xs"
  using map_of_eq_Some_iff [of "AList.update k v xs" t a] map_of_eq_Some_iff [of xs t a]
  by (auto simp: distinct_update update_conv' split: if_splits)

lemma CreateSession_inv:
  assumes "sm_inv m" and "CreateSession isid params m = (r, m')"
  shows "sm_inv m'"
proof (cases "int (length (sm_sessions m)) \<ge> sm_maxSessions m")
  case False
  let ?t = "fst (sm_handle (sm_nextTSIH m))" and ?a = "length (sm_heap m)"
  have "int (length (AList.update ?t ?a (sm_sessions m))) \<le> sm_maxSessions m"
    using False length_update_le [of ?t ?a "sm_sessions m"] by linarith
  moreover have d: "distinct (map fst (sm_sessions m))" using assms(1) by (simp add: sm_inv_def)
  moreover have "t \<noteq> 0 \<and> a < length (sm_heap m) \<and> ses_TSIH (sm_heap m ! a) = t" if "(t, a) \<in> set (sm_sessions m)" for t a
    using assms(1) that by (auto simp: sm_inv_def)
  ultimately show ?thesis using assms(2) False
    by (fastforce simp: CreateSession_handle sm_inv_def distinct_update [OF d] nth_append dest!: in_update [OF d])
next
  case True
  then show ?thesis using assms by (simp add: CreateSession_def)
qed

lemma sm_step_inv: "sm_step m k m' \<Longrightarrow> sm_inv m \<Longrightarrow> sm_inv m' \<and> sm_maxSessions m' = sm_maxSessions m"
proof (erule sm_stepE, goal_cases)
  case (1 isid params a)
  then show ?thesis using CreateSession_inv by (auto simp: CreateSession_handle split: if_splits)
next
  case (2 isid params e)
  then show ?thesis by (simp add: CreateSession_def Let_def split: if_splits)
next
  case (3 t)
  then show ?thesis using RemoveSession_inv by (simp add: RemoveSession_def)
next
  case (4 t a c)
  then show ?thesis using on_session_inv [of m "\<lambda>s. s\<lparr>ses_connections := ses_connections s @ [c]\<rparr>" a]
    by (simp add: AddConnection_def) (simp add: on_session_def)
next
  case (5 t a c)
  then show ?thesis using on_session_inv [of m "\<lambda>s. s\<lparr>ses_connections := remove1 c (ses_connections s)\<rparr>" a]
    by (simp add: RemoveConnection_def) (simp add: on_session_def)
qed

lemma sm_reach_inv: "sm_reach mx n m \<Longrightarrow> sm_inv m \<and> sm_maxSessions m = mx"
proof (induction rule: sm_reach.induct)
  case start
  show ?case by (simp add: sm_inv_def NewSessionManager_def)
next
  case (step n m k m')
  then show ?case using sm_step_inv by auto
qed

text \<open>For the first \<open>65535\<close> sessions the counter is their number, and the handles in use are at most that.\<close>

lemma sm_handle_early: "unat n < 65535 \<Longrightarrow> unat (fst (sm_handle n)) = unat n + 1 \<and> unat (snd (sm_handle n)) = unat n + 1"
proof -
  assume n: "unat n < 65535"
  then have s: "unat (n + 1) = unat n + 1" by (simp add: unat_word_ariths)
  have "(ucast (n + 1) :: u16) \<noteq> 0" using n unat_low [of n 1] by auto
  then show ?thesis using n s unat_low [of n 1] by (simp add: sm_handle_def)
qed

definition sm_early :: "nat \<Rightarrow> SessionManager \<Rightarrow> bool" where
  "sm_early n m \<longleftrightarrow> unat (sm_nextTSIH m) = n \<and> (\<forall>t \<in> fst ` set (sm_sessions m). unat t \<le> n)"

lemma sm_reach_early: "sm_reach mx n m \<Longrightarrow> n \<le> 65535 \<Longrightarrow> sm_early n m"
proof (induction rule: sm_reach.induct)
  case start
  show ?case by (simp add: sm_early_def NewSessionManager_def)
next
  case (step n m k m')
  from step.hyps(2) show ?case
  proof cases
    case (create isid params a)
    then have "sm_early n m" "unat (sm_nextTSIH m) < 65535" using step by (auto simp: sm_early_def)
    then show ?thesis
      using create sm_handle_early [of "sm_nextTSIH m"]
      by (fastforce simp: sm_early_def CreateSession_handle split: if_splits dest!: fst_in_update)
  next
    case (refuse isid params e)
    then show ?thesis using step by (simp add: CreateSession_def Let_def split: if_splits)
  qed (use step in \<open>auto simp: sm_early_def RemoveSession_def AddConnection_def RemoveConnection_def on_session_def AList.delete_eq\<close>)
qed

section \<open>The server\<close>

record 'b Server =
  sv_cfg :: Config
  sv_target :: Target
  sv_scsiHandler :: "'b Handler"
  sv_sessionManager :: SessionManager

definition NewServer :: "Config \<Rightarrow> Target \<Rightarrow> 'b Handler \<Rightarrow> 'b Server" where
  "NewServer cfg target scsiHandler =
     \<lparr>sv_cfg = cfg, sv_target = target, sv_scsiHandler = scsiHandler,
      sv_sessionManager = NewSessionManager (tc_MaxSessions (cfg_Target cfg))\<rparr>"

definition sv_SessionCount :: "'b Server \<Rightarrow> nat" where
  "sv_SessionCount sv = SessionCount (sv_sessionManager sv)"

definition server_auth :: "'b Server \<Rightarrow> LoginAuthConfig" where
  "server_auth sv =
     (let auth = tc_Auth (cfg_Target (sv_cfg sv))
      in \<lparr>la_Enabled = ac_Enabled auth, la_CHAPUser = ac_CHAPUser auth, la_CHAPSecret = ac_CHAPSecret auth\<rparr>)"

text \<open>When \<^verbatim>\<open>Run\<close> returns, the connection takes itself out of its session.\<close>

definition cleanup :: "Connection \<Rightarrow> nat \<Rightarrow> nat \<Rightarrow> SessionManager \<Rightarrow> SessionManager" where
  "cleanup c a cid m = (if cn_session c \<noteq> None then RemoveConnection a cid m else m)"

text \<open>
  \<^verbatim>\<open>handleConnection\<close>: login, a session, the full feature phase, and the session removed again on return. \<open>localAddr\<close> is what
  \<^verbatim>\<open>conn.LocalAddr()\<close> prints, \<open>rnd\<close> the random bytes of a challenge, \<open>ord\<close> the order in which Go walks a map, and \<open>cid\<close> names the
  connection object. The result is what the network saw, the server and the block device.
\<close>

definition handleConnection ::
    "kv_order \<Rightarrow> bytes result \<times> bytes result \<Rightarrow> string \<Rightarrow> nat \<Rightarrow> net_conn \<Rightarrow> 'b Server \<times> 'b \<Rightarrow> (net_conn \<times> 'b Server \<times> 'b) option" where
  "handleConnection ord rnd localAddr cid conn s =
     (case s of (sv, b) \<Rightarrow>
        case login_Run ord rnd (newLoginHandler conn (server_auth sv) (tgt_IQN (sv_target sv)) 0) of
          (Inl err, loginH) \<Rightarrow> Some (lh_conn loginH, sv, b)
        | (Inr (params0, cmdSN), loginH) \<Rightarrow>
            let params = params0\<lparr>TargetName := tgt_IQN (sv_target sv)\<rparr> in
            case CreateSession (lh_isid loginH) params (sv_sessionManager sv) of
              (Inl err, m) \<Rightarrow> Some (lh_conn loginH, sv\<lparr>sv_sessionManager := m\<rparr>, b)
            | (Inr a, m) \<Rightarrow>
                let tsih = ses_TSIH (sm_heap m ! a);
                    c = (newConnection (lh_conn loginH) localAddr (Some tsih) params)
                          \<lparr>cn_statSN := lh_statSN loginH, cn_expCmdSN := cmdSN + 1, cn_maxCmdSN := cmdSN + 32\<rparr>;
                    m1 = AddConnection a cid m
                in case cn_Run (sv_scsiHandler sv) (c, b) of
                     None \<Rightarrow> None
                   | Some (c1, b1) \<Rightarrow> Some (cn_conn c1, sv\<lparr>sv_sessionManager := RemoveSession tsih (cleanup c1 a cid m1)\<rparr>, b1))"

section \<open>Properties\<close>

text \<open>
  In every state the session manager reaches, by any sequence of creations, removals and connection changes, each handle belongs
  to one session, which knows it, handle 0 (which the protocol reserves) is never given out, and the limit of sessions holds.
\<close>

theorem sessions_consistent:
  assumes "sm_reach maxSessions n m" and "GetSession tsih m = Some a"
  shows "tsih \<noteq> 0 \<and> a < length (sm_heap m) \<and> ses_TSIH (sm_heap m ! a) = tsih \<and> int (SessionCount m) \<le> maxSessions"
proof -
  have "(tsih, a) \<in> set (sm_sessions m)" using assms(2) by (simp add: GetSession_def map_of_SomeD)
  moreover from this have "0 < length (sm_sessions m)" by (cases "sm_sessions m") auto
  ultimately show ?thesis using sm_reach_inv [OF assms(1)] by (auto simp: sm_inv_def SessionCount_def max_def split: if_splits)
qed

lemma sm_reach_one: "0 < mx \<Longrightarrow> \<exists>m. sm_reach mx 1 m \<and> sm_sessions m = [(1, 0)] \<and> sm_nextTSIH m = 1"
proof -
  assume "0 < mx"
  have "CreateSession [] DefaultTargetParams (NewSessionManager mx) = (Inr 0, snd (CreateSession [] DefaultTargetParams (NewSessionManager mx)))"
    using \<open>0 < mx\<close> by (simp add: CreateSession_def NewSessionManager_def Let_def)
  from sm_reach.step [OF sm_reach.start sm_step.create [OF this]] show ?thesis
    using \<open>0 < mx\<close> by (auto simp: CreateSession_def NewSessionManager_def Let_def)
qed

theorem sessions_consistent_witness:
  "\<exists>m a. GetSession 1 m = Some a \<and> ses_TSIH (sm_heap m ! a) = 1 \<and> int (SessionCount m) \<le> 4"
proof -
  obtain m where "sm_reach 4 1 m" "sm_sessions m = [(1, 0)]" using sm_reach_one [of 4] by auto
  with sessions_consistent [OF this(1), of 1 0] show ?thesis by (intro exI [of _ m] exI [of _ 0]) (auto simp: GetSession_def)
qed

lemma CreateSession_fresh:
  assumes "sm_reach maxSessions n m" and "n < 65535" and "int (SessionCount m) < maxSessions"
  shows "\<exists>a m'. CreateSession isid params m = (Inr a, m') \<and> unat (ses_TSIH (sm_heap m' ! a)) = n + 1 \<and>
    ses_TSIH (sm_heap m' ! a) \<notin> fst ` set (sm_sessions m) \<and> sm_sessions m' = sm_sessions m @ [(ses_TSIH (sm_heap m' ! a), a)]"
proof -
  have e: "sm_early n m" using sm_reach_early [OF assms(1)] assms(2) by simp
  then have n: "unat (sm_nextTSIH m) = n" by (simp add: sm_early_def)
  let ?t = "fst (sm_handle (sm_nextTSIH m))"
  have t: "unat ?t = n + 1" using sm_handle_early [of "sm_nextTSIH m"] n assms(2) by simp
  then have "?t \<notin> fst ` set (sm_sessions m)" using e by (auto simp: sm_early_def)
  then show ?thesis using assms(3) sm_reach_inv [OF assms(1)] t by (simp add: CreateSession_handle SessionCount_def update_fresh)
qed

lemma CreateSession_full: "CreateSession isid params m = (Inr a, m') \<Longrightarrow> int (SessionCount m) < sm_maxSessions m"
  by (auto simp: CreateSession_handle SessionCount_def split: if_splits)

text \<open>
  The first \<open>65535\<close> sessions get the handles \<open>1, 2, \<dots>\<close> in turn: a new session never takes the handle of one that is still
  there, and all sessions keep theirs.
\<close>

theorem session_handles_fresh:
  assumes "sm_reach maxSessions n m" and "n < 65535" and "CreateSession isid params m = (Inr a, m')"
  shows "unat (ses_TSIH (sm_heap m' ! a)) = n + 1 \<and> GetSession (of_nat (n + 1)) m = None \<and> GetSession (of_nat (n + 1)) m' = Some a \<and>
    SessionCount m' = SessionCount m + 1 \<and> (\<forall>t b. GetSession t m = Some b \<longrightarrow> GetSession t m' = Some b)"
proof -
  have "int (SessionCount m) < maxSessions" using CreateSession_full [OF assms(3)] sm_reach_inv [OF assms(1)] by simp
  from CreateSession_fresh [OF assms(1,2) this, of isid params] assms(3) have t: "unat (ses_TSIH (sm_heap m' ! a)) = n + 1"
    "ses_TSIH (sm_heap m' ! a) \<notin> fst ` set (sm_sessions m)" "sm_sessions m' = sm_sessions m @ [(ses_TSIH (sm_heap m' ! a), a)]"
    by auto
  have t': "ses_TSIH (sm_heap m' ! a) = of_nat (n + 1)"
    using assms(2) t(1) by (simp add: word_unat_eq_iff unat_of_nat take_bit_nat_eq_self del: of_nat_add of_nat_Suc)
  have "map_of (sm_sessions m) (ses_TSIH (sm_heap m' ! a)) = None" using t(2) by (simp add: map_of_eq_None_iff)
  then show ?thesis using t unfolding t' [symmetric]
    by (auto simp: GetSession_def SessionCount_def map_add_def split: option.splits)
qed

theorem session_handles_fresh_witness:
  "\<exists>m a m'. CreateSession [] DefaultTargetParams m = (Inr a, m') \<and> GetSession 1 m = Some 0 \<and> GetSession 1 m' = Some 0 \<and> GetSession 2 m' = Some a"
proof -
  obtain m where m: "sm_reach 4 1 m" "sm_sessions m = [(1, 0)]" using sm_reach_one [of 4] by auto
  then have "CreateSession [] DefaultTargetParams m = (Inr (length (sm_heap m)), snd (CreateSession [] DefaultTargetParams m))"
    using sm_reach_inv [OF m(1)] by (simp add: CreateSession_def Let_def)
  from session_handles_fresh [OF m(1) _ this] this m show ?thesis
    by (intro exI [of _ m] exI [of _ "length (sm_heap m)"] exI) (auto simp: GetSession_def)
qed

text \<open>
  After that, handles are reused without looking whether they are free. With a limit of at least two sessions there is a
  reachable state with one session, of handle 1, in which the next \<^verbatim>\<open>CreateSession\<close> gives handle 1 to a new session and drops the old
  one from the table; when the connection of the dropped session ends, it removes the new one.
\<close>

lemma sm_reach_cycle: "2 \<le> mx \<Longrightarrow> n \<le> 65534 \<Longrightarrow>
    \<exists>m. sm_reach mx (Suc n) m \<and> sm_sessions m = [(1, 0)] \<and> unat (sm_nextTSIH m) = Suc n"
proof (induction n)
  case 0
  then show ?case using sm_reach_one [of mx] by auto
next
  case (Suc n)
  then obtain m where m: "sm_reach mx (Suc n) m" "sm_sessions m = [(1, 0)]" "unat (sm_nextTSIH m) = Suc n" by auto
  let ?t = "fst (sm_handle (sm_nextTSIH m))" and ?m = "snd (CreateSession [] DefaultTargetParams m)"
  have h: "unat ?t = n + 2" "unat (snd (sm_handle (sm_nextTSIH m))) = n + 2"
    using sm_handle_early [of "sm_nextTSIH m"] m(3) Suc.prems by auto
  then have ne: "?t \<noteq> 1" by auto
  have c: "CreateSession [] DefaultTargetParams m = (Inr (length (sm_heap m)), ?m)"
    using sm_reach_inv [OF m(1)] m(2) Suc.prems by (simp add: CreateSession_handle)
  have "sm_reach mx (Suc n + 1 + 0) (RemoveSession ?t ?m)"
    by (intro sm_reach.step [OF sm_reach.step [OF m(1) sm_step.create [OF c]]] sm_step.remove)
  moreover have "sm_sessions (RemoveSession ?t ?m) = [(1, 0)]" "unat (sm_nextTSIH (RemoveSession ?t ?m)) = Suc (Suc n)"
    using sm_reach_inv [OF m(1)] m(2) Suc.prems ne h by (simp_all add: CreateSession_handle RemoveSession_def)
  ultimately show ?case by (intro exI [of _ "RemoveSession ?t ?m"]) simp
qed

theorem session_handle_reused:
  assumes "2 \<le> maxSessions"
  shows "\<exists>n m a m'. sm_reach maxSessions n m \<and> GetSession 1 m = Some 0 \<and> CreateSession isid params m = (Inr a, m') \<and> a \<noteq> 0 \<and>
    GetSession 1 m' = Some a \<and> SessionCount m' = 1 \<and> SessionCount (RemoveSession 1 m') = 0"
proof -
  obtain m where m: "sm_reach maxSessions 65535 m" "sm_sessions m = [(1, 0)]" "unat (sm_nextTSIH m) = 65535"
    using sm_reach_cycle [OF assms, of 65534] by auto
  have "unat (fst (sm_handle (sm_nextTSIH m))) = 1" using sm_handle_nat [of "sm_nextTSIH m"] m(3) by simp
  then have t: "fst (sm_handle (sm_nextTSIH m)) = 1" by (simp add: word_unat_eq_iff)
  have "0 < length (sm_heap m)" using sm_reach_inv [OF m(1)] m(2) by (auto simp: sm_inv_def)
  moreover obtain m' where "CreateSession isid params m = (Inr (length (sm_heap m)), m')" "sm_sessions m' = [(1, length (sm_heap m))]"
    using sm_reach_inv [OF m(1)] m(2) assms t by (simp add: CreateSession_handle)
  ultimately show ?thesis using m
    by (intro exI [of _ 65535] exI [of _ m] exI [of _ "length (sm_heap m)"] exI [of _ m'])
      (simp add: GetSession_def SessionCount_def RemoveSession_def)
qed

theorem session_handle_reused_witness:
  "\<exists>n m a m'. sm_reach 4 n m \<and> GetSession 1 m = Some 0 \<and> CreateSession (zeros 6) DefaultTargetParams m = (Inr a, m') \<and> a \<noteq> 0 \<and>
    GetSession 1 m' = Some a"
  using session_handle_reused [of 4 "zeros 6" DefaultTargetParams] by fastforce

end
