(* ===== verification/Listener.thy ===== *)
theory Listener
  imports Session
begin

text \<open>
  The life of the iSCSI server: \<^verbatim>\<open>Listen\<close> and \<^verbatim>\<open>Shutdown\<close> of \<^verbatim>\<open>internal/iscsi/server.go\<close>. Both block and run beside each other, beside the
  goroutine that closes the listener when the context ends and beside the goroutines of the connections; so they are a step
  relation, with the points at which another goroutine may run between two steps. What happens on a connection is
  \<open>handleConnection\<close> of \<open>Session\<close>.
\<close>

section \<open>State\<close>

text \<open>
  \<^verbatim>\<open>Listen\<close>: before \<^verbatim>\<open>net.Listen\<close>, before the listener is stored, in \<^verbatim>\<open>Accept\<close>, with a connection in hand but before \<^verbatim>\<open>wg.Add(1)\<close>, with an error of
  \<^verbatim>\<open>Accept\<close> in hand, returned. \<^verbatim>\<open>Shutdown\<close>: before the call, after it has set the flag and read \<^verbatim>\<open>s.listener\<close> (was it set?), waiting, returned.
\<close>

datatype listen_pc = Unstarted | Bound | Accepting | Taken | AcceptFailed | Returned "unit result"
datatype shutdown_pc = NotCalled | Flagged bool | Waiting bool | ShutDown bool "unit result"

record ServerRun =
  sr_listener :: bool
  sr_open :: bool
  sr_stopped :: bool
  sr_cancelled :: bool
  sr_wg :: nat
  sr_listen :: listen_pc
  sr_shutdown :: shutdown_pc

definition newServerRun :: ServerRun where
  "newServerRun = \<lparr>sr_listener = False, sr_open = False, sr_stopped = False, sr_cancelled = False, sr_wg = 0,
     sr_listen = Unstarted, sr_shutdown = NotCalled\<rparr>"

definition listenAddr :: "Config \<Rightarrow> string" where
  "listenAddr cfg = (if tc_Portal (cfg_Target cfg) = '''' then ''0.0.0.0:3260'' else tc_Portal (cfg_Target cfg))"

section \<open>Steps\<close>

text \<open>A step of \<^verbatim>\<open>Listen\<close>. \<^verbatim>\<open>Accept\<close> returns a connection only while the listener is open, and may fail at any time.\<close>

inductive listen_step :: "ServerRun \<Rightarrow> ServerRun \<Rightarrow> bool" where
  bind_fails: "sr_listen s = Unstarted \<Longrightarrow> listen_step s (s\<lparr>sr_listen := Returned (Inl (Wrap ''listening on'' e))\<rparr>)"
| bind: "sr_listen s = Unstarted \<Longrightarrow> listen_step s (s\<lparr>sr_listen := Bound, sr_open := True\<rparr>)"
| register: "sr_listen s = Bound \<Longrightarrow> listen_step s (s\<lparr>sr_listen := Accepting, sr_listener := True\<rparr>)"
| accept: "sr_listen s = Accepting \<Longrightarrow> sr_open s \<Longrightarrow> listen_step s (s\<lparr>sr_listen := Taken\<rparr>)"
| add: "sr_listen s = Taken \<Longrightarrow> listen_step s (s\<lparr>sr_listen := Accepting, sr_wg := sr_wg s + 1\<rparr>)"
| accept_fails: "sr_listen s = Accepting \<Longrightarrow> listen_step s (s\<lparr>sr_listen := AcceptFailed\<rparr>)"
| stop: "sr_listen s = AcceptFailed \<Longrightarrow>
    listen_step s (s\<lparr>sr_listen := Returned (if sr_stopped s then Inr () else Inl (Wrap ''accepting connection'' e))\<rparr>)"

text \<open>A step of \<^verbatim>\<open>Shutdown\<close>.\<close>

inductive shutdown_step :: "ServerRun \<Rightarrow> ServerRun \<Rightarrow> bool" where
  flag: "sr_shutdown s = NotCalled \<Longrightarrow> shutdown_step s (s\<lparr>sr_shutdown := Flagged (sr_listener s), sr_stopped := True\<rparr>)"
| close: "sr_shutdown s = Flagged b \<Longrightarrow> shutdown_step s (s\<lparr>sr_shutdown := Waiting b, sr_open := (sr_open s \<and> \<not> b)\<rparr>)"
| drained: "sr_shutdown s = Waiting b \<Longrightarrow> sr_wg s = 0 \<Longrightarrow> shutdown_step s (s\<lparr>sr_shutdown := ShutDown b (Inr ())\<rparr>)"
| times_out: "sr_shutdown s = Waiting b \<Longrightarrow> shutdown_step s (s\<lparr>sr_shutdown := ShutDown b (Inl e)\<rparr>)"

text \<open>
  The system: besides the two, the context is cancelled, the goroutine of \<^verbatim>\<open>Listen\<close> that waits for it closes the listener, and a connection ends.
\<close>

inductive server_step :: "ServerRun \<Rightarrow> ServerRun \<Rightarrow> bool" where
  listening: "listen_step s s' \<Longrightarrow> server_step s s'"
| shutting: "shutdown_step s s' \<Longrightarrow> server_step s s'"
| cancel: "server_step s (s\<lparr>sr_cancelled := True\<rparr>)"
| ctx_done: "sr_cancelled s \<Longrightarrow> sr_listener s \<Longrightarrow> server_step s (s\<lparr>sr_open := False\<rparr>)"
| conn_done: "0 < sr_wg s \<Longrightarrow> server_step s (s\<lparr>sr_wg := sr_wg s - 1\<rparr>)"

inductive_cases listen_stepE: "listen_step s s'"
inductive_cases shutdown_stepE: "shutdown_step s s'"
inductive_cases server_stepE: "server_step s s'"

inductive server_reach :: "ServerRun \<Rightarrow> bool" where
  started: "server_reach newServerRun"
| moved: "server_reach s \<Longrightarrow> server_step s s' \<Longrightarrow> server_reach s'"

section \<open>Invariant\<close>

text \<open>Connections that are served or about to be.\<close>

definition inFlight :: "ServerRun \<Rightarrow> nat" where
  "inFlight s = sr_wg s + (if sr_listen s = Taken then 1 else 0)"

fun closed_listener :: "shutdown_pc \<Rightarrow> bool" where
  "closed_listener NotCalled \<longleftrightarrow> False"
| "closed_listener (Flagged b) \<longleftrightarrow> False"
| "closed_listener (Waiting b) \<longleftrightarrow> b"
| "closed_listener (ShutDown b r) \<longleftrightarrow> b"

definition closed_by_shutdown :: "ServerRun \<Rightarrow> bool" where
  "closed_by_shutdown s \<longleftrightarrow> closed_listener (sr_shutdown s)"

definition server_inv :: "ServerRun \<Rightarrow> bool" where
  "server_inv s \<longleftrightarrow>
     (sr_listener s \<longrightarrow> sr_listen s \<noteq> Unstarted \<and> sr_listen s \<noteq> Bound) \<and>
     (sr_shutdown s \<noteq> NotCalled \<longrightarrow> sr_stopped s) \<and>
     (sr_shutdown s = Flagged True \<longrightarrow> sr_listener s) \<and>
     (closed_by_shutdown s \<longrightarrow> sr_listener s \<and> \<not> sr_open s) \<and>
     (sr_shutdown s = ShutDown True (Inr ()) \<longrightarrow> inFlight s \<le> 1)"

lemma listen_step_inv: "listen_step s s' \<Longrightarrow> server_inv s \<Longrightarrow> server_inv s'"
  by (erule listen_stepE; cases "sr_shutdown s") (simp_all add: server_inv_def closed_by_shutdown_def inFlight_def, blast+)

lemma shutdown_step_inv: "shutdown_step s s' \<Longrightarrow> server_inv s \<Longrightarrow> server_inv s'"
  by (erule shutdown_stepE) (simp_all add: server_inv_def closed_by_shutdown_def inFlight_def)

lemma server_step_inv: "server_step s s' \<Longrightarrow> server_inv s \<Longrightarrow> server_inv s'"
proof (erule server_stepE, goal_cases)
  case 1
  then show ?case by (rule listen_step_inv [rotated])
next
  case 2
  then show ?case by (rule shutdown_step_inv [rotated])
qed (simp_all add: server_inv_def closed_by_shutdown_def inFlight_def)

lemma server_reach_inv: "server_reach s \<Longrightarrow> server_inv s"
proof (induction rule: server_reach.induct)
  case started
  show ?case by (simp add: server_inv_def newServerRun_def closed_by_shutdown_def)
qed (rule server_step_inv)

text \<open>When \<^verbatim>\<open>Shutdown\<close> has closed the listener, no further connection is taken, and \<^verbatim>\<open>Listen\<close> can only return without an error.\<close>

lemma shutdown_no_more:
  assumes "server_inv s" and "closed_by_shutdown s" and "server_step s s'"
  shows "closed_by_shutdown s' \<and> inFlight s' \<le> inFlight s \<and> (\<forall>e. sr_listen s' = Returned (Inl e) \<longrightarrow> sr_listen s = Returned (Inl e))"
  using assms(3)
proof (cases rule: server_step.cases)
  case listening
  then show ?thesis using assms(1,2)
    by (elim listen_stepE; cases "sr_shutdown s") (simp_all add: server_inv_def closed_by_shutdown_def inFlight_def)
next
  case shutting
  then show ?thesis using assms(1,2)
    by (elim shutdown_stepE) (simp_all add: server_inv_def closed_by_shutdown_def inFlight_def)
qed (use assms(1,2) in \<open>simp_all add: closed_by_shutdown_def inFlight_def\<close>)

section \<open>Properties\<close>

text \<open>
  C26: a shutdown drains the server, up to one connection. In every state the server reaches, by any interleaving, if \<^verbatim>\<open>Shutdown\<close> has seen the listener and has
  returned without an error, then the listener is closed, at most one connection is still served or about to be, no later step takes another one or lets
  \<^verbatim>\<open>Listen\<close> return an error.
\<close>

theorem shutdown_drains:
  assumes "server_reach s" and "sr_shutdown s = ShutDown True (Inr ())" and "server_step s s'"
  shows "\<not> sr_open s \<and> inFlight s \<le> 1 \<and> sr_shutdown s' = sr_shutdown s \<and> inFlight s' \<le> inFlight s \<and>
    (\<forall>e. sr_listen s' = Returned (Inl e) \<longrightarrow> sr_listen s = Returned (Inl e))"
proof -
  have i: "server_inv s" "closed_by_shutdown s" using server_reach_inv [OF assms(1)] assms(2) by (auto simp: closed_by_shutdown_def)
  have "sr_shutdown s' = sr_shutdown s"
    using assms(3,2) by (elim server_stepE listen_stepE shutdown_stepE) simp_all
  then show ?thesis using shutdown_no_more [OF i assms(3)] i assms(2) by (auto simp: server_inv_def)
qed

text \<open>
  That one connection is there when \<^verbatim>\<open>Shutdown\<close> runs between \<^verbatim>\<open>Accept\<close> and \<^verbatim>\<open>wg.Add(1)\<close>: it finds the counter at zero and returns, and the connection is served
  afterwards.
\<close>

definition race_run :: "ServerRun list" where
  "race_run =
     (let s1 = newServerRun\<lparr>sr_listen := Bound, sr_open := True\<rparr>;
          s2 = s1\<lparr>sr_listen := Accepting, sr_listener := True\<rparr>;
          s3 = s2\<lparr>sr_listen := Taken\<rparr>;
          s4 = s3\<lparr>sr_shutdown := Flagged True, sr_stopped := True\<rparr>;
          s5 = s4\<lparr>sr_shutdown := Waiting True, sr_open := False\<rparr>;
          s6 = s5\<lparr>sr_shutdown := ShutDown True (Inr ())\<rparr>
      in [s1, s2, s3, s4, s5, s6])"

lemma race_reach: "server_reach (last race_run)"
proof -
  let ?s1 = "newServerRun\<lparr>sr_listen := Bound, sr_open := True\<rparr>"
  let ?s2 = "?s1\<lparr>sr_listen := Accepting, sr_listener := True\<rparr>"
  let ?s3 = "?s2\<lparr>sr_listen := Taken\<rparr>"
  let ?s4 = "?s3\<lparr>sr_shutdown := Flagged (sr_listener ?s3), sr_stopped := True\<rparr>"
  let ?s5 = "?s4\<lparr>sr_shutdown := Waiting True, sr_open := (sr_open ?s4 \<and> \<not> True)\<rparr>"
  let ?s6 = "?s5\<lparr>sr_shutdown := ShutDown True (Inr ())\<rparr>"
  have "server_reach ?s1" by (intro server_reach.moved [OF server_reach.started] server_step.listening listen_step.bind) (simp add: newServerRun_def)
  then have "server_reach ?s2" by (rule server_reach.moved) (intro server_step.listening listen_step.register, simp)
  then have "server_reach ?s3" by (rule server_reach.moved) (intro server_step.listening listen_step.accept, simp_all)
  then have "server_reach ?s4" by (rule server_reach.moved) (intro server_step.shutting shutdown_step.flag, simp add: newServerRun_def)
  then have "server_reach ?s5" by (rule server_reach.moved) (intro server_step.shutting shutdown_step.close, simp)
  then have "server_reach ?s6" by (rule server_reach.moved) (intro server_step.shutting shutdown_step.drained, simp_all add: newServerRun_def)
  then show ?thesis by (simp add: race_run_def newServerRun_def Let_def)
qed

theorem shutdown_drains_witness:
  "\<exists>s s'. server_reach s \<and> sr_shutdown s = ShutDown True (Inr ()) \<and> server_step s s' \<and> inFlight s \<le> 1 \<and> sr_wg s' = 1 \<and> inFlight s' \<le> 1"
proof -
  let ?s = "last race_run"
  have st: "server_step ?s (?s\<lparr>sr_listen := Accepting, sr_wg := sr_wg ?s + 1\<rparr>)"
    by (intro server_step.listening listen_step.add) (simp add: race_run_def Let_def)
  have sd: "sr_shutdown ?s = ShutDown True (Inr ())" "sr_wg ?s = 0" by (simp_all add: race_run_def newServerRun_def Let_def)
  from shutdown_drains [OF race_reach sd(1) st] have "inFlight ?s \<le> 1" "inFlight (?s\<lparr>sr_listen := Accepting, sr_wg := sr_wg ?s + 1\<rparr>) \<le> 1" by linarith+
  then show ?thesis using race_reach sd st by (intro exI [of _ ?s] exI [of _ "?s\<lparr>sr_listen := Accepting, sr_wg := sr_wg ?s + 1\<rparr>"]) simp
qed

end
