(* ===== verification/Api.thy ===== *)
theory Api
  imports Config Ztl "HOL-Library.Monad_Syntax"
begin

text \<open>
  The management interface, \<^verbatim>\<open>internal/api\<close>: the responses with their JSON tags (\<^verbatim>\<open>types.go\<close>), the handlers (\<^verbatim>\<open>handlers.go\<close>),
  the interfaces to the other components (\<^verbatim>\<open>interfaces.go\<close>), the metrics (\<^verbatim>\<open>metrics.go\<close>) and the construction of the server with
  its routes (\<^verbatim>\<open>server.go\<close>). \<^verbatim>\<open>encoding/json\<close> is modelled up to the JSON value of a structure. The chi router, the Prometheus
  library and the file server are parameters; a Go \<^verbatim>\<open>float64\<close> is a rational.
\<close>

section \<open>JSON values\<close>

datatype json = JString string | JInt int | JFloat rat | JBool bool | JArray "json list" | JObject "(string \<times> json) list"

abbreviation JUint :: "'a::len word \<Rightarrow> json" where "JUint w \<equiv> JInt (uint w)"

text \<open>The tag \<^verbatim>\<open>omitempty\<close> on a string.\<close>

definition omitempty :: "string \<Rightarrow> string \<Rightarrow> (string \<times> json) list" where
  "omitempty k v = (if v = '''' then [] else [(k, JString v)])"

section \<open>Responses (types.go)\<close>

record HealthResponse =
  hr_Status :: string

record ZoneDetail =
  zdt_ID :: u32
  zdt_State :: string
  zdt_Type :: string
  zdt_WritePointerLBA :: u64
  zdt_ZoneStartLBA :: u64
  zdt_ZoneLengthLBA :: u64
  zdt_ValidSegments :: u32
  zdt_TotalSegments :: u32
  zdt_GCScore :: rat

record ZoneListResponse =
  zl_Zones :: "ZoneDetail list"
  zl_Total :: int

record ISCSIStats =
  is_ActiveSessions :: int
  is_ReadBytesTotal :: u64
  is_WriteBytesTotal :: u64
  is_ReadOpsTotal :: u64
  is_WriteOpsTotal :: u64
  is_ReadLatencyP99 :: rat
  is_WriteLatencyP99 :: rat

record GCStatsResponse =
  gr_Running :: bool
  gr_ZonesReclaimed :: u64
  gr_BytesMigrated :: u64
  gr_RunCount :: u64

record BufferStats =
  bs_DirtyBytes :: u64
  bs_MaxBytes :: u64
  bs_PendingFlushes :: int

record JournalStats =
  js_CurrentLSN :: u64
  js_CheckpointLSN :: u64
  js_SizeBytes :: u64

record DeviceStatsResponse =
  ds_Backend :: string
  ds_Path :: string
  ds_ZoneCount :: int
  ds_ZoneSizeMB :: int
  ds_TotalCapacity :: u64
  ds_MaxOpenZones :: int

record StatsResponse =
  sr_ISCSI :: ISCSIStats
  sr_GC :: GCStatsResponse
  sr_Buffer :: BufferStats
  sr_Journal :: JournalStats
  sr_Device :: DeviceStatsResponse

record ConfigTargetResponse =
  ctr_IQN :: string
  ctr_Portal :: string
  ctr_MaxSessions :: int
  ctr_AuthEnabled :: bool
  ctr_CHAPUser :: string

record ConfigDeviceResponse =
  cdr_Backend :: string
  cdr_Path :: string
  cdr_ZoneCount :: int
  cdr_ZoneSizeMB :: int
  cdr_MaxOpenZones :: int

record ConfigZTLResponse =
  czr_SegmentSizeKB :: int
  czr_BufferSizeMB :: int
  czr_BufferFlushAgeSec :: int
  czr_GCTriggerFreeRatio :: rat
  czr_GCEmergencyFreeZones :: int

record ConfigResponse =
  cr_Target :: ConfigTargetResponse
  cr_Device :: ConfigDeviceResponse
  cr_ZTL :: ConfigZTLResponse
  cr_APIListen :: string

text \<open>What \<^verbatim>\<open>json.Encode\<close> makes of them: the tagged fields, in order.\<close>

definition health_json :: "HealthResponse \<Rightarrow> json" where
  "health_json r = JObject [(''status'', JString (hr_Status r))]"

definition zoneDetail_json :: "ZoneDetail \<Rightarrow> json" where
  "zoneDetail_json z = JObject
     [(''id'', JUint (zdt_ID z)), (''state'', JString (zdt_State z)), (''type'', JString (zdt_Type z)),
      (''write_pointer_lba'', JUint (zdt_WritePointerLBA z)), (''zone_start_lba'', JUint (zdt_ZoneStartLBA z)),
      (''zone_length_lba'', JUint (zdt_ZoneLengthLBA z)), (''valid_segments'', JUint (zdt_ValidSegments z)),
      (''total_segments'', JUint (zdt_TotalSegments z)), (''gc_score'', JFloat (zdt_GCScore z))]"

definition zoneList_json :: "ZoneListResponse \<Rightarrow> json" where
  "zoneList_json r = JObject [(''zones'', JArray (map zoneDetail_json (zl_Zones r))), (''total'', JInt (zl_Total r))]"

definition iscsiStats_json :: "ISCSIStats \<Rightarrow> json" where
  "iscsiStats_json r = JObject
     [(''active_sessions'', JInt (is_ActiveSessions r)), (''read_bytes_total'', JUint (is_ReadBytesTotal r)),
      (''write_bytes_total'', JUint (is_WriteBytesTotal r)), (''read_ops_total'', JUint (is_ReadOpsTotal r)),
      (''write_ops_total'', JUint (is_WriteOpsTotal r)), (''read_latency_p99_ms'', JFloat (is_ReadLatencyP99 r)),
      (''write_latency_p99_ms'', JFloat (is_WriteLatencyP99 r))]"

definition gcStats_json :: "GCStatsResponse \<Rightarrow> json" where
  "gcStats_json r = JObject
     [(''running'', JBool (gr_Running r)), (''zones_reclaimed'', JUint (gr_ZonesReclaimed r)),
      (''bytes_migrated'', JUint (gr_BytesMigrated r)), (''run_count'', JUint (gr_RunCount r))]"

definition bufferStats_json :: "BufferStats \<Rightarrow> json" where
  "bufferStats_json r = JObject
     [(''dirty_bytes'', JUint (bs_DirtyBytes r)), (''max_bytes'', JUint (bs_MaxBytes r)), (''pending_flushes'', JInt (bs_PendingFlushes r))]"

definition journalStats_json :: "JournalStats \<Rightarrow> json" where
  "journalStats_json r = JObject
     [(''current_lsn'', JUint (js_CurrentLSN r)), (''checkpoint_lsn'', JUint (js_CheckpointLSN r)), (''size_bytes'', JUint (js_SizeBytes r))]"

definition deviceStats_json :: "DeviceStatsResponse \<Rightarrow> json" where
  "deviceStats_json r = JObject
     [(''backend'', JString (ds_Backend r)), (''path'', JString (ds_Path r)), (''zone_count'', JInt (ds_ZoneCount r)),
      (''zone_size_mb'', JInt (ds_ZoneSizeMB r)), (''total_capacity_bytes'', JUint (ds_TotalCapacity r)),
      (''max_open_zones'', JInt (ds_MaxOpenZones r))]"

definition stats_json :: "StatsResponse \<Rightarrow> json" where
  "stats_json r = JObject
     [(''iscsi'', iscsiStats_json (sr_ISCSI r)), (''gc'', gcStats_json (sr_GC r)), (''buffer'', bufferStats_json (sr_Buffer r)),
      (''journal'', journalStats_json (sr_Journal r)), (''device'', deviceStats_json (sr_Device r))]"

definition configTarget_json :: "ConfigTargetResponse \<Rightarrow> json" where
  "configTarget_json r = JObject
     ([(''iqn'', JString (ctr_IQN r)), (''portal'', JString (ctr_Portal r)), (''max_sessions'', JInt (ctr_MaxSessions r)),
       (''auth_enabled'', JBool (ctr_AuthEnabled r))] @ omitempty ''chap_user'' (ctr_CHAPUser r))"

definition configDevice_json :: "ConfigDeviceResponse \<Rightarrow> json" where
  "configDevice_json r = JObject
     ([(''backend'', JString (cdr_Backend r))] @ omitempty ''path'' (cdr_Path r) @
      [(''zone_count'', JInt (cdr_ZoneCount r)), (''zone_size_mb'', JInt (cdr_ZoneSizeMB r)), (''max_open_zones'', JInt (cdr_MaxOpenZones r))])"

definition configZTL_json :: "ConfigZTLResponse \<Rightarrow> json" where
  "configZTL_json r = JObject
     [(''segment_size_kb'', JInt (czr_SegmentSizeKB r)), (''buffer_size_mb'', JInt (czr_BufferSizeMB r)),
      (''buffer_flush_age_sec'', JInt (czr_BufferFlushAgeSec r)), (''gc_trigger_free_ratio'', JFloat (czr_GCTriggerFreeRatio r)),
      (''gc_emergency_free_zones'', JInt (czr_GCEmergencyFreeZones r))]"

definition config_json :: "ConfigResponse \<Rightarrow> json" where
  "config_json r = JObject
     [(''target'', configTarget_json (cr_Target r)), (''device'', configDevice_json (cr_Device r)), (''ztl'', configZTL_json (cr_ZTL r)),
      (''api_listen'', JString (cr_APIListen r))]"

section \<open>Interfaces to the other components (interfaces.go)\<close>

text \<open>
  The translation layer is reached through an interface over its state. The two providers of statistics are what their
  methods return when the request arrives.
\<close>

record 'z ZTLProvider =
  zp_ZoneManager :: "'z \<Rightarrow> ZoneManager"
  zp_GCStats :: "'z \<Rightarrow> GCStats"
  zp_WriteBuffer :: "'z \<Rightarrow> WriteBuffer"
  zp_TriggerGC :: "'z \<Rightarrow> 'z"

definition ztl_provider :: "('d, 'j) ZTL ZTLProvider" where
  "ztl_provider = \<lparr>zp_ZoneManager = ztl_zm, zp_GCStats = ztl_gcStats, zp_WriteBuffer = ztl_buf, zp_TriggerGC = ztl_TriggerGC\<rparr>"

record ISCSIStatsProvider =
  isp_ActiveSessions :: int
  isp_ReadBytesTotal :: u64
  isp_WriteBytesTotal :: u64
  isp_ReadOpsTotal :: u64
  isp_WriteOpsTotal :: u64
  isp_ReadLatencyP99Ms :: rat
  isp_WriteLatencyP99Ms :: rat

record JournalStatsProvider =
  jsp_CurrentLSN :: u64
  jsp_SizeBytes :: u64
  jsp_CheckpointLSN :: u64

definition noopISCSIStats :: ISCSIStatsProvider where
  "noopISCSIStats = \<lparr>isp_ActiveSessions = 0, isp_ReadBytesTotal = 0, isp_WriteBytesTotal = 0, isp_ReadOpsTotal = 0,
     isp_WriteOpsTotal = 0, isp_ReadLatencyP99Ms = 0, isp_WriteLatencyP99Ms = 0\<rparr>"

definition noopJournalStats :: JournalStatsProvider where
  "noopJournalStats = \<lparr>jsp_CurrentLSN = 0, jsp_SizeBytes = 0, jsp_CheckpointLSN = 0\<rparr>"

section \<open>Handlers (handlers.go)\<close>

record 'z api_Handler =
  ah_ztl :: "'z ZTLProvider"
  ah_iscsi :: ISCSIStatsProvider
  ah_journal :: JournalStatsProvider
  ah_cfg :: Config

record HandlerConfig =
  hc_ISCSI :: "ISCSIStatsProvider option"
  hc_Journal :: "JournalStatsProvider option"

definition api_NewHandler :: "'z ZTLProvider \<Rightarrow> Config \<Rightarrow> HandlerConfig \<Rightarrow> 'z api_Handler" where
  "api_NewHandler ztlProv cfg hcfg =
     \<lparr>ah_ztl = ztlProv,
      ah_iscsi = (case hc_ISCSI hcfg of Some p \<Rightarrow> p | None \<Rightarrow> noopISCSIStats),
      ah_journal = (case hc_Journal hcfg of Some p \<Rightarrow> p | None \<Rightarrow> noopJournalStats),
      ah_cfg = cfg\<rparr>"

datatype http_body = NoBody | JSONBody json | TextBody string

record HttpResponse =
  rsp_status :: nat
  rsp_contentType :: "string option"
  rsp_body :: http_body

definition writeJSON :: "nat \<Rightarrow> json \<Rightarrow> HttpResponse" where
  "writeJSON status v = \<lparr>rsp_status = status, rsp_contentType = Some ''application/json'', rsp_body = JSONBody v\<rparr>"

definition Health :: "'z api_Handler \<Rightarrow> 'z \<Rightarrow> HttpResponse \<times> 'z" where
  "Health h z = (writeJSON 200 (health_json \<lparr>hr_Status = ''ok''\<rparr>), z)"

fun zoneStateName :: "zone_state \<Rightarrow> string" where
  "zoneStateName ZoneStateEmpty = ''empty''"
| "zoneStateName ZoneStateImplicitOpen = ''implicit_open''"
| "zoneStateName ZoneStateExplicitOpen = ''explicit_open''"
| "zoneStateName ZoneStateClosed = ''closed''"
| "zoneStateName ZoneStateFull = ''full''"
| "zoneStateName ZoneStateReadOnly = ''read_only''"
| "zoneStateName ZoneStateOffline = ''offline''"
| "zoneStateName _ = ''unknown''"

definition zoneDetail :: "ZoneInfo \<Rightarrow> ZoneDetail" where
  "zoneDetail zi =
     \<lparr>zdt_ID = zi_ID zi, zdt_State = zoneStateName (zi_State zi), zdt_Type = ''sequential'',
      zdt_WritePointerLBA = zi_WritePointer zi, zdt_ZoneStartLBA = zi_StartLBA zi, zdt_ZoneLengthLBA = zi_SizeSectors zi,
      zdt_ValidSegments = zi_ValidSegs zi, zdt_TotalSegments = zi_TotalSegs zi, zdt_GCScore = GCScore zi\<rparr>"

definition ListZones :: "'z api_Handler \<Rightarrow> 'z \<Rightarrow> HttpResponse \<times> 'z" where
  "ListZones h z =
     (let zoneInfos = zm_AllZones (zp_ZoneManager (ah_ztl h) z);
          details = map zoneDetail zoneInfos
      in (writeJSON 200 (zoneList_json \<lparr>zl_Zones = details, zl_Total = int (length details)\<rparr>), z))"

definition GetStats :: "'z api_Handler \<Rightarrow> 'z \<Rightarrow> HttpResponse \<times> 'z" where
  "GetStats h z =
     (let zm = zp_ZoneManager (ah_ztl h) z;
          gcSnap = GCStats_Snapshot (zp_GCStats (ah_ztl h) z);
          buf = zp_WriteBuffer (ah_ztl h) z;
          dc = cfg_Device (ah_cfg h);
          gcResp = \<lparr>gr_Running = gss_Running gcSnap, gr_ZonesReclaimed = of_int (gss_ZonesReclaimed gcSnap),
                    gr_BytesMigrated = of_int (gss_BytesMigrated gcSnap), gr_RunCount = of_int (gss_RunCount gcSnap)\<rparr>;
          bufResp = \<lparr>bs_DirtyBytes = of_int (wb_DirtyBytes buf),
                     bs_MaxBytes = of_int (zc_BufferSizeMB (cfg_ZTL (ah_cfg h))) * 1024 * 1024, bs_PendingFlushes = wb_ZoneCount buf\<rparr>;
          journalResp = \<lparr>js_CurrentLSN = jsp_CurrentLSN (ah_journal h), js_CheckpointLSN = jsp_CheckpointLSN (ah_journal h),
                         js_SizeBytes = jsp_SizeBytes (ah_journal h)\<rparr>;
          deviceResp = \<lparr>ds_Backend = dc_Backend dc, ds_Path = dc_Path dc, ds_ZoneCount = zm_TotalZoneCount zm,
                        ds_ZoneSizeMB = ec_ZoneSizeMB (dc_Emulator dc),
                        ds_TotalCapacity = of_int (zm_TotalZoneCount zm) * of_int (ec_ZoneSizeMB (dc_Emulator dc)) * 1024 * 1024,
                        ds_MaxOpenZones = ec_MaxOpenZones (dc_Emulator dc)\<rparr>;
          iscsiResp = \<lparr>is_ActiveSessions = isp_ActiveSessions (ah_iscsi h), is_ReadBytesTotal = isp_ReadBytesTotal (ah_iscsi h),
                       is_WriteBytesTotal = isp_WriteBytesTotal (ah_iscsi h), is_ReadOpsTotal = isp_ReadOpsTotal (ah_iscsi h),
                       is_WriteOpsTotal = isp_WriteOpsTotal (ah_iscsi h), is_ReadLatencyP99 = isp_ReadLatencyP99Ms (ah_iscsi h),
                       is_WriteLatencyP99 = isp_WriteLatencyP99Ms (ah_iscsi h)\<rparr>
      in (writeJSON 200 (stats_json \<lparr>sr_ISCSI = iscsiResp, sr_GC = gcResp, sr_Buffer = bufResp, sr_Journal = journalResp,
                                     sr_Device = deviceResp\<rparr>), z))"

definition api_TriggerGC :: "'z api_Handler \<Rightarrow> 'z \<Rightarrow> HttpResponse \<times> 'z" where
  "api_TriggerGC h z = (\<lparr>rsp_status = 202, rsp_contentType = None, rsp_body = NoBody\<rparr>, zp_TriggerGC (ah_ztl h) z)"

definition GetConfig :: "'z api_Handler \<Rightarrow> 'z \<Rightarrow> HttpResponse \<times> 'z" where
  "GetConfig h z =
     (let cfg = ah_cfg h;
          resp = \<lparr>cr_Target = \<lparr>ctr_IQN = tc_IQN (cfg_Target cfg), ctr_Portal = tc_Portal (cfg_Target cfg),
                               ctr_MaxSessions = tc_MaxSessions (cfg_Target cfg),
                               ctr_AuthEnabled = ac_Enabled (tc_Auth (cfg_Target cfg)),
                               ctr_CHAPUser = ac_CHAPUser (tc_Auth (cfg_Target cfg))\<rparr>,
                  cr_Device = \<lparr>cdr_Backend = dc_Backend (cfg_Device cfg), cdr_Path = dc_Path (cfg_Device cfg),
                               cdr_ZoneCount = ec_ZoneCount (dc_Emulator (cfg_Device cfg)),
                               cdr_ZoneSizeMB = ec_ZoneSizeMB (dc_Emulator (cfg_Device cfg)),
                               cdr_MaxOpenZones = ec_MaxOpenZones (dc_Emulator (cfg_Device cfg))\<rparr>,
                  cr_ZTL = \<lparr>czr_SegmentSizeKB = zc_SegmentSizeKB (cfg_ZTL cfg), czr_BufferSizeMB = zc_BufferSizeMB (cfg_ZTL cfg),
                            czr_BufferFlushAgeSec = zc_BufferFlushAgeSec (cfg_ZTL cfg),
                            czr_GCTriggerFreeRatio = zc_GCTriggerFreeRatio (cfg_ZTL cfg),
                            czr_GCEmergencyFreeZones = zc_GCEmergencyFreeZones (cfg_ZTL cfg)\<rparr>,
                  cr_APIListen = api_Listen (cfg_API cfg)\<rparr>
      in (writeJSON 200 (config_json resp), z))"

section \<open>Metrics (metrics.go)\<close>

text \<open>
  A factory registers a metric under its name and help text and panics (\<open>None\<close>) when the registry refuses it; counters, gauges
  and histograms are the library's.
\<close>

record ('r, 'c, 'g, 'h) Registerer =
  rg_NewCounter :: "'r \<Rightarrow> string \<Rightarrow> string \<Rightarrow> ('c \<times> 'r) option"
  rg_NewGauge :: "'r \<Rightarrow> string \<Rightarrow> string \<Rightarrow> ('g \<times> 'r) option"
  rg_NewHistogram :: "'r \<Rightarrow> string \<Rightarrow> string \<Rightarrow> rat list \<Rightarrow> ('h \<times> 'r) option"

record ('c, 'g, 'h) Metrics =
  mt_ISCSIReadBytesTotal :: 'c
  mt_ISCSIWriteBytesTotal :: 'c
  mt_ISCSIReadOpsTotal :: 'c
  mt_ISCSIWriteOpsTotal :: 'c
  mt_ISCSIReadLatency :: 'h
  mt_ISCSIWriteLatency :: 'h
  mt_ISCSIActiveSessions :: 'g
  mt_ZTLFreeZones :: 'g
  mt_ZTLOpenZones :: 'g
  mt_ZTLTotalZones :: 'g
  mt_GCReclaimedZonesTotal :: 'c
  mt_GCMigratedBytesTotal :: 'c
  mt_GCRunning :: 'g
  mt_BufferDirtyBytes :: 'g
  mt_BufferPendingFlushes :: 'g
  mt_JournalLSN :: 'g
  mt_JournalSizeBytes :: 'g
  mt_JournalCheckpointLSN :: 'g

definition latencyBuckets :: "rat list" where
  "latencyBuckets = [1/1000, 5/1000, 10/1000, 50/1000, 100/1000, 500/1000]"

definition NewMetrics :: "('r, 'c, 'g, 'h) Registerer \<Rightarrow> 'r \<Rightarrow> (('c, 'g, 'h) Metrics \<times> 'r) option" where
  "NewMetrics F r = do {
     (readBytes, r) \<leftarrow> rg_NewCounter F r ''zns_iscsi_read_bytes_total'' ''Total bytes read via iSCSI.'';
     (writeBytes, r) \<leftarrow> rg_NewCounter F r ''zns_iscsi_write_bytes_total'' ''Total bytes written via iSCSI.'';
     (readOps, r) \<leftarrow> rg_NewCounter F r ''zns_iscsi_read_operations_total'' ''Total read operations via iSCSI.'';
     (writeOps, r) \<leftarrow> rg_NewCounter F r ''zns_iscsi_write_operations_total'' ''Total write operations via iSCSI.'';
     (readLatency, r) \<leftarrow> rg_NewHistogram F r ''zns_iscsi_read_latency_seconds'' ''Read latency distribution in seconds.'' latencyBuckets;
     (writeLatency, r) \<leftarrow> rg_NewHistogram F r ''zns_iscsi_write_latency_seconds'' ''Write latency distribution in seconds.'' latencyBuckets;
     (sessions, r) \<leftarrow> rg_NewGauge F r ''zns_iscsi_active_sessions'' ''Number of currently active iSCSI sessions.'';
     (freeZones, r) \<leftarrow> rg_NewGauge F r ''zns_ztl_free_zones'' ''Number of free (empty) zones.'';
     (openZones, r) \<leftarrow> rg_NewGauge F r ''zns_ztl_open_zones'' ''Number of currently open zones.'';
     (totalZones, r) \<leftarrow> rg_NewGauge F r ''zns_ztl_total_zones'' ''Total number of zones on the device.'';
     (reclaimed, r) \<leftarrow> rg_NewCounter F r ''zns_gc_reclaimed_zones_total'' ''Total zones reclaimed by garbage collection.'';
     (migrated, r) \<leftarrow> rg_NewCounter F r ''zns_gc_migrated_bytes_total'' ''Total bytes migrated by garbage collection.'';
     (running, r) \<leftarrow> rg_NewGauge F r ''zns_gc_running'' ''1 if garbage collection is currently running, 0 otherwise.'';
     (dirty, r) \<leftarrow> rg_NewGauge F r ''zns_buffer_dirty_bytes'' ''Bytes currently buffered (not yet flushed to device).'';
     (pending, r) \<leftarrow> rg_NewGauge F r ''zns_buffer_pending_flushes'' ''Number of zones with pending buffer flushes.'';
     (lsn, r) \<leftarrow> rg_NewGauge F r ''zns_journal_lsn'' ''Current Log Sequence Number of the WAL journal.'';
     (journalSize, r) \<leftarrow> rg_NewGauge F r ''zns_journal_size_bytes'' ''Current size of the WAL journal file in bytes.'';
     (checkpointLSN, r) \<leftarrow> rg_NewGauge F r ''zns_journal_checkpoint_lsn'' ''LSN of the last checkpoint.'';
     Some (\<lparr>mt_ISCSIReadBytesTotal = readBytes, mt_ISCSIWriteBytesTotal = writeBytes, mt_ISCSIReadOpsTotal = readOps,
            mt_ISCSIWriteOpsTotal = writeOps, mt_ISCSIReadLatency = readLatency, mt_ISCSIWriteLatency = writeLatency,
            mt_ISCSIActiveSessions = sessions, mt_ZTLFreeZones = freeZones, mt_ZTLOpenZones = openZones, mt_ZTLTotalZones = totalZones,
            mt_GCReclaimedZonesTotal = reclaimed, mt_GCMigratedBytesTotal = migrated, mt_GCRunning = running,
            mt_BufferDirtyBytes = dirty, mt_BufferPendingFlushes = pending, mt_JournalLSN = lsn, mt_JournalSizeBytes = journalSize,
            mt_JournalCheckpointLSN = checkpointLSN\<rparr>, r)
   }"

text \<open>\<open>gset\<close> is the method \<^verbatim>\<open>Set\<close> of a gauge.\<close>

definition UpdateFromZTL :: "('g \<Rightarrow> rat \<Rightarrow> 'g) \<Rightarrow> 'z ZTLProvider \<Rightarrow> 'z \<Rightarrow> ('c, 'g, 'h) Metrics \<Rightarrow> ('c, 'g, 'h) Metrics" where
  "UpdateFromZTL gset ztlProv z m =
     (let zm = zp_ZoneManager ztlProv z;
          m = m\<lparr>mt_ZTLFreeZones := gset (mt_ZTLFreeZones m) (of_int (zm_FreeZoneCount zm))\<rparr>;
          m = m\<lparr>mt_ZTLOpenZones := gset (mt_ZTLOpenZones m) (of_int (zm_OpenZoneCount zm))\<rparr>;
          m = m\<lparr>mt_ZTLTotalZones := gset (mt_ZTLTotalZones m) (of_int (zm_TotalZoneCount zm))\<rparr>;
          gcSnap = GCStats_Snapshot (zp_GCStats ztlProv z);
          m = m\<lparr>mt_GCRunning := gset (mt_GCRunning m) (if gss_Running gcSnap then 1 else 0)\<rparr>;
          buf = zp_WriteBuffer ztlProv z;
          m = m\<lparr>mt_BufferDirtyBytes := gset (mt_BufferDirtyBytes m) (of_int (wb_DirtyBytes buf))\<rparr>
      in m\<lparr>mt_BufferPendingFlushes := gset (mt_BufferPendingFlushes m) (of_int (wb_ZoneCount buf))\<rparr>)"

definition UpdateFromISCSI :: "('g \<Rightarrow> rat \<Rightarrow> 'g) \<Rightarrow> ISCSIStatsProvider \<Rightarrow> ('c, 'g, 'h) Metrics \<Rightarrow> ('c, 'g, 'h) Metrics" where
  "UpdateFromISCSI gset iscsi m = m\<lparr>mt_ISCSIActiveSessions := gset (mt_ISCSIActiveSessions m) (of_int (isp_ActiveSessions iscsi))\<rparr>"

section \<open>The server (server.go)\<close>

datatype web_fs = HttpDir string | EmbeddedWeb

datatype api_endpoint = EpHealth | EpListZones | EpGetStats | EpTriggerGC | EpGetConfig | EpMetrics | EpWeb web_fs

text \<open>A route: its method (\<open>None\<close> for \<^verbatim>\<open>Handle\<close>, which takes every method), its pattern, its handler.\<close>

type_synonym api_route = "string option \<times> string \<times> api_endpoint"

record ('z, 'r) ServerConfig =
  sc_ListenAddr :: string
  sc_ZTL :: "'z ZTLProvider"
  sc_Config :: Config
  sc_HandlerConfig :: HandlerConfig
  sc_WebDir :: string
  sc_Registerer :: "'r option"

record ('z, 'r, 'c, 'g, 'h) api_Server =
  as_Addr :: string
  as_handler :: "'z api_Handler"
  as_metrics :: "('c, 'g, 'h) Metrics"
  as_routes :: "api_route list"
  as_registry :: 'r

text \<open>
  \<open>isDir\<close> is \<^verbatim>\<open>os.Stat\<close> followed by \<^verbatim>\<open>IsDir\<close>. \<^verbatim>\<open>fs.Sub\<close> of the embedded file system succeeds, as the name \<^verbatim>\<open>web\<close> is a valid path,
  so the branch that installs \<^verbatim>\<open>NotFoundHandler\<close> is never taken.
\<close>

definition api_webFS :: "(string \<Rightarrow> bool result) \<Rightarrow> string \<Rightarrow> web_fs" where
  "api_webFS isDir webDir =
     (if webDir \<noteq> '''' \<and> isDir webDir = Inr True then HttpDir webDir else EmbeddedWeb)"

definition api_routes :: "web_fs \<Rightarrow> api_route list" where
  "api_routes webFS =
     [(Some ''GET'', ''/api/v1/health'', EpHealth),
      (Some ''GET'', ''/api/v1/zones'', EpListZones),
      (Some ''GET'', ''/api/v1/stats'', EpGetStats),
      (Some ''POST'', ''/api/v1/gc/trigger'', EpTriggerGC),
      (Some ''GET'', ''/api/v1/config'', EpGetConfig),
      (None, ''/metrics'', EpMetrics),
      (None, ''/*'', EpWeb webFS)]"

definition api_New ::
    "(string \<Rightarrow> bool result) \<Rightarrow> ('r, 'c, 'g, 'h) Registerer \<Rightarrow> 'r \<Rightarrow> ('z, 'r) ServerConfig \<Rightarrow> ('z, 'r, 'c, 'g, 'h) api_Server option" where
  "api_New isDir F defaultRegisterer cfg =
     (let reg = (case sc_Registerer cfg of Some r \<Rightarrow> r | None \<Rightarrow> defaultRegisterer) in
      case NewMetrics F reg of
        None \<Rightarrow> None
      | Some (metrics, reg') \<Rightarrow>
          Some \<lparr>as_Addr = (if sc_ListenAddr cfg = '''' then api_Listen (cfg_API (sc_Config cfg)) else sc_ListenAddr cfg),
                as_handler = api_NewHandler (sc_ZTL cfg) (sc_Config cfg) (sc_HandlerConfig cfg),
                as_metrics = metrics, as_routes = api_routes (api_webFS isDir (sc_WebDir cfg)), as_registry = reg'\<rparr>)"

text \<open>
  The libraries a request passes through: \<open>lib_chi\<close> picks the handler among the routes, \<open>lib_unrouted\<close> is its answer when there is
  none, \<open>lib_asGatherer\<close> is the type assertion of a registerer to a gatherer, \<open>lib_metrics\<close> is \<^verbatim>\<open>promhttp.HandlerFor\<close> and \<open>lib_files\<close> is \<^verbatim>\<open>http.FileServer\<close>.
\<close>

record ('r, 'q) http_lib =
  lib_chi :: "api_route list \<Rightarrow> string \<Rightarrow> string \<Rightarrow> api_endpoint option"
  lib_unrouted :: "string \<Rightarrow> string \<Rightarrow> HttpResponse"
  lib_asGatherer :: "'r \<Rightarrow> 'q option"
  lib_defaultGatherer :: 'q
  lib_metrics :: "'q \<Rightarrow> HttpResponse"
  lib_files :: "web_fs \<Rightarrow> string \<Rightarrow> string \<Rightarrow> HttpResponse"

definition prometheusGathererFrom :: "('r, 'q) http_lib \<Rightarrow> 'r \<Rightarrow> 'q" where
  "prometheusGathererFrom lib reg = (case lib_asGatherer lib reg of Some g \<Rightarrow> g | None \<Rightarrow> lib_defaultGatherer lib)"

fun api_endpoint_call ::
    "('r, 'q) http_lib \<Rightarrow> ('z, 'r, 'c, 'g, 'h) api_Server \<Rightarrow> string \<Rightarrow> string \<Rightarrow> api_endpoint \<Rightarrow> 'z \<Rightarrow> HttpResponse \<times> 'z" where
  "api_endpoint_call lib s meth path EpHealth z = Health (as_handler s) z"
| "api_endpoint_call lib s meth path EpListZones z = ListZones (as_handler s) z"
| "api_endpoint_call lib s meth path EpGetStats z = GetStats (as_handler s) z"
| "api_endpoint_call lib s meth path EpTriggerGC z = api_TriggerGC (as_handler s) z"
| "api_endpoint_call lib s meth path EpGetConfig z = GetConfig (as_handler s) z"
| "api_endpoint_call lib s meth path EpMetrics z = (lib_metrics lib (prometheusGathererFrom lib (as_registry s)), z)"
| "api_endpoint_call lib s meth path (EpWeb fs) z = (lib_files lib fs meth path, z)"

definition api_serve :: "('r, 'q) http_lib \<Rightarrow> ('z, 'r, 'c, 'g, 'h) api_Server \<Rightarrow> string \<Rightarrow> string \<Rightarrow> 'z \<Rightarrow> HttpResponse \<times> 'z" where
  "api_serve lib s meth path z =
     (case lib_chi lib (as_routes s) meth path of
        Some e \<Rightarrow> api_endpoint_call lib s meth path e z
      | None \<Rightarrow> (lib_unrouted lib meth path, z))"

section \<open>Lemmas\<close>

text \<open>All metric names of the program.\<close>

definition metric_names :: "string list" where
  "metric_names = [''zns_iscsi_read_bytes_total'', ''zns_iscsi_write_bytes_total'', ''zns_iscsi_read_operations_total'',
     ''zns_iscsi_write_operations_total'', ''zns_iscsi_read_latency_seconds'', ''zns_iscsi_write_latency_seconds'',
     ''zns_iscsi_active_sessions'', ''zns_ztl_free_zones'', ''zns_ztl_open_zones'', ''zns_ztl_total_zones'',
     ''zns_gc_reclaimed_zones_total'', ''zns_gc_migrated_bytes_total'', ''zns_gc_running'', ''zns_buffer_dirty_bytes'',
     ''zns_buffer_pending_flushes'', ''zns_journal_lsn'', ''zns_journal_size_bytes'', ''zns_journal_checkpoint_lsn'']"

lemma metric_names_distinct: "distinct metric_names"
  by (simp add: metric_names_def)

text \<open>
  What the Prometheus registry documents: a metric with a new name is registered, a name that is taken makes the factory panic.
  \<open>names\<close> are the names a registry holds.
\<close>

definition registry_law :: "('r, 'c, 'g, 'h) Registerer \<Rightarrow> ('r \<Rightarrow> string set) \<Rightarrow> bool" where
  "registry_law F names \<longleftrightarrow>
     (\<forall>r n h. if n \<in> names r then rg_NewCounter F r n h = None
       else \<exists>c r'. rg_NewCounter F r n h = Some (c, r') \<and> names r' = insert n (names r)) \<and>
     (\<forall>r n h. if n \<in> names r then rg_NewGauge F r n h = None
       else \<exists>c r'. rg_NewGauge F r n h = Some (c, r') \<and> names r' = insert n (names r)) \<and>
     (\<forall>r n h b. if n \<in> names r then rg_NewHistogram F r n h b = None
       else \<exists>c r'. rg_NewHistogram F r n h b = Some (c, r') \<and> names r' = insert n (names r))"

text \<open>\<open>registers names r ns t\<close>: \<open>t\<close> registers the names \<open>ns\<close> on the registry \<open>r\<close>, and panics if one of them is taken.\<close>

definition registers :: "('r \<Rightarrow> string set) \<Rightarrow> 'r \<Rightarrow> string list \<Rightarrow> ('a \<times> 'r) option \<Rightarrow> bool" where
  "registers names r ns t \<longleftrightarrow> (distinct ns \<longrightarrow>
     (if names r \<inter> set ns = {} then \<exists>x r'. t = Some (x, r') \<and> names r' = set ns \<union> names r else t = None))"

lemma registers_done: "registers names r [] (Some (x, r))"
  by (simp add: registers_def)

lemma registers_step:
  assumes "if n \<in> names r then t = None else \<exists>c r'. t = Some (c, r') \<and> names r' = insert n (names r)"
    and "\<And>c r'. registers names r' ns (k c r')"
  shows "registers names r (n # ns) (t \<bind> (\<lambda>(c, r'). k c r'))"
proof (cases "n \<in> names r")
  case False
  then obtain c r' where t: "t = Some (c, r')" "names r' = insert n (names r)" using assms(1) by auto
  then show ?thesis using assms(2) [of r' c] False by (auto simp: registers_def)
next
  case True
  then show ?thesis using assms(1) by (auto simp: registers_def)
qed

text \<open>
  The metrics are registered on a registry that has none of their names, and only once: registering them again panics.
\<close>

lemma NewMetrics_registers:
  assumes "registry_law F names"
  shows "if names r \<inter> set metric_names = {} then \<exists>m r'. NewMetrics F r = Some (m, r') \<and> names r' = set metric_names \<union> names r
    else NewMetrics F r = None"
proof -
  note law = assms [unfolded registry_law_def]
  note steps = registers_step [OF law [THEN conjunct1, rule_format]] registers_step [OF law [THEN conjunct2, THEN conjunct1, rule_format]]
    registers_step [OF law [THEN conjunct2, THEN conjunct2, rule_format]]
  have "registers names r metric_names (NewMetrics F r)"
    unfolding NewMetrics_def metric_names_def by (intro steps registers_done)
  then show ?thesis using metric_names_distinct by (simp add: registers_def)
qed

text \<open>Building the server is the same for two configurations that differ in the secret only.\<close>

definition same_but_secret :: "Config \<Rightarrow> Config \<Rightarrow> bool" where
  "same_but_secret c c' \<longleftrightarrow>
     (\<exists>x. c' = c\<lparr>cfg_Target := (cfg_Target c)\<lparr>tc_Auth := (tc_Auth (cfg_Target c))\<lparr>ac_CHAPSecret := x\<rparr>\<rparr>\<rparr>)"

lemma api_New_alike:
  assumes "same_but_secret (sc_Config cfg) c'" and "api_New isDir F r0 cfg = Some s"
  shows "\<exists>s'. api_New isDir F r0 (cfg\<lparr>sc_Config := c'\<rparr>) = Some s' \<and> s' = s\<lparr>as_handler := (as_handler s)\<lparr>ah_cfg := c'\<rparr>\<rparr> \<and> ah_cfg (as_handler s) = sc_Config cfg"
  using assms by (auto simp: api_New_def api_NewHandler_def same_but_secret_def Let_def split: option.splits)

lemma endpoint_alike:
  assumes "same_but_secret (ah_cfg (as_handler s)) c'"
  shows "api_endpoint_call lib (s\<lparr>as_handler := (as_handler s)\<lparr>ah_cfg := c'\<rparr>\<rparr>) meth path e z = api_endpoint_call lib s meth path e z"
  using assms by (cases e) (auto simp: same_but_secret_def Health_def ListZones_def GetStats_def api_TriggerGC_def GetConfig_def Let_def)

section \<open>Properties\<close>

text \<open>
  C23: the CHAP secret stays inside. Two servers whose configurations differ in nothing but the secret answer every
  request alike, whatever the method, the path, the state of the target and the behaviour of the libraries: no response of the
  interface depends on the secret.
\<close>

theorem api_hides_secret:
  assumes "same_but_secret (sc_Config cfg) c'"
    and "api_New isDir F r0 cfg = Some s" and "api_New isDir F r0 (cfg\<lparr>sc_Config := c'\<rparr>) = Some s'"
  shows "api_serve lib s' meth path z = api_serve lib s meth path z"
proof -
  have s': "s' = s\<lparr>as_handler := (as_handler s)\<lparr>ah_cfg := c'\<rparr>\<rparr>" and c: "ah_cfg (as_handler s) = sc_Config cfg"
    using api_New_alike [OF assms(1,2)] assms(3) by auto
  have e: "api_endpoint_call lib s' meth path e z = api_endpoint_call lib s meth path e z" for e
    unfolding s' by (rule endpoint_alike) (simp add: c assms(1))
  have r: "as_routes s' = as_routes s" by (simp add: s')
  show ?thesis unfolding api_serve_def r e by (rule refl)
qed

text \<open>A server for the witnesses, on a registry that keeps names and a router that compares patterns.\<close>

definition demo_reg :: "(string list, unit, rat, unit) Registerer" where
  "demo_reg = \<lparr>rg_NewCounter = \<lambda>r n h. if n \<in> set r then None else Some ((), n # r),
     rg_NewGauge = \<lambda>r n h. if n \<in> set r then None else Some (0, n # r),
     rg_NewHistogram = \<lambda>r n h b. if n \<in> set r then None else Some ((), n # r)\<rparr>"

lemma demo_reg_law: "registry_law demo_reg set"
  by (simp add: registry_law_def demo_reg_def)

definition demo_lib :: "(string list, string list) http_lib" where
  "demo_lib = \<lparr>lib_chi = \<lambda>rs m p. map_option (\<lambda>r. snd (snd r)) (List.find (\<lambda>r. (fst r = None \<or> fst r = Some m) \<and> fst (snd r) = p) rs),
     lib_unrouted = \<lambda>m p. \<lparr>rsp_status = 404, rsp_contentType = None, rsp_body = NoBody\<rparr>,
     lib_asGatherer = Some, lib_defaultGatherer = [], lib_metrics = \<lambda>r. \<lparr>rsp_status = 200, rsp_contentType = None, rsp_body = TextBody (concat r)\<rparr>,
     lib_files = \<lambda>f m p. \<lparr>rsp_status = 404, rsp_contentType = None, rsp_body = NoBody\<rparr>\<rparr>"

definition demo_cfg :: "string \<Rightarrow> Config" where
  "demo_cfg x = DefaultConfig\<lparr>cfg_Target := (cfg_Target DefaultConfig)
     \<lparr>tc_Auth := \<lparr>ac_Enabled = True, ac_CHAPUser = ''alice'', ac_CHAPSecret = x\<rparr>\<rparr>\<rparr>"

definition demo_sc :: "Config \<Rightarrow> (('d, 'j) ZTL, string list) ServerConfig" where
  "demo_sc c = \<lparr>sc_ListenAddr = '''', sc_ZTL = ztl_provider, sc_Config = c,
     sc_HandlerConfig = \<lparr>hc_ISCSI = None, hc_Journal = None\<rparr>, sc_WebDir = '''', sc_Registerer = None\<rparr>"

lemma demo_sc_built: "\<exists>s. api_New (\<lambda>_. Inr False) demo_reg [] (demo_sc c) = Some s"
proof -
  obtain m r' where "NewMetrics demo_reg [] = Some (m, r')"
    using NewMetrics_registers [OF demo_reg_law, of "[]"] by auto
  then show ?thesis by (simp add: api_New_def demo_sc_def)
qed

theorem api_hides_secret_witness:
  "\<exists>s s'. api_New (\<lambda>_. Inr False) demo_reg [] (demo_sc (demo_cfg ''s3cret'')) = Some s \<and>
     api_New (\<lambda>_. Inr False) demo_reg [] (demo_sc (demo_cfg ''other'')) = Some s' \<and>
     (\<forall>z :: (unit, unit) ZTL. api_serve demo_lib s' ''GET'' ''/api/v1/config'' z = api_serve demo_lib s ''GET'' ''/api/v1/config'' z)"
proof -
  obtain s s' :: "((unit, unit) ZTL, string list, unit, rat, unit) api_Server" where
    s: "api_New (\<lambda>_. Inr False) demo_reg [] (demo_sc (demo_cfg ''s3cret'')) = Some s"
      "api_New (\<lambda>_. Inr False) demo_reg [] (demo_sc (demo_cfg ''other'')) = Some s'"
    using demo_sc_built by metis
  have eq: "(demo_sc (demo_cfg ''s3cret''))\<lparr>sc_Config := demo_cfg ''other''\<rparr> = demo_sc (demo_cfg ''other'')"
    by (simp add: demo_sc_def)
  have "same_but_secret (sc_Config (demo_sc (demo_cfg ''s3cret''))) (demo_cfg ''other'')"
    by (auto simp: same_but_secret_def demo_sc_def demo_cfg_def intro!: exI [of _ "''other''"])
  from api_hides_secret [OF this s(1)] s(2) show ?thesis using s unfolding eq by blast
qed

text \<open>
  The interface does not touch the data. Over a router that picks a route registered for the method of the request, a request
  leaves the translation layer as it is, except that a \<^verbatim>\<open>POST\<close> may ask the garbage collector for a run.
\<close>

theorem api_read_only:
  assumes "\<And>rs m p e. lib_chi lib rs m p = Some e \<Longrightarrow> \<exists>r \<in> set rs. snd (snd r) = e \<and> (fst r = None \<or> fst r = Some m)"
    and "api_New isDir F r0 cfg = Some s" and "sc_ZTL cfg = ztl_provider"
  shows "snd (api_serve lib s meth path z) = z \<or>
    meth = ''POST'' \<and> fst (api_serve lib s meth path z) = \<lparr>rsp_status = 202, rsp_contentType = None, rsp_body = NoBody\<rparr> \<and>
    snd (api_serve lib s meth path z) = z\<lparr>ztl_triggerCh := True\<rparr>"
proof (cases "lib_chi lib (as_routes s) meth path")
  case None
  then show ?thesis by (simp add: api_serve_def)
next
  case (Some e)
  obtain fs where rs: "as_routes s = api_routes fs" and h: "ah_ztl (as_handler s) = ztl_provider"
    using assms(2,3) by (auto simp: api_New_def api_NewHandler_def Let_def split: option.splits)
  have m: "e = EpTriggerGC \<Longrightarrow> meth = ''POST''" using assms(1) [OF Some] unfolding rs by (auto simp: api_routes_def)
  have sv: "api_serve lib s meth path z = api_endpoint_call lib s meth path e z" by (simp add: api_serve_def Some)
  show ?thesis
    using m unfolding sv by (cases e) (simp_all add: Health_def ListZones_def GetStats_def GetConfig_def Let_def api_TriggerGC_def h
      ztl_provider_def ztl_TriggerGC_def gc_TriggerManual_def)
qed

theorem api_read_only_witness:
  "\<exists>s. api_New (\<lambda>_. Inr False) demo_reg [] (demo_sc (demo_cfg ''s3cret'')) = Some s \<and>
     (\<forall>z :: (unit, unit) ZTL. snd (api_serve demo_lib s ''GET'' ''/api/v1/gc/trigger'' z) = z) \<and>
     (\<forall>z :: (unit, unit) ZTL. snd (api_serve demo_lib s ''POST'' ''/api/v1/gc/trigger'' z) = z\<lparr>ztl_triggerCh := True\<rparr>)"
proof -
  obtain s :: "((unit, unit) ZTL, string list, unit, rat, unit) api_Server" where
    s: "api_New (\<lambda>_. Inr False) demo_reg [] (demo_sc (demo_cfg ''s3cret'')) = Some s"
    using demo_sc_built by blast
  have chi: "\<exists>r \<in> set rs. snd (snd r) = e \<and> (fst r = None \<or> fst r = Some m)" if "lib_chi demo_lib rs m p = Some e" for rs m p e
    using that by (auto simp: demo_lib_def find_Some_iff) (metis fst_conv nth_mem snd_conv)+
  have z: "sc_ZTL (demo_sc (demo_cfg ''s3cret'')) = ztl_provider" by (simp add: demo_sc_def)
  note ro = api_read_only [where lib = demo_lib, OF chi s z]
  have "snd (api_serve demo_lib s ''POST'' ''/api/v1/gc/trigger'' z) = z\<lparr>ztl_triggerCh := True\<rparr>" for z
    using s by (auto simp: api_New_def demo_sc_def api_serve_def demo_lib_def api_routes_def api_TriggerGC_def api_NewHandler_def
      ztl_provider_def ztl_TriggerGC_def gc_TriggerManual_def Let_def split: option.splits)
  then show ?thesis using s ro [where meth = "''GET''" and path = "''/api/v1/gc/trigger''"] by auto
qed

end
