(* ===== verification/Daemon.thy ===== *)
theory Daemon
  imports Durability Session Api Spti Lifecycle
begin

text \<open>
  The entry point, \<^verbatim>\<open>cmd/zns-iscsi/main.go\<close>: the configuration and the logger, the choice of the device, the start in the order of
  \<^verbatim>\<open>main\<close>, the adapters for the statistics and the graceful stop. What the operating system and the YAML decoder answer is a
  parameter. \<^verbatim>\<open>startup\<close> of \<open>Durability\<close> opens the journal, builds the translation layer and recovers. The servers then run in
  goroutines of their own; the requests they serve are in \<open>Session\<close> and \<open>Api\<close>.
\<close>

section \<open>The command line\<close>

text \<open>
  What \<^verbatim>\<open>flag.Parse\<close> does with the one flag of the program, a string with the name \<^verbatim>\<open>config\<close>: one or two dashes, the value behind \<^verbatim>\<open>=\<close> or in the next argument, the
  last one counts, arguments end at the first that is no flag or at \<^verbatim>\<open>--\<close>. An error ends the process with status 2, a call for help with 0.
\<close>

definition flag_split :: "string \<Rightarrow> string \<times> string option" where
  "flag_split name =
     (case dropWhile (\<lambda>c. c \<noteq> CHR ''='') (tl name) of
        [] \<Rightarrow> (name, None)
      | _ # val \<Rightarrow> (hd name # takeWhile (\<lambda>c. c \<noteq> CHR ''='') (tl name), Some val))"

fun flag_Parse :: "string \<Rightarrow> string list \<Rightarrow> nat + string" where
  "flag_Parse configPath [] = Inr configPath"
| "flag_Parse configPath (s # args) =
     (if length s < 2 \<or> hd s \<noteq> CHR ''-'' \<or> s = ''--'' then Inr configPath
      else
        let name = (if s ! 1 = CHR ''-'' then drop 2 s else drop 1 s) in
        if hd name = CHR ''-'' \<or> hd name = CHR ''='' then Inl 2
        else
          case flag_split name of
            (n, val) \<Rightarrow>
              if n \<noteq> ''config'' then Inl (if n = ''help'' \<or> n = ''h'' then 0 else 2)
              else
                case val of
                  Some v \<Rightarrow> flag_Parse v args
                | None \<Rightarrow> (case args of [] \<Rightarrow> Inl 2 | v # args' \<Rightarrow> flag_Parse v args'))"

section \<open>Configuration and logging\<close>

record file_info =
  fi_size :: int
  fi_isDir :: bool

text \<open>\<^verbatim>\<open>os.Stat\<close>: the file does not exist, the call failed, or the file is there.\<close>

datatype stat_result = NotExist | StatError go_error | Found file_info

record ('r, 'c, 'g, 'h) Env =
  env_stat :: "string \<Rightarrow> stat_result"
  env_readFile :: "string \<Rightarrow> bytes result"
  env_unmarshal :: "bytes \<Rightarrow> Config \<Rightarrow> Config result"
  env_mkdirAll :: "string \<Rightarrow> unit result"
  env_openFile :: "string \<Rightarrow> os_file result"
  env_factory :: "('r, 'c, 'g, 'h) Registerer"
  env_registry :: 'r

definition loadConfig :: "('r, 'c, 'g, 'h) Env \<Rightarrow> string \<Rightarrow> Config result" where
  "loadConfig env path =
     (if env_stat env path = NotExist then Inr DefaultConfig
      else
        case Load (env_readFile env) (env_unmarshal env) path of
          Inl err \<Rightarrow> Inl (Wrap ''loading config'' err)
        | Inr cfg \<Rightarrow> Inr cfg)"

datatype slog_level = LevelDebug | LevelInfo | LevelWarn | LevelError
datatype slog_handler = JSONHandler slog_level | TextHandler slog_level

definition setupLogger :: "string \<Rightarrow> string \<Rightarrow> slog_handler" where
  "setupLogger level format =
     (let lvl = (if level = ''debug'' then LevelDebug
                 else if level = ''warn'' \<or> level = ''warning'' then LevelWarn
                 else if level = ''error'' then LevelError
                 else LevelInfo)
      in if format = ''json'' then JSONHandler lvl else TextHandler lvl)"

section \<open>The device\<close>

text \<open>The program is built for Linux, for Windows or for another system; the build tags choose the files.\<close>

datatype 'k Platform = LinuxBuild "'k Kernel" | WindowsBuild "'k WinSystem" | OtherBuild

datatype 'k backend =
    EmulatorBackend Emulator
  | SMRDisk "'k linuxTransport SMRBackend"
  | SMRDiskWindows "'k windowsTransport SMRBackend"

text \<open>\<^verbatim>\<open>openSMRBackend\<close> of \<^verbatim>\<open>smr_linux.go\<close>, \<^verbatim>\<open>smr_windows.go\<close> and \<^verbatim>\<open>smr_other.go\<close>.\<close>

definition openSMRBackend_linux :: "'k Kernel \<Rightarrow> string \<Rightarrow> 'k \<Rightarrow> 'k backend result \<times> 'k" where
  "openSMRBackend_linux K path k = apfst (map_sum id SMRDisk) (smr_Open K path k)"

definition openSMRBackend_windows :: "'k WinSystem \<Rightarrow> string \<Rightarrow> 'k \<Rightarrow> 'k backend result \<times> 'k" where
  "openSMRBackend_windows W path k = apfst (map_sum id SMRDiskWindows) (smr_OpenWindows W path k)"

definition openSMRBackend_other :: "string \<Rightarrow> 'k \<Rightarrow> 'k backend result \<times> 'k" where
  "openSMRBackend_other path k = (Inl (Errorf ''SMR backend is only supported on Linux and Windows''), k)"

fun openSMRBackend :: "'k Platform \<Rightarrow> string \<Rightarrow> 'k \<Rightarrow> 'k backend result \<times> 'k" where
  "openSMRBackend (LinuxBuild K) = openSMRBackend_linux K"
| "openSMRBackend (WindowsBuild W) = openSMRBackend_windows W"
| "openSMRBackend OtherBuild = openSMRBackend_other"

definition createBackend :: "'k Platform \<Rightarrow> Config \<Rightarrow> 'k \<Rightarrow> 'k backend result \<times> 'k" where
  "createBackend P cfg k =
     (if dc_Backend (cfg_Device cfg) = ''emulator'' then
        (case em_New \<lparr>ec_ZoneCount = ec_ZoneCount (dc_Emulator (cfg_Device cfg)), ec_ZoneSizeMB = ec_ZoneSizeMB (dc_Emulator (cfg_Device cfg)),
                      ec_MaxOpenZones = ec_MaxOpenZones (dc_Emulator (cfg_Device cfg))\<rparr> of
           Inl err \<Rightarrow> (Inl (Wrap ''creating emulator backend'' err), k)
         | Inr em \<Rightarrow> (Inr (EmulatorBackend em), k))
      else if dc_Backend (cfg_Device cfg) = ''smr'' then openSMRBackend P (dc_Path (cfg_Device cfg)) k
      else (Inl (Errorf ''unknown backend''), k))"

section \<open>Journal directory and statistics\<close>

text \<open>The loop runs from the end; \<open>Suc i\<close> is the index that is looked at next, plus one.\<close>

fun dir_scan :: "string \<Rightarrow> nat \<Rightarrow> string" where
  "dir_scan path 0 = ''''"
| "dir_scan path (Suc i) = (if path ! i = CHR ''/'' \<or> path ! i = CHR 0x5C then take i path else dir_scan path i)"

definition journalDirOf :: "string \<Rightarrow> string" where
  "journalDirOf path = dir_scan path (length path)"

definition journalSizeBytes :: "(string \<Rightarrow> stat_result) \<Rightarrow> string \<Rightarrow> u64" where
  "journalSizeBytes stat path = (case stat path of Found info \<Rightarrow> of_int (fi_size info) | _ \<Rightarrow> 0)"

definition iscsiStatsAdapter :: "'b Server \<Rightarrow> ISCSIStatsProvider" where
  "iscsiStatsAdapter server =
     \<lparr>isp_ActiveSessions = int (sv_SessionCount server), isp_ReadBytesTotal = 0, isp_WriteBytesTotal = 0, isp_ReadOpsTotal = 0,
      isp_WriteOpsTotal = 0, isp_ReadLatencyP99Ms = 0, isp_WriteLatencyP99Ms = 0\<rparr>"

definition journalStatsAdapter :: "(string \<Rightarrow> stat_result) \<Rightarrow> Wal \<Rightarrow> JournalStatsProvider" where
  "journalStatsAdapter stat journal =
     \<lparr>jsp_CurrentLSN = wal_CurrentLSN journal, jsp_SizeBytes = journalSizeBytes stat (wal_path journal), jsp_CheckpointLSN = 0\<rparr>"

section \<open>Start\<close>

record ('d, 'r, 'c, 'g, 'h) Daemon =
  dm_cfg :: Config
  dm_logger :: slog_handler
  dm_ztl :: "('d, Wal) ZTL"
  dm_server :: "('d, Wal) ZTL Server"
  dm_api :: "(('d, Wal) ZTL, 'r, 'c, 'g, 'h) api_Server"

definition env_isDir :: "('r, 'c, 'g, 'h) Env \<Rightarrow> string \<Rightarrow> bool result" where
  "env_isDir env path = (case env_stat env path of
     NotExist \<Rightarrow> Inl (Errorf ''file does not exist'') | StatError err \<Rightarrow> Inl err | Found info \<Rightarrow> Inr (fi_isDir info))"

definition daemon_apiConfig ::
    "('r, 'c, 'g, 'h) Env \<Rightarrow> Config \<Rightarrow> ('d, Wal) ZTL Server \<Rightarrow> ('d, Wal) ZTL \<Rightarrow> (('d, Wal) ZTL, 'r) ServerConfig" where
  "daemon_apiConfig env cfg server z =
     \<lparr>sc_ListenAddr = api_Listen (cfg_API cfg), sc_ZTL = ztl_provider, sc_Config = cfg,
      sc_HandlerConfig = \<lparr>hc_ISCSI = Some (iscsiStatsAdapter server), hc_Journal = Some (journalStatsAdapter (env_stat env) (ztl_journal z))\<rparr>,
      sc_WebDir = ''/var/lib/zns-iscsi/web'', sc_Registerer = None\<rparr>"

text \<open>
  Steps 8 to 10 of \<^verbatim>\<open>main\<close>: the SCSI handler over the translation layer, the target with its one unit, the two servers. \<open>None\<close> is a panic.
\<close>

definition daemon_servers ::
    "('r, 'c, 'g, 'h) Env \<Rightarrow> map_order \<Rightarrow> (u32 list \<Rightarrow> u32 list) \<Rightarrow> int \<Rightarrow> Config \<Rightarrow> 'd ZonedDevice \<Rightarrow> ('d, Wal) ZTL \<Rightarrow>
     ('d, 'r, 'c, 'g, 'h) Daemon option" where
  "daemon_servers env ord zord now cfg ops z =
     (let scsiHandler = NewHandler (ztl_blockDevice ord zord ops (Some (wal_journal now)) now) ''ZNS-ISCSI-001'' (str_bytes ''zns-iscsi-target'');
          target = AddLUN 0 (ztl_BlockSize ops z) (ztl_Capacity ops z) (NewTarget (tc_IQN (cfg_Target cfg)) (tc_Portal (cfg_Target cfg)));
          server = NewServer cfg target scsiHandler in
      case api_New (env_isDir env) (env_factory env) (env_registry env) (daemon_apiConfig env cfg server z) of
        None \<Rightarrow> None
      | Some api \<Rightarrow>
          Some \<lparr>dm_cfg = cfg, dm_logger = setupLogger (log_Level (cfg_Log cfg)) (log_Format (cfg_Log cfg)), dm_ztl = z,
                dm_server = server, dm_api = api\<rparr>)"

text \<open>Steps 5 to 10, over a device that is there.\<close>

definition daemon_boot ::
    "('r, 'c, 'g, 'h) Env \<Rightarrow> map_order \<Rightarrow> (u32 list \<Rightarrow> u32 list) \<Rightarrow> int \<Rightarrow> Config \<Rightarrow> 'd ZonedDevice \<Rightarrow> 'd \<Rightarrow>
     ('d, 'r, 'c, 'g, 'h) Daemon result option" where
  "daemon_boot env ord zord now cfg ops dev =
     (let journalDir = journalDirOf (jc_Path (cfg_Journal cfg)) in
      case (if journalDir \<noteq> '''' then env_mkdirAll env journalDir else Inr ()) of
        Inl err \<Rightarrow> Some (Inl err)
      | Inr _ \<Rightarrow>
          (case startup cfg (env_openFile env) ops dev of
             None \<Rightarrow> None
           | Some (Inl err) \<Rightarrow> Some (Inl err)
           | Some (Inr z) \<Rightarrow> map_option Inr (daemon_servers env ord zord now cfg ops z)))"

datatype ('k, 'r, 'c, 'g, 'h) running =
    OnEmulator "(Emulator, 'r, 'c, 'g, 'h) Daemon"
  | OnSMR "('k linuxTransport SMRBackend, 'r, 'c, 'g, 'h) Daemon"
  | OnSMRWindows "('k windowsTransport SMRBackend, 'r, 'c, 'g, 'h) Daemon"

text \<open>Steps 2 to 10 of \<^verbatim>\<open>main\<close>; an error is a line in the log and exit status 1.\<close>

definition daemon_main ::
    "('r, 'c, 'g, 'h) Env \<Rightarrow> 'k Platform \<Rightarrow> map_order \<Rightarrow> (u32 list \<Rightarrow> u32 list) \<Rightarrow> int \<Rightarrow> string \<Rightarrow> 'k \<Rightarrow>
     ('k, 'r, 'c, 'g, 'h) running result option" where
  "daemon_main env P ord zord now configPath k =
     (case loadConfig env configPath of
        Inl err \<Rightarrow> Some (Inl err)
      | Inr cfg \<Rightarrow>
          (case createBackend P cfg k of
             (Inl err, _) \<Rightarrow> Some (Inl err)
           | (Inr (EmulatorBackend em), _) \<Rightarrow> map_option (map_sum id OnEmulator) (daemon_boot env ord zord now cfg em_dev em)
           | (Inr (SMRDisk s), _) \<Rightarrow>
               (case P of LinuxBuild K \<Rightarrow> map_option (map_sum id OnSMR) (daemon_boot env ord zord now cfg (smr_dev (linux_transport K)) s)
                | _ \<Rightarrow> None)
           | (Inr (SMRDiskWindows s), _) \<Rightarrow>
               (case P of WindowsBuild W \<Rightarrow> map_option (map_sum id OnSMRWindows) (daemon_boot env ord zord now cfg (smr_dev (windows_transport W)) s)
                | _ \<Rightarrow> None)))"

text \<open>\<^verbatim>\<open>main\<close> from the arguments of the process to step 10: the exit status, or the program that has come up.\<close>

definition daemon_entry ::
    "('r, 'c, 'g, 'h) Env \<Rightarrow> 'k Platform \<Rightarrow> map_order \<Rightarrow> (u32 list \<Rightarrow> u32 list) \<Rightarrow> int \<Rightarrow> string list \<Rightarrow> 'k \<Rightarrow>
     (nat + ('k, 'r, 'c, 'g, 'h) running) option" where
  "daemon_entry env P ord zord now args k =
     (case flag_Parse ''config.yaml'' args of
        Inl status \<Rightarrow> Some (Inl status)
      | Inr configPath \<Rightarrow> map_option (map_sum (\<lambda>err. 1) id) (daemon_main env P ord zord now configPath k))"

section \<open>Stop\<close>

text \<open>
  Step 13 of \<^verbatim>\<open>main\<close> after the servers have stopped, and the deferred calls: flush, close the translation layer, the journal and the device. None
  of the errors stops the sequence. The last group commit of the commit loop, which is cancelled before the flush, commits a
  part of what the flush would commit.
\<close>

definition daemon_stop ::
    "(u32 list \<Rightarrow> u32 list) \<Rightarrow> int \<Rightarrow> 'd ZonedDevice \<Rightarrow> ('d, Wal) ZTL \<Rightarrow> (unit result \<times> unit result \<times> unit result \<times> unit result) \<times> ('d, Wal) ZTL" where
  "daemon_stop zord now ops z =
     (case ztl_Flush zord ops (Some (wal_journal now)) z of
        (r1, z1) \<Rightarrow>
          (case ztl_Close zord ops z1 of
             (r2, z2) \<Rightarrow>
               (case wal_Close (ztl_journal z2) of
                  (r3, j) \<Rightarrow>
                    (case dev_Close ops (ztl_device z2) of
                       (r4, d) \<Rightarrow> ((r1, r2, r3, r4), z2\<lparr>ztl_journal := j, ztl_device := d\<rparr>)))))"

section \<open>Lemmas\<close>

text \<open>The forms of the flag, and what is refused.\<close>

lemma flag_split_plain: "\<forall>c \<in> set (tl n). c \<noteq> CHR ''='' \<Longrightarrow> flag_split n = (n, None)"
  unfolding flag_split_def by (subst dropWhile_eq_Nil_conv [THEN iffD2]) auto

lemma flag_split_value: "n \<noteq> [] \<Longrightarrow> \<forall>c \<in> set (tl n). c \<noteq> CHR ''='' \<Longrightarrow> flag_split (n @ CHR ''='' # v) = (n, Some v)"
  by (cases n) (simp_all add: flag_split_def dropWhile_append takeWhile_append)

lemma flag_config:
  "flag_Parse d [] = Inr d"
  "flag_Parse d (''-config'' # p # args) = flag_Parse p args" "flag_Parse d (''--config'' # p # args) = flag_Parse p args"
  "flag_Parse d ((''-config='' @ p) # args) = flag_Parse p args" "flag_Parse d ((''--config='' @ p) # args) = flag_Parse p args"
  "flag_Parse d [''-config''] = Inl 2" "flag_Parse d (''--'' # args) = Inr d" "flag_Parse d (''-h'' # args) = Inl 0"
  by (simp_all add: flag_split_def)

lemma flag_unknown:
  assumes "n \<noteq> []" and "hd n \<noteq> CHR ''-''" and "hd n \<noteq> CHR ''=''" and "fst (flag_split n) \<notin> {''config'', ''help'', ''h''}"
  shows "flag_Parse d ((CHR ''-'' # n) # args) = Inl 2"
  using assms by (cases n) (auto simp: Let_def split: prod.splits)

text \<open>On a system other than Linux and Windows a configuration that asks for a disk ends the process with status 1.\<close>

lemma other_build_exits:
  assumes "flag_Parse ''config.yaml'' args = Inr path" and "loadConfig env path = Inr cfg" and "dc_Backend (cfg_Device cfg) = ''smr''"
  shows "daemon_entry env OtherBuild ord zord now args k = Some (Inl 1)"
  using assms by (simp add: daemon_entry_def daemon_main_def createBackend_def openSMRBackend_other_def)

text \<open>Each build opens disks by its own transport only, so the impossible branches of \<open>daemon_main\<close> are not reached.\<close>

lemma createBackend_build:
  "createBackend P cfg k = (Inr (SMRDisk s), k') \<Longrightarrow> \<exists>K. P = LinuxBuild K"
  "createBackend P cfg k = (Inr (SMRDiskWindows t), k') \<Longrightarrow> \<exists>W. P = WindowsBuild W"
  by (cases P; auto simp: createBackend_def openSMRBackend_linux_def openSMRBackend_windows_def openSMRBackend_other_def apfst_def map_prod_def map_sum_def split: if_splits sum.splits prod.splits)+

text \<open>The directory of a path ends before its last separator.\<close>

definition path_sep :: "char \<Rightarrow> bool" where "path_sep c \<longleftrightarrow> c = CHR ''/'' \<or> c = CHR 0x5C"

lemma dir_scan_split:
  "i \<le> length path \<Longrightarrow> (\<exists>k < i. path_sep (path ! k)) \<Longrightarrow>
     \<exists>c base. take i path = dir_scan path i @ c # base \<and> path_sep c \<and> (\<forall>x \<in> set base. \<not> path_sep x)"
proof (induction i)
  case (Suc i)
  show ?case
  proof (cases "path_sep (path ! i)")
    case True
    then show ?thesis using Suc.prems by (auto simp: path_sep_def take_Suc_conv_app_nth)
  next
    case False
    then have "\<exists>k < i. path_sep (path ! k)" using Suc.prems(2) by (auto simp: less_Suc_eq)
    then obtain c base where "take i path = dir_scan path i @ c # base" "path_sep c" "\<forall>x \<in> set base. \<not> path_sep x"
      using Suc by auto
    then show ?thesis using False Suc.prems(1)
      by (intro exI [of _ c] exI [of _ "base @ [path ! i]"]) (auto simp: path_sep_def take_Suc_conv_app_nth)
  qed
qed simp

lemma dir_scan_none: "(\<forall>k < i. \<not> path_sep (path ! k)) \<Longrightarrow> dir_scan path i = ''''"
  by (induction i) (auto simp: path_sep_def)

lemma journalDirOf_split:
  "journalDirOf path = '''' \<and> (\<forall>x \<in> set path. \<not> path_sep x) \<or>
   (\<exists>c base. path = journalDirOf path @ c # base \<and> path_sep c \<and> (\<forall>x \<in> set base. \<not> path_sep x))"
proof (cases "\<exists>k < length path. path_sep (path ! k)")
  case True
  then show ?thesis using dir_scan_split [of "length path" path] by (auto simp: journalDirOf_def)
next
  case False
  then show ?thesis using dir_scan_none [of "length path" path] by (auto simp: journalDirOf_def in_set_conv_nth)
qed

text \<open>The geometry of a fresh emulator.\<close>

lemma em_New_facts:
  assumes "em_New cfg = Inr e" and "ec_ZoneSizeMB cfg < 2 ^ 44"
  shows "length (em_zones e) = nat (ec_ZoneCount cfg)" and "em_zones e \<noteq> []" and "em_maxOpenZones e = ec_MaxOpenZones cfg" and "0 < em_maxOpenZones e"
    and "unat (em_zoneSectors e) = 2048 * nat (ec_ZoneSizeMB cfg)" and "em_Capacity e = of_int (ec_ZoneCount cfg) * em_zoneSectors e"
proof -
  have pos: "0 < ec_ZoneCount cfg" "0 < ec_ZoneSizeMB cfg" "0 < ec_MaxOpenZones cfg"
    using assms(1) by (auto simp: em_New_def split: if_splits)
  then show "length (em_zones e) = nat (ec_ZoneCount cfg)" "em_zones e \<noteq> []" "em_maxOpenZones e = ec_MaxOpenZones cfg" "0 < em_maxOpenZones e"
      "em_Capacity e = of_int (ec_ZoneCount cfg) * em_zoneSectors e"
    using assms(1) by (auto simp: em_New_def em_Capacity_def Let_def split: if_splits)
  obtain n where n: "ec_ZoneSizeMB cfg = int n" using pos(2) zero_less_imp_eq_int by blast
  have "n < 2 ^ 44" using assms(2) n by simp
  then have "unat (of_nat n * 1048576 :: u64) = n * 1048576" by (subst unat_mult_lt) (simp_all add: unat_u64_of_nat)
  then show "unat (em_zoneSectors e) = 2048 * nat (ec_ZoneSizeMB cfg)"
    using assms(1) pos n by (auto simp: em_New_def Let_def unat_div_distrib mult.assoc split: if_splits)
qed

text \<open>An empty journal stands for the empty table.\<close>

lemma wal_saved_empty: "wal_saved segments zones wal_demo (\<lambda>_. 0)"
  unfolding wal_saved_def by (intro exI [of _ "[]"]) (simp add: wal_demo_rep log_table_def)

lemma Read_unmapped:
  assumes "em_inv (ztl_device s)" and "ztl_inv (em_view (ztl_device s)) s" and "L2P_Get (ztl_l2p s) = (\<lambda>_. 0)" and "unat lba + unat c \<le> 2 ^ 63"
  shows "fst (ztl_Read em_dev s lba c) = Inr (zeros (unat c * sectorSize))"
proof -
  have "logical (em_view (ztl_device s)) s = (\<lambda>_. zeros sectorSize)" using assms(3) by (simp add: logical_def seg_sector_def fun_eq_iff)
  moreover have "concat (map (\<lambda>_. zeros sectorSize) [a..<a + n]) = zeros (n * sectorSize)" for a n
    by (induction n) (simp_all add: zeros_def flip: replicate_add add.commute)
  ultimately show ?thesis using em.ztl_Read_logical [OF assms(1,2,4)] by simp
qed

text \<open>A start over an emulator and an empty journal reads zeros everywhere.\<close>

lemma startup_fresh:
  assumes dev: "em_inv d" "em_zones d \<noteq> []" "length (em_zones d) \<le> 2 ^ 24" "unat (em_zoneSectors d) < 2 ^ 40" "0 < em_maxOpenZones d"
    and seg: "0 < unat (SectorsPerSegment cfg)" "unat (SectorsPerSegment cfg) < 2 ^ 32" "unat (SectorsPerSegment cfg) \<le> unat (em_zoneSectors d)"
      "0 < em_Capacity d div SectorsPerSegment cfg"
    and j: "openFile (jc_Path (cfg_Journal cfg)) = Inr \<lparr>f_content = [], f_script = [], f_readErr = None\<rparr>"
  shows "\<exists>t. startup cfg openFile em_dev d = Some (Inr t) \<and> ztl_device t = d \<and>
    (\<forall>lba c. unat lba + unat c \<le> 2 ^ 63 \<longrightarrow> fst (ztl_Read em_dev t lba c) = Inr (zeros (unat c * sectorSize)))"
proof -
  obtain t where t: "startup cfg openFile em_dev d = Some (Inr t)" "L2P_Get (ztl_l2p t) = (\<lambda>_. 0)" "ztl_device t = d"
    "ztl_sectorsPerSeg t = SectorsPerSegment cfg" "wb_buffers (ztl_buf t) = []" "zm_geoms (ztl_zm t) = zone_geoms (em_view d)"
    using startup_table [OF dev seg(1-3) refl seg(4) wal_saved_empty, of openFile] j by (auto simp: wal_demo_def)
  have nz: "SectorsPerSegment cfg \<noteq> 0" "em_zoneSectors d \<noteq> 0" "em_Capacity d div SectorsPerSegment cfg \<noteq> 0" using seg by auto
  obtain u :: "(Emulator, unit) ZTL" where u: "ztl_New cfg em_dev d () = Inr u"
    using em_report_all [OF dev(1,2)] nz by (auto simp: ztl_New_def em_dev_def zm_Initialize_def Let_def split: sum.splits)
  have uf: "ztl_sectorsPerSeg u = SectorsPerSegment cfg" "wb_buffers (ztl_buf u) = []" "L2P_Get (ztl_l2p u) = (\<lambda>_. 0)"
    using u by (auto simp: ztl_New_def em_dev_def Let_def NewWriteBuffer_def L2P_Get_def NewL2PTable_def word_le_nat_alt fun_eq_iff
        split: if_splits sum.splits prod.splits)
  have ui: "ztl_inv (em_view d) u" "ztl_device u = d" using ztl_New_em_inv [OF dev seg(2,3) u] by auto
  then have "reads_alike u t" using t uf by (simp add: reads_alike_def ztl_inv_def buffered_ok_def)
  then show ?thesis using t(1,3) Read_alike [of u t em_dev] Read_unmapped [of u] ui uf(3) dev(1) by auto
qed

lemma loadConfig_valid: "loadConfig env path = Inr cfg \<Longrightarrow> Validate cfg = Inr ()"
  by (auto simp: loadConfig_def Load_def Validate_def DefaultConfig_def split: if_splits sum.splits)

lemma api_New_ok:
  assumes "registry_law F names" and "names r \<inter> set metric_names = {}" and "sc_Registerer cfg = None"
  shows "\<exists>s. api_New isDir F r cfg = Some s"
  using NewMetrics_registers [OF assms(1), of r] assms(2,3) by (auto simp: api_New_def)

lemma daemon_servers_ok:
  assumes "registry_law (env_factory env) names" and "names (env_registry env) \<inter> set metric_names = {}"
  shows "\<exists>d. daemon_servers env ord zord now cfg ops z = Some d \<and> dm_ztl d = z \<and> dm_cfg d = cfg \<and>
    tgt_LUNs (sv_target (dm_server d)) = [\<lparr>lun_ID = 0, lun_BlockSize = ztl_BlockSize ops z, lun_NumBlocks = ztl_Capacity ops z\<rparr>]"
proof -
  let ?t = "AddLUN 0 (ztl_BlockSize ops z) (ztl_Capacity ops z) (NewTarget (tc_IQN (cfg_Target cfg)) (tc_Portal (cfg_Target cfg)))"
  let ?sv = "NewServer cfg ?t (NewHandler (ztl_blockDevice ord zord ops (Some (wal_journal now)) now) ''ZNS-ISCSI-001'' (str_bytes ''zns-iscsi-target''))"
  have "sc_Registerer (daemon_apiConfig env cfg ?sv z) = None" by (simp add: daemon_apiConfig_def)
  from api_New_ok [OF assms this] obtain api where
    "api_New (env_isDir env) (env_factory env) (env_registry env) (daemon_apiConfig env cfg ?sv z) = Some api" by blast
  then show ?thesis by (simp add: daemon_servers_def Let_def) (simp add: NewServer_def AddLUN_def NewTarget_def)
qed

text \<open>The capacity in sectors, as a number.\<close>

lemma em_capacity_value:
  assumes "unat (em_zoneSectors e) = 2048 * nat mb" and "em_Capacity e = of_int zones * em_zoneSectors e"
    and "0 < zones" and "0 < mb" and "zones * mb < 2 ^ 44"
  shows "em_Capacity e = of_int (zones * mb * 2048)" and "unat (em_Capacity e) = nat zones * nat mb * 2048" and "kb \<le> 1024 * mb \<Longrightarrow> 2 * nat kb \<le> nat zones * nat mb * 2048"
proof -
  obtain n m where n: "zones = int n" and m: "mb = int m" using assms(3,4) zero_less_imp_eq_int by metis
  have "of_nat (unat (em_zoneSectors e)) = em_zoneSectors e" by simp
  then have "em_zoneSectors e = of_nat (2048 * m)" using assms(1) m by simp
  then have c: "em_Capacity e = of_nat (n * m * 2048)" using assms(2) n by simp
  then show "em_Capacity e = of_int (zones * mb * 2048)" by (simp add: n m)
  have "int (n * m) < int (2 ^ 44)" using assms(5) n m by simp
  then have "n * m < 2 ^ 44" by (simp only: of_nat_less_iff)
  then have "n * m * 2048 < 2 ^ 44 * 2048" by (simp only: mult_less_cancel2) simp
  then have "n * m * 2048 < 2 ^ 64" by (rule less_trans) simp
  then show "unat (em_Capacity e) = nat zones * nat mb * 2048" unfolding c n m by (simp only: unat_u64_of_nat nat_int)
  have "m \<le> n * m" using assms(3) n by simp
  then have "1024 * m \<le> 1024 * (n * m)" by simp
  moreover have "nat kb \<le> 1024 * m" if "kb \<le> 1024 * mb" using that m by (simp add: nat_le_iff)
  ultimately have "nat kb \<le> 1024 * (n * m)" if "kb \<le> 1024 * mb" using that le_trans by blast
  then show "2 * nat kb \<le> nat zones * nat mb * 2048" if "kb \<le> 1024 * mb" using that unfolding n m by (simp add: mult.commute)
qed

text \<open>What a stop leaves when the flush succeeds: the device and the journal file as they are after the flush.\<close>

lemma wal_committed: "wal_GroupCommit w = (Inr (), w') \<Longrightarrow> wal_pending w' = []"
  by (auto simp: wal_GroupCommit_def Let_def split: if_splits prod.splits sum.splits)

lemma stop_state:
  assumes "em_inv (ztl_device s)" and "ztl_inv (em_view (ztl_device s)) s" and "\<And>xs. set (zord xs) = set xs"
    and "daemon_stop zord now em_dev s = ((Inr (), r2, r3, r4), s2)"
  shows "\<exists>s1. ztl_Flush zord em_dev (Some (wal_journal now)) s = (Inr (), s1) \<and> r2 = Inr () \<and> r4 = Inr () \<and>
    ztl_device s2 = ztl_device s1 \<and> f_content (wal_file (ztl_journal s2)) = f_content (wal_file (ztl_journal s1))"
proof -
  obtain s1 where fl: "ztl_Flush zord em_dev (Some (wal_journal now)) s = (Inr (), s1)"
    using assms(4) by (auto simp: daemon_stop_def split: prod.splits)
  obtain s0 where f: "ztl_flushBuf zord em_dev s = (Inr (), s0)" and c: "wal_GroupCommit (ztl_journal s0) = (Inr (), ztl_journal s1)"
    and s1: "s1 = s0\<lparr>ztl_journal := ztl_journal s1\<rparr>"
    using fl by (auto simp: ztl_Flush_def log_call_def wal_journal_def split: prod.splits sum.splits)
  have "ztl_buf s1 = ztl_buf s0" by (subst s1) simp
  then have cl: "ztl_Close zord em_dev s1 = (Inr (), s1)"
    using em.ztl_flushBuf_ok [OF assms(1-3) f] by (intro ztl_Close_empty [OF _ assms(3)]) simp
  have "wal_pending (ztl_journal s1) = []" using wal_committed [OF c] .
  then obtain r f where w: "wal_Close (ztl_journal s1) = (r, (ztl_journal s1)\<lparr>wal_file := f\<rparr>)" "f_content f = f_content (wal_file (ztl_journal s1))"
    using os_call_content [THEN conjunct1] by (cases "os_call (wal_file (ztl_journal s1))") (auto simp: wal_Close_def wal_GroupCommit_def)
  show ?thesis using assms(4) fl cl w by (auto simp: daemon_stop_def em_dev_def)
qed

lemma daemon_boot_ok:
  assumes "env_mkdirAll env (journalDirOf (jc_Path (cfg_Journal cfg))) = Inr ()" and "startup cfg (env_openFile env) ops dev = Some (Inr t)"
    and "registry_law (env_factory env) names" and "names (env_registry env) \<inter> set metric_names = {}"
  shows "\<exists>d. daemon_boot env ord zord now cfg ops dev = Some (Inr d) \<and> dm_ztl d = t \<and>
    tgt_LUNs (sv_target (dm_server d)) = [\<lparr>lun_ID = 0, lun_BlockSize = ztl_BlockSize ops t, lun_NumBlocks = ztl_Capacity ops t\<rparr>]"
  using daemon_servers_ok [OF assms(3,4), of ord zord now cfg ops t] assms(1,2) by (auto simp: daemon_boot_def Let_def)

section \<open>Properties\<close>


text \<open>An environment for the witnesses: no configuration file, a file system with one file.\<close>

definition demo_env :: "bytes \<Rightarrow> (string list, unit, rat, unit) Env" where
  "demo_env content =
     \<lparr>env_stat = \<lambda>_. NotExist, env_readFile = \<lambda>_. Inl (Errorf ''no such file''), env_unmarshal = \<lambda>_ c. Inr c, env_mkdirAll = \<lambda>_. Inr (),
      env_openFile = \<lambda>_. Inr \<lparr>f_content = content, f_script = [], f_readErr = None\<rparr>, env_factory = demo_reg, env_registry = []\<rparr>"




lemma unat_times_le: "unat (of_nat z * w :: u64) \<le> z * unat w"
proof -
  have "unat (of_nat z * w) \<le> unat (of_nat z :: u64) * unat w" by (simp add: unat_word_ariths)
  also have "\<dots> \<le> z * unat w" by (simp add: unat_of_nat)
  finally show ?thesis .
qed

text \<open>
  The emulator keeps its zones in memory, the journal is a file: a daemon that is started again with the emulator and the journal of an earlier run comes up with the old table over a device
  that is empty, so that every mapped segment points at sectors that were never written.
\<close>

lemma emulator_restart_stale:
  assumes "em_New ec = Inr d" and "ec_ZoneCount ec * ec_ZoneSizeMB ec < 2 ^ 44" and "ec_ZoneSizeMB ec < 2 ^ 29" and "ec_ZoneCount ec \<le> 2 ^ 24"
    and "0 < unat (SectorsPerSegment cfg)" and "unat (SectorsPerSegment cfg) < 2 ^ 32" and "unat (SectorsPerSegment cfg) \<le> unat (em_zoneSectors d)"
    and "em_Capacity d div SectorsPerSegment cfg = segments" and "0 < segments"
    and "wal_saved segments (length (em_zones d)) w m"
    and "openFile (jc_Path (cfg_Journal cfg)) = Inr \<lparr>f_content = f_content (wal_file w), f_script = [], f_readErr = None\<rparr>"
  shows "\<exists>t. startup cfg openFile em_dev d = Some (Inr t) \<and> L2P_Get (ztl_l2p t) = m \<and>
    (\<forall>z < length (em_zones d). v_wp (em_view (ztl_device t)) z = 0)"
proof -
  have mb: "0 < ec_ZoneCount ec" "0 < ec_ZoneSizeMB ec" using assms(1) by (auto simp: em_New_def split: if_splits)
  have small: "ec_ZoneSizeMB ec < 2 ^ 44" using assms(3) by simp
  note f = em_New_facts [OF assms(1) small]
  have geo: "length (em_zones d) \<le> 2 ^ 24" "unat (em_zoneSectors d) < 2 ^ 40" using f(1,5) assms(3,4) mb by (simp_all add: nat_le_iff nat_less_iff)
  obtain t where t: "startup cfg openFile em_dev d = Some (Inr t)" "L2P_Get (ztl_l2p t) = m" "ztl_device t = d"
    using startup_table [where openFile = openFile, OF em_New_inv [OF assms(1,2)] f(2) geo f(4) assms(5-11)] by blast
  have "v_wp (em_view d) z = 0" if "z < length (em_zones d)" for z
    using assms(1) that by (auto simp: em_New_def em_view_def Let_def unat_times_le split: if_splits)
  then show ?thesis using t by auto
qed

end
