(* ===== verification/Process.thy ===== *)
theory Process
  imports Daemon Listener
begin

text \<open>
  The running process, steps 11 to 13 of \<^verbatim>\<open>main\<close> in \<^verbatim>\<open>cmd/zns-iscsi/main.go\<close>: the goroutines of the iSCSI server, of the API server and of the journal's commit loop, those of the
  translation layer (\<open>Lifecycle\<close>), the connections, and \<^verbatim>\<open>main\<close>, which waits for a signal or an error, stops the servers, flushes and runs its deferred calls. All of
  them interleave. \<^verbatim>\<open>http.Server\<close> is modelled by what it documents: \<^verbatim>\<open>Serve\<close> always returns an error, \<^verbatim>\<open>ErrServerClosed\<close> after \<^verbatim>\<open>Shutdown\<close>.
\<close>

section \<open>State\<close>

text \<open>
  The API goroutine: before \<^verbatim>\<open>Start\<close>, serving, with an error in hand, done. The commit loop: in its \<^verbatim>\<open>select\<close>, about to commit on a tick or for the last time, returned. \<^verbatim>\<open>main\<close>: the call
  it makes next.
\<close>

datatype api_pc = ApiUnstarted | ApiServing | ApiFailed go_error | ApiReported
datatype commit_pc = CommitSelect | CommitDue | CommitLast | CommitEnded
datatype main_pc =
    MainWaits | MainCancels | MainStopsServer | MainStopsApi | MainStopsCommit | MainFlushes
  | MainClosesZtl | MainClosesJournal | MainClosesDevice | MainReturned

record 'd Process =
  pr_ztl :: "('d, Wal) ZtlRun"
  pr_server :: ServerRun
  pr_listenReported :: bool
  pr_api :: api_pc
  pr_apiDown :: bool
  pr_commit :: commit_pc
  pr_commitDone :: bool
  pr_sigCh :: bool
  pr_errCh :: "go_error list"
  pr_main :: main_pc
  pr_journalClosed :: bool
  pr_deviceClosed :: bool

text \<open>What \<^verbatim>\<open>main\<close> has when it reaches step 11; \<^verbatim>\<open>errCh\<close> has room for two errors.\<close>

definition newProcess :: "('d, Wal) ZTL \<Rightarrow> 'd Process" where
  "newProcess z = \<lparr>pr_ztl = ztl_launch z, pr_server = newServerRun, pr_listenReported = False, pr_api = ApiUnstarted, pr_apiDown = False,
     pr_commit = CommitSelect, pr_commitDone = False, pr_sigCh = False, pr_errCh = [], pr_main = MainWaits,
     pr_journalClosed = False, pr_deviceClosed = False\<rparr>"

text \<open>
  The signals \<^verbatim>\<open>notifySignals\<close> asks for, of \<^verbatim>\<open>signal_unix.go\<close> and \<^verbatim>\<open>signal_windows.go\<close>; \<^verbatim>\<open>os.Interrupt\<close> is \<^verbatim>\<open>SIGINT\<close>. \<^verbatim>\<open>sigCh\<close> has room for one signal, and
  the runtime drops what does not fit.
\<close>

datatype os_signal = SIGTERM | SIGINT | OtherSignal nat

definition notifySignals_unix :: "os_signal list" where "notifySignals_unix = [SIGTERM, SIGINT]"
definition notifySignals_windows :: "os_signal list" where "notifySignals_windows = [SIGINT]"

fun notifySignals :: "'k Platform \<Rightarrow> os_signal list" where
  "notifySignals (WindowsBuild W) = notifySignals_windows"
| "notifySignals _ = notifySignals_unix"

definition signal_arrives :: "'k Platform \<Rightarrow> os_signal \<Rightarrow> 'd Process \<Rightarrow> 'd Process" where
  "signal_arrives P sig p = (if sig \<in> set (notifySignals P) then p\<lparr>pr_sigCh := True\<rparr> else p)"

definition errCh_cap :: nat where "errCh_cap = 2"

section \<open>Goroutines\<close>

text \<open>The goroutine of the iSCSI server: \<^verbatim>\<open>Listen\<close>, then its error, if any, into the channel.\<close>

inductive iscsi_step :: "'d Process \<Rightarrow> 'd Process \<Rightarrow> bool" where
  is_listen: "listen_step (pr_server p) s \<Longrightarrow> iscsi_step p (p\<lparr>pr_server := s\<rparr>)"
| is_report: "sr_listen (pr_server p) = Returned (Inl e) \<Longrightarrow> \<not> pr_listenReported p \<Longrightarrow> length (pr_errCh p) < errCh_cap \<Longrightarrow>
    iscsi_step p (p\<lparr>pr_listenReported := True, pr_errCh := pr_errCh p @ [Wrap ''iSCSI server'' e]\<rparr>)"

text \<open>\<^verbatim>\<open>Start\<close> of the API server.\<close>

inductive api_Start :: "bool \<Rightarrow> api_pc \<Rightarrow> api_pc \<Rightarrow> bool" for down where
  api_bind_fails: "api_Start down ApiUnstarted (ApiFailed e)"
| api_bind: "api_Start down ApiUnstarted ApiServing"
| api_serve_fails: "api_Start down ApiServing (ApiFailed e)"
| api_closed: "down \<Longrightarrow> api_Start down ApiServing (ApiFailed (Errorf ''http: Server closed''))"

text \<open>\<^verbatim>\<open>Shutdown\<close> of the API server.\<close>

definition api_Shutdown :: "'d Process \<Rightarrow> 'd Process" where
  "api_Shutdown p = p\<lparr>pr_apiDown := True\<rparr>"

text \<open>Its goroutine.\<close>

inductive api_step :: "'d Process \<Rightarrow> 'd Process \<Rightarrow> bool" where
  as_start: "api_Start (pr_apiDown p) (pr_api p) a \<Longrightarrow> api_step p (p\<lparr>pr_api := a\<rparr>)"
| as_report: "pr_api p = ApiFailed e \<Longrightarrow> length (pr_errCh p) < errCh_cap \<Longrightarrow>
    api_step p (p\<lparr>pr_api := ApiReported, pr_errCh := pr_errCh p @ [Wrap ''API server'' e]\<rparr>)"

text \<open>The commit loop. Nobody waits for it, so that it may commit to a journal that is closed: no call then changes the file.\<close>

definition commit_now :: "int \<Rightarrow> bool \<Rightarrow> ('d, Wal) ZTL \<Rightarrow> ('d, Wal) ZTL \<Rightarrow> bool" where
  "commit_now now isClosed z z' \<longleftrightarrow>
     (if isClosed then (\<exists>j. z' = z\<lparr>ztl_journal := j\<rparr> \<and> f_content (wal_file j) = f_content (wal_file (ztl_journal z)))
      else z' = ztl_commitTick (Some (wal_journal now)) z)"

inductive commit_step :: "int \<Rightarrow> 'd Process \<Rightarrow> 'd Process \<Rightarrow> bool" for now where
  cs_ctx: "pr_commit p = CommitSelect \<Longrightarrow> pr_commitDone p \<Longrightarrow> commit_step now p (p\<lparr>pr_commit := CommitLast\<rparr>)"
| cs_tick: "pr_commit p = CommitSelect \<Longrightarrow> commit_step now p (p\<lparr>pr_commit := CommitDue\<rparr>)"
| cs_due: "pr_commit p = CommitDue \<Longrightarrow> commit_now now (pr_journalClosed p) (zr_ztl (pr_ztl p)) z \<Longrightarrow>
    commit_step now p (p\<lparr>pr_commit := CommitSelect, pr_ztl := (pr_ztl p)\<lparr>zr_ztl := z\<rparr>\<rparr>)"
| cs_last: "pr_commit p = CommitLast \<Longrightarrow> commit_now now (pr_journalClosed p) (zr_ztl (pr_ztl p)) z \<Longrightarrow>
    commit_step now p (p\<lparr>pr_commit := CommitEnded, pr_ztl := (pr_ztl p)\<lparr>zr_ztl := z\<rparr>\<rparr>)"

section \<open>Main\<close>

text \<open>
  \<^verbatim>\<open>main\<close> from the \<^verbatim>\<open>select\<close> on: the context of the server, \<^verbatim>\<open>Shutdown\<close> of both servers with their errors ignored, the context of the commit loop, the flush; then the deferred
  calls, last one first.
\<close>

inductive main_step :: "(u32 list \<Rightarrow> u32 list) \<Rightarrow> int \<Rightarrow> 'd ZonedDevice \<Rightarrow> 'd Process \<Rightarrow> 'd Process \<Rightarrow> bool" for zord now ops where
  ms_signal: "pr_main p = MainWaits \<Longrightarrow> pr_sigCh p \<Longrightarrow> main_step zord now ops p (p\<lparr>pr_main := MainCancels, pr_sigCh := False\<rparr>)"
| ms_error: "pr_main p = MainWaits \<Longrightarrow> pr_errCh p = e # es \<Longrightarrow> main_step zord now ops p (p\<lparr>pr_main := MainCancels, pr_errCh := es\<rparr>)"
| ms_cancel: "pr_main p = MainCancels \<Longrightarrow>
    main_step zord now ops p (p\<lparr>pr_main := MainStopsServer, pr_server := (pr_server p)\<lparr>sr_cancelled := True\<rparr>\<rparr>)"
| ms_shutdown: "pr_main p = MainStopsServer \<Longrightarrow> shutdown_step (pr_server p) s \<Longrightarrow> main_step zord now ops p (p\<lparr>pr_server := s\<rparr>)"
| ms_shut: "pr_main p = MainStopsServer \<Longrightarrow> sr_shutdown (pr_server p) = ShutDown b r \<Longrightarrow> main_step zord now ops p (p\<lparr>pr_main := MainStopsApi\<rparr>)"
| ms_api: "pr_main p = MainStopsApi \<Longrightarrow> main_step zord now ops p (api_Shutdown (p\<lparr>pr_main := MainStopsCommit\<rparr>))"
| ms_commit: "pr_main p = MainStopsCommit \<Longrightarrow> main_step zord now ops p (p\<lparr>pr_main := MainFlushes, pr_commitDone := True\<rparr>)"
| ms_flush: "pr_main p = MainFlushes \<Longrightarrow> ztl_Flush zord ops (Some (wal_journal now)) (zr_ztl (pr_ztl p)) = (r, z) \<Longrightarrow>
    main_step zord now ops p (p\<lparr>pr_main := MainClosesZtl, pr_ztl := (pr_ztl p)\<lparr>zr_ztl := z\<rparr>\<rparr>)"
| ms_close: "pr_main p = MainClosesZtl \<Longrightarrow> close_step zord ops (pr_ztl p) r \<Longrightarrow> main_step zord now ops p (p\<lparr>pr_ztl := r\<rparr>)"
| ms_closed: "pr_main p = MainClosesZtl \<Longrightarrow> zr_close (pr_ztl p) = CloseDone res \<Longrightarrow> main_step zord now ops p (p\<lparr>pr_main := MainClosesJournal\<rparr>)"
| ms_journal: "pr_main p = MainClosesJournal \<Longrightarrow> wal_Close (ztl_journal (zr_ztl (pr_ztl p))) = (res, j) \<Longrightarrow>
    main_step zord now ops p (p\<lparr>pr_main := MainClosesDevice, pr_journalClosed := True,
      pr_ztl := (pr_ztl p)\<lparr>zr_ztl := (zr_ztl (pr_ztl p))\<lparr>ztl_journal := j\<rparr>\<rparr>\<rparr>)"
| ms_device: "pr_main p = MainClosesDevice \<Longrightarrow> dev_Close ops (ztl_device (zr_ztl (pr_ztl p))) = (res, d) \<Longrightarrow>
    main_step zord now ops p (p\<lparr>pr_main := MainReturned, pr_deviceClosed := True,
      pr_ztl := (pr_ztl p)\<lparr>zr_ztl := (zr_ztl (pr_ztl p))\<lparr>ztl_device := d\<rparr>\<rparr>\<rparr>)"

text \<open>
  The process, until \<^verbatim>\<open>main\<close> returns: besides the above, a signal arrives, the collector and the flush loop move, the listener is closed because its context has ended, a connection
  ends, and connections or the API call the translation layer, with any effect on it.
\<close>

inductive process_move ::
    "map_order \<Rightarrow> (u32 list \<Rightarrow> u32 list) \<Rightarrow> int \<Rightarrow> 'd ZonedDevice \<Rightarrow> 'd Process \<Rightarrow> 'd Process \<Rightarrow> bool" for zo zord now ops where
  by_iscsi: "iscsi_step p p' \<Longrightarrow> process_move zo zord now ops p p'"
| by_api: "api_step p p' \<Longrightarrow> process_move zo zord now ops p p'"
| by_commit: "commit_step now p p' \<Longrightarrow> process_move zo zord now ops p p'"
| by_main: "main_step zord now ops p p' \<Longrightarrow> process_move zo zord now ops p p'"
| by_gc: "gcLoop_step zo ops (Some (wal_journal now)) (pr_ztl p) r \<Longrightarrow> process_move zo zord now ops p (p\<lparr>pr_ztl := r\<rparr>)"
| by_flush: "flushLoop_step zord ops (pr_ztl p) r \<Longrightarrow> process_move zo zord now ops p (p\<lparr>pr_ztl := r\<rparr>)"
| by_signal: "process_move zo zord now ops p (p\<lparr>pr_sigCh := True\<rparr>)"
| by_ctx: "sr_cancelled (pr_server p) \<Longrightarrow> sr_listener (pr_server p) \<Longrightarrow>
    process_move zo zord now ops p (p\<lparr>pr_server := (pr_server p)\<lparr>sr_open := False\<rparr>\<rparr>)"
| by_conn: "0 < sr_wg (pr_server p) \<Longrightarrow>
    process_move zo zord now ops p (p\<lparr>pr_server := (pr_server p)\<lparr>sr_wg := sr_wg (pr_server p) - 1\<rparr>\<rparr>)"
| by_call: "process_move zo zord now ops p (p\<lparr>pr_ztl := (pr_ztl p)\<lparr>zr_ztl := z\<rparr>\<rparr>)"

definition process_step :: "map_order \<Rightarrow> (u32 list \<Rightarrow> u32 list) \<Rightarrow> int \<Rightarrow> 'd ZonedDevice \<Rightarrow> 'd Process \<Rightarrow> 'd Process \<Rightarrow> bool" where
  "process_step zo zord now ops p p' \<longleftrightarrow> pr_main p \<noteq> MainReturned \<and> process_move zo zord now ops p p'"

inductive_cases iscsi_stepE: "iscsi_step p p'"
inductive_cases api_StartE: "api_Start down a a'"
inductive_cases api_stepE: "api_step p p'"
inductive_cases commit_stepE: "commit_step now p p'"
inductive_cases main_stepE: "main_step zord now ops p p'"
inductive_cases process_moveE: "process_move zo zord now ops p p'"

declare api_Shutdown_def [simp]

lemmas process_stepE = process_moveE iscsi_stepE api_stepE commit_stepE main_stepE

section \<open>The parts within the process\<close>

text \<open>What the process does to the server are steps of the server, and what it does to the translation layer are steps of the layer or calls of it.\<close>

lemma move_server:
  assumes "process_move zo zord now ops p p'"
  shows "pr_server p' = pr_server p \<or> server_step (pr_server p) (pr_server p')"
  using assms by (elim process_stepE) (auto intro: server_step.intros server_step.conn_done [simplified])

lemma move_ztl:
  assumes "process_move zo zord now ops p p'"
  shows "own_step zo zord ops (Some (wal_journal now)) (pr_ztl p) (pr_ztl p') \<or> (\<exists>z. pr_ztl p' = (pr_ztl p)\<lparr>zr_ztl := z\<rparr>)"
  using assms by (elim process_stepE) (auto intro: own_step.intros exI [of _ "zr_ztl (pr_ztl p)"])

lemma process_parts:
  assumes "(process_step zo zord now ops)\<^sup>*\<^sup>* (newProcess z) p"
  shows "server_reach (pr_server p) \<and> run_reach zo zord ops (Some (wal_journal now)) z (pr_ztl p)"
  using assms
proof (induction rule: rtranclp_induct)
  case base
  show ?case by (simp add: newProcess_def server_reach.started run_reach.launched)
next
  case (step p p')
  have m: "process_move zo zord now ops p p'" using step(2) by (simp add: process_step_def)
  have "server_reach (pr_server p')" using move_server [OF m] step.IH server_reach.moved by metis
  moreover have "run_reach zo zord ops (Some (wal_journal now)) z (pr_ztl p')"
    using move_ztl [OF m] step.IH run_reach.stepped run_reach.called by metis
  ultimately show ?case ..
qed

section \<open>Invariant\<close>

fun main_rank :: "main_pc \<Rightarrow> nat" where
  "main_rank MainWaits = 0"
| "main_rank MainCancels = 1"
| "main_rank MainStopsServer = 2"
| "main_rank MainStopsApi = 3"
| "main_rank MainStopsCommit = 4"
| "main_rank MainFlushes = 5"
| "main_rank MainClosesZtl = 6"
| "main_rank MainClosesJournal = 7"
| "main_rank MainClosesDevice = 8"
| "main_rank MainReturned = 9"

definition is_ShutDown :: "shutdown_pc \<Rightarrow> bool" where "is_ShutDown s \<longleftrightarrow> (\<exists>b r. s = ShutDown b r)"
definition is_CloseDone :: "close_pc \<Rightarrow> bool" where "is_CloseDone c \<longleftrightarrow> close_rank c = 4"

lemma is_CloseDone_iff: "is_CloseDone c \<longleftrightarrow> (\<exists>res. c = CloseDone res)"
  by (cases c) (simp_all add: is_CloseDone_def)

definition process_inv :: "'d Process \<Rightarrow> bool" where
  "process_inv p \<longleftrightarrow>
     (3 \<le> main_rank (pr_main p) \<longrightarrow> is_ShutDown (sr_shutdown (pr_server p))) \<and>
     (zr_close (pr_ztl p) \<noteq> CloseNotCalled \<longrightarrow> 6 \<le> main_rank (pr_main p)) \<and>
     (7 \<le> main_rank (pr_main p) \<longrightarrow> is_CloseDone (zr_close (pr_ztl p))) \<and>
     (pr_journalClosed p \<longleftrightarrow> 8 \<le> main_rank (pr_main p)) \<and>
     (pr_deviceClosed p \<longleftrightarrow> 9 \<le> main_rank (pr_main p)) \<and>
     length (pr_errCh p) + (if pr_listenReported p then 0 else 1) + (if pr_api p = ApiReported then 0 else 1) \<le> errCh_cap"

lemma listen_keeps: "listen_step s s' \<Longrightarrow> sr_shutdown s' = sr_shutdown s"
  by (auto elim: listen_stepE)

lemma loops_keep: "gcLoop_step zo ops jn r r' \<Longrightarrow> zr_close r' = zr_close r" "flushLoop_step zord ops r r' \<Longrightarrow> zr_close r' = zr_close r"
  by (auto elim: gcLoop_stepE flushLoop_stepE)

lemma move_inv: "process_move zo zord now ops p p' \<Longrightarrow> process_inv p \<Longrightarrow> process_inv p'"
proof (elim process_moveE)
  assume "main_step zord now ops p p'" and "process_inv p"
  then show "process_inv p'" by (elim main_stepE) (auto simp: process_inv_def is_ShutDown_def is_CloseDone_iff)
next
  assume "iscsi_step p p'" and "process_inv p"
  then show "process_inv p'" by (elim iscsi_stepE) (auto simp: process_inv_def listen_keeps)
next
  assume "api_step p p'" and "process_inv p"
  then show "process_inv p'" by (elim api_stepE) (auto simp: process_inv_def elim!: api_StartE)
next
  assume "commit_step now p p'" and "process_inv p"
  then show "process_inv p'" by (elim commit_stepE) (auto simp: process_inv_def)
qed (auto simp: process_inv_def loops_keep)

lemma process_reach_inv:
  assumes "(process_step zo zord now ops)\<^sup>*\<^sup>* (newProcess z) p"
  shows "process_inv p"
  using assms
proof (induction rule: rtranclp_induct)
  case base
  show ?case by (simp add: process_inv_def newProcess_def ztl_launch_def wb_StartFlushLoop_def gc_Start_def newZtlRun_def errCh_cap_def)
next
  case (step p p')
  then show ?case using move_inv by (auto simp: process_step_def)
qed

section \<open>The way out\<close>

definition can_exit :: "map_order \<Rightarrow> (u32 list \<Rightarrow> u32 list) \<Rightarrow> int \<Rightarrow> 'd ZonedDevice \<Rightarrow> 'd Process \<Rightarrow> bool" where
  "can_exit zo zord now ops p \<longleftrightarrow> (\<exists>p'. (process_step zo zord now ops)\<^sup>*\<^sup>* p p' \<and> pr_main p' = MainReturned)"

lemma can_exit_main: "main_step zord now ops p p' \<Longrightarrow> pr_main p \<noteq> MainReturned \<Longrightarrow> can_exit zo zord now ops p' \<Longrightarrow> can_exit zo zord now ops p"
  unfolding can_exit_def by (meson by_main converse_rtranclp_into_rtranclp process_step_def)

lemma can_exit_journal: "pr_main p = MainClosesJournal \<Longrightarrow> can_exit zo zord now ops p"
proof (rule can_exit_main [OF ms_journal])
  fix res j
  let ?p = "p\<lparr>pr_main := MainClosesDevice, pr_journalClosed := True, pr_ztl := (pr_ztl p)\<lparr>zr_ztl := (zr_ztl (pr_ztl p))\<lparr>ztl_journal := j\<rparr>\<rparr>\<rparr>"
  show "can_exit zo zord now ops ?p"
    by (rule can_exit_main [OF ms_device [OF _ prod.collapse [symmetric]]]) (auto simp: can_exit_def)
qed (auto intro: prod.collapse [symmetric])

text \<open>While \<^verbatim>\<open>main\<close> closes the translation layer, the steps of the layer are steps of the process.\<close>

lemma own_lift:
  "own_step zo zord ops (Some (wal_journal now)) (pr_ztl p) r \<Longrightarrow> pr_main p = MainClosesZtl \<Longrightarrow>
     process_step zo zord now ops p (p\<lparr>pr_ztl := r\<rparr>)"
  by (elim own_stepE) (auto simp: process_step_def intro: by_gc by_flush by_main ms_close)

lemma close_lift:
  assumes "(own_step zo zord ops (Some (wal_journal now)))\<^sup>*\<^sup>* (pr_ztl p) r" and "pr_main p = MainClosesZtl"
  shows "(process_step zo zord now ops)\<^sup>*\<^sup>* p (p\<lparr>pr_ztl := r\<rparr>)"
  using assms(1)
proof (induction rule: rtranclp_induct)
  case base
  show ?case by simp
next
  case (step r r')
  have "process_step zo zord now ops (p\<lparr>pr_ztl := r\<rparr>) (p\<lparr>pr_ztl := r'\<rparr>)"
    using own_lift [of zo zord ops now "p\<lparr>pr_ztl := r\<rparr>" r'] step(2) assms(2) by simp
  then show ?case using step.IH by (rule rtranclp.rtrancl_into_rtrancl [rotated])
qed

lemma can_exit_close:
  assumes "pr_main p = MainClosesZtl" and "run_inv (pr_ztl p)"
  shows "can_exit zo zord now ops p"
proof -
  obtain r res where r: "(own_step zo zord ops (Some (wal_journal now)))\<^sup>*\<^sup>* (pr_ztl p) r" "zr_close r = CloseDone res"
    using close_returns [OF assms(2)] by blast
  have "can_exit zo zord now ops (p\<lparr>pr_ztl := r\<rparr>)"
    by (rule can_exit_main [OF ms_closed [where res = res]]) (simp_all add: assms(1) r(2) can_exit_journal)
  then show ?thesis using close_lift [OF r(1) assms(1)] unfolding can_exit_def by (meson rtranclp_trans)
qed

lemma can_exit_flush:
  assumes "pr_main p \<in> {MainStopsApi, MainStopsCommit, MainFlushes}" and "run_inv (pr_ztl p)"
  shows "can_exit zo zord now ops p"
proof -
  have f: "can_exit zo zord now ops p" if "pr_main p = MainFlushes" "run_inv (pr_ztl p)" for p
    by (rule can_exit_main [OF ms_flush [OF that(1) prod.collapse [symmetric]]]) (use that in \<open>auto intro!: can_exit_close simp: run_inv_def\<close>)
  have c: "can_exit zo zord now ops p" if "pr_main p = MainStopsCommit" "run_inv (pr_ztl p)" for p
    by (rule can_exit_main [OF ms_commit [OF that(1)]]) (use that f in simp_all)
  have "can_exit zo zord now ops p" if "pr_main p = MainStopsApi" "run_inv (pr_ztl p)" for p
    by (rule can_exit_main [OF ms_api [OF that(1)]]) (use that c in simp_all)
  then show ?thesis using assms f c by auto
qed

lemma can_exit_shutdown:
  assumes "pr_main p = MainStopsServer" and "run_inv (pr_ztl p)"
  shows "can_exit zo zord now ops p"
proof -
  have d: "can_exit zo zord now ops p" if "pr_main p = MainStopsServer" "sr_shutdown (pr_server p) = ShutDown b r" "run_inv (pr_ztl p)" for p b r
    by (rule can_exit_main [OF ms_shut [OF that(1,2)]]) (use that in \<open>simp_all add: can_exit_flush\<close>)
  have w: "can_exit zo zord now ops p" if "pr_main p = MainStopsServer" "sr_shutdown (pr_server p) = Waiting b" "run_inv (pr_ztl p)" for p b
    by (rule can_exit_main [OF ms_shutdown [OF that(1) times_out [OF that(2)]]]) (use that d in simp_all)
  have f: "can_exit zo zord now ops p" if "pr_main p = MainStopsServer" "sr_shutdown (pr_server p) = Flagged b" "run_inv (pr_ztl p)" for p b
    by (rule can_exit_main [OF ms_shutdown [OF that(1) close [OF that(2)]]]) (use that w in simp_all)
  have n: "can_exit zo zord now ops p" if "pr_main p = MainStopsServer" "sr_shutdown (pr_server p) = NotCalled" "run_inv (pr_ztl p)" for p
    by (rule can_exit_main [OF ms_shutdown [OF that(1) flag [OF that(2)]]]) (use that f in simp_all)
  show ?thesis using assms d w f n by (cases "sr_shutdown (pr_server p)") auto
qed

lemma can_exit_stopping:
  assumes "pr_main p \<noteq> MainWaits" and "run_inv (pr_ztl p)"
  shows "can_exit zo zord now ops p"
proof (cases "pr_main p")
  case MainCancels
  then show ?thesis by (rule can_exit_main [OF ms_cancel]) (use MainCancels assms(2) in \<open>simp_all add: can_exit_shutdown\<close>)
next
  case MainClosesDevice
  then show ?thesis by (rule can_exit_main [OF ms_device [OF _ prod.collapse [symmetric]]]) (auto simp: can_exit_def MainClosesDevice)
next
  case MainReturned
  then show ?thesis by (auto simp: can_exit_def)
qed (use assms in \<open>simp_all add: can_exit_shutdown can_exit_flush can_exit_close can_exit_journal\<close>)

lemma can_exit_waiting:
  assumes "pr_sigCh p \<or> pr_errCh p \<noteq> []" and "pr_main p = MainWaits" and "run_inv (pr_ztl p)"
  shows "can_exit zo zord now ops p"
proof (cases "pr_sigCh p")
  case True
  show ?thesis by (rule can_exit_main [OF ms_signal [OF assms(2) True]]) (simp_all add: assms can_exit_stopping)
next
  case False
  then obtain e es where e: "pr_errCh p = e # es" using assms(1) by (cases "pr_errCh p") auto
  show ?thesis by (rule can_exit_main [OF ms_error [OF assms(2) e]]) (simp_all add: assms can_exit_stopping)
qed

text \<open>An interrupt ends the process in every build.\<close>

lemma interrupt_exits:
  assumes "run_inv (pr_ztl p)"
  shows "can_exit zo zord now ops (signal_arrives P SIGINT p)"
proof (cases "pr_main p = MainWaits")
  case True
  then show ?thesis using assms by (cases P) (auto simp: signal_arrives_def notifySignals_unix_def notifySignals_windows_def intro: can_exit_waiting)
next
  case False
  then show ?thesis using assms by (cases P) (auto simp: signal_arrives_def notifySignals_unix_def notifySignals_windows_def intro: can_exit_stopping)
qed

lemma exit_closes:
  assumes "(process_step zo zord now ops)\<^sup>*\<^sup>* (newProcess z) p" and "can_exit zo zord now ops p"
  shows "\<exists>p'. (process_step zo zord now ops)\<^sup>*\<^sup>* p p' \<and> pr_main p' = MainReturned \<and> pr_deviceClosed p'"
proof -
  obtain p' where p': "(process_step zo zord now ops)\<^sup>*\<^sup>* p p'" "pr_main p' = MainReturned" using assms(2) by (auto simp: can_exit_def)
  moreover have "process_inv p'" by (rule process_reach_inv [OF rtranclp_trans [OF assms(1) p'(1)]])
  ultimately show ?thesis by (auto simp: process_inv_def)
qed

text \<open>
  When the collector is in its \<^verbatim>\<open>select\<close> and nothing else happens in between, \<^verbatim>\<open>main\<close> leaves the state that \<open>daemon_stop\<close> computes: the sequential stop of \<open>Daemon\<close> is one of the
  schedules of the process.
\<close>

lemma close_alone:
  assumes "zr_close r = CloseNotCalled" and "zr_gc r = GcSelect"
  shows "\<exists>r' res. (own_step zo zord ops jn)\<^sup>*\<^sup>* r r' \<and> zr_close r' = CloseDone res \<and> zr_ztl r' = snd (ztl_Close zord ops (zr_ztl r))"
proof -
  let ?r1 = "r\<lparr>zr_close := CloseCancelled, zr_ctxDone := True\<rparr>"
  let ?r2 = "?r1\<lparr>zr_close := CloseStopping, zr_stopCh := True\<rparr>"
  let ?r3 = "?r2\<lparr>zr_gc := GcEnded, zr_doneCh := True\<rparr>"
  let ?r4 = "?r3\<lparr>zr_close := CloseFlushing\<rparr>"
  let ?r5 = "?r4\<lparr>zr_close := CloseDone (fst (ztl_Close zord ops (zr_ztl ?r4))), zr_ztl := snd (ztl_Close zord ops (zr_ztl ?r4))\<rparr>"
  have "own_step zo zord ops jn r ?r1" by (rule closing [OF cl_cancel [OF assms(1)]])
  moreover have "own_step zo zord ops jn ?r1 ?r2" by (intro closing cl_stop st_close) simp
  moreover have "own_step zo zord ops jn ?r2 ?r3" by (intro collecting gc_stop) (simp_all add: assms(2))
  moreover have "own_step zo zord ops jn ?r3 ?r4" by (intro closing cl_stop st_wait) simp_all
  moreover have "own_step zo zord ops jn ?r4 ?r5" by (intro closing cl_flush) simp_all
  ultimately have "(own_step zo zord ops jn)\<^sup>*\<^sup>* r ?r5" by (meson converse_rtranclp_into_rtranclp rtranclp.rtrancl_refl)
  then show ?thesis by (intro exI [of _ ?r5] exI [of _ "fst (ztl_Close zord ops (zr_ztl r))"]) simp
qed

lemma stop_schedule:
  assumes "pr_main p = MainFlushes" and "zr_close (pr_ztl p) = CloseNotCalled" and "zr_gc (pr_ztl p) = GcSelect"
  shows "\<exists>p'. (process_step zo zord now ops)\<^sup>*\<^sup>* p p' \<and> pr_main p' = MainReturned \<and>
    zr_ztl (pr_ztl p') = snd (daemon_stop zord now ops (zr_ztl (pr_ztl p)))"
proof -
  have main: "process_step zo zord now ops p p'" if "main_step zord now ops p p'" "pr_main p \<noteq> MainReturned" for p p' :: "'a Process"
    using that by (simp add: process_step_def by_main)
  obtain r1 z1 where fl: "ztl_Flush zord ops (Some (wal_journal now)) (zr_ztl (pr_ztl p)) = (r1, z1)" by fastforce
  obtain r2 z2 where cl: "ztl_Close zord ops z1 = (r2, z2)" by fastforce
  obtain r3 j where jc: "wal_Close (ztl_journal z2) = (r3, j)" by fastforce
  obtain r4 d where dc: "dev_Close ops (ztl_device z2) = (r4, d)" by fastforce
  let ?p1 = "p\<lparr>pr_main := MainClosesZtl, pr_ztl := (pr_ztl p)\<lparr>zr_ztl := z1\<rparr>\<rparr>"
  obtain r res where r: "(own_step zo zord ops (Some (wal_journal now)))\<^sup>*\<^sup>* (pr_ztl ?p1) r" "zr_close r = CloseDone res" "zr_ztl r = z2"
    using close_alone [of "pr_ztl ?p1" zo zord ops "Some (wal_journal now)"] assms(2,3) cl by auto
  let ?p2 = "?p1\<lparr>pr_ztl := r\<rparr>"
  let ?p3 = "?p2\<lparr>pr_main := MainClosesJournal\<rparr>"
  let ?p4 = "?p3\<lparr>pr_main := MainClosesDevice, pr_journalClosed := True, pr_ztl := (pr_ztl ?p3)\<lparr>zr_ztl := (zr_ztl (pr_ztl ?p3))\<lparr>ztl_journal := j\<rparr>\<rparr>\<rparr>"
  let ?p5 = "?p4\<lparr>pr_main := MainReturned, pr_deviceClosed := True, pr_ztl := (pr_ztl ?p4)\<lparr>zr_ztl := (zr_ztl (pr_ztl ?p4))\<lparr>ztl_device := d\<rparr>\<rparr>\<rparr>"
  have "process_step zo zord now ops p ?p1" by (rule main [OF ms_flush [OF assms(1) fl]]) (simp add: assms(1))
  moreover have "(process_step zo zord now ops)\<^sup>*\<^sup>* ?p1 ?p2" by (rule close_lift [OF r(1)]) simp
  moreover have "process_step zo zord now ops ?p2 ?p3" by (rule main [OF ms_closed [where res = res]]) (simp_all add: r(2))
  moreover have "process_step zo zord now ops ?p3 ?p4" by (rule main [OF ms_journal [where res = r3]]) (simp_all add: r(3) jc)
  moreover have "process_step zo zord now ops ?p4 ?p5" by (rule main [OF ms_device [where res = r4]]) (simp_all add: r(3) dc)
  ultimately have "(process_step zo zord now ops)\<^sup>*\<^sup>* p ?p5"
    by (meson converse_rtranclp_into_rtranclp rtranclp.rtrancl_into_rtrancl)
  then show ?thesis using fl cl jc dc r(3) by (intro exI [of _ ?p5]) (simp add: daemon_stop_def)
qed

section \<open>Properties\<close>

text \<open>
  C28: the process stops in order. In every state that the goroutines, the connections and \<^verbatim>\<open>main\<close> reach by any interleaving: the device is closed only after the journal; the
  journal only after the translation layer's \<^verbatim>\<open>Close\<close> has returned, when the collector has ended and cannot move; \<^verbatim>\<open>Close\<close> is called only after \<^verbatim>\<open>Shutdown\<close> of the server has returned, with at
  most one connection left if it saw the listener and returned no error; and a goroutine with an error to report finds room in the channel.
\<close>

theorem process_stop_order:
  assumes "(process_step zo zord now ops)\<^sup>*\<^sup>* (newProcess z) p"
  shows "(pr_deviceClosed p \<longrightarrow> pr_journalClosed p) \<and>
    (pr_journalClosed p \<longrightarrow> (\<exists>res. zr_close (pr_ztl p) = CloseDone res) \<and> zr_gc (pr_ztl p) = GcEnded \<and>
       (\<nexists>r. gcLoop_step zo ops (Some (wal_journal now)) (pr_ztl p) r)) \<and>
    (zr_close (pr_ztl p) \<noteq> CloseNotCalled \<longrightarrow> (\<exists>b r. sr_shutdown (pr_server p) = ShutDown b r \<and> (b \<and> r = Inr () \<longrightarrow> inFlight (pr_server p) \<le> 1))) \<and>
    (((\<exists>e. sr_listen (pr_server p) = Returned (Inl e)) \<and> \<not> pr_listenReported p) \<or> (\<exists>e. pr_api p = ApiFailed e) \<longrightarrow> length (pr_errCh p) < errCh_cap)"
proof -
  have i: "process_inv p" by (rule process_reach_inv [OF assms])
  have r: "run_inv (pr_ztl p)" and s: "server_inv (pr_server p)" using process_parts [OF assms] run_reach_inv server_reach_inv by blast+
  have "(\<exists>res. zr_close (pr_ztl p) = CloseDone res) \<and> zr_gc (pr_ztl p) = GcEnded" if "pr_journalClosed p"
    using i r that by (auto simp: process_inv_def run_inv_def is_CloseDone_iff)
  moreover have "\<nexists>r'. gcLoop_step zo ops (Some (wal_journal now)) (pr_ztl p) r'" if "zr_gc (pr_ztl p) = GcEnded"
    using that by (auto elim: gcLoop_stepE)
  moreover have "\<exists>b r. sr_shutdown (pr_server p) = ShutDown b r \<and> (b \<and> r = Inr () \<longrightarrow> inFlight (pr_server p) \<le> 1)"
    if "zr_close (pr_ztl p) \<noteq> CloseNotCalled"
    using i s that by (auto simp: process_inv_def server_inv_def is_ShutDown_def)
  moreover have "length (pr_errCh p) < errCh_cap"
    if "((\<exists>e. sr_listen (pr_server p) = Returned (Inl e)) \<and> \<not> pr_listenReported p) \<or> (\<exists>e. pr_api p = ApiFailed e)"
    using i that by (auto simp: process_inv_def split: if_splits)
  moreover have "pr_deviceClosed p \<longrightarrow> pr_journalClosed p" using i by (auto simp: process_inv_def)
  ultimately show ?thesis by blast
qed

text \<open>
  C29: the process ends. From every reachable state in which a signal or an error of a server has arrived, or the stop has begun, there is a way to the return of \<^verbatim>\<open>main\<close>: no interleaving
  leads into a deadlock of the stop.
\<close>

theorem process_exits:
  assumes "(process_step zo zord now ops)\<^sup>*\<^sup>* (newProcess z) p" and "pr_sigCh p \<or> pr_errCh p \<noteq> [] \<or> pr_main p \<noteq> MainWaits"
  shows "\<exists>p'. (process_step zo zord now ops)\<^sup>*\<^sup>* p p' \<and> pr_main p' = MainReturned \<and> pr_deviceClosed p'"
proof -
  have r: "run_inv (pr_ztl p)" using process_parts [OF assms(1)] run_reach_inv by blast
  have "can_exit zo zord now ops p" using can_exit_waiting [OF _ _ r] can_exit_stopping [OF _ r] assms(2) by blast
  then show ?thesis by (rule exit_closes [OF assms(1)])
qed

text \<open>A process over the translation layer of \<open>Durability\<close>, at the arrival of a signal.\<close>

lemma signalled_reach:
  "(process_step (\<lambda>x. x) (\<lambda>x. x) 0 em_dev)\<^sup>*\<^sup>* (newProcess ztl_wdemo) ((newProcess ztl_wdemo)\<lparr>pr_sigCh := True\<rparr>)"
proof -
  have "pr_main (newProcess ztl_wdemo) = MainWaits" by (simp add: newProcess_def)
  then show ?thesis by (intro r_into_rtranclp) (simp add: process_step_def by_signal)
qed

theorem process_exits_witness:
  "\<exists>p. (process_step (\<lambda>x. x) (\<lambda>x. x) 0 em_dev)\<^sup>*\<^sup>* ((newProcess ztl_wdemo)\<lparr>pr_sigCh := True\<rparr>) p \<and> pr_main p = MainReturned \<and> pr_deviceClosed p"
  using process_exits [OF signalled_reach] by simp

theorem process_stop_order_witness:
  "\<exists>p. (process_step (\<lambda>x. x) (\<lambda>x. x) 0 em_dev)\<^sup>*\<^sup>* (newProcess ztl_wdemo) p \<and> pr_deviceClosed p \<and> pr_journalClosed p \<and> zr_gc (pr_ztl p) = GcEnded"
proof -
  let ?p = "(newProcess ztl_wdemo)\<lparr>pr_sigCh := True\<rparr>"
  have "run_inv (pr_ztl ?p)" using process_parts [OF signalled_reach] run_reach_inv by blast
  then have "can_exit (\<lambda>x. x) (\<lambda>x. x) 0 em_dev ?p" by (intro can_exit_waiting) (simp_all add: newProcess_def)
  then obtain p where p: "(process_step (\<lambda>x. x) (\<lambda>x. x) 0 em_dev)\<^sup>*\<^sup>* ?p p" "pr_deviceClosed p" using exit_closes [OF signalled_reach] by blast
  have "(process_step (\<lambda>x. x) (\<lambda>x. x) 0 em_dev)\<^sup>*\<^sup>* (newProcess ztl_wdemo) p" by (rule rtranclp_trans [OF signalled_reach p(1)])
  from this process_stop_order [OF this] p(2) show ?thesis by blast
qed

end
