(* ===== verification/Spec2Isabelle.thy ===== *)
theory Spec2Isabelle
  imports Prelude Config Zbc Backend Emulator Segment L2P ZoneManager WriteBuffer Gc Ztl ZtlSpec GcSpec System Lifecycle Threads Readers Smr SmrSpec SgIo Spti JournalRecord Wal Recovery Durability
    Scsi Pdu Params Chap Login DataTransfer IscsiCmd Connection Session Listener Api Daemon Process
begin

text \<open>
  \<^bold>\<open>A verification of zns-iscsi-target.\<close>

  The program offers a host-managed zoned disk, on which a zone is written front to back only, as an ordinary block device to iSCSI initiators. Everything below
  \<^verbatim>\<open>src/internal\<close>, \<^verbatim>\<open>src/pkg\<close> and \<^verbatim>\<open>src/cmd\<close> is Go; the model has one definition per function, method or type, with its name where Isabelle allows it.

  \<^bold>\<open>How the parts interact.\<close> An initiator connects (\<^verbatim>\<open>internal/iscsi\<close>): the server takes the connection, the login phase negotiates parameters and authenticates by CHAP, then
  a loop reads PDUs. A SCSI command goes, for a write after its Data-Out PDUs have been put together, to the command layer
  (\<^verbatim>\<open>internal/scsi\<close>), which decodes the command block and calls a block device. The block device is the zone translation layer (\<^verbatim>\<open>internal/ztl\<close>): it cuts the address space into
  segments, keeps for each the place of its latest copy (L2P), appends writes to the buffer of an open zone, and logs each move in a write-ahead journal (\<^verbatim>\<open>internal/journal\<close>). A
  collector moves live segments out of zones and resets them. Below is a zoned device (\<^verbatim>\<open>internal/backend\<close>): an emulator in memory, or an SMR disk reached by SCSI commands.
  \<^verbatim>\<open>cmd/zns-iscsi/main.go\<close> puts the parts together, replays the journal at the start and flushes at the stop; \<^verbatim>\<open>internal/api\<close> is the management interface.

  \<^bold>\<open>The theories.\<close> Each opens with a text that says what it holds.

  \<^item> \<open>Prelude\<close>: the collections \<open>codec\<close> and \<open>sector_simps\<close>, the results and errors of Go, big-endian codecs, byte strings with \<open>blit\<close> for \<^verbatim>\<open>copy\<close>, 512-byte sectors, words.
  \<^item> \<open>Config\<close> (\<^verbatim>\<open>internal/config\<close>), \<open>Zbc\<close> (\<^verbatim>\<open>pkg/zbc\<close>): settings with validation; zone descriptors, states and command codes.
  \<^item> \<open>Backend\<close> (\<^verbatim>\<open>backend.go\<close>): the device interface as a record of functions over a device state, and the locale \<open>zoned_device\<close> of its laws, stated over a
    view (write pointer and content of each zone).
  \<^item> \<open>Emulator\<close> (\<^verbatim>\<open>backend/emulator\<close>): all methods; its invariant holds in every reachable state, and it is a \<open>zoned_device\<close> (interpretation \<open>em\<close>).
  \<^item> \<open>Smr\<close>, \<open>SmrSpec\<close> (\<^verbatim>\<open>backend/smr\<close>): command blocks, parsers and methods; the locale \<open>zbc_disk\<close> says what a disk must do that takes these command blocks, the sublocale shows
    that over it the backend is a \<open>zoned_device\<close>, and a disk that speaks the protocol instantiates it (\<open>kd\<close>). \<open>SgIo\<close> and \<open>Spti\<close>: the transports of Linux and Windows, the
    system calls a parameter under the contracts \<open>sg_kernel\<close> and \<open>spti_system\<close> (interpretations \<open>sk\<close>, \<open>sw\<close>); both carry commands faithfully.
  \<^item> \<open>Segment\<close>, \<open>L2P\<close>, \<open>ZoneManager\<close>, \<open>WriteBuffer\<close>, \<open>Gc\<close>, \<open>Ztl\<close> (\<^verbatim>\<open>internal/ztl\<close>, one theory per file or pair of files): the operations with their invariants. \<open>WriteBuffer\<close>
    and \<open>Ztl\<close> prove their lemmas inside \<open>zoned_device\<close>, for every device with its laws.
  \<^item> \<open>ZtlSpec\<close>: the specification of the translation layer, a store of sectors (locale \<open>sector_store\<close>); every \<open>zoned_device\<close> gives one (sublocale \<open>store\<close>), the emulator in
    particular (\<open>zs\<close>). Write, read, unmap and flush refine it. \<open>GcSpec\<close>: a collection changes no logical sector. \<open>System\<close>: calls and background rounds in
    any order, one at a time, refine an array. \<open>Lifecycle\<close>: the goroutines beside \<^verbatim>\<open>Close\<close>. \<open>Threads\<close>: \<^verbatim>\<open>Write\<close>, \<^verbatim>\<open>Read\<close> and the flushes split at their locks and
    interleaved; undisturbed they are the calls of the sequential model, concurrent writes do not tear a segment, and a flush that meets a write or a read loses data.
    \<open>Readers\<close>: a read among writes returns for every sector what was there at some moment of the call.
  \<^item> \<open>JournalRecord\<close>, \<open>Wal\<close>, \<open>Recovery\<close> (\<^verbatim>\<open>internal/journal\<close>): records with CRC-32C, round trips and detection of damage; the log over a file with faults, what a crash leaves
    of it; the replay.
  \<^item> \<open>Durability\<close>: translation layer and journal together. The locale \<open>write_ahead\<close> is what the layer relies on of its journal; \<open>wj\<close> interprets it on the code's
    journal. A write that succeeded is read back after a crash and a restart.
  \<^item> \<open>Scsi\<close> (\<^verbatim>\<open>internal/scsi\<close>): \<^verbatim>\<open>Execute\<close> with every opcode. The locale \<open>block_device\<close> extends \<open>sector_store\<close> by what the command layer calls; \<open>zb\<close> interprets it on the
    translation layer.
  \<^item> \<open>Pdu\<close>, \<open>Params\<close>, \<open>Chap\<close>, \<open>Login\<close>, \<open>DataTransfer\<close>, \<open>IscsiCmd\<close>, \<open>Connection\<close>, \<open>Session\<close>, \<open>Listener\<close> (\<^verbatim>\<open>internal/iscsi\<close>): the wire format and its round trip, the negotiation against a
    reference, CHAP with MD5, the login state machine, the cutting and putting together of data, the handlers, the loop of a connection, the sessions as a heap, and the
    server with its shutdown.
  \<^item> \<open>Api\<close> (\<^verbatim>\<open>internal/api\<close>): responses down to their JSON values, handlers, metrics, routes. \<open>Daemon\<close> (\<^verbatim>\<open>cmd/zns-iscsi\<close>): the command line, the start in the order of \<^verbatim>\<open>main\<close> in
    each build, the graceful stop.
    \<open>Process\<close>: \<^verbatim>\<open>main\<close> with all its goroutines as one step relation; the stop keeps its order and cannot get stuck.
  \<^item> This theory: one connection from its login to its end, a write and a read through all layers.

  \<^bold>\<open>State and effects.\<close> A struct is a record, an interface a record of functions that take and return the state of what implements it, a method returns its result and the new
  state. An error is a value, \<open>Inl\<close>; \<open>None\<close> is a panic or a call that never returns. Integers have the width of the code, except lengths and indices of slices and Go's
  \<^verbatim>\<open>int\<close>, which are unbounded where the code cannot exceed 63 bits. A \<^verbatim>\<open>float64\<close> of the configuration is a rational.

  \<^item> \<^emph>\<open>Concurrency.\<close> A method is one step in the theories of its component, and the theorems about \<^verbatim>\<open>Write\<close>, \<^verbatim>\<open>Read\<close> and \<^verbatim>\<open>Flush\<close> there are about calls that are not disturbed: these
    hold no lock from end to end, and \<open>Threads\<close> shows what becomes of them when they meet. Where the code runs beside itself the steps are explicit: the sections of
    \<open>Threads\<close>, the events of \<open>System\<close>, the step relations of \<open>Lifecycle\<close>, \<open>Listener\<close> and \<open>Process\<close>, and a migration of the collector, which is cut at the point where a foreground write may come between. Connections are handled one after the other by
    \<open>handleConnection\<close>.
  \<^item> \<^emph>\<open>Time, randomness, map order.\<close> The clock, the random bytes of a challenge and the order in which Go visits a map are arguments; the theorems hold for all of them.
  \<^item> \<^emph>\<open>Faults.\<close> A file and a socket carry a script of faults, one entry per system call; a theorem that assumes none says so by an empty script. Devices fail by the errors of
    their methods.
  \<^item> \<^emph>\<open>Loops.\<close> Every loop is a total function with a termination measure, so no fuel is used. The exception is \<^verbatim>\<open>RunEmergencyGC\<close>, which has no bound in the code and is a partial
    function; \<open>ZtlSpec\<close> shows that a write returns when enough zones are free. The read loops of login and connection end with their input, which is a finite list of
    bytes: a peer that is silent forever is the end of that list.

  \<^bold>\<open>Bounds.\<close> Addresses of the translation layer are below \<open>2\<^sup>6\<^sup>3\<close> sectors, zones below \<open>2\<^sup>2\<^sup>4\<close>, as the packing into 64 bits requires. Writes of the refinement
  theorems are whole segments, and zone 0 must not be empty: the code loses data outside these bounds, which is proved where it happens (in \<open>ZtlSpec\<close> and \<open>Segment\<close>). The
  remaining deviations that modelling showed are lemmas of their components, too.

  \<^bold>\<open>Not modelled.\<close> The HTTP router, the text form of JSON, the Prometheus library and the file server of the web assets are libraries and appear as parameters of
  \<open>Api\<close> and \<open>Daemon\<close>. The YAML decoder and the operating system are parameters of \<open>Config\<close> and \<open>Daemon\<close>. The text of the log is left out. In \<open>Threads\<close> the
  collector is one section and the calls \<^verbatim>\<open>writeSegment\<close> makes under \<^verbatim>\<open>ztl.mu\<close> are one section. Real
  disks differ from \<open>zbc_disk\<close> in the code of the zone commands and the place of the zone condition; \<open>SmrSpec\<close> says how and shows the effect. The web interface is not Go code.
\<close>

unbundle bit_operations_syntax

section \<open>A session from login to logout of the network\<close>

text \<open>What an initiator sends: a write without unsolicited data, the Data-Out PDUs that answer the R2T, a read.\<close>

definition write_request :: "PDU \<Rightarrow> u32 \<Rightarrow> cdb_form \<Rightarrow> u64 \<Rightarrow> u32 \<Rightarrow> bytes \<Rightarrow> bool" where
  "write_request p itt f lba n D \<longleftrightarrow> pdu_wf p \<and> Opcode p = OpcodeSCSICmd \<and> BHS p ! 1 AND SCSICmdFlagWrite \<noteq> 0 \<and>
     BHS p ! 1 AND SCSICmdFlagFinal = 0 \<and> DataSegment p = [] \<and> cmd_expectedLen p = of_nat (length D) \<and> InitiatorTaskTag p = itt \<and>
     rw_fits f lba n \<and> (\<exists>fl grp ctl pad. cmd_cdb p = rw_cdb f True fl grp ctl lba n @ pad)"

definition read_request :: "PDU \<Rightarrow> cdb_form \<Rightarrow> u64 \<Rightarrow> u32 \<Rightarrow> bool" where
  "read_request p f lba n \<longleftrightarrow> pdu_wf p \<and> Opcode p = OpcodeSCSICmd \<and> BHS p ! 1 AND SCSICmdFlagWrite = 0 \<and>
     BHS p ! 1 AND SCSICmdFlagRead \<noteq> 0 \<and> rw_fits f lba n \<and> (\<exists>fl grp ctl pad. cmd_cdb p = rw_cdb f False fl grp ctl lba n @ pad)"

definition data_outs :: "PDU list \<Rightarrow> PDU \<Rightarrow> u32 \<Rightarrow> bytes \<Rightarrow> bool" where
  "data_outs ps q itt D \<longleftrightarrow>
     (\<forall>p \<in> set (q # ps). pdu_wf p \<and> Opcode p = OpcodeDataOut \<and> InitiatorTaskTag p = itt \<and> segment_of D p) \<and>
     (\<forall>p \<in> set ps. \<not> pdu_final p) \<and> pdu_final q \<and> covered (q # ps) = {..<length D}"

lemma cn_Run_eof: "c_in (cn_conn c) = [] \<Longrightarrow> cn_Run h (c, b) = Some (c\<lparr>cn_conn := cn_conn c\<rparr>, b)"
  by (subst cn_Run.simps) (simp add: ReadPDU_def Pdu.io_ReadFull_def)

lemma connection_write_read:
  fixes c :: Connection and s :: "(Emulator, 'j) ZTL"
  assumes h: "h = NewHandler (ztl_blockDevice zo zord em_dev jn now) ser did"
    and c: "c_script (cn_conn c) = []" "InitialR2T (cn_params c)" "MaxRecvDataSegmentLength (cn_params c) < 2 ^ 24"
    and stream: "c_in (cn_conn c) = pdu_wire w @ concat (map pdu_wire ps) @ pdu_wire q @ pdu_wire r"
    and w: "write_request w itt f lba n D" and d: "data_outs ps q itt D" and r: "read_request r g lba n"
    and D: "length D = sectorSize * unat n" "length D < 2 ^ 32"
    and s: "ztl_good s" "ztl_writable s lba D" "ztl_Write zo em_dev jn now s lba D = Some (Inr (), s')"
  shows "\<exists>c' ins. cn_Run h (c, s) = Some (c', s') \<and> ztl_good s' \<and> concat (map DataSegment ins) = D \<and>
    (\<forall>p \<in> set ins. InitiatorTaskTag p = InitiatorTaskTag r) \<and>
    c_out (cn_conn c') = c_out (cn_conn c) @
      pdu_wire (r2tPDU (pdu_sent w) itt 0 (of_nat (length D)) (cn_statSN c + 1) (CmdSN w + 1) (CmdSN w + 32)) @
      pdu_wire (scsiResponsePDU (pdu_sent w) StatusGood [] (cn_statSN c + 2) (CmdSN w + 1) (CmdSN w + 32)) @
      concat (map pdu_wire ins) @
      pdu_wire (scsiResponsePDU (pdu_sent r) StatusGood [] (cn_statSN c + 3) (CmdSN r + 1) (CmdSN r + 32))"
proof -
  obtain fl grp ctl pad fl' grp' ctl' pad' where cdb: "cmd_cdb w = rw_cdb f True fl grp ctl lba n @ pad"
    "cmd_cdb r = rw_cdb g False fl' grp' ctl' lba n @ pad'" using w r by (auto simp: write_request_def read_request_def)
  have fits: "rw_fits f lba n" "rw_fits g lba n" using w r by (auto simp: write_request_def read_request_def)
  have ne: "D \<noteq> []" using s(2) by (simp add: ztl_writable_def)
  have t: "take (sectorSize * unat n) D = D" "sectorSize * unat n \<le> length D" using D(1) by simp_all
  have ew: "Execute h (cmd_cdb w) D s = Some (([], StatusGood, [], None), s')"
    using s(3) t unfolding cdb h
    by (subst execute_write [OF fits(1)]) (simp add: NewHandler_def ztl_blockDevice_def answer_write_def scsi_good_def)
  have rd: "ztl_good s' \<and> Execute h (cmd_cdb r) [] s' = Some (scsi_good D, s')"
    using zb.execute_write_read [OF s(1) fits t(2)] s(2) t(1) ew unfolding cdb h by (auto simp: scsi_good_def)
  obtain c1 where c1: "cn_Run h (c, s) = cn_Run h (c1, s')" "c_in (cn_conn c1) = pdu_wire r" "c_script (cn_conn c1) = []"
      "cn_params c1 = cn_params c" "cn_statSN c1 = cn_statSN c + 2"
    and out1: "c_out (cn_conn c1) = c_out (cn_conn c) @
      pdu_wire (r2tPDU (pdu_sent w) itt 0 (of_nat (length D)) (cn_statSN c + 1) (CmdSN w + 1) (CmdSN w + 1 + 31)) @
      pdu_wire (scsiResponsePDU (pdu_sent w) StatusGood [] (cn_statSN c + 2) (CmdSN w + 1) (CmdSN w + 1 + 31))"
    using write_exchange [of w ps q D itt c "pdu_wire r" h s "[]" StatusGood "[]" s'] w d c stream D(2) ne ew
    by (fastforce simp: write_request_def data_outs_def)
  obtain c2 ins where c2: "cn_Run h (c1, s') = cn_Run h (c2, s')" "c_in (cn_conn c2) = []" "concat (map DataSegment ins) = D"
      "\<forall>p \<in> set ins. InitiatorTaskTag p = InitiatorTaskTag r"
    and out2: "c_out (cn_conn c2) = c_out (cn_conn c1) @ concat (map pdu_wire ins) @
      pdu_wire (scsiResponsePDU (pdu_sent r) StatusGood [] (cn_statSN c1 + 1) (CmdSN r + 1) (CmdSN r + 1 + 31))"
    using read_exchange [of r c1 "[]" h s' D s'] r c c1 rd ne by (fastforce simp: read_request_def)
  have "cn_Run h (c, s) = Some (c2, s')" using c1(1) c2(1) cn_Run_eof [OF c2(2)] by simp
  then show ?thesis using rd c2 out1 out2 c1(5)
    by (intro exI [of _ c2] exI [of _ ins])
      (simp add: add.commute [of 32 "CmdSN w"] add.commute [of 32 "CmdSN r"] add.commute [of 3 "cn_statSN c"])
qed


definition demo_server :: "(Emulator, unit) ZTL Server" where
  "demo_server = NewServer DefaultConfig (NewTarget ''iqn.2026-02.io.zns:target0'' []) demo_handler"

definition demo_stream :: bytes where
  "demo_stream = pdu_wire (cmd_pdu 0x20 7 1024 (rw_cdb Sixteen True 0 0 0 0 2)) @
     concat (map pdu_wire [data_out_pdu 7 False 512 (replicate 512 9)]) @ pdu_wire (data_out_pdu 7 True 0 (replicate 512 9)) @
     pdu_wire (cmd_pdu 0xC0 8 1024 (rw_cdb Sixteen False 0 0 0 0 2))"

lemma demo_requests:
  "write_request (cmd_pdu 0x20 7 1024 (rw_cdb Sixteen True 0 0 0 0 2)) 7 Sixteen 0 2 (replicate 1024 9)"
  "read_request (cmd_pdu 0xC0 8 1024 (rw_cdb Sixteen False 0 0 0 0 2)) Sixteen 0 2"
proof -
  have cdb: "length (rw_cdb Sixteen w 0 0 0 0 2) = 16" for w by (rule length_rw_cdb)
  note f = cmd_pdu_fields [OF cdb]
  show "write_request (cmd_pdu 0x20 7 1024 (rw_cdb Sixteen True 0 0 0 0 2)) 7 Sixteen 0 2 (replicate 1024 9)"
    unfolding write_request_def f
    by (simp add: SCSICmdFlagWrite_def SCSICmdFlagFinal_def del: rw_cdb.simps) (metis append_Nil2)
  show "read_request (cmd_pdu 0xC0 8 1024 (rw_cdb Sixteen False 0 0 0 0 2)) Sixteen 0 2"
    unfolding read_request_def f
    by (simp add: SCSICmdFlagWrite_def SCSICmdFlagRead_def del: rw_cdb.simps) (metis append_Nil2)
qed

lemma demo_data_outs:
  "data_outs [data_out_pdu 7 False 512 (replicate 512 9)] (data_out_pdu 7 True 0 (replicate 512 9)) 7 (replicate 1024 9)"
proof -
  have wf: "pdu_wf (data_out_pdu 7 f off (replicate 512 9)) \<and> Opcode (data_out_pdu 7 f off (replicate 512 9)) = OpcodeDataOut" for f off
    by (simp add: data_out_pdu_def pdu_wf_def Opcode_def SetOpcode_def SetFlags_def SetInitiatorTaskTag_def newPDU_def bhs_put_def nth_blit
        zeros_def OpcodeDataOut_def)
  have "covered [data_out_pdu 7 True 0 (replicate 512 9), data_out_pdu 7 False 512 (replicate 512 9)] = {..<1024}"
    by (auto simp: covered_def)
  then show ?thesis using wf by (simp add: data_outs_def segment_of_def bslice_def)
qed


end
